(* ===== verification/Gateway_Prelude.thy ===== *)
theory Gateway_Prelude
  imports Main "HOL-Library.List_Lexorder" "HOL-Library.Char_ord"
begin

text \<open>
  The vocabulary every component of the batch gateway shares: the sentinel
  errors of the Go code and the result type of a fallible call, the SQL
  fragments the PostgreSQL clients are written in (a table is the list of its
  rows, an UPDATE is a guarded map, a SELECT is a filter), the three ways a
  statement sent to the database can end, and the interface of a guarded row
  update with the laws that every fenced write of the data layer obeys.
\<close>

section \<open>Collections of facts\<close>

named_theorems store_defs \<open>definitions of the statements of the data layer\<close>
named_theorems status_simps \<open>case equations on batch statuses\<close>
named_theorems keeps \<open>an operation keeps an invariant\<close>

section \<open>Errors and results\<close>

text \<open>
  The sentinel errors (variables declared with errors.New) are constructors of
  their own, because the code compares against them with errors.Is; an error
  that is only built with fmt.Errorf from an argument check is
  \<open>ErrInvalid\<close>, an error of the database driver or of another client is
  \<open>ErrDB\<close> or \<open>ErrOther\<close>.
\<close>

datatype error =
    ErrConflict
  | ErrNotFound
  | ErrInvalid string
  | ErrDB
  | ErrCancelled
  | ErrShutdown
  | ErrExpired
  | ErrFileTooLarge
  | ErrTooManyLines
  | ErrFileExists
  | ErrFinalizeFailedOver
  | ErrRequestInputRead
  | ErrCap
  | ErrContext
  | ErrOther string

type_synonym 'a res = "error + 'a"

definition is_ok :: "'a res \<Rightarrow> bool" where
  "is_ok r = (case r of Inl _ \<Rightarrow> False | Inr _ \<Rightarrow> True)"

lemma is_ok_simps [simp]:
  "is_ok (Inr x)" "\<not> is_ok (Inl e)"
  by (simp_all add: is_ok_def)

lemma is_ok_iff: "is_ok r \<longleftrightarrow> (\<exists>x. r = Inr x)"
  by (cases r) simp_all

section \<open>Tables\<close>

definition sql_update :: "('r \<Rightarrow> bool) \<Rightarrow> ('r \<Rightarrow> 'r) \<Rightarrow> 'r list \<Rightarrow> 'r list" where
  "sql_update guard eff t = map (\<lambda>r. if guard r then eff r else r) t"

definition sql_count :: "('r \<Rightarrow> bool) \<Rightarrow> 'r list \<Rightarrow> nat" where
  "sql_count guard t = length (filter guard t)"

definition by_key :: "('r \<Rightarrow> 'k) \<Rightarrow> 'k \<Rightarrow> 'r list \<Rightarrow> 'r option" where
  "by_key key k t = find (\<lambda>r. key r = k) t"

lemma sql_update_Nil [simp]: "sql_update guard eff [] = []"
  by (simp add: sql_update_def)

lemma sql_update_Cons [simp]:
  "sql_update guard eff (r # t) = (if guard r then eff r else r) # sql_update guard eff t"
  by (simp add: sql_update_def)

lemma sql_count_Nil [simp]: "sql_count guard [] = 0"
  by (simp add: sql_count_def)

lemma sql_count_Cons [simp]:
  "sql_count guard (r # t) = (if guard r then Suc (sql_count guard t) else sql_count guard t)"
  by (simp add: sql_count_def)

lemma by_key_Nil [simp]: "by_key key k [] = None"
  by (simp add: by_key_def)

lemma by_key_Cons [simp]:
  "by_key key k (r # t) = (if key r = k then Some r else by_key key k t)"
  by (simp add: by_key_def)

lemma length_sql_update [simp]: "length (sql_update guard eff t) = length t"
  by (simp add: sql_update_def)

lemma set_sql_update: "set (sql_update guard eff t) = (\<lambda>r. if guard r then eff r else r) ` set t"
  by (simp add: sql_update_def)

lemma sql_count_0_iff: "sql_count guard t = 0 \<longleftrightarrow> (\<forall>r \<in> set t. \<not> guard r)"
  by (induction t) auto

lemma sql_update_noop: "sql_count guard t = 0 \<Longrightarrow> sql_update guard eff t = t"
  by (induction t) (auto split: if_splits)

lemma by_key_Some_iff:
  "distinct (map key t) \<Longrightarrow> by_key key k t = Some r \<longleftrightarrow> r \<in> set t \<and> key r = k"
  by (induction t) force+

lemma by_key_SomeD: "by_key key k t = Some r \<Longrightarrow> r \<in> set t \<and> key r = k"
  by (induction t) (auto split: if_splits)

lemma by_key_None_iff: "by_key key k t = None \<longleftrightarrow> k \<notin> key ` set t"
  by (induction t) auto

lemma by_key_append:
  "by_key key k (t @ u) = (case by_key key k t of None \<Rightarrow> by_key key k u | Some r \<Rightarrow> Some r)"
  by (induction t) auto

lemma by_key_filter_other:
  "(\<And>r. key r = k \<Longrightarrow> P r) \<Longrightarrow> by_key key k (filter P t) = by_key key k t"
  by (induction t) auto

lemma map_key_sql_update:
  "(\<And>r. guard r \<Longrightarrow> key (eff r) = key r) \<Longrightarrow> map key (sql_update guard eff t) = map key t"
  by (simp add: sql_update_def)

lemma by_key_sql_update:
  "(\<And>r. guard r \<Longrightarrow> key (eff r) = key r) \<Longrightarrow>
    by_key key k (sql_update guard eff t)
      = map_option (\<lambda>r. if guard r then eff r else r) (by_key key k t)"
  by (induction t) auto

lemma sql_count_by_key:
  "distinct (map key t) \<Longrightarrow> (\<And>r. guard r \<Longrightarrow> key r = k) \<Longrightarrow>
    sql_count guard t = (case by_key key k t of None \<Rightarrow> 0 | Some r \<Rightarrow> if guard r then 1 else 0)"
proof (induction t)
  case (Cons r t)
  show ?case
  proof (cases "key r = k")
    case True
    then have "\<forall>r' \<in> set t. key r' \<noteq> k"
      using Cons.prems(1) by (metis distinct.simps(2) image_eqI image_set list.simps(9))
    then have "\<forall>r' \<in> set t. \<not> guard r'" using Cons.prems(2) by blast
    then have "sql_count guard t = 0" by (simp add: sql_count_0_iff)
    with True show ?thesis by simp
  qed (use Cons in auto)
qed simp

lemma filter_by_key:
  "distinct (map key t) \<Longrightarrow> filter (\<lambda>r. key r = k \<and> P r) t =
    (case by_key key k t of Some r \<Rightarrow> if P r then [r] else [] | None \<Rightarrow> [])"
proof (induction t)
  case (Cons r t)
  then have "key r = k \<Longrightarrow> by_key key k t = None" by (auto simp: by_key_None_iff)
  with Cons show ?case by auto
qed simp

section \<open>How a statement sent to the database ends\<close>

text \<open>
  A call on the connection pool either runs the statement and returns its
  result, fails before the statement ran, or fails after it was committed (the
  response is lost). The caller sees the same driver error in the last two
  cases; which of the three happens is an argument of every operation of the
  data layer, so that the theorems hold for all of them.
\<close>

datatype conn = ConnOk | ConnFail | ConnLost

definition exec_stmt :: "conn \<Rightarrow> ('s \<Rightarrow> 'a \<times> 's) \<Rightarrow> 's \<Rightarrow> 'a res \<times> 's" where
  "exec_stmt c stmt s = (case c of
      ConnOk \<Rightarrow> (Inr (fst (stmt s)), snd (stmt s))
    | ConnFail \<Rightarrow> (Inl ErrDB, s)
    | ConnLost \<Rightarrow> (Inl ErrDB, snd (stmt s)))"

lemma exec_stmt_simps [simp]:
  "exec_stmt ConnOk stmt s = (Inr (fst (stmt s)), snd (stmt s))"
  "exec_stmt ConnFail stmt s = (Inl ErrDB, s)"
  "exec_stmt ConnLost stmt s = (Inl ErrDB, snd (stmt s))"
  by (simp_all add: exec_stmt_def)

lemma snd_exec_stmt: "snd (exec_stmt c stmt s) = (if c = ConnFail then s else snd (stmt s))"
  by (cases c) simp_all

lemma exec_stmt_keeps:
  "P s \<Longrightarrow> P (snd (stmt s)) \<Longrightarrow> P (snd (exec_stmt c stmt s))"
  by (cases c) simp_all

section \<open>The interface of a guarded row update\<close>

text \<open>
  Every write of the data layer to a versioned table is one UPDATE: a guard on
  the row and an effect. What the rest of the system relies on is that the
  effect keeps the row's primary key and never lowers its fencing token (the
  epoch), and, for a fenced write, that the guard pins the row and the token.
  The consequences are proved once here and instantiated for each statement.
\<close>

locale guarded_update =
  fixes key :: "'r \<Rightarrow> 'k"
    and token :: "'r \<Rightarrow> int"
    and guard :: "'r \<Rightarrow> bool"
    and eff :: "'r \<Rightarrow> 'r"
  assumes key_kept: "guard r \<Longrightarrow> key (eff r) = key r"
    and token_mono: "guard r \<Longrightarrow> token r \<le> token (eff r)"
begin

lemma keys: "map key (sql_update guard eff t) = map key t"
  by (rule map_key_sql_update) (rule key_kept)

lemma lookup:
  "by_key key k (sql_update guard eff t)
    = map_option (\<lambda>r. if guard r then eff r else r) (by_key key k t)"
  by (rule by_key_sql_update) (rule key_kept)

lemma token_le:
  "by_key key k t = Some r \<Longrightarrow> by_key key k (sql_update guard eff t) = Some r' \<Longrightarrow> token r \<le> token r'"
  by (auto simp: lookup token_mono)

end

locale fenced_update = guarded_update key token guard eff
  for key :: "'r \<Rightarrow> 'k" and token guard eff +
  fixes k :: 'k and e :: int
  assumes fence: "guard r \<Longrightarrow> key r = k \<and> token r = e"
begin

lemma stale_count:
  assumes "distinct (map key t)" and "by_key key k t = Some r" and "token r \<noteq> e"
  shows "sql_count guard t = 0"
proof -
  have "sql_count guard t = (case by_key key k t of None \<Rightarrow> 0 | Some r \<Rightarrow> if guard r then 1 else 0)"
    by (rule sql_count_by_key [OF assms(1)]) (simp add: fence)
  with assms(2,3) fence show ?thesis by auto
qed

lemma missing_count: "by_key key k t = None \<Longrightarrow> sql_count guard t = 0"
  by (auto simp: sql_count_0_iff by_key_None_iff dest: fence)

lemma fenced_out:
  assumes "distinct (map key t)" and "\<And>r. by_key key k t = Some r \<Longrightarrow> token r \<noteq> e"
  shows "sql_count guard t = 0" and "sql_update guard eff t = t"
proof -
  show 0: "sql_count guard t = 0"
    using assms stale_count missing_count by (cases "by_key key k t") auto
  show "sql_update guard eff t = t" by (rule sql_update_noop [OF 0])
qed

lemma at_most_one: "distinct (map key t) \<Longrightarrow> sql_count guard t \<le> 1"
  using sql_count_by_key [of key t guard k] fence by (auto split: option.splits)

lemma others_kept: "k' \<noteq> k \<Longrightarrow> by_key key k' (sql_update guard eff t) = by_key key k' t"
  by (cases "by_key key k' t") (auto simp: lookup dest: by_key_SomeD fence)

end

section \<open>Reading a query page by page\<close>

text \<open>
  The loop that follows the cursor of a paged read until the last page, with a
  bound on the number of pages (\<open>None\<close> when it is exhausted), and the contract of
  a source whose cursor is an offset into one result list.
\<close>

fun page_loop :: "nat \<Rightarrow> (nat \<Rightarrow> ('a list \<times> nat \<times> bool) res) \<Rightarrow> nat \<Rightarrow> 'a list \<Rightarrow> 'a list res option" where
  "page_loop 0 get cursor acc = None"
| "page_loop (Suc fuel) get cursor acc = (case get cursor of
      Inl e \<Rightarrow> Some (Inl e)
    | Inr (items, nextCursor, more) \<Rightarrow>
        if more then page_loop fuel get nextCursor (acc @ items) else Some (Inr (acc @ items)))"

locale offset_source =
  fixes get :: "nat \<Rightarrow> ('a list \<times> nat \<times> bool) res"
    and rows :: "'a list"
    and page :: nat
  assumes page_pos: "0 < page"
    and get_page: "get start = Inr (take page (drop start rows), start + length (take page (drop start rows)),
      page < length (drop start rows))"
begin

lemma loop_from: "length rows - start < fuel \<Longrightarrow> page_loop fuel get start acc = Some (Inr (acc @ drop start rows))"
proof (induction fuel arbitrary: start acc)
  case (Suc fuel)
  show ?case
  proof (cases "page < length rows - start")
    case True
    then have "page_loop (Suc fuel) get start acc = page_loop fuel get (start + page) (acc @ take page (drop start rows))"
      by (simp add: get_page min_def)
    also have "\<dots> = Some (Inr (acc @ drop start rows))"
      using Suc.IH [of "start + page"] Suc.prems True page_pos
      by (simp add: add.commute flip: drop_drop)
    finally show ?thesis .
  qed (simp add: get_page)
qed simp

lemma loop_all: "page_loop (Suc (length rows)) get 0 [] = Some (Inr rows)"
  by (simp add: loop_from del: page_loop.simps)

end

text \<open>
  The other way the system pages: the cursor is the key of the last item seen.
  The contract orders the rows by \<open>after\<close>; a page may report \<open>more\<close> although
  nothing follows, but never the converse.
\<close>

fun key_loop :: "nat \<Rightarrow> ('c \<Rightarrow> ('a list \<times> bool) res) \<Rightarrow> ('a \<Rightarrow> 'c) \<Rightarrow> 'c \<Rightarrow> 'a list \<Rightarrow> 'a list res option" where
  "key_loop 0 get key cursor acc = None"
| "key_loop (Suc fuel) get key cursor acc = (case get cursor of
      Inl e \<Rightarrow> Some (Inl e)
    | Inr (items, more) \<Rightarrow>
        if items = [] then Some (Inr acc)
        else if more then key_loop fuel get key (key (last items)) (acc @ items)
        else Some (Inr (acc @ items)))"

locale keyset_source =
  fixes get :: "'c \<Rightarrow> ('a list \<times> bool) res"
    and key :: "'a \<Rightarrow> 'c"
    and after :: "'c \<Rightarrow> 'a \<Rightarrow> bool"
    and rows :: "'a list"
    and page :: nat
    and has_more :: "'c \<Rightarrow> bool"
    and valid :: "'c \<Rightarrow> bool"
  assumes page_pos: "0 < page"
    and get_page: "valid c \<Longrightarrow> get c = Inr (take page (filter (after c) rows), has_more c)"
    and more_complete: "page < length (filter (after c) rows) \<Longrightarrow> has_more c"
    and key_order: "rows = xs @ y # ys \<Longrightarrow> filter (after (key y)) rows = ys"
    and key_valid: "r \<in> set rows \<Longrightarrow> valid (key r)"
begin

lemma key_loop_from:
  "valid c \<Longrightarrow> filter (after c) rows = drop i rows \<Longrightarrow> length rows - i < fuel \<Longrightarrow>
    key_loop fuel get key c acc = Some (Inr (acc @ drop i rows))"
proof (induction fuel arbitrary: c i acc)
  case (Suc fuel)
  let ?items = "take page (drop i rows)"
  show ?case
  proof (cases "drop i rows = []")
    case False
    then have ne: "?items \<noteq> []" using page_pos by simp
    have split: "rows = (take i rows @ butlast ?items) @ last ?items # drop page (drop i rows)"
      using ne by (metis append.assoc append_Cons append_Nil append_butlast_last_id append_take_drop_id)
    have next_page: "filter (after (key (last ?items))) rows = drop (i + page) rows"
      using key_order [OF split] by (simp add: add.commute)
    have next_valid: "valid (key (last ?items))"
      by (rule key_valid) (metis ne in_set_dropD in_set_takeD last_in_set)
    have "key_loop fuel get key (key (last ?items)) (acc @ ?items) = Some (Inr (acc @ drop i rows))"
      using Suc.IH [OF _ next_page, of "acc @ ?items"] Suc.prems(3) page_pos False next_valid
        append_take_drop_id [of page "drop i rows"] by (simp add: add.commute)
    moreover have "\<not> has_more c \<Longrightarrow> ?items = drop i rows"
      using more_complete [of c] Suc.prems(2) by (metis not_le take_all)
    ultimately show ?thesis
      using ne by (simp add: get_page [OF Suc.prems(1)] Suc.prems(2))
  qed (simp add: get_page [OF Suc.prems(1)] Suc.prems(2))
qed simp

lemma key_loop_all:
  "valid c \<Longrightarrow> (\<And>r. r \<in> set rows \<Longrightarrow> after c r) \<Longrightarrow> key_loop (Suc (length rows)) get key c [] = Some (Inr rows)"
  using key_loop_from [of c 0 "Suc (length rows)" "[]"] by (simp add: filter_id_conv del: key_loop.simps)

end

lemma Nil_less_iff [simp]: "([] :: 'a :: linorder list) < xs \<longleftrightarrow> xs \<noteq> []"
  by (cases xs) simp_all

lemma sorted_after:
  fixes key :: "'a \<Rightarrow> 'k :: linorder"
  assumes "sorted_wrt (<) (map key rows)" and "rows = xs @ y # ys"
  shows "filter (\<lambda>r. key y < key r) rows = ys"
proof -
  have "\<forall>x \<in> set xs. key x < key y" "\<forall>z \<in> set ys. key y < key z"
    using assms by (auto simp: sorted_wrt_append)
  then have "filter (\<lambda>r. key y < key r) xs = []" "filter (\<lambda>r. key y < key r) ys = ys"
    by (auto simp: filter_empty_conv filter_id_conv dest: less_asym)
  then show ?thesis by (simp add: assms(2))
qed

end
