(* ===== verification/OpenAI_Batch.thy ===== *)
theory OpenAI_Batch
  imports Gateway_Prelude
begin

text \<open>
  The batch object of the API and its life cycle: \<^verbatim>\<open>internal/shared/openai/batch.go\<close>,
  \<^verbatim>\<open>internal/shared/batch_utils/status_utils.go\<close> and the job types of
  \<^verbatim>\<open>internal/shared/types/job.go\<close>. Structs are records whose fields carry the Go
  names behind a short prefix; a nullable pointer field is an option. The JSON
  codec of the standard library is transparent: a stored document is the record
  it decodes to. Instants are microseconds since the Unix epoch (the resolution
  of the database clock and of the priority column), and \<open>unix\<close> is the
  \<^verbatim>\<open>Unix()\<close> reading of one in seconds.
\<close>

section \<open>Statuses\<close>

text \<open>
  \<open>BatchStatusOther\<close> stands for a string that is none of the eight declared
  constants, which the code can meet in a stored document.
\<close>

datatype BatchStatus =
    BatchStatusValidating
  | BatchStatusFailed
  | BatchStatusInProgress
  | BatchStatusFinalizing
  | BatchStatusCompleted
  | BatchStatusExpired
  | BatchStatusCancelling
  | BatchStatusCancelled
  | BatchStatusOther string

fun status_name :: "BatchStatus \<Rightarrow> string" where
  "status_name BatchStatusValidating = ''validating''"
| "status_name BatchStatusFailed = ''failed''"
| "status_name BatchStatusInProgress = ''in_progress''"
| "status_name BatchStatusFinalizing = ''finalizing''"
| "status_name BatchStatusCompleted = ''completed''"
| "status_name BatchStatusExpired = ''expired''"
| "status_name BatchStatusCancelling = ''cancelling''"
| "status_name BatchStatusCancelled = ''cancelled''"
| "status_name (BatchStatusOther s) = s"

definition terminalStatuses :: "BatchStatus list" where
  "terminalStatuses =
    [BatchStatusCompleted, BatchStatusFailed, BatchStatusExpired, BatchStatusCancelled]"

definition IsTerminal :: "BatchStatus \<Rightarrow> bool" where
  "IsTerminal s = (s \<in> set terminalStatuses)"

definition IsCancellable :: "BatchStatus \<Rightarrow> bool" where
  "IsCancellable s =
    (s = BatchStatusValidating \<or> s = BatchStatusInProgress \<or> s = BatchStatusCancelling)"

section \<open>The batch object\<close>

record BatchRequestCounts =
  rc_Total :: int
  rc_Completed :: int
  rc_Failed :: int

definition AllSucceeded :: "BatchRequestCounts \<Rightarrow> bool" where
  "AllSucceeded c = (rc_Failed c = 0 \<and> rc_Completed c = rc_Total c)"

record BatchError =
  be_Code :: string
  be_Message :: string
  be_Param :: "string option"
  be_Line :: "int option"

record BatchErrors =
  bes_Object :: string
  bes_Data :: "BatchError list"

record BatchUsage =
  bu_InputTokens :: int
  bu_CachedTokens :: int
  bu_OutputTokens :: int
  bu_ReasoningTokens :: int
  bu_TotalTokens :: int

record BatchSpec =
  sp_Object :: string
  sp_Endpoint :: string
  sp_InputFileID :: string
  sp_CompletionWindow :: string
  sp_Metadata :: "(string \<times> string) list"
  sp_CreatedAt :: int

record BatchStatusInfo =
  si_Status :: BatchStatus
  si_OutputFileID :: "string option"
  si_ErrorFileID :: "string option"
  si_CancelledAt :: "int option"
  si_CancellingAt :: "int option"
  si_CompletedAt :: "int option"
  si_ExpiredAt :: "int option"
  si_ExpiresAt :: "int option"
  si_FailedAt :: "int option"
  si_FinalizingAt :: "int option"
  si_InProgressAt :: "int option"
  si_Model :: string
  si_RequestCounts :: BatchRequestCounts
  si_Errors :: "BatchErrors option"
  si_Usage :: "BatchUsage option"

record Batch =
  ba_ID :: string
  ba_Spec :: BatchSpec
  ba_Info :: BatchStatusInfo

text \<open>The zero values Go gives a freshly declared struct.\<close>

definition zero_counts :: BatchRequestCounts where
  "zero_counts = \<lparr>rc_Total = 0, rc_Completed = 0, rc_Failed = 0\<rparr>"

definition zero_status_info :: BatchStatusInfo where
  "zero_status_info = \<lparr>si_Status = BatchStatusOther [], si_OutputFileID = None, si_ErrorFileID = None,
    si_CancelledAt = None, si_CancellingAt = None, si_CompletedAt = None, si_ExpiredAt = None,
    si_ExpiresAt = None, si_FailedAt = None, si_FinalizingAt = None, si_InProgressAt = None,
    si_Model = [], si_RequestCounts = zero_counts, si_Errors = None, si_Usage = None\<rparr>"

definition zero_spec :: BatchSpec where
  "zero_spec = \<lparr>sp_Object = [], sp_Endpoint = [], sp_InputFileID = [], sp_CompletionWindow = [],
    sp_Metadata = [], sp_CreatedAt = 0\<rparr>"

section \<open>Instants and jobs\<close>

type_synonym instant = int

definition unix :: "instant \<Rightarrow> int" where
  "unix t = t div 1000000"

definition secs :: "int \<Rightarrow> instant" where
  "secs n = n * 1000000"

text \<open>A \<^verbatim>\<open>time.Duration\<close> counts nanoseconds; \<open>dur_secs\<close> is \<^verbatim>\<open>int64(d.Seconds())\<close>.\<close>

type_synonym duration = int

definition dur_secs :: "duration \<Rightarrow> int" where
  "dur_secs d = (if 0 \<le> d then d div 1000000000 else - ((- d) div 1000000000))"

text \<open>
  A queued job (\<^verbatim>\<open>BatchJobPriority\<close>). The zero \<^verbatim>\<open>time.Time\<close> of the SLO field is
  \<open>None\<close>; \<^verbatim>\<open>time.UnixMicro(p)\<close> is \<open>Some p\<close> for every p, including 0.
\<close>

record BatchJobPriority =
  jp_ID :: string
  jp_SLO :: "instant option"
  jp_Epoch :: int
  jp_ProcessorID :: string
  jp_ExpectedStatus :: string
  jp_RecoveryAttempts :: int
  jp_Resumable :: bool

definition IsJobRunnable :: "Batch \<Rightarrow> bool" where
  "IsJobRunnable job = (si_Status (ba_Info job) = BatchStatusValidating
    \<or> si_Status (ba_Info job) = BatchStatusInProgress)"

definition IsJobExpired :: "instant \<Rightarrow> BatchJobPriority \<Rightarrow> bool" where
  "IsJobExpired now task = (case jp_SLO task of None \<Rightarrow> False | Some slo \<Rightarrow> slo < now)"

fun stamp :: "instant \<Rightarrow> BatchStatus \<Rightarrow> instant option \<Rightarrow> BatchStatusInfo \<Rightarrow> BatchStatusInfo res" where
  "stamp now BatchStatusInProgress slo i = Inr (i\<lparr>si_InProgressAt := Some (unix now)\<rparr>)"
| "stamp now BatchStatusCompleted slo i = Inr (i\<lparr>si_CompletedAt := Some (unix now)\<rparr>)"
| "stamp now BatchStatusFailed slo i = Inr (i\<lparr>si_FailedAt := Some (unix now)\<rparr>)"
| "stamp now BatchStatusCancelled slo i = Inr (i\<lparr>si_CancelledAt := Some (unix now)\<rparr>)"
| "stamp now BatchStatusExpired slo i = Inr (i\<lparr>si_ExpiredAt := Some (unix now)\<rparr>)"
| "stamp now BatchStatusFinalizing slo i = Inr (i\<lparr>si_FinalizingAt := Some (unix now)\<rparr>)"
| "stamp now BatchStatusCancelling slo i = Inr (i\<lparr>si_CancellingAt := Some (unix now)\<rparr>)"
| "stamp now BatchStatusValidating slo i = (case slo of
      None \<Rightarrow> Inl (ErrInvalid ''SLO is required'')
    | Some t \<Rightarrow> Inr (i\<lparr>si_ExpiresAt := Some (unix t)\<rparr>))"
| "stamp now (BatchStatusOther s) slo i = Inl (ErrInvalid ''invalid status'')"

definition BuildUpdatedStatusInfo ::
  "instant \<Rightarrow> BatchStatusInfo \<Rightarrow> BatchStatus \<Rightarrow> BatchRequestCounts option \<Rightarrow> instant option
    \<Rightarrow> BatchStatusInfo res" where
  "BuildUpdatedStatusInfo now originalStatus newStatus counts slo =
    (case stamp now newStatus slo (originalStatus\<lparr>si_Status := newStatus\<rparr>) of
      Inl e \<Rightarrow> Inl e
    | Inr updated \<Rightarrow> (case counts of
        None \<Rightarrow> Inr updated
      | Some c \<Rightarrow> Inr (updated\<lparr>si_RequestCounts := c\<rparr>)))"

section \<open>Error codes of lines that were not executed\<close>

datatype BatchErrorCode = ErrCodeBatchExpired | ErrCodeBatchCancelled | ErrCodeBatchFailed

fun code_name :: "BatchErrorCode \<Rightarrow> string" where
  "code_name ErrCodeBatchExpired = ''batch_expired''"
| "code_name ErrCodeBatchCancelled = ''batch_cancelled''"
| "code_name ErrCodeBatchFailed = ''batch_failed''"

fun Message :: "BatchErrorCode \<Rightarrow> string" where
  "Message ErrCodeBatchExpired =
     ''This request could not be executed before the completion window expired.''"
| "Message ErrCodeBatchCancelled =
     ''This request was not executed because the batch was cancelled.''"
| "Message ErrCodeBatchFailed =
     ''This request was not executed because the batch encountered a system error.''"

section \<open>Laws of the life cycle\<close>

lemma IsTerminal_cases [simp, status_simps]:
  "IsTerminal BatchStatusCompleted" "IsTerminal BatchStatusFailed"
  "IsTerminal BatchStatusExpired" "IsTerminal BatchStatusCancelled"
  "\<not> IsTerminal BatchStatusValidating" "\<not> IsTerminal BatchStatusInProgress"
  "\<not> IsTerminal BatchStatusFinalizing" "\<not> IsTerminal BatchStatusCancelling"
  "\<not> IsTerminal (BatchStatusOther s)"
  by (simp_all add: IsTerminal_def terminalStatuses_def)

lemma cancellable_not_terminal: "IsCancellable s \<Longrightarrow> \<not> IsTerminal s"
  by (auto simp: IsCancellable_def)

lemma BuildUpdatedStatusInfo_status:
  "BuildUpdatedStatusInfo now orig st counts slo = Inr i \<Longrightarrow> si_Status i = st"
  by (cases st) (auto simp: BuildUpdatedStatusInfo_def split: option.splits)

lemma BuildUpdatedStatusInfo_counts:
  "BuildUpdatedStatusInfo now orig st counts slo = Inr i \<Longrightarrow>
    si_RequestCounts i = (case counts of None \<Rightarrow> si_RequestCounts orig | Some c \<Rightarrow> c)"
  by (cases st) (auto simp: BuildUpdatedStatusInfo_def split: option.splits)

lemma BuildUpdatedStatusInfo_files:
  "BuildUpdatedStatusInfo now orig st counts slo = Inr i \<Longrightarrow>
    si_OutputFileID i = si_OutputFileID orig \<and> si_ErrorFileID i = si_ErrorFileID orig"
  by (cases st) (auto simp: BuildUpdatedStatusInfo_def split: option.splits)

lemma BuildUpdatedStatusInfo_total:
  "IsTerminal st \<or> st \<in> {BatchStatusInProgress, BatchStatusFinalizing, BatchStatusCancelling} \<Longrightarrow>
    \<exists>i. BuildUpdatedStatusInfo now orig st counts slo = Inr i"
  by (cases st) (auto simp: BuildUpdatedStatusInfo_def split: option.splits)

end
