(* ===== verification/Batch_Store.thy ===== *)
theory Batch_Store
  imports OpenAI_Batch
begin

text \<open>
  The PostgreSQL data layer: the generic table core of
  \<^verbatim>\<open>internal/database/postgresql/db_core.go\<close> and the batch client of
  \<^verbatim>\<open>internal/database/postgresql/batch_db.go\<close>, over the tables of
  \<^verbatim>\<open>batch_schema.sql\<close>. A row type of the core is the record \<open>base_row\<close>, which the
  batch and file tables extend with their own columns, so the core's operations
  are polymorphic in the extension just as \<^verbatim>\<open>pgCore\<close> is parametric in its
  \<^verbatim>\<open>TableDescriptor\<close>. Text columns are compared bytewise (the order of
  \<open>string\<close>). Pointer arguments are values: the nil checks of the entry points
  have no counterpart.
\<close>

section \<open>Rows and items\<close>

type_synonym tags = "(string \<times> string) list"

record base_row =
  row_id :: string
  row_tenant :: string
  row_expiry :: int
  row_tags :: tags

record batch_row = base_row +
  row_spec :: "BatchSpec option"
  row_status :: "BatchStatusInfo option"
  row_processor :: "string option"
  row_priority :: "int option"
  row_epoch :: int
  row_attempts :: int
  row_resumable :: bool
  row_lease :: "instant option"

datatype ResumableEntryStatus =
    ResumableEntryPending
  | ResumableEntryInFlight
  | ResumableEntryCompleted
  | ResumableEntryFailed

fun entry_terminal :: "ResumableEntryStatus \<Rightarrow> bool" where
  "entry_terminal ResumableEntryCompleted = True"
| "entry_terminal ResumableEntryFailed = True"
| "entry_terminal _ = False"

record entry_row =
  en_batch :: string
  en_request :: string
  en_ordinal :: int
  en_custom :: string
  en_status :: ResumableEntryStatus
  en_attempts :: int
  en_submitted :: "string option"
  en_key :: "string option"
  en_bytes :: "int option"
  en_sha :: "string option"
  en_code :: "string option"
  en_completed_at :: "instant option"

record db =
  batch_items :: "batch_row list"
  batch_entries :: "entry_row list"

text \<open>The in-memory item (\<^verbatim>\<open>api.BatchItem\<close>) and the query parameters.\<close>

record BatchItem =
  bi_ID :: string
  bi_TenantID :: string
  bi_Expiry :: int
  bi_Tags :: tags
  bi_Spec :: "BatchSpec option"
  bi_Status :: "BatchStatusInfo option"
  bi_ProcessorID :: string
  bi_Priority :: int
  bi_Epoch :: int
  bi_BumpEpoch :: bool
  bi_RecoveryAttempts :: int
  bi_Resumable :: bool
  bi_OwnerLeaseExpiresAt :: "instant option"
  bi_ExpectedResumable :: "bool option"

definition zero_item :: BatchItem where
  "zero_item = \<lparr>bi_ID = [], bi_TenantID = [], bi_Expiry = 0, bi_Tags = [], bi_Spec = None,
    bi_Status = None, bi_ProcessorID = [], bi_Priority = 0, bi_Epoch = 0, bi_BumpEpoch = False,
    bi_RecoveryAttempts = 0, bi_Resumable = False, bi_OwnerLeaseExpiresAt = None,
    bi_ExpectedResumable = None\<rparr>"

datatype LogicalCond = LogicalCondNone | LogicalCondAnd | LogicalCondOr

record BaseQuery =
  q_IDs :: "string list"
  q_TenantID :: string
  q_TagSelectors :: tags
  q_TagsLogicalCond :: LogicalCond
  q_Expired :: bool
  q_AfterID :: string
  q_Descending :: bool

record BatchQuery = BaseQuery +
  q_NonTerminal :: bool
  q_ProcessorID :: string
  q_HasProcessorID :: bool

definition no_query :: BatchQuery where
  "no_query = \<lparr>q_IDs = [], q_TenantID = [], q_TagSelectors = [], q_TagsLogicalCond = LogicalCondNone,
    q_Expired = False, q_AfterID = [], q_Descending = False, q_NonTerminal = False,
    q_ProcessorID = [], q_HasProcessorID = False\<rparr>"

section \<open>The table core\<close>

text \<open>
  \<open>expiryCondition\<close>, the conditions of \<^verbatim>\<open>buildGetQuery\<close> in the order the code
  appends them, and the SELECT they make. A tag selector is the JSON
  containment of a one-entry object.
\<close>

definition expiryCondition :: "instant \<Rightarrow> 'a base_row_scheme \<Rightarrow> bool" where
  "expiryCondition now r = (row_expiry r > 0 \<and> row_expiry r \<le> unix now)"

definition tag_conds :: "'q BaseQuery_scheme \<Rightarrow> 'a base_row_scheme \<Rightarrow> bool" where
  "tag_conds bq r =
    (if q_TagsLogicalCond bq = LogicalCondOr
     then list_ex (\<lambda>kv. kv \<in> set (row_tags r)) (q_TagSelectors bq)
     else list_all (\<lambda>kv. kv \<in> set (row_tags r)) (q_TagSelectors bq))"

definition query_conditions ::
  "instant \<Rightarrow> 'q BaseQuery_scheme \<Rightarrow> ('a base_row_scheme \<Rightarrow> bool) list \<Rightarrow> ('a base_row_scheme \<Rightarrow> bool) list
    \<Rightarrow> ('a base_row_scheme \<Rightarrow> bool) list" where
  "query_conditions now bq extraFilters rawConditions =
      (if q_IDs bq = [] then [] else [\<lambda>r. row_id r \<in> set (q_IDs bq)])
    @ (if q_TenantID bq = [] then [] else [\<lambda>r. row_tenant r = q_TenantID bq])
    @ (if q_TagSelectors bq = [] then [] else [tag_conds bq])
    @ (if q_Expired bq then [expiryCondition now] else [])
    @ extraFilters
    @ (if q_AfterID bq = [] then []
       else [\<lambda>r. if q_Descending bq then row_id r < q_AfterID bq else q_AfterID bq < row_id r])
    @ rawConditions"

definition order_by_id :: "bool \<Rightarrow> 'a base_row_scheme list \<Rightarrow> 'a base_row_scheme list" where
  "order_by_id desc t = (if desc then rev (sort_key row_id t) else sort_key row_id t)"

definition select_rows ::
  "('a base_row_scheme \<Rightarrow> bool) list \<Rightarrow> bool \<Rightarrow> 'a base_row_scheme list \<Rightarrow> 'a base_row_scheme list" where
  "select_rows conds desc t = order_by_id desc (filter (\<lambda>r. list_all (\<lambda>c. c r) conds) t)"

text \<open>
  \<^verbatim>\<open>get\<close>: one row beyond the limit is requested to learn whether more rows exist;
  an empty condition list yields no statement and no rows. The result is the
  page, the cursor and \<^verbatim>\<open>expectMore\<close>. A cursor (\<^verbatim>\<open>AfterID\<close>) replaces the offset in
  the statement, but the returned cursor still counts from \<^verbatim>\<open>start\<close>.
\<close>

definition pg_get ::
  "instant \<Rightarrow> 'q BaseQuery_scheme \<Rightarrow> nat \<Rightarrow> nat \<Rightarrow> ('a base_row_scheme \<Rightarrow> bool) list
    \<Rightarrow> ('a base_row_scheme \<Rightarrow> bool) list \<Rightarrow> 'a base_row_scheme list
    \<Rightarrow> 'a base_row_scheme list \<times> nat \<times> bool" where
  "pg_get now bq start limit extraFilters rawConditions t =
    (let conds = query_conditions now bq extraFilters rawConditions;
         offset = (if q_AfterID bq = [] then start else 0);
         rows = take (limit + 1) (drop offset (select_rows conds (q_Descending bq) t));
         page = take limit rows
     in if conds = [] then ([], 0, False)
        else (page, start + length page, length rows > limit))"

text \<open>\<^verbatim>\<open>store\<close>: the INSERT fails on a duplicate primary key.\<close>

definition pg_store :: "'a base_row_scheme \<Rightarrow> 'a base_row_scheme list \<Rightarrow> bool \<times> 'a base_row_scheme list" where
  "pg_store r t = (if row_id r \<in> row_id ` set t then (False, t) else (True, t @ [r]))"

text \<open>\<^verbatim>\<open>delete\<close>: the ids actually removed are returned.\<close>

definition pg_delete :: "string list \<Rightarrow> 'a base_row_scheme list \<Rightarrow> string list \<times> 'a base_row_scheme list" where
  "pg_delete ids t =
    (map row_id (filter (\<lambda>r. row_id r \<in> set ids) t), filter (\<lambda>r. row_id r \<notin> set ids) t)"

section \<open>Statements on the batch tables\<close>

definition update_items :: "(batch_row \<Rightarrow> bool) \<Rightarrow> (batch_row \<Rightarrow> batch_row) \<Rightarrow> db \<Rightarrow> nat \<times> db" where
  "update_items guard eff s =
    (sql_count guard (batch_items s), s\<lparr>batch_items := sql_update guard eff (batch_items s)\<rparr>)"

definition update_entries :: "(entry_row \<Rightarrow> bool) \<Rightarrow> (entry_row \<Rightarrow> entry_row) \<Rightarrow> db \<Rightarrow> nat \<times> db" where
  "update_entries guard eff s =
    (sql_count guard (batch_entries s), s\<lparr>batch_entries := sql_update guard eff (batch_entries s)\<rparr>)"

definition find_item :: "string \<Rightarrow> db \<Rightarrow> batch_row option" where
  "find_item k s = by_key row_id k (batch_items s)"

text \<open>
  \<^verbatim>\<open>status::jsonb->>'status'\<close> of a row and the condition that it is not terminal;
  a NULL document satisfies neither condition.
\<close>

definition row_state :: "batch_row \<Rightarrow> BatchStatus option" where
  "row_state r = map_option si_Status (row_status r)"

definition nonTerminalCondition :: "batch_row \<Rightarrow> bool" where
  "nonTerminalCondition r = (case row_state r of None \<Rightarrow> False | Some st \<Rightarrow> st \<notin> set terminalStatuses)"

section \<open>The batch client\<close>

definition row_of_item :: "BatchItem \<Rightarrow> batch_row" where
  "row_of_item item =
    \<lparr>row_id = bi_ID item, row_tenant = bi_TenantID item, row_expiry = bi_Expiry item,
     row_tags = bi_Tags item, row_spec = bi_Spec item, row_status = bi_Status item,
     row_processor = (if bi_ProcessorID item = [] then None else Some (bi_ProcessorID item)),
     row_priority = Some (bi_Priority item), row_epoch = bi_Epoch item,
     row_attempts = bi_RecoveryAttempts item, row_resumable = bi_Resumable item,
     row_lease = bi_OwnerLeaseExpiresAt item\<rparr>"

definition DBStore :: "conn \<Rightarrow> BatchItem \<Rightarrow> db \<Rightarrow> unit res \<times> db" where
  "DBStore c item s =
    (if bi_ID item = [] then (Inl (ErrInvalid ''ID is empty''), s)
     else case exec_stmt c (\<lambda>s. let (ok, t) = pg_store (row_of_item item) (batch_items s)
                                 in (ok, s\<lparr>batch_items := t\<rparr>)) s of
        (Inl e, s') \<Rightarrow> (Inl e, s')
      | (Inr ok, s') \<Rightarrow> (if ok then Inr () else Inl ErrDB, s'))"

text \<open>The item \<^verbatim>\<open>DBGet\<close> builds from a scanned row; \<^verbatim>\<open>includeStatic\<close> adds the spec column.\<close>

definition item_of_row :: "bool \<Rightarrow> batch_row \<Rightarrow> BatchItem" where
  "item_of_row includeStatic r = zero_item
    \<lparr>bi_ID := row_id r, bi_TenantID := row_tenant r, bi_Expiry := row_expiry r, bi_Tags := row_tags r,
     bi_Spec := (if includeStatic then row_spec r else None), bi_Status := row_status r,
     bi_ProcessorID := (case row_processor r of None \<Rightarrow> [] | Some p \<Rightarrow> p),
     bi_Priority := (case row_priority r of None \<Rightarrow> 0 | Some p \<Rightarrow> p),
     bi_Epoch := row_epoch r, bi_RecoveryAttempts := row_attempts r,
     bi_Resumable := row_resumable r, bi_OwnerLeaseExpiresAt := row_lease r\<rparr>"

definition DBGet ::
  "conn \<Rightarrow> instant \<Rightarrow> BatchQuery \<Rightarrow> bool \<Rightarrow> nat \<Rightarrow> nat \<Rightarrow> db \<Rightarrow> (BatchItem list \<times> nat \<times> bool) res" where
  "DBGet c now query includeStatic start limit s =
    (let rawConditions = (if q_NonTerminal query then [nonTerminalCondition] else [])
           @ (if q_HasProcessorID query then [\<lambda>r. row_processor r \<noteq> None] else []);
         extraFilters = (if q_ProcessorID query = [] then []
           else [\<lambda>r. row_processor r = Some (q_ProcessorID query)]);
         (rows, cursor, more) = pg_get now query start limit extraFilters rawConditions (batch_items s)
     in if query_conditions now query extraFilters rawConditions \<noteq> [] \<and> c \<noteq> ConnOk then Inl ErrDB
        else Inr (map (item_of_row includeStatic) rows, cursor, more))"

definition update_epoch_cond :: "BatchItem \<Rightarrow> bool" where
  "update_epoch_cond item = (bi_Epoch item > 0 \<or> bi_BumpEpoch item)"

definition update_guard :: "BatchItem \<Rightarrow> BatchStatusInfo option \<Rightarrow> batch_row \<Rightarrow> bool" where
  "update_guard item expectedStatus r =
    (row_id r = bi_ID item
     \<and> (case expectedStatus of None \<Rightarrow> True | Some d \<Rightarrow> row_status r = Some d)
     \<and> (update_epoch_cond item \<longrightarrow> row_epoch r = bi_Epoch item)
     \<and> (case bi_ExpectedResumable item of None \<Rightarrow> True | Some b \<Rightarrow> row_resumable r = b))"

definition update_eff :: "BatchItem \<Rightarrow> batch_row \<Rightarrow> batch_row" where
  "update_eff item r = r
    \<lparr>row_status := (case bi_Status item of None \<Rightarrow> row_status r | Some d \<Rightarrow> Some d),
     row_tags := (if bi_Tags item = [] then row_tags r else bi_Tags item),
     row_epoch := (if bi_BumpEpoch item then row_epoch r + 1 else row_epoch r)\<rparr>"

definition DBUpdate :: "conn \<Rightarrow> BatchItem \<Rightarrow> BatchStatusInfo option \<Rightarrow> db \<Rightarrow> unit res \<times> db" where
  "DBUpdate c item expectedStatus s =
    (if bi_ID item = [] then (Inl (ErrInvalid ''ID is empty''), s)
     else if bi_Status item = None \<and> bi_Tags item = [] then (Inr (), s)
     else case exec_stmt c (update_items (update_guard item expectedStatus) (update_eff item)) s of
        (Inl e, s') \<Rightarrow> (Inl e, s')
      | (Inr n, s') \<Rightarrow>
          (if n = 0
           then Inl (if expectedStatus \<noteq> None \<or> update_epoch_cond item \<or> bi_ExpectedResumable item \<noteq> None
                     then ErrConflict else ErrNotFound)
           else Inr (), s'))"

text \<open>\<^verbatim>\<open>DBDelete\<close>; the entries of a deleted batch go with it (ON DELETE CASCADE).\<close>

definition DBDelete :: "conn \<Rightarrow> string list \<Rightarrow> db \<Rightarrow> string list res \<times> db" where
  "DBDelete c ids s =
    (if ids = [] then (Inr [], s)
     else exec_stmt c (\<lambda>s. let (deleted, t) = pg_delete ids (batch_items s)
        in (deleted, s\<lparr>batch_items := t,
              batch_entries := filter (\<lambda>e. en_batch e \<notin> set deleted) (batch_entries s)\<rparr>)) s)"

definition progress_guard :: "string \<Rightarrow> int \<Rightarrow> batch_row \<Rightarrow> bool" where
  "progress_guard k e r = (row_id r = k \<and> nonTerminalCondition r \<and> row_epoch r = e)"

definition progress_eff :: "BatchRequestCounts \<Rightarrow> batch_row \<Rightarrow> batch_row" where
  "progress_eff counts r = r\<lparr>row_status := map_option (\<lambda>d. d\<lparr>si_RequestCounts := counts\<rparr>) (row_status r)\<rparr>"

definition DBUpdateProgress :: "conn \<Rightarrow> string \<Rightarrow> int \<Rightarrow> BatchRequestCounts \<Rightarrow> db \<Rightarrow> unit res \<times> db" where
  "DBUpdateProgress c k e counts s =
    (if k = [] then (Inl (ErrInvalid ''empty ID''), s)
     else case exec_stmt c (update_items (progress_guard k e) (progress_eff counts)) s of
        (Inl er, s') \<Rightarrow> (Inl er, s')
      | (Inr n, s') \<Rightarrow> (if n = 0 then Inl ErrConflict else Inr (), s'))"

section \<open>Well-formed stores and their evolution\<close>

text \<open>
  The integrity of the two tables: primary keys are unique and not empty, an entry
  belongs to a stored batch (the foreign key), no fencing token or attempt
  counter is negative, and a row carries a lease exactly while it is an owned, activated
  resumable batch.
\<close>

definition entry_key :: "entry_row \<Rightarrow> string \<times> string" where
  "entry_key e = (en_batch e, en_request e)"

definition find_entry :: "string \<times> string \<Rightarrow> db \<Rightarrow> entry_row option" where
  "find_entry k s = by_key entry_key k (batch_entries s)"

definition row_ok :: "batch_row \<Rightarrow> bool" where
  "row_ok r = (row_id r \<noteq> [] \<and> 0 \<le> row_epoch r
    \<and> (row_lease r \<noteq> None \<longleftrightarrow> row_resumable r \<and> row_processor r \<noteq> None))"

definition db_ok :: "db \<Rightarrow> bool" where
  "db_ok s = (distinct (map row_id (batch_items s)) \<and> list_all row_ok (batch_items s)
    \<and> distinct (map entry_key (batch_entries s))
    \<and> list_all (\<lambda>e. en_batch e \<in> row_id ` set (batch_items s) \<and> 0 \<le> en_attempts e) (batch_entries s))"

text \<open>
  What may happen to a row over its life: its static columns never change, its
  epoch never decreases, and a change of owner raises the epoch. What may
  happen to an entry: its identity is fixed, its attempts never decrease, and
  once terminal it is frozen. A store evolves into another when every surviving
  row and every entry of a surviving batch did.
\<close>

definition row_evolves :: "batch_row \<Rightarrow> batch_row \<Rightarrow> bool" where
  "row_evolves r r' = (row_id r' = row_id r \<and> row_tenant r' = row_tenant r \<and> row_spec r' = row_spec r
    \<and> row_priority r' = row_priority r \<and> row_epoch r \<le> row_epoch r'
    \<and> (row_processor r' \<noteq> row_processor r \<longrightarrow> row_epoch r < row_epoch r'))"

definition entry_evolves :: "entry_row \<Rightarrow> entry_row \<Rightarrow> bool" where
  "entry_evolves e e' = (entry_key e' = entry_key e \<and> en_ordinal e' = en_ordinal e
    \<and> en_custom e' = en_custom e \<and> en_attempts e \<le> en_attempts e'
    \<and> (entry_terminal (en_status e) \<longrightarrow> e' = e))"

definition db_evolves :: "db \<Rightarrow> db \<Rightarrow> bool" where
  "db_evolves s s' =
    ((\<forall>k r'. find_item k s' = Some r' \<longrightarrow> (\<exists>r. find_item k s = Some r \<and> row_evolves r r'))
     \<and> (\<forall>k e. find_entry k s = Some e \<longrightarrow> find_item (fst k) s' \<noteq> None
           \<longrightarrow> (\<exists>e'. find_entry k s' = Some e' \<and> entry_evolves e e')))"

definition safe :: "(db \<Rightarrow> 'a \<times> db) \<Rightarrow> bool" where
  "safe f = (\<forall>s. db_ok s \<longrightarrow> db_ok (snd (f s)) \<and> db_evolves s (snd (f s)))"

lemma row_evolves_refl [simp]: "row_evolves r r"
  by (simp add: row_evolves_def)

lemma row_evolves_trans: "row_evolves r r' \<Longrightarrow> row_evolves r' r'' \<Longrightarrow> row_evolves r r''"
  by (cases "row_processor r' = row_processor r") (auto simp: row_evolves_def)

lemma entry_evolves_refl [simp]: "entry_evolves e e"
  by (simp add: entry_evolves_def)

lemma entry_evolves_trans: "entry_evolves e e' \<Longrightarrow> entry_evolves e' e'' \<Longrightarrow> entry_evolves e e''"
  unfolding entry_evolves_def by auto

lemma db_evolves_refl [simp]: "db_evolves s s"
  by (simp add: db_evolves_def)

lemma db_evolves_trans:
  assumes 1: "db_evolves s s'" and 2: "db_evolves s' s''"
  shows "db_evolves s s''"
  unfolding db_evolves_def
proof (intro conjI allI impI)
  fix k r'' assume "find_item k s'' = Some r''"
  then show "\<exists>r. find_item k s = Some r \<and> row_evolves r r''"
    using 1 2 unfolding db_evolves_def by (meson row_evolves_trans)
next
  fix k e assume e: "find_entry k s = Some e" and row: "find_item (fst k) s'' \<noteq> None"
  from row 2 have "find_item (fst k) s' \<noteq> None" unfolding db_evolves_def by fastforce
  with e 1 obtain e' where "find_entry k s' = Some e'" "entry_evolves e e'"
    unfolding db_evolves_def by blast
  with row 2 show "\<exists>e''. find_entry k s'' = Some e'' \<and> entry_evolves e e''"
    unfolding db_evolves_def by (meson entry_evolves_trans)
qed

lemma find_item_id: "find_item k s = Some r \<Longrightarrow> row_id r = k"
  by (auto simp: find_item_def dest: by_key_SomeD)

lemma find_entry_id: "find_entry k s = Some e \<Longrightarrow> entry_key e = k"
  by (auto simp: find_entry_def dest: by_key_SomeD)

lemma db_ok_by_key:
  assumes "db_ok s"
  shows "find_item k s = Some r \<longleftrightarrow> r \<in> set (batch_items s) \<and> row_id r = k"
    and "find_entry kk s = Some e \<longleftrightarrow> e \<in> set (batch_entries s) \<and> entry_key e = kk"
  using assms by (simp_all add: db_ok_def find_item_def find_entry_def by_key_Some_iff)

subsection \<open>Composition of safe statements\<close>

lemma safe_pure [intro, simp]: "safe (\<lambda>s. (f s, s))"
  by (simp add: safe_def)

lemma safe_exec: "safe f \<Longrightarrow> safe (exec_stmt c f)"
  by (auto simp: safe_def snd_exec_stmt)

lemma safe_snd_cong: "safe f \<Longrightarrow> (\<And>s. snd (g s) = snd (f s)) \<Longrightarrow> safe g"
  by (simp add: safe_def)

lemma safe_comp: "safe f \<Longrightarrow> (\<And>x. safe (g x)) \<Longrightarrow> safe (\<lambda>s. g (fst (f s)) (snd (f s)))"
  by (auto simp: safe_def intro: db_evolves_trans)

lemma safe_if: "safe f \<Longrightarrow> safe g \<Longrightarrow> safe (\<lambda>s. if b s then f s else g s)"
  by (simp add: safe_def)

text \<open>Most operations check arguments, run one statement, and only then shape the result.\<close>

lemma safe_wrap: "safe f \<Longrightarrow> (\<And>s. snd (g s) = s \<or> snd (g s) = snd (f s)) \<Longrightarrow> safe g"
  by (metis db_evolves_refl safe_def)

lemma safeD:
  "safe f \<Longrightarrow> db_ok s \<Longrightarrow> db_ok (snd (f s))"
  "safe f \<Longrightarrow> db_ok s \<Longrightarrow> db_evolves s (snd (f s))"
  by (simp_all add: safe_def)

lemma find_item_update_entries [simp]: "find_item k (s\<lparr>batch_entries := es\<rparr>) = find_item k s"
  by (simp add: find_item_def)

lemma find_entry_update_items [simp]: "find_entry k (s\<lparr>batch_items := t\<rparr>) = find_entry k s"
  by (simp add: find_entry_def)

lemma safe_update_items:
  assumes ev: "\<And>r. guard r \<Longrightarrow> row_evolves r (eff r)"
    and ok: "\<And>r. guard r \<Longrightarrow> row_ok r \<Longrightarrow> row_ok (eff r)"
  shows "safe (update_items guard eff)"
  unfolding safe_def
proof (intro allI impI conjI)
  fix s assume s: "db_ok s"
  have key: "\<And>r. guard r \<Longrightarrow> row_id (eff r) = row_id r"
    using ev by (simp add: row_evolves_def)
  let ?s = "snd (update_items guard eff s)"
  have ids: "map row_id (batch_items ?s) = map row_id (batch_items s)"
    by (simp add: update_items_def map_key_sql_update key)
  then have idset: "row_id ` set (batch_items ?s) = row_id ` set (batch_items s)"
    by (metis list.set_map)
  have "list_all row_ok (batch_items ?s)"
    using s ok by (auto simp: update_items_def db_ok_def list_all_iff set_sql_update)
  then show "db_ok ?s"
    using s ids idset by (simp add: db_ok_def update_items_def)
  have "find_item k ?s = map_option (\<lambda>r. if guard r then eff r else r) (find_item k s)" for k
    by (simp add: find_item_def update_items_def by_key_sql_update key)
  then show "db_evolves s ?s"
    using ev by (auto simp: db_evolves_def find_entry_def update_items_def)
qed

lemma safe_update_entries:
  assumes ev: "\<And>e. guard e \<Longrightarrow> entry_evolves e (eff e)"
  shows "safe (update_entries guard eff)"
  unfolding safe_def
proof (intro allI impI conjI)
  fix s assume s: "db_ok s"
  have key: "\<And>e. guard e \<Longrightarrow> entry_key (eff e) = entry_key e"
    and batch: "\<And>e. guard e \<Longrightarrow> en_batch (eff e) = en_batch e"
    and att: "\<And>e. guard e \<Longrightarrow> en_attempts e \<le> en_attempts (eff e)"
    using ev by (simp_all add: entry_evolves_def entry_key_def)
  let ?s = "snd (update_entries guard eff s)"
  have "map entry_key (batch_entries ?s) = map entry_key (batch_entries s)"
    by (simp add: update_entries_def map_key_sql_update key)
  moreover have "list_all (\<lambda>e. en_batch e \<in> row_id ` set (batch_items s) \<and> 0 \<le> en_attempts e) (batch_entries ?s)"
    using s batch att by (auto simp: update_entries_def db_ok_def list_all_iff set_sql_update intro: order_trans)
  ultimately show "db_ok ?s"
    using s by (simp add: db_ok_def update_entries_def)
  have "find_entry k ?s = map_option (\<lambda>e. if guard e then eff e else e) (find_entry k s)" for k
    by (simp add: find_entry_def update_entries_def by_key_sql_update key)
  then show "db_evolves s ?s"
    using ev by (auto simp: db_evolves_def find_item_def update_entries_def)
qed

section \<open>Laws of the batch client\<close>

lemma nonTerminal_iff:
  "nonTerminalCondition r \<longleftrightarrow> (\<exists>d. row_status r = Some d \<and> \<not> IsTerminal (si_Status d))"
  by (auto simp: nonTerminalCondition_def row_state_def IsTerminal_def split: option.splits)

lemma safe_DBUpdate [keeps]: "safe (DBUpdate c item expected)"
proof -
  have "safe (update_items (update_guard item expected) (update_eff item))"
    by (rule safe_update_items) (auto simp: row_evolves_def row_ok_def update_eff_def)
  from safe_exec [OF this, of c] show ?thesis
    by (rule safe_wrap) (simp add: DBUpdate_def split: prod.split sum.split)
qed

lemma safe_DBUpdateProgress [keeps]: "safe (DBUpdateProgress c k e counts)"
proof -
  have "safe (update_items (progress_guard k e) (progress_eff counts))"
    by (rule safe_update_items) (auto simp: row_evolves_def row_ok_def progress_eff_def)
  from safe_exec [OF this, of c] show ?thesis
    by (rule safe_wrap) (simp add: DBUpdateProgress_def split: prod.split sum.split)
qed

lemma safe_DBDelete [keeps]: "safe (DBDelete c ids)"
proof -
  have step: "db_ok s' \<and> db_evolves s s'"
    if s: "db_ok s"
      and s': "s' = s\<lparr>batch_items := filter (\<lambda>r. row_id r \<notin> set ids) (batch_items s),
        batch_entries := filter (\<lambda>e. en_batch e \<notin> row_id ` {r \<in> set (batch_items s). row_id r \<in> set ids}) (batch_entries s)\<rparr>"
    for s s'
  proof
    show ok: "db_ok s'"
      using s by (auto simp: db_ok_def s' list_all_iff distinct_map_filter) fastforce
    show "db_evolves s s'"
      unfolding db_evolves_def db_ok_by_key [OF s] db_ok_by_key [OF ok]
    proof (intro conjI allI impI)
      fix k e assume "e \<in> set (batch_entries s) \<and> entry_key e = k" and "find_item (fst k) s' \<noteq> None"
      then show "\<exists>e'. (e' \<in> set (batch_entries s') \<and> entry_key e' = k) \<and> entry_evolves e e'"
        using db_ok_by_key(1) [OF ok] by (intro exI [of _ e]) (auto simp: s' entry_key_def)
    qed (auto simp: s')
  qed
  then have "safe (\<lambda>s. let (deleted, t) = pg_delete ids (batch_items s)
        in (deleted, s\<lparr>batch_items := t,
              batch_entries := filter (\<lambda>e. en_batch e \<notin> set deleted) (batch_entries s)\<rparr>))"
    by (simp add: safe_def pg_delete_def)
  from safe_exec [OF this, of c] show ?thesis
    by (simp add: safe_def DBDelete_def)
qed

lemma DBStore_Ok:
  assumes "db_ok s" and "DBStore c item s = (Inr (), s')"
  shows "find_item (bi_ID item) s = None" and "bi_ID item \<noteq> []"
    and "s' = s\<lparr>batch_items := batch_items s @ [row_of_item item]\<rparr>"
proof -
  have "c = ConnOk" using assms(2) by (cases c) (auto simp: DBStore_def split: if_splits)
  with assms(2) show "find_item (bi_ID item) s = None" and "bi_ID item \<noteq> []"
    and "s' = s\<lparr>batch_items := batch_items s @ [row_of_item item]\<rparr>"
    by (auto simp: DBStore_def pg_store_def find_item_def by_key_None_iff row_of_item_def split: if_splits)
qed

lemma db_ok_append:
  assumes "db_ok s" and "row_ok r" and "find_item (row_id r) s = None"
  shows "db_ok (s\<lparr>batch_items := batch_items s @ [r]\<rparr>)"
  using assms by (auto simp: db_ok_def find_item_def by_key_None_iff list_all_iff)

lemma find_item_append:
  "find_item k (s\<lparr>batch_items := batch_items s @ [r]\<rparr>) =
    (case find_item k s of Some q \<Rightarrow> Some q | None \<Rightarrow> if row_id r = k then Some r else None)"
  by (auto simp: find_item_def by_key_append split: option.split)

lemma pg_get_mem:
  "r \<in> set (fst (pg_get now bq start limit ex raw t)) \<Longrightarrow>
    r \<in> set t \<and> list_all (\<lambda>c. c r) (query_conditions now bq ex raw)"
  by (auto simp: pg_get_def Let_def select_rows_def order_by_id_def split: if_splits dest!: in_set_takeD in_set_dropD)

lemma DBGet_mem:
  assumes "DBGet c now query b start limit s = Inr (items, cursor, m)" and "x \<in> set items"
  obtains r where "r \<in> set (batch_items s)" and "x = item_of_row b r"
    and "q_IDs query = [] \<or> row_id r \<in> set (q_IDs query)" and "q_TenantID query = [] \<or> row_tenant r = q_TenantID query"
proof -
  from assms obtain ex raw r where "r \<in> set (fst (pg_get now query start limit ex raw (batch_items s)))" "x = item_of_row b r"
    by (auto simp: DBGet_def Let_def split_beta split: if_splits)
  with that pg_get_mem [of r now query start limit ex raw "batch_items s"] show ?thesis
    by (auto simp: query_conditions_def split: if_splits)
qed

lemma item_of_row_fields:
  "bi_ID (item_of_row b r) = row_id r" "bi_TenantID (item_of_row b r) = row_tenant r"
  "bi_Status (item_of_row b r) = row_status r" "bi_Epoch (item_of_row b r) = row_epoch r"
  "bi_Resumable (item_of_row b r) = row_resumable r" "bi_Tags (item_of_row b r) = row_tags r"
  "bi_OwnerLeaseExpiresAt (item_of_row b r) = row_lease r" "bi_RecoveryAttempts (item_of_row b r) = row_attempts r"
  by (simp_all add: item_of_row_def)

lemma DBGet_by_id:
  assumes s: "db_ok s" and "tenant \<noteq> []"
  shows "DBGet ConnOk now (no_query\<lparr>q_IDs := [k], q_TenantID := tenant\<rparr>) b 0 1 s =
    (case find_item k s of
       Some r \<Rightarrow> if row_tenant r = tenant then Inr ([item_of_row b r], 1, False) else Inr ([], 0, False)
     | None \<Rightarrow> Inr ([], 0, False))"
proof -
  let ?f = "filter (\<lambda>r. row_id r = k \<and> row_tenant r = tenant) (batch_items s)"
  have f: "?f = (case find_item k s of Some r \<Rightarrow> if row_tenant r = tenant then [r] else [] | None \<Rightarrow> [])"
    using s by (simp add: db_ok_def find_item_def filter_by_key)
  show ?thesis
    using assms(2) f
    by (auto simp: DBGet_def no_query_def pg_get_def query_conditions_def select_rows_def order_by_id_def Let_def
        split: option.splits)
qed

interpretation progress: fenced_update row_id row_epoch "progress_guard k e" "progress_eff counts" k e
  for k e counts
  by unfold_locales (simp_all add: progress_guard_def progress_eff_def)

lemma fenced_DBUpdate:
  "update_epoch_cond item \<Longrightarrow>
    fenced_update row_id row_epoch (update_guard item expected) (update_eff item) (bi_ID item) (bi_Epoch item)"
  by unfold_locales (auto simp: update_guard_def update_eff_def)

section \<open>A concrete store\<close>

text \<open>A queued batch with the given deadline, the store the witnesses start from.\<close>

definition sample_info :: BatchStatusInfo where
  "sample_info = zero_status_info\<lparr>si_Status := BatchStatusValidating\<rparr>"

definition sample_row :: "string \<Rightarrow> int \<Rightarrow> batch_row" where
  "sample_row k prio = \<lparr>row_id = k, row_tenant = ''t'', row_expiry = 0, row_tags = [],
     row_spec = Some zero_spec, row_status = Some sample_info, row_processor = None,
     row_priority = Some prio, row_epoch = 0, row_attempts = 0, row_resumable = False, row_lease = None\<rparr>"

definition sample_db :: db where
  "sample_db = \<lparr>batch_items = [sample_row ''b1'' 20, sample_row ''b2'' 10], batch_entries = []\<rparr>"

lemmas sample_defs = sample_db_def sample_row_def sample_info_def zero_status_info_def zero_counts_def zero_spec_def

lemma sample_db_ok [simp]: "db_ok sample_db"
  by (simp add: db_ok_def row_ok_def sample_defs)

end
