(* ===== verification/Batch_Queue.thy ===== *)
theory Batch_Queue
  imports Batch_Store
begin

text \<open>
  The priority queue over \<^verbatim>\<open>batch_items\<close>
  (\<^verbatim>\<open>internal/database/postgresql/batch_queue.go\<close>). A row waiting with no owner is
  the queue; dequeuing claims rows by writing the owner and raising the epoch
  in one statement. Rows locked by a concurrent statement are skipped
  (\<^verbatim>\<open>FOR UPDATE SKIP LOCKED\<close>); which rows are locked is an argument.
\<close>

section \<open>Operations\<close>

definition enqueue_guard :: "BatchJobPriority \<Rightarrow> batch_row \<Rightarrow> bool" where
  "enqueue_guard jp r =
    (row_id r = jp_ID jp \<and> row_epoch r = jp_Epoch jp \<and> row_processor r = Some (jp_ProcessorID jp)
     \<and> map_option status_name (row_state r) = Some (jp_ExpectedStatus jp)
     \<and> \<not> row_resumable r \<and> nonTerminalCondition r)"

definition enqueue_eff :: "batch_row \<Rightarrow> batch_row" where
  "enqueue_eff r = r
    \<lparr>row_processor := None,
     row_status := map_option (\<lambda>d. d\<lparr>si_Status := BatchStatusValidating\<rparr>) (row_status r),
     row_epoch := row_epoch r + 1\<rparr>"

definition PQEnqueue :: "conn \<Rightarrow> BatchJobPriority \<Rightarrow> db \<Rightarrow> unit res \<times> db" where
  "PQEnqueue c jp s =
    (if jp_ID jp = [] then (Inl (ErrInvalid ''empty job ID''), s)
     else if jp_Epoch jp < 0 then (Inl (ErrInvalid ''invalid epoch''), s)
     else if jp_ProcessorID jp = [] then (Inl (ErrInvalid ''empty processor ID''), s)
     else if jp_ExpectedStatus jp = [] then (Inl (ErrInvalid ''empty expected status''), s)
     else case exec_stmt c (update_items (enqueue_guard jp) enqueue_eff) s of
        (Inl e, s') \<Rightarrow> (Inl e, s')
      | (Inr n, s') \<Rightarrow> (if n = 0 then Inl ErrConflict else Inr (), s'))"

text \<open>
  The candidates of a dequeue: fresh rows, and, for a processor that can hold a
  lease, requeued resumable rows. They are taken by ascending priority, NULLs
  last.
\<close>

definition dequeue_candidate :: "int \<Rightarrow> batch_row \<Rightarrow> bool" where
  "dequeue_candidate lease r = (row_processor r = None \<and> row_status r \<noteq> None
    \<and> ((\<not> row_resumable r \<and> row_state r = Some BatchStatusValidating)
       \<or> (row_resumable r \<and> lease > 0 \<and> nonTerminalCondition r)))"

definition order_by_priority :: "batch_row list \<Rightarrow> batch_row list" where
  "order_by_priority t =
    sort_key (\<lambda>r. the (row_priority r)) (filter (\<lambda>r. row_priority r \<noteq> None) t)
      @ filter (\<lambda>r. row_priority r = None) t"

definition dequeue_claimed :: "int \<Rightarrow> nat \<Rightarrow> string list \<Rightarrow> batch_row list \<Rightarrow> string list" where
  "dequeue_claimed lease maxItems locked t = map row_id (take maxItems
    (order_by_priority (filter (\<lambda>r. dequeue_candidate lease r \<and> row_id r \<notin> set locked) t)))"

definition dequeue_eff :: "instant \<Rightarrow> string \<Rightarrow> int \<Rightarrow> batch_row \<Rightarrow> batch_row" where
  "dequeue_eff now pid lease r = r
    \<lparr>row_processor := Some pid, row_epoch := row_epoch r + 1,
     row_attempts := (if row_resumable r then row_attempts r else 0),
     row_lease := (if row_resumable r then Some (now + secs lease) else None)\<rparr>"

definition job_of_row :: "string \<Rightarrow> batch_row \<Rightarrow> BatchJobPriority" where
  "job_of_row pid r =
    \<lparr>jp_ID = row_id r, jp_SLO = row_priority r, jp_Epoch = row_epoch r, jp_ProcessorID = pid,
     jp_ExpectedStatus = (case row_state r of None \<Rightarrow> [] | Some st \<Rightarrow> status_name st),
     jp_RecoveryAttempts = 0, jp_Resumable = row_resumable r\<rparr>"

definition dequeue_stmt ::
  "instant \<Rightarrow> string \<Rightarrow> int \<Rightarrow> nat \<Rightarrow> string list \<Rightarrow> db \<Rightarrow> batch_row list \<times> db" where
  "dequeue_stmt now pid lease maxItems locked s =
    (let ids = dequeue_claimed lease maxItems locked (batch_items s);
         s' = snd (update_items (\<lambda>r. row_id r \<in> set ids) (dequeue_eff now pid lease) s)
     in (filter (\<lambda>r. row_id r \<in> set ids) (batch_items s'), s'))"

text \<open>
  Scanning a NULL priority into an \<^verbatim>\<open>int64\<close> fails after the statement committed.
\<close>

definition PQDequeue ::
  "conn \<Rightarrow> instant \<Rightarrow> string \<Rightarrow> duration \<Rightarrow> nat \<Rightarrow> string list \<Rightarrow> db \<Rightarrow> BatchJobPriority list res \<times> db" where
  "PQDequeue c now pid lease maxItems locked s =
    (if pid = [] then (Inl (ErrInvalid ''processor ID is empty''), s)
     else case exec_stmt c (dequeue_stmt now pid (dur_secs lease) maxItems locked) s of
        (Inl e, s') \<Rightarrow> (Inl e, s')
      | (Inr rows, s') \<Rightarrow>
          (if list_ex (\<lambda>r. row_priority r = None) rows then Inl ErrDB
           else Inr (map (job_of_row pid) rows), s'))"

definition claim_guard :: "string \<Rightarrow> batch_row \<Rightarrow> bool" where
  "claim_guard pid r = (row_processor r = Some pid \<and> row_status r \<noteq> None \<and> nonTerminalCondition r)"

definition claim_eff :: "batch_row \<Rightarrow> batch_row" where
  "claim_eff r = r\<lparr>row_epoch := row_epoch r + 1, row_attempts := row_attempts r + 1\<rparr>"

definition claimed_job :: "batch_row \<Rightarrow> BatchJobPriority" where
  "claimed_job r =
    \<lparr>jp_ID = row_id r, jp_SLO = Some (case row_priority r of None \<Rightarrow> 0 | Some p \<Rightarrow> p),
     jp_Epoch = row_epoch r, jp_ProcessorID = [], jp_ExpectedStatus = [],
     jp_RecoveryAttempts = row_attempts r, jp_Resumable = row_resumable r\<rparr>"

definition PQClaimOwned :: "conn \<Rightarrow> string \<Rightarrow> db \<Rightarrow> BatchJobPriority list res \<times> db" where
  "PQClaimOwned c pid s =
    (if pid = [] then (Inl (ErrInvalid ''processor ID is empty''), s)
     else exec_stmt c (\<lambda>s. (map (claimed_job \<circ> claim_eff) (filter (claim_guard pid) (batch_items s)),
                              snd (update_items (claim_guard pid) claim_eff s))) s)"

definition delete_guard :: "string \<Rightarrow> string list \<Rightarrow> batch_row \<Rightarrow> bool" where
  "delete_guard k locked r = (row_id r = k \<and> row_processor r = None \<and> \<not> row_resumable r
    \<and> row_state r = Some BatchStatusValidating \<and> row_id r \<notin> set locked)"

definition delete_eff :: "instant \<Rightarrow> batch_row \<Rightarrow> batch_row" where
  "delete_eff now r = r
    \<lparr>row_status := map_option (\<lambda>d. d\<lparr>si_Status := BatchStatusCancelled, si_CancelledAt := Some (unix now)\<rparr>)
       (row_status r),
     row_epoch := row_epoch r + 1\<rparr>"

definition PQDelete :: "conn \<Rightarrow> instant \<Rightarrow> string \<Rightarrow> string list \<Rightarrow> db \<Rightarrow> nat res \<times> db" where
  "PQDelete c now k locked s = exec_stmt c (update_items (delete_guard k locked) (delete_eff now)) s"

definition PQGetIDs :: "conn \<Rightarrow> db \<Rightarrow> string list res" where
  "PQGetIDs c s = (if c = ConnOk
    then Inr (map row_id (filter (\<lambda>r. row_processor r = None \<and> row_state r = Some BatchStatusValidating)
                (batch_items s)))
    else Inl ErrDB)"

section \<open>Interpretations and safety\<close>

interpretation enq: fenced_update row_id row_epoch "enqueue_guard jp" enqueue_eff "jp_ID jp" "jp_Epoch jp"
  for jp
  by unfold_locales (simp_all add: enqueue_guard_def enqueue_eff_def)

interpretation deq: guarded_update row_id row_epoch "\<lambda>r. row_id r \<in> set ids" "dequeue_eff now pid lease"
  for ids now pid lease
  by unfold_locales (simp_all add: dequeue_eff_def)

interpretation claim: guarded_update row_id row_epoch "claim_guard pid" claim_eff
  for pid
  by unfold_locales (simp_all add: claim_eff_def)

interpretation del: guarded_update row_id row_epoch "delete_guard k locked" "delete_eff now"
  for k locked now
  by unfold_locales (simp_all add: delete_eff_def)

lemma safe_PQEnqueue [keeps]: "safe (PQEnqueue c jp)"
proof -
  have "safe (update_items (enqueue_guard jp) enqueue_eff)"
    by (rule safe_update_items) (auto simp: row_evolves_def row_ok_def enqueue_guard_def enqueue_eff_def)
  from safe_exec [OF this, of c] show ?thesis
    by (rule safe_wrap) (simp add: PQEnqueue_def split: prod.split sum.split)
qed

lemma safe_dequeue_stmt: "safe (dequeue_stmt now pid lease n locked)"
proof -
  have "safe (update_items (\<lambda>r. row_id r \<in> set ids) (dequeue_eff now pid lease))" for ids
    by (rule safe_update_items) (auto simp: row_evolves_def row_ok_def dequeue_eff_def)
  then show ?thesis
    by (auto simp: safe_def dequeue_stmt_def Let_def)
qed

lemma safe_PQDequeue [keeps]: "safe (PQDequeue c now pid lease n locked)"
  by (rule safe_wrap [OF safe_exec [OF safe_dequeue_stmt, of c now pid "dur_secs lease" n locked]])
    (simp add: PQDequeue_def split: prod.split sum.split)

lemma safe_PQClaimOwned [keeps]: "safe (PQClaimOwned c pid)"
proof -
  have "safe (update_items (claim_guard pid) claim_eff)"
    by (rule safe_update_items) (auto simp: row_evolves_def row_ok_def claim_eff_def)
  then have "safe (\<lambda>s. (map (claimed_job \<circ> claim_eff) (filter (claim_guard pid) (batch_items s)),
      snd (update_items (claim_guard pid) claim_eff s)))"
    by (simp add: safe_def)
  from safe_exec [OF this, of c] show ?thesis
    by (simp add: safe_def PQClaimOwned_def)
qed

lemma safe_PQDelete [keeps]: "safe (PQDelete c now k locked)"
  unfolding PQDelete_def
  by (rule safe_exec, rule safe_update_items)
    (auto simp: row_evolves_def row_ok_def delete_eff_def)

section \<open>The order of the queue\<close>

definition prio_le :: "int option \<Rightarrow> int option \<Rightarrow> bool" where
  "prio_le a b = (case b of None \<Rightarrow> True | Some q \<Rightarrow> (case a of None \<Rightarrow> False | Some p \<Rightarrow> p \<le> q))"

lemma set_order_by_priority [simp]: "set (order_by_priority t) = set t"
  by (auto simp: order_by_priority_def)

lemma length_order_by_priority [simp]: "length (order_by_priority t) = length t"
  by (simp add: order_by_priority_def sum_length_filter_compl [of "\<lambda>r. row_priority r \<noteq> None", simplified])

lemma sorted_order_by_priority:
  "sorted_wrt (\<lambda>x y. prio_le (row_priority x) (row_priority y)) (order_by_priority t)"
proof -
  have "sorted_wrt (\<lambda>x y. the (row_priority x) \<le> the (row_priority y))
      (sort_key (\<lambda>r. the (row_priority r)) (filter (\<lambda>r. row_priority r \<noteq> None) t))"
    by (metis sorted_map sorted_sort_key)
  then have "sorted_wrt (\<lambda>x y. prio_le (row_priority x) (row_priority y))
      (sort_key (\<lambda>r. the (row_priority r)) (filter (\<lambda>r. row_priority r \<noteq> None) t))"
    by (rule sorted_wrt_mono_rel [rotated]) (auto simp: prio_le_def)
  moreover have "sorted_wrt (\<lambda>x y. prio_le (row_priority x) (row_priority y)) (filter (\<lambda>r. row_priority r = None) t)"
    by (induction t) (auto simp: prio_le_def)
  ultimately show ?thesis
    by (auto simp: order_by_priority_def sorted_wrt_append prio_le_def)
qed

lemma sorted_wrt_take_drop:
  "sorted_wrt R xs \<Longrightarrow> x \<in> set (take n xs) \<Longrightarrow> y \<in> set (drop n xs) \<Longrightarrow> R x y"
  by (metis append_take_drop_id sorted_wrt_append)

lemma distinct_order_by_priority:
  "distinct (map row_id t) \<Longrightarrow> distinct (map row_id (order_by_priority t))"
  by (metis card_distinct distinct_card length_map length_order_by_priority list.set_map set_order_by_priority)

definition candidates :: "int \<Rightarrow> string list \<Rightarrow> db \<Rightarrow> batch_row list" where
  "candidates lease locked s = filter (\<lambda>r. dequeue_candidate lease r \<and> row_id r \<notin> set locked) (batch_items s)"

lemma dequeue_claimed_alt:
  "dequeue_claimed lease n locked (batch_items s) = map row_id (take n (order_by_priority (candidates lease locked s)))"
  by (simp add: dequeue_claimed_def candidates_def)

lemma distinct_candidates: "db_ok s \<Longrightarrow> distinct (map row_id (candidates lease locked s))"
  by (simp add: db_ok_def candidates_def distinct_map_filter)

lemma claimed_distinct:
  "db_ok s \<Longrightarrow> distinct (dequeue_claimed lease n locked (batch_items s))"
  unfolding dequeue_claimed_alt
  by (metis distinct_candidates distinct_order_by_priority distinct_take take_map)

lemma claimed_length:
  "length (dequeue_claimed lease n locked (batch_items s)) = min n (length (candidates lease locked s))"
  by (simp add: dequeue_claimed_alt)

lemma claimedD:
  assumes "db_ok s" and "k \<in> set (dequeue_claimed lease n locked (batch_items s))"
  obtains r where "find_item k s = Some r" and "dequeue_candidate lease r" and "k \<notin> set locked"
    and "r \<in> set (take n (order_by_priority (candidates lease locked s)))"
proof -
  obtain r where r: "r \<in> set (take n (order_by_priority (candidates lease locked s)))" "k = row_id r"
    using assms(2) by (auto simp: dequeue_claimed_alt)
  then have "r \<in> set (candidates lease locked s)"
    by (metis in_set_takeD set_order_by_priority)
  with r that show ?thesis
    by (auto simp: candidates_def db_ok_by_key [OF assms(1)])
qed

lemma unclaimedD:
  assumes "db_ok s" and "r \<in> set (candidates lease locked s)"
    and "row_id r \<notin> set (dequeue_claimed lease n locked (batch_items s))"
  shows "r \<in> set (drop n (order_by_priority (candidates lease locked s)))"
proof -
  let ?o = "order_by_priority (candidates lease locked s)"
  have "r \<in> set (take n ?o) \<union> set (drop n ?o)"
    using assms(2) by (metis append_take_drop_id set_append set_order_by_priority)
  with assms(3) show ?thesis by (auto simp: dequeue_claimed_alt)
qed

lemma find_item_dequeue:
  "find_item k (snd (dequeue_stmt now pid lease n locked s))
    = map_option (\<lambda>r. if row_id r \<in> set (dequeue_claimed lease n locked (batch_items s))
        then dequeue_eff now pid lease r else r) (find_item k s)"
  by (simp add: dequeue_stmt_def Let_def find_item_def update_items_def deq.lookup)

lemma PQDequeue_OkD:
  assumes "PQDequeue ConnOk now pid lease n locked s = (Inr jobs, s')"
  shows "s' = snd (dequeue_stmt now pid (dur_secs lease) n locked s)"
    and "jobs = map (job_of_row pid) (fst (dequeue_stmt now pid (dur_secs lease) n locked s))"
    and "pid \<noteq> []"
  using assms by (auto simp: PQDequeue_def split: if_splits)

lemma dequeued_rows:
  "db_ok s \<Longrightarrow> set (map row_id (fst (dequeue_stmt now pid lease n locked s)))
      = set (dequeue_claimed lease n locked (batch_items s))
    \<and> length (fst (dequeue_stmt now pid lease n locked s)) = min n (length (candidates lease locked s))"
proof -
  assume s: "db_ok s"
  let ?ids = "dequeue_claimed lease n locked (batch_items s)"
  let ?t = "sql_update (\<lambda>r. row_id r \<in> set ?ids) (dequeue_eff now pid lease) (batch_items s)"
  have ids: "map row_id ?t = map row_id (batch_items s)" by (rule deq.keys)
  have fst: "fst (dequeue_stmt now pid lease n locked s) = filter (\<lambda>r. row_id r \<in> set ?ids) ?t"
    by (simp add: dequeue_stmt_def Let_def update_items_def)
  have "set ?ids \<subseteq> set (map row_id (batch_items s))"
  proof
    fix k assume "k \<in> set ?ids"
    with s obtain r where "find_item k s = Some r" by (rule claimedD)
    then show "k \<in> set (map row_id (batch_items s))"
      using db_ok_by_key(1) [OF s] by auto
  qed
  moreover have "set (map row_id (filter (\<lambda>r. row_id r \<in> set ids) t)) = set (map row_id t) \<inter> set ids" for ids and t :: "batch_row list"
    by auto
  ultimately have set: "set (map row_id (filter (\<lambda>r. row_id r \<in> set ?ids) ?t)) = set ?ids"
    using ids by (metis inf.absorb2)
  have "distinct (map row_id (filter (\<lambda>r. row_id r \<in> set ?ids) ?t))"
    using s ids by (simp add: db_ok_def distinct_map_filter)
  then have "length (filter (\<lambda>r. row_id r \<in> set ?ids) ?t) = card (set ?ids)"
    using set by (metis distinct_card length_map)
  also have "\<dots> = min n (length (candidates lease locked s))"
    using claimed_distinct [OF s] by (simp add: distinct_card claimed_length)
  finally show ?thesis using set fst by simp
qed

lemma claimed_not_candidate: "\<not> dequeue_candidate lease' (dequeue_eff now pid lease r)"
  by (simp add: dequeue_candidate_def dequeue_eff_def)

lemma find_item_update_items:
  "(\<And>r. guard r \<Longrightarrow> row_id (eff r) = row_id r) \<Longrightarrow>
    find_item k (snd (update_items guard eff s)) = map_option (\<lambda>r. if guard r then eff r else r) (find_item k s)"
  by (simp add: find_item_def update_items_def by_key_sql_update)

lemma update_items_count:
  assumes "db_ok s" and "\<And>r. guard r \<Longrightarrow> row_id r = k"
  shows "fst (update_items guard eff s) = (case find_item k s of None \<Rightarrow> 0 | Some r \<Rightarrow> if guard r then 1 else 0)"
  using assms sql_count_by_key [of row_id "batch_items s" guard k]
  by (simp add: update_items_def find_item_def db_ok_def)

lemma update_items_noop:
  "db_ok s \<Longrightarrow> (\<And>r. guard r \<Longrightarrow> row_id r = k) \<Longrightarrow> (\<And>r. find_item k s = Some r \<Longrightarrow> \<not> guard r) \<Longrightarrow>
    update_items guard eff s = (0, s)"
  using update_items_count [of s guard k eff]
  by (auto simp: update_items_def sql_update_noop split: option.splits)

lemma find_item_DBUpdate:
  "find_item k (snd (DBUpdate c item expected s))
    = (if c = ConnFail \<or> bi_ID item = [] \<or> bi_Status item = None \<and> bi_Tags item = [] then find_item k s
       else map_option (\<lambda>r. if update_guard item expected r then update_eff item r else r) (find_item k s))"
  by (cases c) (auto simp: DBUpdate_def find_item_update_items update_eff_def)

lemma DBUpdate_OkD:
  assumes s: "db_ok s" and "DBUpdate c item expected s = (Inr (), s')" and "bi_Status item = Some d"
  shows "\<exists>r. find_item (bi_ID item) s = Some r \<and> update_guard item expected r
    \<and> find_item (bi_ID item) s' = Some (update_eff item r) \<and> row_status (update_eff item r) = Some d"
proof -
  have c: "c = ConnOk" "bi_ID item \<noteq> []" and n: "fst (update_items (update_guard item expected) (update_eff item) s) \<noteq> 0"
    using assms(2,3) by (cases c; auto simp: DBUpdate_def split: if_splits)+
  from n obtain r where r: "find_item (bi_ID item) s = Some r" "update_guard item expected r"
    using update_items_count [OF s, of "update_guard item expected" "bi_ID item" "update_eff item"]
    by (auto simp: update_guard_def split: option.splits if_splits)
  then show ?thesis
    using find_item_DBUpdate [of "bi_ID item" c item expected s] c assms(2,3) by (auto simp: update_eff_def)
qed

lemma find_item_PQEnqueue:
  "find_item k (snd (PQEnqueue c jp s))
    = (if c = ConnFail \<or> jp_ID jp = [] \<or> jp_Epoch jp < 0 \<or> jp_ProcessorID jp = [] \<or> jp_ExpectedStatus jp = []
       then find_item k s
       else map_option (\<lambda>r. if enqueue_guard jp r then enqueue_eff r else r) (find_item k s))"
  by (cases c) (auto simp: PQEnqueue_def find_item_update_items enqueue_eff_def)

lemma dequeue_ids:
  assumes "db_ok s" and "PQDequeue ConnOk now pid lease n locked s = (Inr jobs, s')"
  shows "jp_ID ` set jobs = set (dequeue_claimed (dur_secs lease) n locked (batch_items s))"
  using dequeued_rows [OF assms(1), of now pid "dur_secs lease" n locked]
  by (simp add: PQDequeue_OkD(2) [OF assms(2)] image_image job_of_row_def)

lemma dequeue_jobD:
  assumes s: "db_ok s" and deq: "PQDequeue ConnOk now pid lease n locked s = (Inr jobs, s')" and j: "j \<in> set jobs"
  obtains r where "find_item (jp_ID j) s = Some r" and "dequeue_candidate (dur_secs lease) r" and "jp_ID j \<notin> set locked"
    and "r \<in> set (take n (order_by_priority (candidates (dur_secs lease) locked s)))"
    and "find_item (jp_ID j) s' = Some (dequeue_eff now pid (dur_secs lease) r)"
    and "j = job_of_row pid (dequeue_eff now pid (dur_secs lease) r)"
proof -
  note D = PQDequeue_OkD [OF deq]
  have s': "db_ok s'" unfolding D(1) by (rule safeD(1) [OF safe_dequeue_stmt s])
  from j dequeue_ids [OF s deq] have k: "jp_ID j \<in> set (dequeue_claimed (dur_secs lease) n locked (batch_items s))"
    by auto
  from s k obtain r where r: "find_item (jp_ID j) s = Some r" "dequeue_candidate (dur_secs lease) r" "jp_ID j \<notin> set locked"
      "r \<in> set (take n (order_by_priority (candidates (dur_secs lease) locked s)))"
    by (rule claimedD)
  from r(1) have "row_id r = jp_ID j" by (simp add: db_ok_by_key [OF s])
  with r(1) k have new: "find_item (jp_ID j) s' = Some (dequeue_eff now pid (dur_secs lease) r)"
    by (simp add: D(1) find_item_dequeue)
  from j obtain x where x: "x \<in> set (fst (dequeue_stmt now pid (dur_secs lease) n locked s))" "j = job_of_row pid x"
    by (auto simp: D(2))
  then have "x \<in> set (batch_items s')" by (simp add: D(1) dequeue_stmt_def Let_def)
  then have "find_item (jp_ID j) s' = Some x"
    using x(2) by (simp add: db_ok_by_key [OF s'] job_of_row_def)
  with new have "j = job_of_row pid (dequeue_eff now pid (dur_secs lease) r)" using x(2) by simp
  with r new that show ?thesis by blast
qed

lemma sample_dequeue:
  "\<exists>s1 j. PQDequeue ConnOk 5 ''p'' 0 1 [] sample_db = (Inr [j], s1) \<and> jp_ID j = ''b2'' \<and> \<not> jp_Resumable j"
  by (simp add: PQDequeue_def dequeue_stmt_def dequeue_claimed_def dequeue_candidate_def sample_defs
      row_state_def update_items_def order_by_priority_def dequeue_eff_def dur_secs_def job_of_row_def)

section \<open>Properties of the queue\<close>

text \<open>
  C18: A dequeue claims exactly \<open>min n\<close> of the available rows, each of them a
  candidate that was owned by nobody and is now owned by the caller at the next
  epoch; every candidate it leaves behind has a deadline no earlier than every
  one it took; and no other row changes.
\<close>

theorem dequeue_claims_best:
  assumes s: "db_ok s" and deq: "PQDequeue ConnOk now pid lease n locked s = (Inr jobs, s')"
  shows "length jobs = min n (length (candidates (dur_secs lease) locked s))
    \<and> (\<forall>j \<in> set jobs. \<exists>r. find_item (jp_ID j) s = Some r \<and> dequeue_candidate (dur_secs lease) r
         \<and> jp_ID j \<notin> set locked \<and> jp_Epoch j = row_epoch r + 1 \<and> jp_SLO j = row_priority r
         \<and> find_item (jp_ID j) s' = Some (dequeue_eff now pid (dur_secs lease) r))
    \<and> (\<forall>j \<in> set jobs. \<forall>r \<in> set (candidates (dur_secs lease) locked s).
         row_id r \<notin> jp_ID ` set jobs \<longrightarrow> prio_le (jp_SLO j) (row_priority r))
    \<and> (\<forall>k. k \<notin> jp_ID ` set jobs \<longrightarrow> find_item k s' = find_item k s)"
proof (intro conjI ballI allI impI)
  note D = PQDequeue_OkD [OF deq] and ids = dequeue_ids [OF s deq]
  show "length jobs = min n (length (candidates (dur_secs lease) locked s))"
    using dequeued_rows [OF s, of now pid "dur_secs lease" n locked] by (simp add: D(2))
  show "find_item k s' = find_item k s" if "k \<notin> jp_ID ` set jobs" for k
    using that ids by (cases "find_item k s") (auto simp: D(1) find_item_dequeue dest: find_item_id)
  fix j assume j: "j \<in> set jobs"
  with s deq obtain r0 where r0: "find_item (jp_ID j) s = Some r0" "dequeue_candidate (dur_secs lease) r0"
      "jp_ID j \<notin> set locked" "r0 \<in> set (take n (order_by_priority (candidates (dur_secs lease) locked s)))"
      "find_item (jp_ID j) s' = Some (dequeue_eff now pid (dur_secs lease) r0)"
      "j = job_of_row pid (dequeue_eff now pid (dur_secs lease) r0)"
    by (rule dequeue_jobD)
  have slo: "jp_SLO j = row_priority r0" "jp_Epoch j = row_epoch r0 + 1"
    by (simp_all add: r0(6) job_of_row_def dequeue_eff_def)
  then show "\<exists>r. find_item (jp_ID j) s = Some r \<and> dequeue_candidate (dur_secs lease) r
         \<and> jp_ID j \<notin> set locked \<and> jp_Epoch j = row_epoch r + 1 \<and> jp_SLO j = row_priority r
         \<and> find_item (jp_ID j) s' = Some (dequeue_eff now pid (dur_secs lease) r)"
    using r0 by blast
  fix r assume r: "r \<in> set (candidates (dur_secs lease) locked s)" "row_id r \<notin> jp_ID ` set jobs"
  then have "r \<in> set (drop n (order_by_priority (candidates (dur_secs lease) locked s)))"
    using unclaimedD [OF s r(1)] ids by simp
  from sorted_wrt_take_drop [OF sorted_order_by_priority r0(4) this]
  show "prio_le (jp_SLO j) (row_priority r)" by (simp add: slo)
qed

theorem dequeue_claims_best_witness:
  "\<exists>s' j. PQDequeue ConnOk 5 ''p'' 0 1 [] sample_db = (Inr [j], s') \<and> jp_ID j = ''b2''
    \<and> find_item ''b1'' s' = find_item ''b1'' sample_db"
  using sample_dequeue dequeue_claims_best [OF sample_db_ok] by fastforce

text \<open>
  A processor that hands a freshly claimed job back puts it into the queue
  again: the re-enqueue of a dequeued, not yet activated job always succeeds,
  the row is once more a candidate for every processor, its epoch has moved past
  the one the processor held, and no other row changes.
\<close>

theorem handback_requeues:
  assumes s: "db_ok s" and deq: "PQDequeue ConnOk now pid lease n locked s = (Inr jobs, s1)"
    and j: "j \<in> set jobs" and fresh: "\<not> jp_Resumable j"
  shows "\<exists>s2 r. PQEnqueue ConnOk j s1 = (Inr (), s2) \<and> find_item (jp_ID j) s2 = Some r
    \<and> dequeue_candidate lease' r \<and> jp_Epoch j < row_epoch r
    \<and> (\<forall>k. k \<noteq> jp_ID j \<longrightarrow> find_item k s2 = find_item k s1)"
proof -
  note D = PQDequeue_OkD [OF deq]
  have s1: "db_ok s1" unfolding D(1) by (rule safeD(1) [OF safe_dequeue_stmt s])
  from s deq j obtain r where r: "find_item (jp_ID j) s = Some r" "dequeue_candidate (dur_secs lease) r"
      "find_item (jp_ID j) s1 = Some (dequeue_eff now pid (dur_secs lease) r)"
      "j = job_of_row pid (dequeue_eff now pid (dur_secs lease) r)"
    by (rule dequeue_jobD) blast
  let ?r = "dequeue_eff now pid (dur_secs lease) r"
  have ok: "row_ok r" using s r(1) by (simp add: db_ok_by_key [OF s]) (simp add: db_ok_def list_all_iff)
  have val: "row_state r = Some BatchStatusValidating" "\<not> row_resumable r"
    using r(2,4) fresh by (auto simp: dequeue_candidate_def job_of_row_def dequeue_eff_def)
  then have guard: "enqueue_guard j ?r"
    by (auto simp: enqueue_guard_def r(4) job_of_row_def dequeue_eff_def row_state_def nonTerminal_iff)
  have upd: "find_item k (snd (update_items (enqueue_guard j) enqueue_eff s1))
      = map_option (\<lambda>r. if enqueue_guard j r then enqueue_eff r else r) (find_item k s1)" for k
    by (rule find_item_update_items) (simp add: enqueue_eff_def)
  have "fst (update_items (enqueue_guard j) enqueue_eff s1) = 1"
    using guard r(3) update_items_count [OF s1, of "enqueue_guard j" "jp_ID j" enqueue_eff]
    by (simp add: enqueue_guard_def)
  moreover have "jp_ID j \<noteq> []" "0 \<le> jp_Epoch j" "jp_ProcessorID j \<noteq> []" "jp_ExpectedStatus j \<noteq> []"
    using ok val D(3) by (auto simp: r(4) job_of_row_def dequeue_eff_def row_ok_def row_state_def)
  ultimately have "PQEnqueue ConnOk j s1 = (Inr (), snd (update_items (enqueue_guard j) enqueue_eff s1))"
    by (simp add: PQEnqueue_def)
  moreover have "dequeue_candidate lease' (enqueue_eff ?r)" "jp_Epoch j < row_epoch (enqueue_eff ?r)"
    using val by (auto simp: dequeue_candidate_def enqueue_eff_def dequeue_eff_def row_state_def r(4) job_of_row_def)
  moreover have "find_item k (snd (update_items (enqueue_guard j) enqueue_eff s1)) = find_item k s1" if "k \<noteq> jp_ID j" for k
    using that by (cases "find_item k s1") (auto simp: upd enqueue_guard_def dest: find_item_id)
  ultimately show ?thesis using guard r(3) upd [of "jp_ID j"] by auto
qed

theorem handback_requeues_witness:
  "\<exists>s1 s2 j. PQDequeue ConnOk 5 ''p'' 0 1 [] sample_db = (Inr [j], s1) \<and> PQEnqueue ConnOk j s1 = (Inr (), s2)"
  using sample_dequeue handback_requeues [OF sample_db_ok] by fastforce

text \<open>
  Cancelling a job straight from the queue and claiming it exclude each
  other. The deletion affects at most one row; when it reports one, the row was
  waiting unowned, is now cancelled with its timestamp at a new epoch, and no
  processor can dequeue it any more; when it reports none, nothing changed; and
  for a job that a dequeue just handed out it always reports none.
\<close>

theorem queue_cancel_excludes_claim:
  assumes s: "db_ok s" and del: "PQDelete ConnOk now k locked s = (Inr n, s')"
  shows "n \<le> 1 \<and> (n = 0 \<longrightarrow> s' = s)
    \<and> (n = 1 \<longrightarrow> (\<exists>r d. find_item k s = Some r \<and> row_processor r = None \<and> find_item k s' = Some (delete_eff now r)
          \<and> row_status (delete_eff now r) = Some d \<and> si_Status d = BatchStatusCancelled
          \<and> si_CancelledAt d = Some (unix now) \<and> (\<forall>lease. \<not> dequeue_candidate lease (delete_eff now r))))
    \<and> (\<forall>now0 pid lease m locked0 s0 jobs. db_ok s0 \<longrightarrow> PQDequeue ConnOk now0 pid lease m locked0 s0 = (Inr jobs, s)
          \<longrightarrow> k \<in> jp_ID ` set jobs \<longrightarrow> n = 0)"
proof -
  have n: "n = (case find_item k s of None \<Rightarrow> 0 | Some r \<Rightarrow> if delete_guard k locked r then 1 else 0)"
    using del update_items_count [OF s, of "delete_guard k locked" k "delete_eff now"]
    by (simp add: PQDelete_def delete_guard_def)
  have s': "s' = snd (update_items (delete_guard k locked) (delete_eff now) s)"
    using del by (simp add: PQDelete_def)
  have "s' = s" if "n = 0"
  proof -
    have "update_items (delete_guard k locked) (delete_eff now) s = (0, s)"
      by (rule update_items_noop [OF s]) (use n that in \<open>auto simp: delete_guard_def split: option.splits if_splits\<close>)
    then show ?thesis by (simp add: s')
  qed
  moreover have "\<exists>r d. find_item k s = Some r \<and> row_processor r = None \<and> find_item k s' = Some (delete_eff now r)
          \<and> row_status (delete_eff now r) = Some d \<and> si_Status d = BatchStatusCancelled
          \<and> si_CancelledAt d = Some (unix now) \<and> (\<forall>lease. \<not> dequeue_candidate lease (delete_eff now r))"
    if "n = 1"
  proof -
    have "\<exists>r. find_item k s = Some r \<and> delete_guard k locked r"
      using that unfolding n by (simp split: option.splits if_splits)
    then obtain r where r: "find_item k s = Some r" "delete_guard k locked r" by blast
    have "find_item k s' = Some (delete_eff now r)"
      unfolding s' by (subst find_item_update_items) (simp_all add: r delete_eff_def)
    with r show ?thesis
      by (auto simp: delete_guard_def delete_eff_def row_state_def dequeue_candidate_def nonTerminal_iff)
  qed
  moreover have "n = 0" if "db_ok s0" "PQDequeue ConnOk now0 pid lease m locked0 s0 = (Inr jobs, s)" "k \<in> jp_ID ` set jobs"
    for now0 pid lease m locked0 s0 jobs
  proof -
    from that(3) obtain j where j: "j \<in> set jobs" "k = jp_ID j" by auto
    from that(1,2) j(1) obtain r where "find_item (jp_ID j) s = Some (dequeue_eff now0 pid (dur_secs lease) r)"
      by (rule dequeue_jobD)
    then show ?thesis by (simp add: n j(2) delete_guard_def dequeue_eff_def)
  qed
  moreover have "n \<le> 1" by (simp add: n split: option.split)
  ultimately show ?thesis by blast
qed

theorem queue_cancel_excludes_claim_witness:
  "\<exists>s'. PQDelete ConnOk 7000000 ''b1'' [] sample_db = (Inr 1, s')
    \<and> map_option row_state (find_item ''b1'' s') = Some (Some BatchStatusCancelled)"
proof -
  have "fst (PQDelete ConnOk 7000000 ''b1'' [] sample_db) = Inr 1"
    by (simp add: PQDelete_def update_items_def delete_guard_def sample_defs row_state_def)
  then obtain s' where "PQDelete ConnOk 7000000 ''b1'' [] sample_db = (Inr 1, s')"
    by (metis prod.collapse)
  with queue_cancel_excludes_claim [OF sample_db_ok this] show ?thesis
    by (auto simp: row_state_def)
qed

end
