(* ===== verification/Go_Stdlib.thy ===== *)
theory Go_Stdlib
  imports Gateway_Prelude
begin

text \<open>
  The functions of Go's standard library that the modelled code calls, as far as
  it uses them: \<^verbatim>\<open>strings\<close> prefixes, \<^verbatim>\<open>path.Clean\<close> with \<^verbatim>\<open>filepath.Join\<close> and
  \<^verbatim>\<open>filepath.Ext\<close>, the path part of \<^verbatim>\<open>url.ParseRequestURI\<close>, \<^verbatim>\<open>time.ParseDuration\<close>,
  \<^verbatim>\<open>strconv\<close> on decimal numbers, and maps as association lists with distinct keys.
\<close>

section \<open>Strings\<close>

fun has_prefix :: "string \<Rightarrow> string \<Rightarrow> bool" where
  "has_prefix xs [] = True"
| "has_prefix [] (p # ps) = False"
| "has_prefix (x # xs) (p # ps) = (x = p \<and> has_prefix xs ps)"

definition trim_prefix :: "string \<Rightarrow> string \<Rightarrow> string" where
  "trim_prefix xs p = (if has_prefix xs p then drop (length p) xs else xs)"

definition has_suffix :: "string \<Rightarrow> string \<Rightarrow> bool" where
  "has_suffix xs p = has_prefix (rev xs) (rev p)"

fun split_on :: "char \<Rightarrow> string \<Rightarrow> string list" where
  "split_on c [] = [[]]"
| "split_on c (x # xs) =
    (if x = c then [] # split_on c xs
     else (case split_on c xs of [] \<Rightarrow> [[x]] | y # ys \<Rightarrow> (x # y) # ys))"

fun join_with :: "char \<Rightarrow> string list \<Rightarrow> string" where
  "join_with c [] = []"
| "join_with c [x] = x"
| "join_with c (x # y # ys) = x @ c # join_with c (y # ys)"

definition contains_any :: "string \<Rightarrow> string \<Rightarrow> bool" where
  "contains_any xs cs = list_ex (\<lambda>x. x \<in> set cs) xs"

definition slash :: char where "slash = CHR ''/''"
definition dot :: char where "dot = CHR ''.''"
definition newline :: char where "newline = CHR 0x0A"

section \<open>Decimal numbers\<close>

definition is_digit :: "char \<Rightarrow> bool" where
  "is_digit c = (48 \<le> (of_char c :: nat) \<and> (of_char c :: nat) \<le> 57)"

definition digit_val :: "char \<Rightarrow> int" where
  "digit_val c = of_char c - 48"

fun digits_val :: "int \<Rightarrow> string \<Rightarrow> int" where
  "digits_val acc [] = acc"
| "digits_val acc (c # cs) = digits_val (acc * 10 + digit_val c) cs"

text \<open>\<^verbatim>\<open>strconv.ParseInt(s, 10, 64)\<close> and \<^verbatim>\<open>strconv.Itoa\<close> of a natural number.\<close>

definition parse_int64 :: "string \<Rightarrow> int option" where
  "parse_int64 s =
    (let (neg, ds) = (case s of [] \<Rightarrow> (False, [])
            | c # cs \<Rightarrow> if c = CHR ''-'' then (True, cs) else if c = CHR ''+'' then (False, cs) else (False, s));
         v = digits_val 0 ds; n = (if neg then - v else v)
     in if ds = [] \<or> \<not> list_all is_digit ds then None
        else if - (2 ^ 63) \<le> n \<and> n < 2 ^ 63 then Some n else None)"

fun itoa_rev :: "nat \<Rightarrow> nat \<Rightarrow> string" where
  "itoa_rev 0 n = []"
| "itoa_rev (Suc f) n = char_of (48 + n mod 10) # (if n < 10 then [] else itoa_rev f (n div 10))"

definition itoa :: "nat \<Rightarrow> string" where
  "itoa n = rev (itoa_rev (Suc n) n)"

section \<open>Paths\<close>

text \<open>
  \<^verbatim>\<open>path.Clean\<close>: empty and \<^verbatim>\<open>.\<close> elements vanish, \<^verbatim>\<open>..\<close> removes the element before it,
  and at the front of a rooted path it vanishes as well.
\<close>

fun clean_elems :: "bool \<Rightarrow> string list \<Rightarrow> string list \<Rightarrow> string list" where
  "clean_elems rooted out [] = rev out"
| "clean_elems rooted out (e # es) =
    (if e = [] \<or> e = [dot] then clean_elems rooted out es
     else if e = [dot, dot] then
       (case out of
          [] \<Rightarrow> clean_elems rooted (if rooted then [] else [e]) es
        | o' # os \<Rightarrow> if o' = [dot, dot] then clean_elems rooted (e # out) es else clean_elems rooted os es)
     else clean_elems rooted (e # out) es)"

definition path_clean :: "string \<Rightarrow> string" where
  "path_clean p =
    (let rooted = (case p of [] \<Rightarrow> False | c # _ \<Rightarrow> c = slash);
         body = join_with slash (clean_elems rooted [] (split_on slash p))
     in if p = [] then [dot]
        else if rooted then slash # body
        else if body = [] then [dot] else body)"

definition path_join :: "string list \<Rightarrow> string" where
  "path_join ps = (let qs = filter (\<lambda>p. p \<noteq> []) ps in if qs = [] then [] else path_clean (join_with slash qs))"

text \<open>\<^verbatim>\<open>filepath.Ext\<close>: the suffix from the last dot of the last element.\<close>

definition path_ext :: "string \<Rightarrow> string" where
  "path_ext p = (let r = takeWhile (\<lambda>c. c \<noteq> slash) (rev p);
                     e = takeWhile (\<lambda>c. c \<noteq> dot) r
                 in if length e = length r then [] else dot # rev e)"

text \<open>\<^verbatim>\<open>filepath.Base\<close>: the last element after trailing slashes are removed.\<close>

definition path_base :: "string \<Rightarrow> string" where
  "path_base p =
    (if p = [] then [dot]
     else let r = dropWhile (\<lambda>c. c = slash) (rev p); b = rev (takeWhile (\<lambda>c. c \<noteq> slash) r)
          in if b = [] then [slash] else b)"

text \<open>
  The path of \<^verbatim>\<open>url.ParseRequestURI\<close> on a string that starts with one slash and has
  no query or fragment: control bytes are rejected and percent escapes decoded.
\<close>

definition hex_val :: "char \<Rightarrow> int option" where
  "hex_val c = (let n = of_char c in
     if 48 \<le> n \<and> n \<le> (57::int) then Some (n - 48)
     else if 97 \<le> n \<and> n \<le> 102 then Some (n - 87)
     else if 65 \<le> n \<and> n \<le> 70 then Some (n - 55) else None)"

fun unescape :: "string \<Rightarrow> string option" where
  "unescape [] = Some []"
| "unescape (c # cs) =
    (if c \<noteq> CHR ''%'' then map_option (Cons c) (unescape cs)
     else (case cs of
         a # b # r \<Rightarrow> (case (hex_val a, hex_val b) of
             (Some x, Some y) \<Rightarrow> map_option (Cons (char_of (nat (16 * x + y)))) (unescape r)
           | _ \<Rightarrow> None)
       | _ \<Rightarrow> None))"

definition is_ctl :: "char \<Rightarrow> bool" where
  "is_ctl c = (of_char c < (32::nat) \<or> of_char c = (127::nat))"

definition parse_request_path :: "string \<Rightarrow> string option" where
  "parse_request_path s = (if list_ex is_ctl s then None else unescape s)"

section \<open>Durations\<close>

text \<open>
  \<^verbatim>\<open>time.ParseDuration\<close> in nanoseconds, with its overflow checks. The fraction is
  the exact quotient rounded down, where the library computes in \<^verbatim>\<open>float64\<close>.
\<close>

definition unit_ns :: "string \<Rightarrow> int option" where
  "unit_ns u =
    (if u = ''ns'' then Some 1 else if u = ''us'' then Some 1000
     else if u = [CHR 0xC2, CHR 0xB5, CHR ''s''] \<or> u = [CHR 0xCE, CHR 0xBC, CHR ''s''] then Some 1000
     else if u = ''ms'' then Some 1000000 else if u = ''s'' then Some 1000000000
     else if u = ''m'' then Some 60000000000 else if u = ''h'' then Some 3600000000000 else None)"

definition duration_part :: "string \<Rightarrow> (int \<times> string) option" where
  "duration_part s =
    (let ip = takeWhile is_digit s; r1 = dropWhile is_digit s;
         (fp, r2) = (case r1 of c # cs \<Rightarrow> if c = dot then (takeWhile is_digit cs, dropWhile is_digit cs) else ([], r1)
                      | [] \<Rightarrow> ([], r1));
         u = takeWhile (\<lambda>c. c \<noteq> dot \<and> \<not> is_digit c) r2; rest = dropWhile (\<lambda>c. c \<noteq> dot \<and> \<not> is_digit c) r2;
         v = digits_val 0 ip
     in if ip = [] \<and> fp = [] then None
        else if v > 2 ^ 63 then None
        else (case unit_ns u of
            None \<Rightarrow> None
          | Some n \<Rightarrow>
              if v > 2 ^ 63 div n then None
              else let w = v * n + digits_val 0 fp * n div 10 ^ length fp
                   in if w > 2 ^ 63 then None else Some (w, rest)))"

fun duration_loop :: "nat \<Rightarrow> int \<Rightarrow> string \<Rightarrow> int option" where
  "duration_loop 0 d s = None"
| "duration_loop (Suc f) d s =
    (if s = [] then Some d
     else (case duration_part s of
         None \<Rightarrow> None
       | Some (v, rest) \<Rightarrow> if d + v > 2 ^ 63 then None else duration_loop f (d + v) rest))"

definition ParseDuration :: "string \<Rightarrow> int option" where
  "ParseDuration s =
    (let (neg, t) = (case s of [] \<Rightarrow> (False, [])
            | c # cs \<Rightarrow> if c = CHR ''-'' then (True, cs) else if c = CHR ''+'' then (False, cs) else (False, s))
     in if t = ''0'' then Some 0
        else if t = [] then None
        else (case duration_loop (Suc (length t)) 0 t of
            None \<Rightarrow> None
          | Some d \<Rightarrow> if neg then Some (- d) else if d > 2 ^ 63 - 1 then None else Some d))"

section \<open>UTF-8\<close>

text \<open>
  The runes of a string as \<^verbatim>\<open>utf8.DecodeRuneInString\<close> takes them: \<open>rune_bytes\<close> is the number of
  bytes of a well-formed encoding at the front, and 0 where there is none; such a byte is
  a piece of its own.
\<close>

definition continuation :: "nat \<Rightarrow> nat list \<Rightarrow> bool" where
  "continuation n r = (n \<le> length r \<and> list_all (\<lambda>x. 128 \<le> x \<and> x \<le> 191) (take n r))"

definition rune_bytes :: "string \<Rightarrow> nat" where
  "rune_bytes s =
    (case map of_char (take 4 s) of
       [] \<Rightarrow> 0
     | b # r \<Rightarrow>
         if b < 128 then 1
         else if 194 \<le> b \<and> b \<le> 223 \<and> continuation 1 r then 2
         else if 224 \<le> b \<and> b \<le> 239 \<and> continuation 2 r \<and> (b = 224 \<longrightarrow> 160 \<le> hd r) \<and> (b = 237 \<longrightarrow> hd r \<le> 159) then 3
         else if 240 \<le> b \<and> b \<le> 244 \<and> continuation 3 r \<and> (b = 240 \<longrightarrow> 144 \<le> hd r) \<and> (b = 244 \<longrightarrow> hd r \<le> 143) then 4
         else 0)"

function runes :: "string \<Rightarrow> string list" where
  "runes [] = []"
| "runes (c # cs) = (let n = max 1 (rune_bytes (c # cs)) in take n (c # cs) # runes (drop n (c # cs)))"
  by pat_completeness auto

termination by (relation "measure length") auto

definition valid_utf8 :: "string \<Rightarrow> bool" where
  "valid_utf8 s = list_all (\<lambda>r. rune_bytes r \<noteq> 0) (runes s)"

text \<open>
  What a string is after \<^verbatim>\<open>json.Marshal\<close> and \<^verbatim>\<open>json.Unmarshal\<close>: each byte that is not part of
  a well-formed rune has become U+FFFD.
\<close>

definition to_valid_utf8 :: "string \<Rightarrow> string" where
  "to_valid_utf8 s = concat (map (\<lambda>r. if rune_bytes r = 0 then [CHR 0xEF, CHR 0xBF, CHR 0xBD] else r) (runes s))"

text \<open>
  \<^verbatim>\<open>strconv.Quote\<close>, the verb \<^verbatim>\<open>%q\<close>. The table of the printable runes outside ASCII is the argument.
\<close>

definition rune_value :: "string \<Rightarrow> nat" where
  "rune_value r =
    (case map of_char r of
       [b] \<Rightarrow> b
     | [b, c] \<Rightarrow> (b - 192) * 64 + (c - 128)
     | [b, c, d] \<Rightarrow> ((b - 224) * 64 + (c - 128)) * 64 + (d - 128)
     | [b, c, d, e] \<Rightarrow> (((b - 240) * 64 + (c - 128)) * 64 + (d - 128)) * 64 + (e - 128)
     | _ \<Rightarrow> 0)"

fun hex_digits :: "nat \<Rightarrow> nat \<Rightarrow> string" where
  "hex_digits 0 v = []"
| "hex_digits (Suc k) v = hex_digits k (v div 16) @ [char_of (if v mod 16 < 10 then 48 + v mod 16 else 87 + v mod 16)]"

definition quote_rune :: "(nat \<Rightarrow> bool) \<Rightarrow> string \<Rightarrow> string" where
  "quote_rune isPrint r =
    (let bs = [CHR 0x5C]; v = (if rune_bytes r = 0 then of_char (hd r) else rune_value r)
     in if rune_bytes r = 0 then bs @ ''x'' @ hex_digits 2 v
        else if v = 34 \<or> v = 92 then bs @ r
        else if (if v < 128 then 32 \<le> v \<and> v < 127 else isPrint v) then r
        else (case map_of [(7, CHR ''a''), (8, CHR ''b''), (12, CHR ''f''), (10, CHR ''n''), (13, CHR ''r''), (9, CHR ''t''), (11, CHR ''v'')] v of
            Some c \<Rightarrow> bs @ [c]
          | None \<Rightarrow> if v < 32 \<or> v = 127 then bs @ ''x'' @ hex_digits 2 v
                     else if v < 65536 then bs @ ''u'' @ hex_digits 4 v else bs @ ''U'' @ hex_digits 8 v))"

definition go_quote :: "(nat \<Rightarrow> bool) \<Rightarrow> string \<Rightarrow> string" where
  "go_quote isPrint s = CHR 0x22 # concat (map (quote_rune isPrint) (runes s)) @ [CHR 0x22]"

section \<open>Lemmas\<close>

lemma has_prefix_append [simp]: "has_prefix (p @ xs) p"
  by (induction p) simp_all

lemma has_prefix_iff: "has_prefix xs p \<longleftrightarrow> (\<exists>ys. xs = p @ ys)"
  by (induction xs p rule: has_prefix.induct) auto

lemma trim_prefix_append [simp]: "trim_prefix (p @ xs) p = xs"
  by (simp add: trim_prefix_def)

lemma split_on_not_Nil [simp]: "split_on c xs \<noteq> []"
  by (induction xs) (auto split: list.splits)

lemma split_on_no_sep: "e \<in> set (split_on c xs) \<Longrightarrow> c \<notin> set e"
  by (induction xs arbitrary: e) (auto split: list.splits if_splits)

lemma runes_concat: "concat (runes s) = s"
  by (induction s rule: runes.induct) (simp_all add: Let_def del: take_Suc_Cons drop_Suc_Cons)

lemma to_valid_utf8_id: "valid_utf8 s \<Longrightarrow> to_valid_utf8 s = s"
proof -
  assume "valid_utf8 s"
  then have "map (\<lambda>r. if rune_bytes r = 0 then [CHR 0xEF, CHR 0xBF, CHR 0xBD] else r) (runes s) = runes s"
    by (intro map_idI) (auto simp: valid_utf8_def list_all_iff)
  then show ?thesis by (simp add: to_valid_utf8_def runes_concat)
qed

lemma valid_utf8_ascii: "list_all (\<lambda>c. (of_char c :: nat) < 128) s \<Longrightarrow> valid_utf8 s"
  by (induction s rule: runes.induct) (simp_all add: valid_utf8_def rune_bytes_def)

lemma unescape_no_percent: "CHR ''%'' \<notin> set s \<Longrightarrow> unescape s = Some s"
  by (induction s) auto

lemma unescape_length: "unescape s = Some t \<Longrightarrow> length t \<le> length s"
proof (induction s arbitrary: t rule: unescape.induct)
  case (2 c cs)
  show ?case
  proof (cases "c = CHR ''%''")
    case True
    then obtain a b r x y u where "cs = a # b # r" "hex_val a = Some x" "hex_val b = Some y"
        "unescape r = Some u" "t = char_of (nat (16 * x + y)) # u"
      using 2(3) by (auto split: list.splits option.splits)
    with 2(2) [OF _ \<open>cs = a # b # r\<close> refl] True show ?thesis by fastforce
  qed (use 2 in auto)
qed simp

lemma unescape_percent_shorter:
  "unescape s = Some t \<Longrightarrow> CHR ''%'' \<in> set s \<Longrightarrow> length t < length s"
proof (induction s arbitrary: t rule: unescape.induct)
  case (2 c cs)
  show ?case
  proof (cases "c = CHR ''%''")
    case True
    then obtain a b r x y u where r: "cs = a # b # r" "unescape r = Some u" "t = char_of (nat (16 * x + y)) # u"
      using 2(3) by (auto split: list.splits option.splits)
    with unescape_length [OF r(2)] show ?thesis by simp
  next
    case False
    with 2(1) [OF False] 2(3,4) show ?thesis by auto
  qed
qed simp

end
