(* ===== verification/Batch_Request.thy ===== *)
theory Batch_Request
  imports OpenAI_Batch Go_Stdlib
begin

text \<open>
  Admission of a batch: the endpoint allowlist and the validation of a create
  request (\<^verbatim>\<open>internal/shared/openai/batch.go\<close>, \<^verbatim>\<open>const.go\<close>). A Go map is the list of
  its bindings in the order the loop visits them.
\<close>

section \<open>Endpoints\<close>

definition EndpointResponses :: string where "EndpointResponses = ''/v1/responses''"
definition EndpointChatCompletions :: string where "EndpointChatCompletions = ''/v1/chat/completions''"
definition EndpointEmbeddings :: string where "EndpointEmbeddings = ''/v1/embeddings''"
definition EndpointCompletions :: string where "EndpointCompletions = ''/v1/completions''"
definition EndpointModerations :: string where "EndpointModerations = ''/v1/moderations''"

record EndpointAllowlist =
  al_extra :: "string list"

definition isDefaultEndpoint :: "string \<Rightarrow> bool" where
  "isDefaultEndpoint e = (e = EndpointResponses \<or> e = EndpointChatCompletions \<or> e = EndpointEmbeddings
    \<or> e = EndpointCompletions \<or> e = EndpointModerations)"

definition validateEndpointPath :: "string \<Rightarrow> unit res" where
  "validateEndpointPath e =
    (if e = [] then Inl (ErrInvalid ''path cannot be empty'')
     else if e ! 0 \<noteq> slash \<or> (length e > 1 \<and> e ! 1 = slash)
     then Inl (ErrInvalid ''must be an absolute path beginning with exactly one slash'')
     else if contains_any e ''?#'' then Inl (ErrInvalid ''must not contain a query string or fragment'')
     else (case parse_request_path e of
         None \<Rightarrow> Inl (ErrInvalid ''must be a valid URL path'')
       | Some p \<Rightarrow>
           if p \<noteq> e then Inl (ErrInvalid ''must not contain a query string, fragment, or escaped path'')
           else if path_clean e \<noteq> e then Inl (ErrInvalid ''must be a canonical path'')
           else Inr ()))"

fun allowlist_loop :: "string list \<Rightarrow> EndpointAllowlist \<Rightarrow> EndpointAllowlist res" where
  "allowlist_loop [] a = Inr a"
| "allowlist_loop (e # es) a =
    (case validateEndpointPath e of
       Inl er \<Rightarrow> Inl er
     | Inr _ \<Rightarrow> if isDefaultEndpoint e then allowlist_loop es a
                else allowlist_loop es (a\<lparr>al_extra := List.insert e (al_extra a)\<rparr>))"

definition NewEndpointAllowlist :: "string list \<Rightarrow> EndpointAllowlist res" where
  "NewEndpointAllowlist extra = allowlist_loop extra \<lparr>al_extra = []\<rparr>"

definition IsValid :: "EndpointAllowlist \<Rightarrow> string \<Rightarrow> bool" where
  "IsValid a endpoint = (isDefaultEndpoint endpoint \<or> endpoint \<in> set (al_extra a))"

section \<open>The create request\<close>

definition MinExpirationSeconds :: int where "MinExpirationSeconds = 3600"
definition MaxExpirationSeconds :: int where "MaxExpirationSeconds = 2592000"

record OutputExpiresAfter =
  oe_Seconds :: int
  oe_Anchor :: string

record CreateBatchRequest =
  cr_InputFileID :: string
  cr_Endpoint :: string
  cr_CompletionWindow :: string
  cr_Metadata :: "(string \<times> string) list"
  cr_OutputExpiresAfter :: "OutputExpiresAfter option"

fun metadata_loop :: "(string \<times> string) list \<Rightarrow> unit res" where
  "metadata_loop [] = Inr ()"
| "metadata_loop ((k, v) # kvs) =
    (if length k > 64 then Inl (ErrInvalid ''metadata: key exceeds 64 characters'')
     else if length v > 512 then Inl (ErrInvalid ''metadata: value exceeds 512 characters'')
     else metadata_loop kvs)"

definition validate_expiry :: "OutputExpiresAfter option \<Rightarrow> unit res" where
  "validate_expiry oe = (case oe of
      None \<Rightarrow> Inr ()
    | Some x \<Rightarrow>
        if oe_Anchor x \<noteq> ''created_at'' then Inl (ErrInvalid ''output_expires_after.anchor must be created_at'')
        else if oe_Seconds x < MinExpirationSeconds \<or> oe_Seconds x > MaxExpirationSeconds
        then Inl (ErrInvalid ''output_expires_after.seconds out of range'')
        else Inr ())"

definition ValidateWithEndpointAllowlist :: "EndpointAllowlist \<Rightarrow> CreateBatchRequest \<Rightarrow> unit res" where
  "ValidateWithEndpointAllowlist allowlist r =
    (if cr_CompletionWindow r = [] then Inl (ErrInvalid ''completion_window is required'')
     else if ParseDuration (cr_CompletionWindow r) = None
     then Inl (ErrInvalid ''completion_window must be a valid duration (e.g., 24h)'')
     else if cr_Endpoint r = [] then Inl (ErrInvalid ''endpoint is required'')
     else if \<not> IsValid allowlist (cr_Endpoint r) then Inl (ErrInvalid ''invalid endpoint'')
     else if cr_InputFileID r = [] then Inl (ErrInvalid ''input_file_id is required'')
     else if length (cr_Metadata r) > 16 then Inl (ErrInvalid ''metadata: too many keys'')
     else (case metadata_loop (cr_Metadata r) of
         Inl e \<Rightarrow> Inl e
       | Inr _ \<Rightarrow> validate_expiry (cr_OutputExpiresAfter r)))"

section \<open>Lemmas\<close>

lemma metadata_loop_ok:
  "metadata_loop kvs = Inr () \<longleftrightarrow> (\<forall>(k, v) \<in> set kvs. length k \<le> 64 \<and> length v \<le> 512)"
  by (induction kvs rule: metadata_loop.induct) auto

lemma validateEndpointPath_ok:
  "validateEndpointPath e = Inr () \<longleftrightarrow>
    e \<noteq> [] \<and> e ! 0 = slash \<and> \<not> (length e > 1 \<and> e ! 1 = slash) \<and> \<not> contains_any e ''?#''
    \<and> CHR ''%'' \<notin> set e \<and> \<not> list_ex is_ctl e \<and> path_clean e = e"
proof -
  have "parse_request_path e = Some e \<longleftrightarrow> CHR ''%'' \<notin> set e \<and> \<not> list_ex is_ctl e"
    using unescape_no_percent [of e] unescape_percent_shorter [of e e]
    by (auto simp: parse_request_path_def)
  then show ?thesis
    by (auto simp: validateEndpointPath_def split: option.splits)
qed

lemma validateEndpointPath_cases: "validateEndpointPath e = Inr () \<or> (\<exists>er. validateEndpointPath e = Inl er)"
  by (cases "validateEndpointPath e") auto

lemma allowlist_loop_ok:
  "allowlist_loop es a = Inr b \<Longrightarrow>
    (\<forall>e \<in> set es. validateEndpointPath e = Inr ())
    \<and> set (al_extra b) = set (al_extra a) \<union> {e \<in> set es. \<not> isDefaultEndpoint e}"
  by (induction es arbitrary: a) (auto split: sum.splits if_splits)

lemma allowlist_loop_total:
  "(\<forall>e \<in> set es. validateEndpointPath e = Inr ()) \<Longrightarrow> \<exists>b. allowlist_loop es a = Inr b"
  by (induction es arbitrary: a) auto

lemma validate_expiry_ok:
  "validate_expiry oe = Inr () \<longleftrightarrow> (\<forall>x. oe = Some x \<longrightarrow> oe_Anchor x = ''created_at''
    \<and> 3600 \<le> oe_Seconds x \<and> oe_Seconds x \<le> 2592000)"
  by (auto simp: validate_expiry_def MinExpirationSeconds_def MaxExpirationSeconds_def split: option.splits)

lemma duration_part_shorter: "duration_part s = Some (v, rest) \<Longrightarrow> length rest < length s"
proof -
  assume a: "duration_part s = Some (v, rest)"
  define ip r1 where "ip = takeWhile is_digit s" and "r1 = dropWhile is_digit s"
  have len: "length s = length ip + length r1"
    by (metis append_assoc ip_def length_append r1_def takeWhile_dropWhile_id)
  obtain fp r2 where fr: "(case r1 of c # cs \<Rightarrow> if c = dot then (takeWhile is_digit cs, dropWhile is_digit cs) else ([], r1)
                      | [] \<Rightarrow> ([], r1)) = (fp, r2)" by fastforce
  then have r2: "length fp + length r2 \<le> length r1"
    by (auto split: list.splits if_splits) (metis le_SucI length_append order_refl takeWhile_dropWhile_id)
  have rest: "rest = dropWhile (\<lambda>c. c \<noteq> dot \<and> \<not> is_digit c) r2" and ne: "ip \<noteq> [] \<or> fp \<noteq> []"
    using a fr unfolding duration_part_def ip_def [symmetric] r1_def [symmetric]
    by (auto simp: Let_def split: if_splits option.splits)
  have "length rest \<le> length r2" by (simp add: rest length_dropWhile_le)
  with len r2 ne show ?thesis by (cases ip; cases fp) auto
qed

lemma duration_loop_fuel:
  "length s < f \<Longrightarrow> length s < f' \<Longrightarrow> duration_loop f d s = duration_loop f' d s"
proof (induction f arbitrary: f' d s)
  case (Suc f)
  then obtain f'' where f': "f' = Suc f''" by (cases f') auto
  show ?case
  proof (cases "duration_part s")
    case (Some p)
    then obtain v rest where p: "duration_part s = Some (v, rest)" by (cases p) auto
    have "length rest < length s" by (rule duration_part_shorter [OF p])
    then have "duration_loop f (d + v) rest = duration_loop f'' (d + v) rest"
      using Suc.prems f' by (intro Suc.IH) auto
    then show ?thesis by (simp add: f' p)
  qed (simp add: f')
qed simp

section \<open>Properties\<close>

text \<open>
  The allowlist accepts exactly the five OpenAI endpoints and the configured
  extras, and a configuration is accepted only when every extra is a canonical
  absolute URL path: one leading slash, no query, fragment, percent escape or
  control byte, and unchanged by path cleaning; one malformed entry rejects the
  whole configuration.
\<close>

theorem allowlist_accepts_exactly:
  "(case NewEndpointAllowlist extra of
      Inr a \<Rightarrow> (\<forall>e. IsValid a e \<longleftrightarrow> isDefaultEndpoint e \<or> e \<in> set extra)
        \<and> (\<forall>e \<in> set extra. e ! 0 = slash \<and> CHR ''%'' \<notin> set e \<and> CHR ''?'' \<notin> set e \<and> CHR ''#'' \<notin> set e
              \<and> path_clean e = e)
    | Inl _ \<Rightarrow> \<exists>e \<in> set extra. validateEndpointPath e \<noteq> Inr ())"
proof (cases "NewEndpointAllowlist extra")
  case (Inr a)
  then have "(\<forall>e \<in> set extra. validateEndpointPath e = Inr ())
      \<and> set (al_extra a) = {e \<in> set extra. \<not> isDefaultEndpoint e}"
    using allowlist_loop_ok [of extra "\<lparr>al_extra = []\<rparr>" a] by (simp add: NewEndpointAllowlist_def)
  with Inr show ?thesis
    by (auto simp: IsValid_def validateEndpointPath_ok contains_any_def list_ex_iff)
next
  case (Inl er)
  have "\<not> (\<forall>e \<in> set extra. validateEndpointPath e = Inr ())"
    using Inl allowlist_loop_total [of extra "\<lparr>al_extra = []\<rparr>"] by (auto simp: NewEndpointAllowlist_def)
  with Inl show ?thesis by auto
qed

theorem allowlist_accepts_exactly_witness:
  "\<exists>a. NewEndpointAllowlist [''/v1/rerank''] = Inr a \<and> IsValid a ''/v1/rerank'' \<and> \<not> IsValid a ''/v1/files''"
proof -
  have "validateEndpointPath ''/v1/rerank'' = Inr ()"
    unfolding validateEndpointPath_ok
    by (simp add: slash_def contains_any_def is_ctl_def path_clean_def dot_def)
  then obtain a where a: "NewEndpointAllowlist [''/v1/rerank''] = Inr a"
    using allowlist_loop_total [of "[''/v1/rerank'']"] by (auto simp: NewEndpointAllowlist_def)
  with allowlist_accepts_exactly [of "[''/v1/rerank'']"] show ?thesis
    by (auto simp: isDefaultEndpoint_def EndpointResponses_def EndpointChatCompletions_def
        EndpointEmbeddings_def EndpointCompletions_def EndpointModerations_def)
qed


definition sample_request :: CreateBatchRequest where
  "sample_request = \<lparr>cr_InputFileID = ''file_1'', cr_Endpoint = ''/v1/completions'', cr_CompletionWindow = ''24h'',
     cr_Metadata = [(''k'', ''v'')], cr_OutputExpiresAfter = Some \<lparr>oe_Seconds = 3600, oe_Anchor = ''created_at''\<rparr>\<rparr>"


end
