(* ===== verification/Status_Updater.thy ===== *)
theory Status_Updater
  imports Batch_Queue Batch_Request
begin

text \<open>
  Status documents and their writes: the converters between API objects and
  database items (\<^verbatim>\<open>internal/shared/converter/batch_converter.go\<close>,
  \<^verbatim>\<open>internal/shared/batch_utils/job_info_builder.go\<close>) and the processor's status
  updater (\<^verbatim>\<open>internal/processor/worker/status_updater.go\<close>). The updater mutates the
  item it is given after a successful write; the new item is part of the result.
\<close>

section \<open>Converters\<close>

definition BatchToDBItem :: "Batch \<Rightarrow> string \<Rightarrow> tags \<Rightarrow> BatchItem res" where
  "BatchToDBItem batch tenantID tags =
    (let expiry = (case si_ExpiresAt (ba_Info batch) of None \<Rightarrow> 0 | Some t \<Rightarrow> t);
         window = sp_CompletionWindow (ba_Spec batch); created = sp_CreatedAt (ba_Spec batch);
         item = (\<lambda>prio. zero_item\<lparr>bi_ID := ba_ID batch, bi_TenantID := tenantID, bi_Expiry := expiry,
            bi_Tags := tags, bi_Spec := Some (ba_Spec batch), bi_Status := Some (ba_Info batch), bi_Priority := prio\<rparr>)
     in if window \<noteq> [] \<and> created > 0
        then (case ParseDuration window of
            None \<Rightarrow> Inl (ErrInvalid ''failed to parse completion window'')
          | Some d \<Rightarrow> Inr (item ((created * 1000000000 + d) div 1000)))
        else Inr (item 0))"

definition DBItemToBatch :: "BatchItem \<Rightarrow> Batch" where
  "DBItemToBatch item = \<lparr>ba_ID = bi_ID item,
     ba_Spec = (case bi_Spec item of None \<Rightarrow> zero_spec | Some sp \<Rightarrow> sp),
     ba_Info = (case bi_Status item of None \<Rightarrow> zero_status_info | Some i \<Rightarrow> i)\<rparr>"

definition TagPrefixPassThroughHeader :: string where "TagPrefixPassThroughHeader = ''pth:''"
definition TagPrefixOTel :: string where "TagPrefixOTel = ''otel:''"

record JobInfo =
  ji_JobID :: string
  ji_TenantID :: string
  ji_BatchJob :: Batch
  ji_PassThroughHeaders :: "(string \<times> string) list"
  ji_TraceContext :: "(string \<times> string) list"

definition FromDBItemToJobInfoObject :: "BatchItem \<Rightarrow> JobInfo" where
  "FromDBItemToJobInfoObject job =
    (let pth = filter (\<lambda>(k, v). has_prefix k TagPrefixPassThroughHeader) (bi_Tags job);
         otel = filter (\<lambda>(k, v). \<not> has_prefix k TagPrefixPassThroughHeader \<and> has_prefix k TagPrefixOTel) (bi_Tags job)
     in \<lparr>ji_JobID = bi_ID job, ji_TenantID = bi_TenantID job, ji_BatchJob = DBItemToBatch job,
         ji_PassThroughHeaders = map (\<lambda>(k, v). (trim_prefix k TagPrefixPassThroughHeader, v)) pth,
         ji_TraceContext = map (\<lambda>(k, v). (trim_prefix k TagPrefixOTel, v)) otel\<rparr>)"

section \<open>The updater\<close>

definition withFileIDs :: "string \<Rightarrow> string \<Rightarrow> BatchStatusInfo \<Rightarrow> BatchStatusInfo" where
  "withFileIDs outputFileID errorFileID info =
    (let i1 = (if outputFileID = [] then info else info\<lparr>si_OutputFileID := Some outputFileID\<rparr>)
     in if errorFileID = [] then i1 else i1\<lparr>si_ErrorFileID := Some errorFileID\<rparr>)"

definition BuildStatus ::
  "instant \<Rightarrow> BatchItem \<Rightarrow> BatchStatus \<Rightarrow> BatchRequestCounts option \<Rightarrow> instant option
    \<Rightarrow> (BatchStatusInfo \<Rightarrow> BatchStatusInfo) \<Rightarrow> BatchStatusInfo res" where
  "BuildStatus now dbJob newStatus counts slo modifier = (case bi_Status dbJob of
      None \<Rightarrow> Inl (ErrInvalid ''dbJob.Status is empty'')
    | Some original \<Rightarrow> (case BuildUpdatedStatusInfo now original newStatus counts slo of
          Inl e \<Rightarrow> Inl e
        | Inr updated \<Rightarrow> Inr (modifier updated)))"

definition updatePersistentStatus ::
  "conn \<Rightarrow> instant \<Rightarrow> BatchItem \<Rightarrow> BatchStatus \<Rightarrow> BatchRequestCounts option \<Rightarrow> instant option
    \<Rightarrow> BatchStatusInfo option \<Rightarrow> (BatchStatusInfo \<Rightarrow> BatchStatusInfo) \<Rightarrow> db \<Rightarrow> BatchItem res \<times> db" where
  "updatePersistentStatus c now dbJob newStatus counts slo expectedStatus modifier s =
    (case BuildStatus now dbJob newStatus counts slo modifier of
       Inl e \<Rightarrow> (Inl e, s)
     | Inr doc \<Rightarrow>
         (case DBUpdate c (zero_item\<lparr>bi_ID := bi_ID dbJob, bi_Status := Some doc, bi_Epoch := bi_Epoch dbJob,
                bi_ExpectedResumable := bi_ExpectedResumable dbJob\<rparr>) expectedStatus s of
            (Inl e, s') \<Rightarrow> (Inl e, s')
          | (Inr _, s') \<Rightarrow> (Inr (dbJob\<lparr>bi_Status := Some doc\<rparr>), s')))"

definition UpdatePersistentStatus ::
  "conn \<Rightarrow> instant \<Rightarrow> BatchItem \<Rightarrow> BatchStatus \<Rightarrow> BatchRequestCounts option \<Rightarrow> instant option
    \<Rightarrow> (BatchStatusInfo \<Rightarrow> BatchStatusInfo) \<Rightarrow> db \<Rightarrow> BatchItem res \<times> db" where
  "UpdatePersistentStatus c now dbJob newStatus counts slo modifier s =
    updatePersistentStatus c now dbJob newStatus counts slo None modifier s"

definition UpdateCompletedStatus ::
  "conn \<Rightarrow> instant \<Rightarrow> BatchItem \<Rightarrow> BatchRequestCounts option \<Rightarrow> string \<Rightarrow> string \<Rightarrow> db \<Rightarrow> BatchItem res \<times> db" where
  "UpdateCompletedStatus c now dbJob counts out err s =
    UpdatePersistentStatus c now dbJob BatchStatusCompleted counts None (withFileIDs out err) s"

definition UpdateFailedStatus ::
  "conn \<Rightarrow> instant \<Rightarrow> BatchItem \<Rightarrow> BatchRequestCounts option \<Rightarrow> string \<Rightarrow> string \<Rightarrow> db \<Rightarrow> BatchItem res \<times> db" where
  "UpdateFailedStatus c now dbJob counts out err s =
    updatePersistentStatus c now dbJob BatchStatusFailed counts None (bi_Status dbJob) (withFileIDs out err) s"

definition UpdateCancelledStatus ::
  "conn \<Rightarrow> instant \<Rightarrow> BatchItem \<Rightarrow> BatchRequestCounts option \<Rightarrow> string \<Rightarrow> string \<Rightarrow> db \<Rightarrow> BatchItem res \<times> db" where
  "UpdateCancelledStatus c now dbJob counts out err s =
    UpdatePersistentStatus c now dbJob BatchStatusCancelled counts None (withFileIDs out err) s"

definition UpdateExpiredStatus ::
  "conn \<Rightarrow> instant \<Rightarrow> BatchItem \<Rightarrow> BatchRequestCounts option \<Rightarrow> string \<Rightarrow> string \<Rightarrow> db \<Rightarrow> BatchItem res \<times> db" where
  "UpdateExpiredStatus c now dbJob counts out err s =
    UpdatePersistentStatus c now dbJob BatchStatusExpired counts None (withFileIDs out err) s"

definition UpdateProgressCounts ::
  "conn \<Rightarrow> string \<Rightarrow> int \<Rightarrow> BatchRequestCounts option \<Rightarrow> db \<Rightarrow> unit res \<times> db" where
  "UpdateProgressCounts c jobID e counts s = (case counts of
      None \<Rightarrow> (Inl (ErrInvalid ''requestCounts is nil''), s)
    | Some rc \<Rightarrow> DBUpdateProgress c jobID e rc s)"

section \<open>Lemmas\<close>

lemma BuildStatus_status:
  assumes "BuildStatus now job st counts slo m = Inr d" and "\<And>i. si_Status (m i) = si_Status i"
  shows "si_Status d = st"
  using assms BuildUpdatedStatusInfo_status by (auto simp: BuildStatus_def split: option.splits sum.splits)

lemma si_Status_withFileIDs [simp]: "si_Status (withFileIDs a b i) = si_Status i"
  by (simp add: withFileIDs_def Let_def)

lemma safe_updatePersistentStatus [keeps]:
  "safe (updatePersistentStatus c now job st counts slo expected m)"
proof (cases "BuildStatus now job st counts slo m")
  case (Inr doc)
  show ?thesis
    by (rule safe_wrap [OF safe_DBUpdate [of c "zero_item\<lparr>bi_ID := bi_ID job, bi_Status := Some doc,
        bi_Epoch := bi_Epoch job, bi_ExpectedResumable := bi_ExpectedResumable job\<rparr>" expected]])
      (simp add: updatePersistentStatus_def Inr split: prod.split sum.split)
qed (simp add: updatePersistentStatus_def [abs_def])

lemma safe_UpdatePersistentStatus [keeps]: "safe (UpdatePersistentStatus c now job st counts slo m)"
  by (rule safe_snd_cong [OF safe_updatePersistentStatus]) (simp add: UpdatePersistentStatus_def)

lemma safe_status_updates [keeps]:
  "safe (UpdateCompletedStatus c now job counts out err)" "safe (UpdateFailedStatus c now job counts out err)"
  "safe (UpdateCancelledStatus c now job counts out err)" "safe (UpdateExpiredStatus c now job counts out err)"
  by (rule safe_snd_cong [OF safe_UpdatePersistentStatus] safe_snd_cong [OF safe_updatePersistentStatus],
      simp add: UpdateCompletedStatus_def UpdateFailedStatus_def UpdateCancelledStatus_def UpdateExpiredStatus_def)+

lemma safe_UpdateProgressCounts [keeps]: "safe (UpdateProgressCounts c jobID e counts)"
proof (cases counts)
  case (Some rc)
  show ?thesis by (rule safe_snd_cong [OF safe_DBUpdateProgress]) (simp add: UpdateProgressCounts_def Some)
qed (simp add: UpdateProgressCounts_def [abs_def])

lemma BatchToDBItem_roundtrip:
  assumes "BatchToDBItem batch tenant tags = Inr item"
  shows "DBItemToBatch item = batch"
    and "DBItemToBatch (item_of_row True (row_of_item item)) = batch"
    and "bi_TenantID (item_of_row True (row_of_item item)) = tenant"
    and "sp_CompletionWindow (ba_Spec batch) \<noteq> [] \<Longrightarrow> sp_CreatedAt (ba_Spec batch) > 0 \<Longrightarrow>
         \<exists>d. ParseDuration (sp_CompletionWindow (ba_Spec batch)) = Some d
            \<and> row_priority (row_of_item item) = Some (secs (sp_CreatedAt (ba_Spec batch)) + d div 1000)"
proof -
  have div: "(c * 1000000000 + d) div 1000 = secs c + d div 1000" for c d :: int
    using div_mult_self2 [of 1000 d "c * 1000000"] by (simp add: secs_def algebra_simps)
  note defs = BatchToDBItem_def DBItemToBatch_def item_of_row_def row_of_item_def zero_item_def Let_def div
  show "DBItemToBatch item = batch" "DBItemToBatch (item_of_row True (row_of_item item)) = batch"
    "bi_TenantID (item_of_row True (row_of_item item)) = tenant"
    using assms by (auto simp: defs split: if_splits option.splits)
  show "\<exists>d. ParseDuration (sp_CompletionWindow (ba_Spec batch)) = Some d
            \<and> row_priority (row_of_item item) = Some (secs (sp_CreatedAt (ba_Spec batch)) + d div 1000)"
    if "sp_CompletionWindow (ba_Spec batch) \<noteq> []" "sp_CreatedAt (ba_Spec batch) > 0"
    using assms that by (auto simp: defs split: if_splits option.splits)
qed

section \<open>Properties\<close>

text \<open>
  A batch survives the database round trip: converting it to an item,
  storing and fetching it with its spec, and converting the item back yields
  the same batch; and the queue priority of the item is the instant, in
  microseconds, at which the completion window that starts at creation ends.
\<close>

theorem batch_item_roundtrip:
  assumes "BatchToDBItem batch tenant tags = Inr item"
  shows "DBItemToBatch item = batch
    \<and> DBItemToBatch (item_of_row True (row_of_item item)) = batch
    \<and> bi_TenantID (item_of_row True (row_of_item item)) = tenant
    \<and> (sp_CompletionWindow (ba_Spec batch) \<noteq> [] \<and> sp_CreatedAt (ba_Spec batch) > 0 \<longrightarrow>
         (\<exists>d. ParseDuration (sp_CompletionWindow (ba_Spec batch)) = Some d
            \<and> row_priority (row_of_item item) = Some (secs (sp_CreatedAt (ba_Spec batch)) + d div 1000)))"
  using BatchToDBItem_roundtrip [OF assms] by blast

definition sample_batch :: Batch where
  "sample_batch = \<lparr>ba_ID = ''b9'', ba_Spec = zero_spec\<lparr>sp_CompletionWindow := ''24h'', sp_CreatedAt := 1000\<rparr>,
     ba_Info = sample_info\<rparr>"

theorem batch_item_roundtrip_witness:
  "\<exists>item. BatchToDBItem sample_batch ''t'' [] = Inr item \<and> DBItemToBatch item = sample_batch
    \<and> row_priority (row_of_item item) = Some 87400000000"
proof -
  have d: "ParseDuration ''24h'' = Some 86400000000000" by code_simp
  then obtain item where "BatchToDBItem sample_batch ''t'' [] = Inr item"
    by (simp add: BatchToDBItem_def sample_batch_def)
  with batch_item_roundtrip [OF this] d show ?thesis
    by (auto simp: sample_batch_def secs_def)
qed

end
