(* ===== verification/Resumable_Store.thy ===== *)
theory Resumable_Store
  imports Batch_Queue
begin

text \<open>
  The resumable batch, lease and entry stores
  (\<^verbatim>\<open>internal/database/postgresql/batch_resumable.go\<close>, contracts in
  \<^verbatim>\<open>internal/database/api/resumable.go\<close>). A batch is activated together with one
  entry per request; afterwards every entry write is fenced on the owner, the
  epoch and an unexpired lease of the batch row.
\<close>

section \<open>Types\<close>

record ResumableActivationEntry =
  ae_RequestID :: string
  ae_Ordinal :: int
  ae_CustomID :: string
  ae_Status :: ResumableEntryStatus
  ae_ErrorCode :: string
  ae_ResultKey :: string
  ae_ResultBytes :: int
  ae_ResultSHA256 :: string

record ResumableActivation =
  ac_BatchID :: string
  ac_ProcessorID :: string
  ac_Epoch :: int
  ac_LeaseTTL :: duration
  ac_Entries :: "ResumableActivationEntry list"

record ResumableResult =
  rr_Status :: ResumableEntryStatus
  rr_ResultKey :: string
  rr_ResultBytes :: int
  rr_ResultSHA256 :: string
  rr_ErrorCode :: string

record ResumableFinalization =
  fi_BatchID :: string
  fi_ProcessorID :: string
  fi_Epoch :: int
  fi_ExpectedStatus :: string
  fi_Status :: "BatchStatusInfo option"

record ResumableEntry =
  re_BatchID :: string
  re_RequestID :: string
  re_Ordinal :: int
  re_CustomID :: string
  re_Status :: ResumableEntryStatus
  re_Attempts :: int
  re_SubmittedBy :: string
  re_ResultKey :: string
  re_ResultBytes :: int
  re_ResultSHA256 :: string
  re_ErrorCode :: string

record ResumableResumeState =
  rs_Pending :: int
  rs_InFlight :: int
  rs_Completed :: int
  rs_Failed :: int
  rs_TerminalRequestIDs :: "string list"
  rs_InFlightSubmittedBy :: "(string \<times> string) list"

text \<open>An empty string or a zero size is stored as NULL and read back as the zero value.\<close>

definition nullable :: "string \<Rightarrow> string option" where
  "nullable x = (if x = [] then None else Some x)"

definition nullable_int :: "int \<Rightarrow> int option" where
  "nullable_int n = (if n > 0 then Some n else None)"

definition unnull :: "string option \<Rightarrow> string" where
  "unnull x = (case x of None \<Rightarrow> [] | Some y \<Rightarrow> y)"

section \<open>Activation\<close>

definition activate_candidate :: "ResumableActivation \<Rightarrow> db \<Rightarrow> batch_row \<Rightarrow> bool" where
  "activate_candidate a s r =
    (row_id r = ac_BatchID a \<and> row_processor r = Some (ac_ProcessorID a) \<and> row_epoch r = ac_Epoch a
     \<and> row_state r = Some BatchStatusValidating \<and> \<not> row_resumable r
     \<and> \<not> list_ex (\<lambda>e. en_batch e = ac_BatchID a) (batch_entries s))"

text \<open>
  The JSON of an activation entry omits an empty code, key or digest and a zero
  size, and the record set the statement expands it to holds NULL there.
\<close>

definition entry_of_activation :: "instant \<Rightarrow> string \<Rightarrow> ResumableActivationEntry \<Rightarrow> entry_row" where
  "entry_of_activation now batch a =
    \<lparr>en_batch = batch, en_request = ae_RequestID a, en_ordinal = ae_Ordinal a, en_custom = ae_CustomID a,
     en_status = ae_Status a, en_attempts = 0, en_submitted = None,
     en_key = nullable (ae_ResultKey a),
     en_bytes = (if ae_ResultBytes a = 0 then None else Some (ae_ResultBytes a)),
     en_sha = nullable (ae_ResultSHA256 a), en_code = nullable (ae_ErrorCode a),
     en_completed_at = (if ae_Status a = ResumableEntryFailed then Some now else None)\<rparr>"

definition activate_eff :: "instant \<Rightarrow> duration \<Rightarrow> batch_row \<Rightarrow> batch_row" where
  "activate_eff now ttl r = r
    \<lparr>row_status := map_option (\<lambda>d. d\<lparr>si_Status := BatchStatusInProgress, si_InProgressAt := Some (unix now)\<rparr>)
       (row_status r),
     row_resumable := True, row_lease := Some (now + secs (dur_secs ttl))\<rparr>"

text \<open>
  One statement inserts the entries and flips the row. A duplicate request ID
  violates the primary key of \<^verbatim>\<open>batch_entries\<close> and aborts it.
\<close>

definition activate_stmt :: "instant \<Rightarrow> ResumableActivation \<Rightarrow> db \<Rightarrow> nat option \<times> db" where
  "activate_stmt now a s =
    (let n = sql_count (activate_candidate a s) (batch_items s) in
     if n = 0 then (Some 0, s)
     else if \<not> distinct (map ae_RequestID (ac_Entries a)) then (None, s)
     else (Some n, s\<lparr>batch_items := sql_update (activate_candidate a s) (activate_eff now (ac_LeaseTTL a)) (batch_items s),
            batch_entries := batch_entries s @ map (entry_of_activation now (ac_BatchID a)) (ac_Entries a)\<rparr>))"

definition ActivateResumableBatch :: "conn \<Rightarrow> instant \<Rightarrow> ResumableActivation \<Rightarrow> db \<Rightarrow> unit res \<times> db" where
  "ActivateResumableBatch c now a s =
    (if ac_BatchID a = [] \<or> ac_ProcessorID a = [] then (Inl (ErrInvalid ''batch ID and processor ID are required''), s)
     else if ac_LeaseTTL a \<le> 0 then (Inl (ErrInvalid ''lease TTL must be > 0''), s)
     else if ac_Entries a = [] then (Inl (ErrInvalid ''empty entry set''), s)
     else case exec_stmt c (activate_stmt now a) s of
        (Inl e, s') \<Rightarrow> (Inl e, s')
      | (Inr None, s') \<Rightarrow> (Inl ErrDB, s')
      | (Inr (Some n), s') \<Rightarrow> (if n = 0 then Inl ErrConflict else Inr (), s'))"

section \<open>Leases\<close>

definition renew_guard :: "instant \<Rightarrow> string \<Rightarrow> string \<Rightarrow> int \<Rightarrow> batch_row \<Rightarrow> bool" where
  "renew_guard now k pid e r =
    (row_id r = k \<and> row_processor r = Some pid \<and> row_epoch r = e \<and> row_resumable r
     \<and> (case row_lease r of None \<Rightarrow> False | Some l \<Rightarrow> now < l) \<and> nonTerminalCondition r)"

definition RenewResumableBatchLease ::
  "conn \<Rightarrow> instant \<Rightarrow> string \<Rightarrow> string \<Rightarrow> int \<Rightarrow> duration \<Rightarrow> db \<Rightarrow> unit res \<times> db" where
  "RenewResumableBatchLease c now k pid e ttl s =
    (if ttl \<le> 0 then (Inl (ErrInvalid ''lease TTL must be > 0''), s)
     else case exec_stmt c (update_items (renew_guard now k pid e)
            (\<lambda>r. r\<lparr>row_lease := Some (now + secs (dur_secs ttl))\<rparr>)) s of
        (Inl er, s') \<Rightarrow> (Inl er, s')
      | (Inr n, s') \<Rightarrow> (if n = 0 then Inl ErrConflict else Inr (), s'))"

definition requeue_guard :: "instant \<Rightarrow> string \<Rightarrow> string \<Rightarrow> int \<Rightarrow> bool \<Rightarrow> batch_row \<Rightarrow> bool" where
  "requeue_guard now k pid e requireExpiredLease r =
    (row_id r = k \<and> row_processor r = Some pid \<and> row_epoch r = e \<and> row_resumable r \<and> nonTerminalCondition r
     \<and> (requireExpiredLease \<longrightarrow> (case row_lease r of None \<Rightarrow> False | Some l \<Rightarrow> l \<le> now)))"

definition requeue_eff :: "bool \<Rightarrow> batch_row \<Rightarrow> batch_row" where
  "requeue_eff bumpAttempts r = r
    \<lparr>row_processor := None, row_lease := None, row_epoch := row_epoch r + 1,
     row_attempts := (if bumpAttempts then row_attempts r + 1 else row_attempts r)\<rparr>"

definition submitter_guard :: "string \<Rightarrow> entry_row \<Rightarrow> bool" where
  "submitter_guard k en = (en_batch en = k \<and> en_status en = ResumableEntryInFlight \<and> en_submitted en = None)"

definition RequeueResumableOrphan ::
  "conn \<Rightarrow> conn \<Rightarrow> instant \<Rightarrow> string \<Rightarrow> string \<Rightarrow> int \<Rightarrow> bool \<Rightarrow> bool \<Rightarrow> db \<Rightarrow> unit res \<times> db" where
  "RequeueResumableOrphan c c2 now k pid e requireExpiredLease bumpAttempts s =
    (case exec_stmt c (update_items (requeue_guard now k pid e requireExpiredLease) (requeue_eff bumpAttempts)) s of
        (Inl er, s') \<Rightarrow> (Inl er, s')
      | (Inr n, s') \<Rightarrow>
          if n = 0 then (Inr (), s')
          else (case exec_stmt c2 (update_entries (submitter_guard k) (\<lambda>en. en\<lparr>en_submitted := Some pid\<rparr>)) s' of
              (Inl er, s'') \<Rightarrow> (Inl er, s'')
            | (Inr _, s'') \<Rightarrow> (Inr (), s'')))"

definition finalize_guard :: "instant \<Rightarrow> ResumableFinalization \<Rightarrow> batch_row \<Rightarrow> bool" where
  "finalize_guard now fin r =
    (row_id r = fi_BatchID fin \<and> row_processor r = Some (fi_ProcessorID fin) \<and> row_epoch r = fi_Epoch fin
     \<and> row_resumable r \<and> (case row_lease r of None \<Rightarrow> False | Some l \<Rightarrow> now < l)
     \<and> map_option status_name (row_state r) = Some (fi_ExpectedStatus fin))"

definition finalize_eff :: "ResumableFinalization \<Rightarrow> batch_row \<Rightarrow> batch_row" where
  "finalize_eff fin r = r\<lparr>row_status := fi_Status fin, row_resumable := False, row_lease := None\<rparr>"

definition FinalizeResumableBatch ::
  "conn \<Rightarrow> conn \<Rightarrow> instant \<Rightarrow> ResumableFinalization \<Rightarrow> db \<Rightarrow> unit res \<times> db" where
  "FinalizeResumableBatch c c2 now fin s =
    (if fi_BatchID fin = [] \<or> fi_ProcessorID fin = [] then (Inl (ErrInvalid ''batch ID and processor ID are required''), s)
     else if fi_ExpectedStatus fin = [] \<or> fi_Status fin = None
     then (Inl (ErrInvalid ''expected and target status are required''), s)
     else case exec_stmt c (update_items (finalize_guard now fin) (finalize_eff fin)) s of
        (Inl e, s') \<Rightarrow> (Inl e, s')
      | (Inr n, s') \<Rightarrow>
          if n > 0 then (Inr (), s')
          else if c2 \<noteq> ConnOk then (Inl ErrDB, s')
          else (case find_item (fi_BatchID fin) s' of
              None \<Rightarrow> (Inl ErrConflict, s')
            | Some r \<Rightarrow> (if row_status r \<noteq> None \<and> row_status r = fi_Status fin then Inr () else Inl ErrConflict, s')))"

section \<open>Entries\<close>

text \<open>\<open>ownerLockCTE\<close>: the batch is owned at this epoch with an unexpired lease and is active.\<close>

definition owner_lock :: "instant \<Rightarrow> string \<Rightarrow> string \<Rightarrow> int \<Rightarrow> db \<Rightarrow> bool" where
  "owner_lock now k pid e s = list_ex (renew_guard now k pid e) (batch_items s)"

definition open_entry :: "string \<Rightarrow> string \<Rightarrow> entry_row \<Rightarrow> bool" where
  "open_entry k q en = (en_batch en = k \<and> en_request en = q
    \<and> (en_status en = ResumableEntryPending \<or> en_status en = ResumableEntryInFlight))"

definition entry_stmt ::
  "instant \<Rightarrow> string \<Rightarrow> string \<Rightarrow> string \<Rightarrow> int \<Rightarrow> (entry_row \<Rightarrow> entry_row) \<Rightarrow> db \<Rightarrow> nat \<times> db" where
  "entry_stmt now k q pid e eff s =
    update_entries (\<lambda>en. owner_lock now k pid e s \<and> open_entry k q en) eff s"

text \<open>
  \<^verbatim>\<open>entryNotUpdatable\<close>: the join finds the entry only when the caller still owns the
  batch at its epoch; every query error counts as a lost fence.
\<close>

definition entryNotUpdatable :: "conn \<Rightarrow> string \<Rightarrow> string \<Rightarrow> string \<Rightarrow> int \<Rightarrow> db \<Rightarrow> unit res" where
  "entryNotUpdatable c k q pid e s =
    (if c \<noteq> ConnOk then Inl ErrConflict
     else case find_entry (k, q) s of
        None \<Rightarrow> Inl ErrConflict
      | Some en \<Rightarrow>
          if list_ex (\<lambda>r. row_id r = k \<and> row_processor r = Some pid \<and> row_epoch r = e) (batch_items s)
             \<and> entry_terminal (en_status en)
          then Inr () else Inl ErrConflict)"

definition entry_write ::
  "conn \<Rightarrow> conn \<Rightarrow> instant \<Rightarrow> string \<Rightarrow> string \<Rightarrow> string \<Rightarrow> int \<Rightarrow> (entry_row \<Rightarrow> entry_row) \<Rightarrow> db \<Rightarrow> bool res \<times> db" where
  "entry_write c c2 now k q pid e eff s =
    (case exec_stmt c (entry_stmt now k q pid e eff) s of
        (Inl er, s') \<Rightarrow> (Inl er, s')
      | (Inr n, s') \<Rightarrow>
          if n > 0 then (Inr True, s')
          else (case entryNotUpdatable c2 k q pid e s' of Inl er \<Rightarrow> (Inl er, s') | Inr _ \<Rightarrow> (Inr False, s')))"

definition mark_eff :: "string \<Rightarrow> entry_row \<Rightarrow> entry_row" where
  "mark_eff pid en = en\<lparr>en_status := ResumableEntryInFlight, en_attempts := en_attempts en + 1,
     en_submitted := Some pid\<rparr>"

definition MarkEntryInFlight ::
  "conn \<Rightarrow> conn \<Rightarrow> instant \<Rightarrow> string \<Rightarrow> string \<Rightarrow> string \<Rightarrow> int \<Rightarrow> db \<Rightarrow> bool res \<times> db" where
  "MarkEntryInFlight c c2 now k q pid e s = entry_write c c2 now k q pid e (mark_eff pid) s"

definition checkpoint_eff :: "instant \<Rightarrow> ResumableResult \<Rightarrow> entry_row \<Rightarrow> entry_row" where
  "checkpoint_eff now res en = en
    \<lparr>en_status := rr_Status res, en_key := nullable (rr_ResultKey res),
     en_bytes := nullable_int (rr_ResultBytes res), en_sha := nullable (rr_ResultSHA256 res),
     en_code := nullable (rr_ErrorCode res), en_completed_at := Some now\<rparr>"

definition CheckpointEntryResult ::
  "conn \<Rightarrow> conn \<Rightarrow> instant \<Rightarrow> string \<Rightarrow> string \<Rightarrow> string \<Rightarrow> int \<Rightarrow> ResumableResult \<Rightarrow> db \<Rightarrow> bool res \<times> db" where
  "CheckpointEntryResult c c2 now k q pid e res s =
    (if rr_Status res \<noteq> ResumableEntryCompleted \<and> rr_Status res \<noteq> ResumableEntryFailed
     then (Inl (ErrInvalid ''status must be completed or failed''), s)
     else entry_write c c2 now k q pid e (checkpoint_eff now res) s)"

section \<open>Reads\<close>

definition scanEntryRow :: "entry_row \<Rightarrow> ResumableEntry" where
  "scanEntryRow en =
    \<lparr>re_BatchID = en_batch en, re_RequestID = en_request en, re_Ordinal = en_ordinal en,
     re_CustomID = en_custom en, re_Status = en_status en, re_Attempts = en_attempts en,
     re_SubmittedBy = unnull (en_submitted en), re_ResultKey = unnull (en_key en),
     re_ResultBytes = (case en_bytes en of None \<Rightarrow> 0 | Some n \<Rightarrow> n),
     re_ResultSHA256 = unnull (en_sha en), re_ErrorCode = unnull (en_code en)\<rparr>"

definition entries_of :: "string \<Rightarrow> db \<Rightarrow> entry_row list" where
  "entries_of k s = sort_key en_ordinal (filter (\<lambda>en. en_batch en = k) (batch_entries s))"

definition EntryResumeState :: "conn \<Rightarrow> conn \<Rightarrow> string \<Rightarrow> db \<Rightarrow> ResumableResumeState res" where
  "EntryResumeState c c2 k s =
    (if c \<noteq> ConnOk \<or> c2 \<noteq> ConnOk then Inl ErrDB
     else let count = (\<lambda>st. int (length (filter (\<lambda>en. en_status en = st) (entries_of k s)))) in
       Inr \<lparr>rs_Pending = count ResumableEntryPending, rs_InFlight = count ResumableEntryInFlight,
            rs_Completed = count ResumableEntryCompleted, rs_Failed = count ResumableEntryFailed,
            rs_TerminalRequestIDs = map en_request (filter (\<lambda>en. entry_terminal (en_status en)) (entries_of k s)),
            rs_InFlightSubmittedBy = []\<rparr>)"

definition ListBatchEntries :: "conn \<Rightarrow> string \<Rightarrow> int \<Rightarrow> int \<Rightarrow> db \<Rightarrow> ResumableEntry list res" where
  "ListBatchEntries c k afterOrdinal limit s =
    (if limit \<le> 0 then Inl (ErrInvalid ''limit must be > 0'')
     else if c \<noteq> ConnOk then Inl ErrDB
     else Inr (map scanEntryRow (take (nat limit) (filter (\<lambda>en. afterOrdinal < en_ordinal en) (entries_of k s)))))"

definition FindEntryByRequestID :: "conn \<Rightarrow> string \<Rightarrow> string \<Rightarrow> db \<Rightarrow> ResumableEntry option res" where
  "FindEntryByRequestID c k q s =
    (if c \<noteq> ConnOk then Inl ErrDB else Inr (map_option scanEntryRow (find_entry (k, q) s)))"

definition HasOpenEntryByRequest :: "conn \<Rightarrow> string \<Rightarrow> db \<Rightarrow> bool res" where
  "HasOpenEntryByRequest c q s =
    (if c \<noteq> ConnOk then Inl ErrDB
     else Inr (list_ex (\<lambda>en. en_request en = q \<and> (en_status en = ResumableEntryPending
                 \<or> en_status en = ResumableEntryInFlight)) (batch_entries s)))"

section \<open>Interpretations and safety\<close>

interpretation renew: fenced_update row_id row_epoch "renew_guard now k pid e" "\<lambda>r. r\<lparr>row_lease := l\<rparr>" k e
  for now k pid e l
  by unfold_locales (simp_all add: renew_guard_def)

interpretation requeue: fenced_update row_id row_epoch "requeue_guard now k pid e req" "requeue_eff bump" k e
  for now k pid e req bump
  by unfold_locales (simp_all add: requeue_guard_def requeue_eff_def)

interpretation fin: fenced_update row_id row_epoch "finalize_guard now f" "finalize_eff f" "fi_BatchID f" "fi_Epoch f"
  for now f
  by unfold_locales (simp_all add: finalize_guard_def finalize_eff_def)

interpretation act: fenced_update row_id row_epoch "activate_candidate a s" "activate_eff now ttl" "ac_BatchID a" "ac_Epoch a"
  for a s now ttl
  by unfold_locales (simp_all add: activate_candidate_def activate_eff_def)

lemma find_item_update_entries_stmt [simp]: "find_item k (snd (update_entries g f s)) = find_item k s"
  by (simp add: update_entries_def)

lemma find_item_Requeue:
  "find_item k (snd (RequeueResumableOrphan c c2 now k' pid e req bump s))
    = (if c = ConnFail then find_item k s
       else map_option (\<lambda>r. if requeue_guard now k' pid e req r then requeue_eff bump r else r) (find_item k s))"
proof -
  have key: "requeue_guard now k' pid e req r \<Longrightarrow> row_id (requeue_eff bump r) = row_id r" for r
    by (simp add: requeue_eff_def)
  note upd = find_item_update_items [of "requeue_guard now k' pid e req" "requeue_eff bump", OF key]
  show ?thesis
    by (cases c; cases c2) (auto simp: RequeueResumableOrphan_def upd)
qed

lemma entry_terminal_iff:
  "entry_terminal st \<longleftrightarrow> st \<noteq> ResumableEntryPending \<and> st \<noteq> ResumableEntryInFlight"
  by (cases st) simp_all

lemma open_entry_not_terminal: "open_entry k q en \<Longrightarrow> \<not> entry_terminal (en_status en)"
  by (auto simp: open_entry_def)

lemma safe_activate_stmt: "safe (activate_stmt now a)"
  unfolding safe_def
proof (intro allI impI)
  fix s assume s: "db_ok s"
  let ?g = "activate_candidate a s" and ?f = "activate_eff now (ac_LeaseTTL a)"
  let ?new = "map (entry_of_activation now (ac_BatchID a)) (ac_Entries a)"
  let ?mid = "snd (update_items ?g ?f s)"
  show "db_ok (snd (activate_stmt now a s)) \<and> db_evolves s (snd (activate_stmt now a s))"
  proof (cases "sql_count ?g (batch_items s) = 0 \<or> \<not> distinct (map ae_RequestID (ac_Entries a))")
    case True
    then show ?thesis using s by (auto simp: activate_stmt_def Let_def)
  next
    case False
    have "safe (update_items ?g ?f)"
      by (rule safe_update_items)
        (auto simp: activate_candidate_def activate_eff_def row_evolves_def row_ok_def)
    then have mid: "db_ok ?mid" "db_evolves s ?mid"
      using s by (simp_all add: safe_def)
    have res: "snd (activate_stmt now a s) = ?mid\<lparr>batch_entries := batch_entries ?mid @ ?new\<rparr>"
      using False by (simp add: activate_stmt_def Let_def update_items_def)
    from False obtain r where "r \<in> set (batch_items s)" and r: "?g r"
      by (auto simp: sql_count_0_iff)
    then have "ac_BatchID a \<in> set (map row_id (batch_items s))"
      by (simp add: activate_candidate_def rev_image_eqI)
    moreover have "map row_id (batch_items ?mid) = map row_id (batch_items s)"
      by (simp add: update_items_def act.keys)
    ultimately have row: "ac_BatchID a \<in> row_id ` set (batch_items ?mid)"
      by (metis list.set_map)
    have none: "\<forall>e \<in> set (batch_entries ?mid). en_batch e \<noteq> ac_BatchID a"
      using r by (auto simp: activate_candidate_def list_ex_iff update_items_def)
    have "map entry_key ?new = map (Pair (ac_BatchID a)) (map ae_RequestID (ac_Entries a))"
      by (simp add: entry_key_def entry_of_activation_def)
    then have new: "distinct (map entry_key ?new)"
      using False by (simp add: distinct_map inj_on_def)
    have "db_ok (?mid\<lparr>batch_entries := batch_entries ?mid @ ?new\<rparr>)"
      using mid(1) new none row
      by (auto simp: db_ok_def list_all_iff entry_key_def entry_of_activation_def)
    moreover have "db_evolves ?mid (?mid\<lparr>batch_entries := batch_entries ?mid @ ?new\<rparr>)"
      by (auto simp: db_evolves_def find_item_def find_entry_def by_key_append split: option.splits)
    ultimately show ?thesis
      unfolding res using mid db_evolves_trans by blast
  qed
qed

lemma safe_ActivateResumableBatch [keeps]: "safe (ActivateResumableBatch c now a)"
  by (rule safe_wrap [OF safe_exec [OF safe_activate_stmt, of c now a]])
    (simp add: ActivateResumableBatch_def split: prod.split sum.split option.split)

lemma safe_RenewResumableBatchLease [keeps]: "safe (RenewResumableBatchLease c now k pid e ttl)"
proof -
  have "safe (update_items (renew_guard now k pid e) (\<lambda>r. r\<lparr>row_lease := Some (now + secs (dur_secs ttl))\<rparr>))"
    by (rule safe_update_items) (auto simp: renew_guard_def row_evolves_def row_ok_def)
  from safe_exec [OF this, of c] show ?thesis
    by (rule safe_wrap) (simp add: RenewResumableBatchLease_def split: prod.split sum.split)
qed

lemma safe_RequeueResumableOrphan [keeps]: "safe (RequeueResumableOrphan c c2 now k pid e req bump)"
proof -
  have "safe (update_items (requeue_guard now k pid e req) (requeue_eff bump))"
    by (rule safe_update_items) (auto simp: requeue_guard_def requeue_eff_def row_evolves_def row_ok_def)
  note a = safe_exec [OF this, of c]
  have "safe (update_entries (submitter_guard k) (\<lambda>en. en\<lparr>en_submitted := Some pid\<rparr>))"
    by (rule safe_update_entries) (auto simp: submitter_guard_def entry_evolves_def entry_key_def)
  note b = safe_exec [OF this, of c2]
  show ?thesis
    unfolding safe_def
  proof (intro allI impI)
    fix s assume s: "db_ok s"
    obtain x s1 where 1: "exec_stmt c (update_items (requeue_guard now k pid e req) (requeue_eff bump)) s = (x, s1)"
      by fastforce
    obtain y s2 where 2: "exec_stmt c2 (update_entries (submitter_guard k) (\<lambda>en. en\<lparr>en_submitted := Some pid\<rparr>)) s1 = (y, s2)"
      by fastforce
    have s1: "db_ok s1" "db_evolves s s1"
      using safeD [OF a s] by (simp_all add: 1)
    have s2: "db_ok s2" "db_evolves s1 s2"
      using safeD [OF b s1(1)] by (simp_all add: 2)
    have "snd (RequeueResumableOrphan c c2 now k pid e req bump s) \<in> {s1, s2}"
      by (auto simp: RequeueResumableOrphan_def 1 2 split: sum.splits)
    then show "db_ok (snd (RequeueResumableOrphan c c2 now k pid e req bump s))
        \<and> db_evolves s (snd (RequeueResumableOrphan c c2 now k pid e req bump s))"
      using s1 s2 db_evolves_trans by auto
  qed
qed

lemma safe_FinalizeResumableBatch [keeps]: "safe (FinalizeResumableBatch c c2 now f)"
proof -
  have "safe (update_items (finalize_guard now f) (finalize_eff f))"
    by (rule safe_update_items) (auto simp: finalize_guard_def finalize_eff_def row_evolves_def row_ok_def)
  from safe_exec [OF this, of c] show ?thesis
    by (rule safe_wrap) (simp add: FinalizeResumableBatch_def split: prod.split sum.split option.split)
qed

lemma safe_entry_write:
  assumes "\<And>en. open_entry k q en \<Longrightarrow> entry_evolves en (eff en)"
  shows "safe (entry_write c c2 now k q pid e eff)"
proof -
  have "safe (update_entries (\<lambda>en. b \<and> open_entry k q en) eff)" for b
    by (rule safe_update_entries) (simp add: assms)
  then have "safe (entry_stmt now k q pid e eff)"
    by (simp add: safe_def entry_stmt_def)
  from safe_exec [OF this, of c] show ?thesis
    by (rule safe_wrap) (simp add: entry_write_def split: prod.split sum.split)
qed

lemma safe_MarkEntryInFlight [keeps]: "safe (MarkEntryInFlight c c2 now k q pid e)"
proof -
  have "safe (entry_write c c2 now k q pid e (mark_eff pid))"
    by (rule safe_entry_write)
      (auto simp: mark_eff_def entry_evolves_def entry_key_def dest: open_entry_not_terminal)
  then show ?thesis by (simp add: safe_def MarkEntryInFlight_def)
qed

lemma safe_CheckpointEntryResult [keeps]: "safe (CheckpointEntryResult c c2 now k q pid e res)"
proof -
  have "safe (entry_write c c2 now k q pid e (checkpoint_eff now res))"
    by (rule safe_entry_write)
      (auto simp: checkpoint_eff_def entry_evolves_def entry_key_def dest: open_entry_not_terminal)
  then show ?thesis by (simp add: safe_def CheckpointEntryResult_def)
qed

section \<open>What an entry write does\<close>

text \<open>The caller is the recorded owner of the batch at its epoch, with or without a live lease.\<close>

definition holds :: "string \<Rightarrow> string \<Rightarrow> int \<Rightarrow> db \<Rightarrow> bool" where
  "holds k pid e s = list_ex (\<lambda>r. row_id r = k \<and> row_processor r = Some pid \<and> row_epoch r = e) (batch_items s)"

definition put_entry :: "string \<times> string \<Rightarrow> (entry_row \<Rightarrow> entry_row) \<Rightarrow> db \<Rightarrow> db" where
  "put_entry k eff s = s\<lparr>batch_entries := sql_update (\<lambda>x. entry_key x = k) eff (batch_entries s)\<rparr>"

lemma owner_lock_holds: "owner_lock now k pid e s \<Longrightarrow> holds k pid e s"
  by (auto simp: owner_lock_def holds_def list_ex_iff renew_guard_def)

lemma owner_lock_iff:
  "db_ok s \<Longrightarrow> owner_lock now k pid e s \<longleftrightarrow> (\<exists>r. find_item k s = Some r \<and> renew_guard now k pid e r)"
  by (auto simp: owner_lock_def list_ex_iff db_ok_by_key renew_guard_def)

lemma holds_iff:
  "db_ok s \<Longrightarrow> holds k pid e s \<longleftrightarrow>
    (\<exists>r. find_item k s = Some r \<and> row_processor r = Some pid \<and> row_epoch r = e)"
  by (auto simp: holds_def list_ex_iff db_ok_by_key)

lemma open_entry_count:
  assumes "db_ok s"
  shows "sql_count (\<lambda>en. b \<and> open_entry k q en) (batch_entries s)
    = (case find_entry (k, q) s of None \<Rightarrow> 0
       | Some en \<Rightarrow> if b \<and> \<not> entry_terminal (en_status en) then 1 else 0)"
proof -
  have "distinct (map entry_key (batch_entries s))" using assms by (simp add: db_ok_def)
  from sql_count_by_key [OF this, of "\<lambda>en. b \<and> open_entry k q en" "(k, q)"]
  show ?thesis
    by (auto simp: find_entry_def open_entry_def entry_key_def entry_terminal_iff
        split: option.splits dest!: by_key_SomeD)
qed

lemma put_entry_alt:
  assumes "db_ok s" and "find_entry (k, q) s = Some en" and "\<not> entry_terminal (en_status en)"
  shows "sql_update (\<lambda>x. open_entry k q x) eff (batch_entries s)
    = sql_update (\<lambda>x. entry_key x = (k, q)) eff (batch_entries s)"
proof -
  have "open_entry k q x \<longleftrightarrow> entry_key x = (k, q)" if "x \<in> set (batch_entries s)" for x
  proof -
    have "entry_key x = (k, q) \<Longrightarrow> x = en"
      using that assms(2) db_ok_by_key(2) [OF assms(1)] by (metis option.inject)
    then show ?thesis
      using assms(3) by (auto simp: open_entry_def entry_key_def entry_terminal_iff)
  qed
  then show ?thesis by (simp add: sql_update_def)
qed

lemma entry_write_cases:
  assumes s: "db_ok s"
  shows "entry_write ConnOk ConnOk now k q pid e eff s =
    (case find_entry (k, q) s of
       None \<Rightarrow> (Inl ErrConflict, s)
     | Some en \<Rightarrow>
         if entry_terminal (en_status en)
         then (if holds k pid e s then Inr False else Inl ErrConflict, s)
         else if owner_lock now k pid e s then (Inr True, put_entry (k, q) eff s)
         else (Inl ErrConflict, s))"
proof (cases "find_entry (k, q) s")
  case None
  then have "sql_count (\<lambda>en. owner_lock now k pid e s \<and> open_entry k q en) (batch_entries s) = 0"
    by (simp add: open_entry_count [OF s])
  with None show ?thesis
    by (simp add: entry_write_def entry_stmt_def update_entries_def entryNotUpdatable_def sql_update_noop)
next
  case (Some en)
  show ?thesis
  proof (cases "owner_lock now k pid e s \<and> \<not> entry_terminal (en_status en)")
    case True
    have "sql_count (open_entry k q) (batch_entries s) = 1"
      using open_entry_count [OF s, of True k q] Some True by simp
    with True show ?thesis
      using Some s by (simp add: entry_write_def entry_stmt_def update_entries_def put_entry_alt put_entry_def)
  next
    case False
    then have "sql_count (\<lambda>en. owner_lock now k pid e s \<and> open_entry k q en) (batch_entries s) = 0"
      using Some by (simp add: open_entry_count [OF s])
    with False Some show ?thesis
      by (auto simp: entry_write_def entry_stmt_def update_entries_def entryNotUpdatable_def sql_update_noop
          holds_def)
  qed
qed

lemma find_entry_put:
  "(\<And>en. entry_key (eff en) = entry_key en) \<Longrightarrow>
    find_entry k' (put_entry k eff s) = (if k' = k then map_option eff (find_entry k' s) else find_entry k' s)"
proof -
  assume "\<And>en. entry_key (eff en) = entry_key en"
  then have "find_entry k' (put_entry k eff s)
      = map_option (\<lambda>x. if entry_key x = k then eff x else x) (find_entry k' s)"
    by (simp add: find_entry_def put_entry_def by_key_sql_update)
  then show ?thesis
    by (cases "find_entry k' s") (auto simp: find_entry_def dest: by_key_SomeD)
qed

lemma batch_items_put_entry [simp]: "batch_items (put_entry k eff s) = batch_items s"
  by (simp add: put_entry_def)

lemma find_item_put_entry [simp]: "find_item k' (put_entry k eff s) = find_item k' s"
  by (simp add: find_item_def)

text \<open>A fenced write of an entry changes nothing, or exactly an entry that is still open.\<close>

lemma entry_write_split:
  assumes s: "db_ok s" and call: "entry_write c c2 now k q pid e eff s = (r, s')"
  obtains (same) "s' = s" "r = Inr True \<Longrightarrow> False"
      "r = Inr False \<Longrightarrow> (\<exists>en. find_entry (k, q) s = Some en \<and> entry_terminal (en_status en))"
  | (written) en where "find_entry (k, q) s = Some en" "\<not> entry_terminal (en_status en)"
      "s' = put_entry (k, q) eff s" "r \<noteq> Inr False" "owner_lock now k pid e s"
proof -
  let ?ok = "entry_write ConnOk ConnOk now k q pid e eff s"
  have stmt: "entry_stmt now k q pid e eff s = (n, s1) \<Longrightarrow>
      s1 = snd ?ok \<and> (n > 0 \<longleftrightarrow> fst ?ok = Inr True)" for n s1
    by (auto simp: entry_write_def split: sum.split)
  show thesis
  proof (cases "fst ?ok = Inr True")
    case True
    then obtain en where en: "find_entry (k, q) s = Some en" "\<not> entry_terminal (en_status en)"
        "snd ?ok = put_entry (k, q) eff s" "owner_lock now k pid e s"
      by (auto simp: entry_write_cases [OF s] split: option.splits if_splits)
    obtain n s1 where n: "entry_stmt now k q pid e eff s = (n, s1)" by fastforce
    with stmt True have n1: "s1 = put_entry (k, q) eff s" "n > 0" using en(3) by auto
    show thesis
    proof (cases c)
      case ConnFail
      with call have "s' = s" "r = Inl ErrDB" by (auto simp: entry_write_def)
      then show thesis by (intro same) auto
    qed (use call n n1 written [OF en(1,2)] en(4) in \<open>auto simp: entry_write_def\<close>)
  next
    case False
    then have same_s: "snd ?ok = s" by (auto simp: entry_write_cases [OF s] split: option.splits if_splits)
    obtain n s1 where n: "entry_stmt now k q pid e eff s = (n, s1)" by fastforce
    with stmt False same_s have n0: "s1 = s" "n = 0" by auto
    have "s' = s" "r \<noteq> Inr True"
      using call n n0 by (cases c; auto simp: entry_write_def split: sum.splits)+
    moreover have "\<exists>en. find_entry (k, q) s = Some en \<and> entry_terminal (en_status en)" if "r = Inr False"
      using call n n0 that by (cases c) (auto simp: entry_write_def entryNotUpdatable_def split: sum.splits option.splits if_splits)
    ultimately show thesis by (intro same) auto
  qed
qed

lemma CheckpointEntryResult_write:
  "rr_Status res = ResumableEntryCompleted \<or> rr_Status res = ResumableEntryFailed \<Longrightarrow>
    CheckpointEntryResult c c2 now k q pid e res s = entry_write c c2 now k q pid e (checkpoint_eff now res) s"
  by (auto simp: CheckpointEntryResult_def)

lemma holds_put_entry [simp]:
  "holds k' pid e (put_entry k eff s) = holds k' pid e s"
  "owner_lock now k' pid e (put_entry k eff s) = owner_lock now k' pid e s"
  by (simp_all add: holds_def owner_lock_def)

lemma entries_of_filter: "set (entries_of k s) = {en \<in> set (batch_entries s). en_batch en = k}"
  by (auto simp: entries_of_def)

text \<open>A batch activated by processor \<open>p\<close> at epoch 1 with a lease until 100, one entry pending and one in flight.\<close>

definition active_row :: batch_row where
  "active_row = (sample_row ''b1'' 20)\<lparr>row_processor := Some ''p'', row_epoch := 1, row_resumable := True,
     row_lease := Some 100, row_status := Some (sample_info\<lparr>si_Status := BatchStatusInProgress\<rparr>)\<rparr>"

definition sample_entry :: "string \<Rightarrow> int \<Rightarrow> ResumableEntryStatus \<Rightarrow> int \<Rightarrow> entry_row" where
  "sample_entry q ord st att = \<lparr>en_batch = ''b1'', en_request = q, en_ordinal = ord, en_custom = q,
     en_status = st, en_attempts = att, en_submitted = None, en_key = None, en_bytes = None,
     en_sha = None, en_code = None, en_completed_at = None\<rparr>"

definition active_db :: db where
  "active_db = \<lparr>batch_items = [active_row],
     batch_entries = [sample_entry ''r1'' 0 ResumableEntryPending 0, sample_entry ''r2'' 1 ResumableEntryInFlight 1]\<rparr>"

definition sample_result :: ResumableResult where
  "sample_result = \<lparr>rr_Status = ResumableEntryCompleted, rr_ResultKey = ''key'', rr_ResultBytes = 3,
     rr_ResultSHA256 = ''sha'', rr_ErrorCode = []\<rparr>"

lemmas active_defs = active_db_def active_row_def sample_entry_def sample_defs

lemma active_db_ok [simp]: "db_ok active_db"
  by (simp add: db_ok_def row_ok_def entry_key_def active_defs)

lemma active_facts:
  "find_entry (''b1'', ''r1'') active_db = Some (sample_entry ''r1'' 0 ResumableEntryPending 0)"
  "find_entry (''b1'', ''r2'') active_db = Some (sample_entry ''r2'' 1 ResumableEntryInFlight 1)"
  "find_item ''b1'' active_db = Some active_row"
  "owner_lock now ''b1'' ''p'' 1 active_db \<longleftrightarrow> now < 100"
  by (simp_all add: active_defs find_entry_def find_item_def entry_key_def owner_lock_def renew_guard_def nonTerminal_iff)

lemma status_sample_entry [simp]: "en_status (sample_entry q ord st att) = st"
  by (simp add: sample_entry_def)

section \<open>Properties of the resumable store\<close>

text \<open>
  The complete outcome of a checkpoint, on every branch. An entry that does
  not exist is a conflict. A terminal entry is never touched: its owner is told
  it is a duplicate, anybody else gets a conflict. An open entry takes the
  result, and only that entry changes, exactly when the caller owns the batch at
  its epoch with an unexpired lease and the batch is active and not terminal;
  otherwise the call is a conflict and nothing changes.
\<close>

theorem checkpoint_outcome:
  assumes "db_ok s" and "rr_Status res = ResumableEntryCompleted \<or> rr_Status res = ResumableEntryFailed"
  shows "CheckpointEntryResult ConnOk ConnOk now k q pid e res s =
    (case find_entry (k, q) s of
       None \<Rightarrow> (Inl ErrConflict, s)
     | Some en \<Rightarrow>
         if entry_terminal (en_status en)
         then (if holds k pid e s then Inr False else Inl ErrConflict, s)
         else if owner_lock now k pid e s then (Inr True, put_entry (k, q) (checkpoint_eff now res) s)
         else (Inl ErrConflict, s))"
  using assms(2) by (auto simp: CheckpointEntryResult_def entry_write_cases [OF assms(1)])

theorem checkpoint_outcome_witness:
  "fst (CheckpointEntryResult ConnOk ConnOk 50 ''b1'' ''r2'' ''p'' 1 sample_result active_db) = Inr True
   \<and> CheckpointEntryResult ConnOk ConnOk 150 ''b1'' ''r2'' ''p'' 1 sample_result active_db = (Inl ErrConflict, active_db)"
  using checkpoint_outcome [OF active_db_ok, of sample_result]
  by (simp add: active_facts sample_result_def)

text \<open>
  A finalization whose response was lost is recognised when it is retried:
  if the statement committed but the caller saw an error, the retry of the same
  finalization, at any later time, succeeds without changing anything, and the
  stored document is the one the caller wanted, with the lease released.
\<close>

theorem finalize_lost_response:
  assumes s: "db_ok s" and row: "find_item (fi_BatchID fin) s = Some r" "finalize_guard now fin r"
    and args: "fi_ProcessorID fin \<noteq> []" "fi_ExpectedStatus fin \<noteq> []" "fi_Status fin = Some d"
    and lost: "FinalizeResumableBatch ConnLost c2 now fin s = (res, s1)"
  shows "res = Inl ErrDB \<and> FinalizeResumableBatch ConnOk ConnOk now' fin s1 = (Inr (), s1)
    \<and> find_item (fi_BatchID fin) s1 = Some (r\<lparr>row_status := Some d, row_resumable := False, row_lease := None\<rparr>)"
proof -
  have id: "fi_BatchID fin \<noteq> []"
    using s row(1) by (auto simp: db_ok_by_key [OF s]) (auto simp: db_ok_def list_all_iff row_ok_def)
  have s1: "s1 = snd (update_items (finalize_guard now fin) (finalize_eff fin) s)" "res = Inl ErrDB"
    using lost id args by (auto simp: FinalizeResumableBatch_def)
  have new: "find_item (fi_BatchID fin) s1 = Some (finalize_eff fin r)"
    unfolding s1 by (subst find_item_update_items) (simp_all add: row finalize_eff_def)
  have ok: "db_ok s1"
    using safeD(1) [OF safe_FinalizeResumableBatch s, of ConnLost c2 now fin] lost by simp
  have "update_items (finalize_guard now' fin) (finalize_eff fin) s1 = (0, s1)"
    by (rule update_items_noop [OF ok, of _ "fi_BatchID fin"])
      (simp_all add: finalize_guard_def new finalize_eff_def)
  then have "FinalizeResumableBatch ConnOk ConnOk now' fin s1 = (Inr (), s1)"
    using id args new by (simp add: FinalizeResumableBatch_def finalize_eff_def)
  with s1(2) new show ?thesis by (simp add: finalize_eff_def args(3))
qed

definition sample_fin :: ResumableFinalization where
  "sample_fin = \<lparr>fi_BatchID = ''b1'', fi_ProcessorID = ''p'', fi_Epoch = 1, fi_ExpectedStatus = ''in_progress'',
     fi_Status = Some (sample_info\<lparr>si_Status := BatchStatusFailed\<rparr>)\<rparr>"

theorem finalize_lost_response_witness:
  "let s1 = snd (FinalizeResumableBatch ConnLost ConnOk 50 sample_fin active_db)
   in FinalizeResumableBatch ConnOk ConnOk 500 sample_fin s1 = (Inr (), s1)"
  using finalize_lost_response [OF active_db_ok, of sample_fin active_row 50
      "sample_info\<lparr>si_Status := BatchStatusFailed\<rparr>" ConnOk _ _ 500]
  by (simp add: Let_def sample_fin_def active_facts prod_eq_iff)
    (simp add: finalize_guard_def row_state_def active_defs)

end
