(* ===== verification/Reconciler.thy ===== *)
theory Reconciler
  imports Status_Updater Resumable_Store
begin

text \<open>
  The orphan reconciler of the garbage collector
  (\<^verbatim>\<open>internal/gc/reconciler/reconciler.go\<close>): it reads the owned non-terminal
  batches, compares their owners with the live pods, and hands the batches of dead
  or wedged owners back. What the cluster reports, the clocks and the fate of each
  statement are arguments; every triage step takes the job as it was read and the
  store as it is when the step runs.
\<close>

section \<open>State\<close>

record ReconcileResult =
  rr_Expired :: nat
  rr_ReEnqueued :: nat
  rr_Conflicts :: nat
  rr_Errors :: nat

definition zero_result :: ReconcileResult where
  "zero_result = \<lparr>rr_Expired = 0, rr_ReEnqueued = 0, rr_Conflicts = 0, rr_Errors = 0\<rparr>"

record Reconciler =
  rec_dryRun :: bool
  rec_liveProcessors :: "string list"
  rec_snapshotReady :: bool

text \<open>One triage step: the process clock, the database clock, and how its statements end.\<close>

record triage_env =
  te_clock :: instant
  te_dbnow :: instant
  te_conn :: conn
  te_conn2 :: conn

definition SetLiveProcessors :: "string list \<Rightarrow> Reconciler \<Rightarrow> Reconciler" where
  "SetLiveProcessors processors rec = rec\<lparr>rec_liveProcessors := processors, rec_snapshotReady := True\<rparr>"

definition isProcessorAlive :: "Reconciler \<Rightarrow> string \<Rightarrow> bool" where
  "isProcessorAlive rec pid = (pid \<in> set (rec_liveProcessors rec))"

section \<open>Operations\<close>

definition pageSize :: nat where "pageSize = 100"

definition owned_query :: BatchQuery where
  "owned_query = no_query\<lparr>q_NonTerminal := True, q_HasProcessorID := True\<rparr>"

definition fetchNonTerminalJobs :: "conn \<Rightarrow> instant \<Rightarrow> db \<Rightarrow> BatchItem list res option" where
  "fetchNonTerminalJobs c now s =
    page_loop (Suc (length (batch_items s)))
      (\<lambda>cursor. DBGet c now owned_query False cursor pageSize s) 0 []"

definition isSLOExpired :: "instant \<Rightarrow> BatchItem \<Rightarrow> bool" where
  "isSLOExpired now job = (if bi_Priority job \<le> 0 then False else now > bi_Priority job)"

definition transitionOrphan ::
  "Reconciler \<Rightarrow> triage_env \<Rightarrow> BatchItem \<Rightarrow> BatchStatusInfo \<Rightarrow> BatchStatus \<Rightarrow> ReconcileResult \<Rightarrow> db
    \<Rightarrow> ReconcileResult \<times> db" where
  "transitionOrphan rec env job statusInfo target result s =
    (case BuildUpdatedStatusInfo (te_clock env) statusInfo target None None of
       Inl e \<Rightarrow> (result\<lparr>rr_Errors := rr_Errors result + 1\<rparr>, s)
     | Inr updated \<Rightarrow>
         if rec_dryRun rec then (result\<lparr>rr_Expired := rr_Expired result + 1\<rparr>, s)
         else (case DBUpdate (te_conn env)
                 (zero_item\<lparr>bi_ID := bi_ID job, bi_Status := Some updated, bi_Epoch := bi_Epoch job,
                    bi_BumpEpoch := True, bi_ExpectedResumable := Some False\<rparr>) (bi_Status job) s of
             (Inl e, s') \<Rightarrow>
               (if e = ErrConflict then result\<lparr>rr_Conflicts := rr_Conflicts result + 1\<rparr>
                else result\<lparr>rr_Errors := rr_Errors result + 1\<rparr>, s')
           | (Inr _, s') \<Rightarrow> (result\<lparr>rr_Expired := rr_Expired result + 1\<rparr>, s')))"

definition reEnqueueOrphan ::
  "Reconciler \<Rightarrow> triage_env \<Rightarrow> BatchItem \<Rightarrow> BatchStatus \<Rightarrow> ReconcileResult \<Rightarrow> db \<Rightarrow> ReconcileResult \<times> db" where
  "reEnqueueOrphan rec env job expectedStatus result s =
    (if bi_Priority job \<le> 0 then (result\<lparr>rr_Errors := rr_Errors result + 1\<rparr>, s)
     else if rec_dryRun rec then (result\<lparr>rr_ReEnqueued := rr_ReEnqueued result + 1\<rparr>, s)
     else (case PQEnqueue (te_conn env)
             \<lparr>jp_ID = bi_ID job, jp_SLO = Some (bi_Priority job), jp_Epoch = bi_Epoch job,
              jp_ProcessorID = bi_ProcessorID job, jp_ExpectedStatus = status_name expectedStatus,
              jp_RecoveryAttempts = 0, jp_Resumable = False\<rparr> s of
         (Inl e, s') \<Rightarrow>
           (if e = ErrConflict then result\<lparr>rr_Conflicts := rr_Conflicts result + 1\<rparr>
            else result\<lparr>rr_Errors := rr_Errors result + 1\<rparr>, s')
       | (Inr _, s') \<Rightarrow> (result\<lparr>rr_ReEnqueued := rr_ReEnqueued result + 1\<rparr>, s')))"

definition triageOrphan ::
  "Reconciler \<Rightarrow> triage_env \<Rightarrow> BatchItem \<Rightarrow> ReconcileResult \<Rightarrow> db \<Rightarrow> ReconcileResult \<times> db" where
  "triageOrphan rec env job result s = (case bi_Status job of
      None \<Rightarrow> (result\<lparr>rr_Errors := rr_Errors result + 1\<rparr>, s)
    | Some statusInfo \<Rightarrow>
        if si_Status statusInfo = BatchStatusCancelling
        then transitionOrphan rec env job statusInfo BatchStatusCancelled result s
        else if isSLOExpired (te_clock env) job
        then transitionOrphan rec env job statusInfo BatchStatusFailed result s
        else reEnqueueOrphan rec env job (si_Status statusInfo) result s)"

text \<open>A missing lease is the zero time, which is never after now.\<close>

definition triageResumable ::
  "Reconciler \<Rightarrow> triage_env \<Rightarrow> BatchItem \<Rightarrow> ReconcileResult \<Rightarrow> db \<Rightarrow> ReconcileResult \<times> db" where
  "triageResumable rec env job result s =
    (let ownerAlive = isProcessorAlive rec (bi_ProcessorID job)
     in if ownerAlive \<and> (case bi_OwnerLeaseExpiresAt job of None \<Rightarrow> False | Some l \<Rightarrow> l > te_clock env)
        then (result, s)
        else if rec_dryRun rec then (result\<lparr>rr_ReEnqueued := rr_ReEnqueued result + 1\<rparr>, s)
        else (case RequeueResumableOrphan (te_conn env) (te_conn2 env) (te_dbnow env)
                (bi_ID job) (bi_ProcessorID job) (bi_Epoch job) ownerAlive True s of
            (Inl e, s') \<Rightarrow> (result\<lparr>rr_Errors := rr_Errors result + 1\<rparr>, s')
          | (Inr _, s') \<Rightarrow> (result\<lparr>rr_ReEnqueued := rr_ReEnqueued result + 1\<rparr>, s')))"

definition triage ::
  "Reconciler \<Rightarrow> triage_env \<Rightarrow> BatchItem \<Rightarrow> ReconcileResult \<Rightarrow> db \<Rightarrow> ReconcileResult \<times> db" where
  "triage rec env job result s =
    (if bi_Resumable job then triageResumable rec env job result s
     else if \<not> isProcessorAlive rec (bi_ProcessorID job) then triageOrphan rec env job result s
     else (result, s))"

fun triage_all ::
  "Reconciler \<Rightarrow> (string \<Rightarrow> triage_env) \<Rightarrow> BatchItem list \<Rightarrow> ReconcileResult \<Rightarrow> db \<Rightarrow> ReconcileResult \<times> db" where
  "triage_all rec env [] result s = (result, s)"
| "triage_all rec env (job # jobs) result s =
    (let (result', s') = triage rec (env (bi_ID job)) job result s in triage_all rec env jobs result' s')"

definition refreshed :: "string list res option \<Rightarrow> Reconciler \<Rightarrow> Reconciler" where
  "refreshed refresh rec = (case refresh of Some (Inr live) \<Rightarrow> SetLiveProcessors live rec | _ \<Rightarrow> rec)"

text \<open>
  \<^verbatim>\<open>run\<close>: one cycle. \<open>refresh\<close> is what the pod refresher returned, if one is
  installed. The result is \<open>None\<close> only if the paged read did not end.
\<close>

definition run ::
  "string list res option \<Rightarrow> conn \<Rightarrow> instant \<Rightarrow> (string \<Rightarrow> triage_env) \<Rightarrow> Reconciler \<Rightarrow> db
    \<Rightarrow> (ReconcileResult \<times> Reconciler \<times> db) option" where
  "run refresh c now env rec0 s =
    (let rec = refreshed refresh rec0
     in if \<not> rec_snapshotReady rec then Some (zero_result, rec, s)
        else (case fetchNonTerminalJobs c now s of
            None \<Rightarrow> None
          | Some (Inl e) \<Rightarrow> Some (zero_result\<lparr>rr_Errors := 1\<rparr>, rec, s)
          | Some (Inr jobs) \<Rightarrow>
              let (result, s') = triage_all rec env jobs zero_result s in Some (result, rec, s')))"

section \<open>The paged read\<close>

definition owned_rows :: "db \<Rightarrow> batch_row list" where
  "owned_rows s = sort_key row_id (filter (\<lambda>r. nonTerminalCondition r \<and> row_processor r \<noteq> None) (batch_items s))"

lemma take_pred: "take n (take (n + 1) xs) = take n xs"
  by simp

lemma owned_get:
  "DBGet ConnOk now owned_query False start pageSize s =
    Inr (take pageSize (drop start (map (item_of_row False) (owned_rows s))),
      start + length (take pageSize (drop start (map (item_of_row False) (owned_rows s)))),
      pageSize < length (drop start (map (item_of_row False) (owned_rows s))))"
  by (simp add: DBGet_def owned_query_def no_query_def pg_get_def query_conditions_def select_rows_def
      order_by_id_def owned_rows_def Let_def take_map drop_map min_def)

interpretation owned: offset_source "\<lambda>cursor. DBGet ConnOk now owned_query False cursor pageSize s"
    "map (item_of_row False) (owned_rows s)" pageSize
  for now s
  by unfold_locales (simp_all add: owned_get, simp add: pageSize_def)

lemma length_owned: "length (owned_rows s) \<le> length (batch_items s)"
  by (simp add: owned_rows_def)

lemma fetch_owned: "fetchNonTerminalJobs ConnOk now s = Some (Inr (map (item_of_row False) (owned_rows s)))"
  using owned.loop_from [of s 0 "Suc (length (batch_items s))" now "[]"] length_owned [of s]
  by (simp add: fetchNonTerminalJobs_def)

lemma fetch_failed: "c \<noteq> ConnOk \<Longrightarrow> fetchNonTerminalJobs c now s = Some (Inl ErrDB)"
  by (simp add: fetchNonTerminalJobs_def DBGet_def owned_query_def no_query_def query_conditions_def
      pg_get_def Let_def)

lemma run_returns: "\<exists>r. run refresh c now env rec s = Some r"
  by (cases "c = ConnOk") (auto simp: run_def Let_def fetch_owned fetch_failed split: prod.split)

lemma run_refreshed: "run refresh c now env rec s = Some (result, rec', s') \<Longrightarrow> rec' = refreshed refresh rec"
  by (cases "c = ConnOk")
    (auto simp: run_def Let_def fetch_owned fetch_failed split: prod.splits if_splits)

section \<open>Each step is one fenced write\<close>

lemma safe_transitionOrphan [keeps]: "safe (transitionOrphan rec env job info target result)"
proof (cases "BuildUpdatedStatusInfo (te_clock env) info target None None")
  case (Inr u)
  show ?thesis
    by (rule safe_wrap [OF safe_DBUpdate [of "te_conn env" "zero_item\<lparr>bi_ID := bi_ID job, bi_Status := Some u,
        bi_Epoch := bi_Epoch job, bi_BumpEpoch := True, bi_ExpectedResumable := Some False\<rparr>" "bi_Status job"]])
      (simp add: transitionOrphan_def Inr split: prod.split sum.split)
qed (simp add: transitionOrphan_def [abs_def])

lemma safe_reEnqueueOrphan [keeps]: "safe (reEnqueueOrphan rec env job st result)"
  by (rule safe_wrap [OF safe_PQEnqueue [of "te_conn env" "\<lparr>jp_ID = bi_ID job, jp_SLO = Some (bi_Priority job),
      jp_Epoch = bi_Epoch job, jp_ProcessorID = bi_ProcessorID job, jp_ExpectedStatus = status_name st,
      jp_RecoveryAttempts = 0, jp_Resumable = False\<rparr>"]])
    (simp add: reEnqueueOrphan_def split: prod.split sum.split)

lemma safe_triageOrphan [keeps]: "safe (triageOrphan rec env job result)"
  by (simp add: safe_def triageOrphan_def safeD [OF safe_transitionOrphan] safeD [OF safe_reEnqueueOrphan]
      split: option.split)

lemma safe_triageResumable [keeps]: "safe (triageResumable rec env job result)"
  by (rule safe_wrap [OF safe_RequeueResumableOrphan [of "te_conn env" "te_conn2 env" "te_dbnow env" "bi_ID job"
      "bi_ProcessorID job" "bi_Epoch job" "isProcessorAlive rec (bi_ProcessorID job)" True]])
    (simp add: triageResumable_def Let_def split: prod.split sum.split)

lemma safe_triage [keeps]: "safe (triage rec env job result)"
  by (simp add: safe_def triage_def safeD [OF safe_triageOrphan] safeD [OF safe_triageResumable])

lemma safe_triage_all [keeps]: "safe (triage_all rec env jobs result)"
proof (induction jobs arbitrary: result)
  case (Cons job jobs)
  show ?case
    by (rule safe_snd_cong [OF safe_comp [OF safe_triage [of rec "env (bi_ID job)" job result] Cons.IH]])
      (simp add: split_beta)
qed (simp add: safe_def)

section \<open>What a step may touch\<close>

text \<open>
  A batch the reconciler must leave alone: nobody owns it, it is finished, or its
  owner is alive and, for a resumable batch, holds a lease the database still
  honours.
\<close>

definition spared :: "Reconciler \<Rightarrow> instant \<Rightarrow> batch_row \<Rightarrow> bool" where
  "spared rec dbnow r = (row_processor r = None \<or> \<not> nonTerminalCondition r
    \<or> (isProcessorAlive rec (the (row_processor r))
        \<and> (row_resumable r \<longrightarrow> (\<exists>l. row_lease r = Some l \<and> dbnow < l))))"

lemma snd_transitionOrphan:
  "snd (transitionOrphan rec env job info target result s) = s \<or>
   (\<exists>u. snd (transitionOrphan rec env job info target result s) =
      snd (DBUpdate (te_conn env) (zero_item\<lparr>bi_ID := bi_ID job, bi_Status := Some u, bi_Epoch := bi_Epoch job,
        bi_BumpEpoch := True, bi_ExpectedResumable := Some False\<rparr>) (bi_Status job) s))"
proof (cases "BuildUpdatedStatusInfo (te_clock env) info target None None")
  case (Inr u)
  then show ?thesis
    by (cases "rec_dryRun rec") (simp_all add: transitionOrphan_def split_beta exI [of _ u] split: sum.split)
qed (simp add: transitionOrphan_def)

lemma snd_reEnqueueOrphan:
  "snd (reEnqueueOrphan rec env job st result s) = s \<or>
   snd (reEnqueueOrphan rec env job st result s) =
      snd (PQEnqueue (te_conn env) \<lparr>jp_ID = bi_ID job, jp_SLO = Some (bi_Priority job), jp_Epoch = bi_Epoch job,
        jp_ProcessorID = bi_ProcessorID job, jp_ExpectedStatus = status_name st, jp_RecoveryAttempts = 0,
        jp_Resumable = False\<rparr> s)"
  by (auto simp: reEnqueueOrphan_def split: sum.split prod.split)

lemma snd_triageResumable:
  "snd (triageResumable rec env job result s) = s \<or>
   snd (triageResumable rec env job result s) =
     snd (RequeueResumableOrphan (te_conn env) (te_conn2 env) (te_dbnow env) (bi_ID job) (bi_ProcessorID job)
       (bi_Epoch job) (isProcessorAlive rec (bi_ProcessorID job)) True s)"
  by (auto simp: triageResumable_def Let_def split: sum.split prod.split)

lemma triage_other:
  assumes "k \<noteq> bi_ID job"
  shows "find_item k (snd (triage rec env job result s)) = find_item k s"
proof -
  have "find_item k (snd (transitionOrphan rec env job info target result s)) = find_item k s" for info target
    using snd_transitionOrphan [of rec env job info target result s] assms
    by (cases "find_item k s") (auto simp: find_item_DBUpdate update_guard_def dest: find_item_id)
  moreover have "find_item k (snd (reEnqueueOrphan rec env job st result s)) = find_item k s" for st
    using snd_reEnqueueOrphan [of rec env job st result s] assms
    by (cases "find_item k s") (auto simp: find_item_PQEnqueue enqueue_guard_def dest: find_item_id)
  moreover have "find_item k (snd (triageResumable rec env job result s)) = find_item k s"
    using snd_triageResumable [of rec env job result s] assms
    by (cases "find_item k s") (auto simp: find_item_Requeue requeue_guard_def dest: find_item_id)
  ultimately show ?thesis by (simp add: triage_def triageOrphan_def split: option.split)
qed

lemma triage_spared:
  assumes r: "find_item k s = Some r" "spared rec (te_dbnow env) r"
    and job: "job = item_of_row b r" and own: "row_processor r \<noteq> None" "nonTerminalCondition r"
  shows "find_item k (snd (triage rec env job result s)) = Some r"
proof -
  have alive: "isProcessorAlive rec (bi_ProcessorID job)"
    using assms by (auto simp: spared_def item_of_row_def zero_item_def)
  show ?thesis
  proof (cases "row_resumable r")
    case True
    then obtain l where "row_lease r = Some l" "te_dbnow env < l" using r own by (auto simp: spared_def)
    then have "\<not> requeue_guard (te_dbnow env) k' pid e True r" for k' pid e
      by (simp add: requeue_guard_def)
    with snd_triageResumable [of rec env job result s] r(1) alive True show ?thesis
      by (auto simp: triage_def job item_of_row_def zero_item_def find_item_Requeue)
  qed (use alive r in \<open>simp add: triage_def job item_of_row_def zero_item_def\<close>)
qed

lemma triage_all_spared:
  assumes r: "find_item k s = Some r" "\<And>j. spared rec (te_dbnow (env j)) r"
    and jobs: "\<And>job. job \<in> set jobs \<Longrightarrow> bi_ID job = k \<Longrightarrow>
      job = item_of_row b r \<and> row_processor r \<noteq> None \<and> nonTerminalCondition r"
  shows "find_item k (snd (triage_all rec env jobs result s)) = Some r"
  using assms(1) jobs
proof (induction jobs arbitrary: result s)
  case (Cons job jobs)
  have "find_item k (snd (triage rec (env (bi_ID job)) job result s)) = Some r"
  proof (cases "bi_ID job = k")
    case True
    then have "job = item_of_row b r \<and> row_processor r \<noteq> None \<and> nonTerminalCondition r"
      using Cons.prems(2) [of job] by simp
    then show ?thesis
      using triage_spared [OF Cons.prems(1) r(2), where result = result] by blast
  qed (use Cons.prems(1) triage_other in simp)
  then have "find_item k (snd (triage_all rec env jobs x (snd (triage rec (env (bi_ID job)) job result s)))) = Some r" for x
    by (rule Cons.IH) (rule Cons.prems(2), simp_all)
  then show ?case by (simp add: split_beta)
qed simp


definition orphan_env :: triage_env where
  "orphan_env = \<lparr>te_clock = 5, te_dbnow = 5, te_conn = ConnOk, te_conn2 = ConnOk\<rparr>"

definition orphan_db :: db where
  "orphan_db = \<lparr>batch_items = [(sample_row ''b1'' 20)\<lparr>row_processor := Some ''dead'', row_epoch := 1\<rparr>,
     (sample_row ''b2'' 20)\<lparr>row_processor := Some ''live'', row_epoch := 1\<rparr>], batch_entries = []\<rparr>"

lemma orphan_db_ok [simp]: "db_ok orphan_db"
  by (simp add: db_ok_def row_ok_def orphan_db_def sample_row_def)

definition orphan_rec :: Reconciler where
  "orphan_rec = \<lparr>rec_dryRun = False, rec_liveProcessors = [], rec_snapshotReady = False\<rparr>"


lemma transitionOrphan_row:
  assumes "find_item k s = Some r" and "k \<noteq> []" and "te_conn env = ConnOk" and "\<not> rec_dryRun rec"
    and "IsTerminal target" and "bi_ID job = k" and "bi_Status job = Some d"
  obtains u where "si_Status u = target"
    and "find_item k (snd (transitionOrphan rec env job d target result s)) =
      Some (if row_status r = Some d \<and> row_epoch r = bi_Epoch job \<and> \<not> row_resumable r
            then r\<lparr>row_status := Some u, row_epoch := row_epoch r + 1\<rparr> else r)"
proof -
  obtain u where u1: "BuildUpdatedStatusInfo (te_clock env) d target None None = Inr u"
    using BuildUpdatedStatusInfo_total [of target "te_clock env" d None None] assms(5) by auto
  note u = u1 BuildUpdatedStatusInfo_status [OF u1]
  let ?item = "zero_item\<lparr>bi_ID := bi_ID job, bi_Status := Some u, bi_Epoch := bi_Epoch job,
      bi_BumpEpoch := True, bi_ExpectedResumable := Some False\<rparr>"
  have "snd (transitionOrphan rec env job d target result s) = snd (DBUpdate ConnOk ?item (Some d) s)"
    using u assms(3,4,7) by (simp add: transitionOrphan_def split: sum.split prod.split)
  moreover have "row_id r = k" using assms(1) by (rule find_item_id)
  ultimately show ?thesis
    using that [OF u(2)] assms(1,2,6)
    by (auto simp: find_item_DBUpdate zero_item_def update_guard_def update_epoch_cond_def update_eff_def)
qed

lemma reEnqueueOrphan_row:
  assumes "find_item k s = Some r" and "k \<noteq> []" and "te_conn env = ConnOk" and "\<not> rec_dryRun rec"
    and "bi_ID job = k" and "bi_Priority job > 0" and "bi_ProcessorID job \<noteq> []" and "0 \<le> bi_Epoch job"
    and "status_name st \<noteq> []"
  shows "find_item k (snd (reEnqueueOrphan rec env job st result s)) =
      Some (if row_epoch r = bi_Epoch job \<and> row_processor r = Some (bi_ProcessorID job)
              \<and> map_option status_name (row_state r) = Some (status_name st) \<and> \<not> row_resumable r \<and> nonTerminalCondition r
            then enqueue_eff r else r)"
proof -
  let ?task = "\<lparr>jp_ID = bi_ID job, jp_SLO = Some (bi_Priority job), jp_Epoch = bi_Epoch job,
      jp_ProcessorID = bi_ProcessorID job, jp_ExpectedStatus = status_name st, jp_RecoveryAttempts = 0, jp_Resumable = False\<rparr>"
  have "snd (reEnqueueOrphan rec env job st result s) = snd (PQEnqueue ConnOk ?task s)"
    using assms(3,4,6) by (simp add: reEnqueueOrphan_def split: sum.split prod.split)
  moreover have "row_id r = k" using assms(1) by (rule find_item_id)
  ultimately show ?thesis
    using assms by (simp add: find_item_PQEnqueue enqueue_guard_def)
qed

text \<open>
  What happens to the batch of a dead processor, if its row has not moved
  since it was read: a batch being cancelled becomes cancelled, one past its
  deadline becomes failed, and any other one becomes a queue candidate again; in
  every case the epoch rises, so that the dead owner is fenced out should it come
  back. If the epoch moved in between, the row is left as it is. No other row
  changes.
\<close>

theorem orphan_triage_outcome:
  assumes s: "db_ok s" and r: "find_item k s = Some r" and job: "job = item_of_row False ro"
    and read: "row_id ro = k" "row_status ro = Some doc" "row_processor ro = Some pid" "pid \<noteq> []" "\<not> row_resumable ro"
      "nonTerminalCondition ro" "0 \<le> row_epoch ro" "row_priority ro = Some prio" "0 < prio" "status_name (si_Status doc) \<noteq> []"
    and env: "te_conn env = ConnOk" "\<not> rec_dryRun rec" "\<not> isProcessorAlive rec pid"
  shows "(r = ro \<longrightarrow> (\<exists>r'. find_item k (snd (triage rec env job result s)) = Some r' \<and> row_epoch r < row_epoch r'
      \<and> (if si_Status doc = BatchStatusCancelling then row_state r' = Some BatchStatusCancelled
         else if prio < te_clock env then row_state r' = Some BatchStatusFailed
         else dequeue_candidate lease r' \<and> row_priority r' = Some prio)))
    \<and> (row_epoch r \<noteq> row_epoch ro \<longrightarrow> find_item k (snd (triage rec env job result s)) = Some r)
    \<and> (\<forall>k'. k' \<noteq> k \<longrightarrow> find_item k' (snd (triage rec env job result s)) = find_item k' s)"
proof -
  have jobD: "bi_ID job = k" "bi_Status job = Some doc" "bi_ProcessorID job = pid" "bi_Epoch job = row_epoch ro"
      "bi_Priority job = prio" "\<not> bi_Resumable job"
    using read by (simp_all add: job item_of_row_def zero_item_def)
  have k: "k \<noteq> []" using s r find_item_id [OF r] by (auto simp: db_ok_by_key(1) [OF s] db_ok_def list_all_iff row_ok_def)
  have step: "triage rec env job result s = (if si_Status doc = BatchStatusCancelling
       then transitionOrphan rec env job doc BatchStatusCancelled result s
       else if prio < te_clock env then transitionOrphan rec env job doc BatchStatusFailed result s
       else reEnqueueOrphan rec env job (si_Status doc) result s)"
    using env read by (simp add: triage_def triageOrphan_def jobD isSLOExpired_def)
  obtain u1 where 1: "si_Status u1 = BatchStatusCancelled"
    "find_item k (snd (transitionOrphan rec env job doc BatchStatusCancelled result s)) =
      Some (if row_status r = Some doc \<and> row_epoch r = bi_Epoch job \<and> \<not> row_resumable r
            then r\<lparr>row_status := Some u1, row_epoch := row_epoch r + 1\<rparr> else r)"
    by (rule transitionOrphan_row [OF r k env(1,2) _ jobD(1,2)]) auto
  obtain u2 where 2: "si_Status u2 = BatchStatusFailed"
    "find_item k (snd (transitionOrphan rec env job doc BatchStatusFailed result s)) =
      Some (if row_status r = Some doc \<and> row_epoch r = bi_Epoch job \<and> \<not> row_resumable r
            then r\<lparr>row_status := Some u2, row_epoch := row_epoch r + 1\<rparr> else r)"
    by (rule transitionOrphan_row [OF r k env(1,2) _ jobD(1,2)]) auto
  have 3: "find_item k (snd (reEnqueueOrphan rec env job (si_Status doc) result s)) =
      Some (if row_epoch r = row_epoch ro \<and> row_processor r = Some pid \<and> map_option status_name (row_state r)
          = Some (status_name (si_Status doc)) \<and> \<not> row_resumable r \<and> nonTerminalCondition r then enqueue_eff r else r)"
    using reEnqueueOrphan_row [OF r k env(1,2) jobD(1)] read by (simp add: jobD)
  have other: "\<forall>k'. k' \<noteq> k \<longrightarrow> find_item k' (snd (triage rec env job result s)) = find_item k' s"
    using triage_other [of _ job rec env result s] by (simp add: jobD)
  show ?thesis
    using other read
    by (simp add: step 1 2 3 jobD row_state_def enqueue_eff_def dequeue_candidate_def)
qed

theorem orphan_triage_outcome_witness:
  "\<exists>r'. find_item ''b1'' (snd (triage orphan_rec orphan_env
      (item_of_row False ((sample_row ''b1'' 20)\<lparr>row_processor := Some ''dead'', row_epoch := 1\<rparr>)) zero_result orphan_db)) = Some r'
    \<and> 1 < row_epoch r' \<and> dequeue_candidate 0 r'"
proof -
  let ?r = "(sample_row ''b1'' 20)\<lparr>row_processor := Some ''dead'', row_epoch := 1\<rparr>"
  have r: "find_item ''b1'' orphan_db = Some ?r"
    by (simp add: find_item_def orphan_db_def sample_row_def)
  show ?thesis
    using orphan_triage_outcome [OF orphan_db_ok r refl, where ro = ?r and doc = sample_info and pid = "''dead''" and prio = 20
        and env = orphan_env and rec = orphan_rec and lease = 0 and result = zero_result]
    by (auto simp: sample_row_def nonTerminal_iff sample_info_def orphan_env_def orphan_rec_def isProcessorAlive_def)
qed

end
