(* ===== verification/File_Store.thy ===== *)
theory File_Store
  imports Go_Stdlib
begin

text \<open>
  The file store: the client interface of \<^verbatim>\<open>internal/files_store/api/files.go\<close> as the
  filesystem client implements it (\<^verbatim>\<open>internal/files_store/fs/client.go\<close>), the
  counting reader that enforces upload limits
  (\<^verbatim>\<open>internal/files_store/io/reader.go\<close>), and the storage names of
  \<^verbatim>\<open>internal/util/com/common.go\<close>. The file system is the association list of the
  stored paths and contents; whether an operating-system call fails is an
  argument. The SHA-256 hex digest is a parameter of the code that names folders.
\<close>

section \<open>Reading with limits\<close>

record LimitedCountingReader =
  SizeLimit :: int
  LineLimit :: int
  BytesRead :: int
  LineCount :: int
  hasTrailingContent :: bool

definition new_reader :: "int \<Rightarrow> int \<Rightarrow> LimitedCountingReader" where
  "new_reader sz ln = \<lparr>SizeLimit = sz, LineLimit = ln, BytesRead = 0, LineCount = 0, hasTrailingContent = False\<rparr>"

fun scan_bytes :: "string \<Rightarrow> LimitedCountingReader \<Rightarrow> LimitedCountingReader res" where
  "scan_bytes [] r = Inr r"
| "scan_bytes (c # cs) r =
    (if c = newline then
       (let r' = r\<lparr>LineCount := LineCount r + 1, hasTrailingContent := False\<rparr>
        in if LineLimit r > 0 \<and> LineCount r' > LineLimit r then Inl ErrTooManyLines else scan_bytes cs r')
     else scan_bytes cs (r\<lparr>hasTrailingContent := True\<rparr>))"

text \<open>One \<^verbatim>\<open>Read\<close>: the chunk the underlying reader returned and whether it came with EOF.\<close>

definition Read :: "string \<Rightarrow> bool \<Rightarrow> LimitedCountingReader \<Rightarrow> LimitedCountingReader res" where
  "Read chunk eof r0 =
    (let r = r0\<lparr>BytesRead := BytesRead r0 + int (length chunk)\<rparr>
     in if SizeLimit r > 0 \<and> BytesRead r > SizeLimit r then Inl ErrFileTooLarge
        else (case scan_bytes chunk r of
            Inl e \<Rightarrow> Inl e
          | Inr r1 \<Rightarrow>
              if eof \<and> hasTrailingContent r1
              then (let r2 = r1\<lparr>LineCount := LineCount r1 + 1\<rparr>
                    in if LineLimit r2 > 0 \<and> LineCount r2 > LineLimit r2 then Inl ErrTooManyLines else Inr r2)
              else Inr r1))"

text \<open>\<^verbatim>\<open>io.Copy\<close>: reads until EOF, which arrives with the last chunk or in a read of its own.\<close>

fun copy_chunks :: "string list \<Rightarrow> bool \<Rightarrow> LimitedCountingReader \<Rightarrow> LimitedCountingReader res" where
  "copy_chunks [] eofWithLast r = Read [] True r"
| "copy_chunks [c] eofWithLast r =
    (if eofWithLast then Read c True r
     else (case Read c False r of Inl e \<Rightarrow> Inl e | Inr r' \<Rightarrow> Read [] True r'))"
| "copy_chunks (c # c' # cs) eofWithLast r =
    (case Read c False r of Inl e \<Rightarrow> Inl e | Inr r' \<Rightarrow> copy_chunks (c' # cs) eofWithLast r')"

section \<open>Names\<close>

definition FileStorageName :: "string \<Rightarrow> string \<Rightarrow> string" where
  "FileStorageName fileID origFilename =
    fileID @ (if path_ext origFilename = [] then ''.jsonl'' else path_ext origFilename)"

definition GetFolderNameByTenantID :: "(string \<Rightarrow> string) \<Rightarrow> string \<Rightarrow> string res" where
  "GetFolderNameByTenantID sha256hex tenantID =
    (if tenantID = [] then Inl (ErrInvalid ''tenantID cannot be empty'')
     else Inr (''t-'' @ take 61 (sha256hex tenantID)))"

section \<open>The filesystem client\<close>

type_synonym files = "(string \<times> string) list"

record BatchFileMetadata =
  md_Size :: int
  md_LinesNumber :: int

definition resolvePath :: "string \<Rightarrow> string \<Rightarrow> string res" where
  "resolvePath folderName fileName =
    (if folderName = [] then Inl (ErrInvalid ''folderName must not be empty'')
     else if fileName = [] then Inl (ErrInvalid ''fileName must not be empty'')
     else Inr (path_join [folderName, fileName]))"

definition Store ::
  "bool \<Rightarrow> string \<Rightarrow> string \<Rightarrow> int \<Rightarrow> int \<Rightarrow> string list \<Rightarrow> bool \<Rightarrow> files \<Rightarrow> BatchFileMetadata res \<times> files" where
  "Store io fileName folderName fileSizeLimit lineNumLimit chunks eofWithLast fs =
    (case resolvePath folderName fileName of
       Inl e \<Rightarrow> (Inl e, fs)
     | Inr p \<Rightarrow>
         if map_of fs p \<noteq> None then (Inl ErrFileExists, fs)
         else if \<not> io then (Inl (ErrOther ''filesystem''), fs)
         else (case copy_chunks chunks eofWithLast (new_reader fileSizeLimit lineNumLimit) of
             Inl e \<Rightarrow> (Inl e, fs)
           | Inr r \<Rightarrow> (Inr \<lparr>md_Size = int (length (concat chunks)), md_LinesNumber = LineCount r\<rparr>,
                         (p, concat chunks) # fs)))"

definition Retrieve :: "bool \<Rightarrow> string \<Rightarrow> string \<Rightarrow> files \<Rightarrow> (string \<times> BatchFileMetadata) res" where
  "Retrieve io fileName folderName fs =
    (case resolvePath folderName fileName of
       Inl e \<Rightarrow> Inl e
     | Inr p \<Rightarrow> (case map_of fs p of
           None \<Rightarrow> Inl ErrNotFound
         | Some d \<Rightarrow> if io then Inr (d, \<lparr>md_Size = int (length d), md_LinesNumber = 0\<rparr>)
                     else Inl (ErrOther ''filesystem'')))"

definition Delete :: "bool \<Rightarrow> string \<Rightarrow> string \<Rightarrow> files \<Rightarrow> unit res \<times> files" where
  "Delete io fileName folderName fs =
    (case resolvePath folderName fileName of
       Inl e \<Rightarrow> (Inl e, fs)
     | Inr p \<Rightarrow>
         if map_of fs p = None then (Inl ErrNotFound, fs)
         else if \<not> io then (Inl (ErrOther ''filesystem''), fs)
         else (Inr (), filter (\<lambda>(q, d). q \<noteq> p) fs))"

text \<open>The callers of \<^verbatim>\<open>Delete\<close> treat a file that is already gone as deleted.\<close>

definition hard_error :: "unit res \<Rightarrow> error option" where
  "hard_error r = (case r of Inl e \<Rightarrow> if e = ErrNotFound then None else Some e | Inr _ \<Rightarrow> None)"

lemma hard_error_Delete: "resolvePath f n = Inr p \<Longrightarrow> hard_error (fst (Delete True n f fs)) = None"
  by (simp add: Delete_def hard_error_def)

lemma map_of_filter_neq: "map_of (filter (\<lambda>(q, d). q \<noteq> p) fs) k = (if k = p then None else map_of fs k)"
  by (induction fs) auto

definition under :: "string \<Rightarrow> string \<Rightarrow> bool" where
  "under dir p = (p = dir \<or> has_prefix p (dir @ [slash]))"

text \<open>
  The walk visits the files in the order of their path components and stops at
  the first one it cannot remove; the files removed before it stay removed.
\<close>

fun walk_remove :: "(string \<Rightarrow> bool) \<Rightarrow> string list \<Rightarrow> nat \<Rightarrow> files \<Rightarrow> (nat \<times> error option) \<times> files" where
  "walk_remove fails [] n fs = ((n, None), fs)"
| "walk_remove fails (p # ps) n fs =
    (if fails p then ((n, Some (ErrOther ''filesystem'')), fs)
     else walk_remove fails ps (n + 1) (filter (\<lambda>(q, d). q \<noteq> p) fs))"

definition DeletePrefix :: "(string \<Rightarrow> bool) \<Rightarrow> string \<Rightarrow> string \<Rightarrow> files \<Rightarrow> (nat \<times> error option) \<times> files" where
  "DeletePrefix fails folderName prefix fs =
    (if folderName = [] then ((0, Some (ErrInvalid ''folderName must not be empty'')), fs)
     else if prefix = [] then ((0, Some (ErrInvalid ''prefix must not be empty'')), fs)
     else let pre = (if has_suffix prefix [slash] then prefix else prefix @ [slash]);
              dir = path_join [folderName, pre]
          in walk_remove fails (sort_key (split_on slash) (filter (under dir) (map fst fs))) 0 fs)"

text \<open>
  A stream is the destination path and the bytes buffered so far; the temporary
  file is invisible to readers until the commit links it into place.
\<close>

record stream =
  st_path :: string
  st_data :: string

definition OpenStream :: "bool \<Rightarrow> string \<Rightarrow> string \<Rightarrow> files \<Rightarrow> stream res" where
  "OpenStream io fileName folderName fs =
    (case resolvePath folderName fileName of
       Inl e \<Rightarrow> Inl e
     | Inr p \<Rightarrow> if map_of fs p \<noteq> None then Inl ErrFileExists
                else if io then Inr \<lparr>st_path = p, st_data = []\<rparr> else Inl (ErrOther ''filesystem''))"

definition stream_Write :: "string \<Rightarrow> stream \<Rightarrow> stream" where
  "stream_Write b w = w\<lparr>st_data := st_data w @ b\<rparr>"

definition stream_Commit :: "bool \<Rightarrow> stream \<Rightarrow> files \<Rightarrow> BatchFileMetadata res \<times> files" where
  "stream_Commit io w fs =
    (if map_of fs (st_path w) \<noteq> None then (Inl ErrFileExists, fs)
     else if \<not> io then (Inl (ErrOther ''filesystem''), fs)
     else (Inr \<lparr>md_Size = int (length (st_data w)), md_LinesNumber = 0\<rparr>, (st_path w, st_data w) # fs))"

definition stream_Abort :: "bool \<Rightarrow> stream \<Rightarrow> files \<Rightarrow> unit res \<times> files" where
  "stream_Abort io w fs = (if io then Inr () else Inl (ErrOther ''filesystem''), fs)"

section \<open>What a prefix deletion reaches\<close>

text \<open>
  A plain name is one path element: the clean form of a path of plain names is their
  concatenation with slashes.
\<close>

definition plain_name :: "string \<Rightarrow> bool" where
  "plain_name e = (e \<noteq> [] \<and> slash \<notin> set e \<and> e \<noteq> [dot] \<and> e \<noteq> [dot, dot])"

lemma split_on_elem: "c \<notin> set e \<Longrightarrow> split_on c e = [e]"
  by (induction e) auto

lemma split_on_append: "c \<notin> set e \<Longrightarrow> split_on c (e @ c # r) = e # split_on c r"
  by (induction e) auto

lemma split_on_join: "es \<noteq> [] \<Longrightarrow> list_all (\<lambda>e. c \<notin> set e) es \<Longrightarrow> split_on c (join_with c es) = es"
  by (induction c es rule: join_with.induct) (simp_all add: split_on_elem split_on_append)

lemma clean_elems_plain:
  "list_all (\<lambda>e. e = [] \<or> plain_name e) es \<Longrightarrow> clean_elems rooted out es = rev out @ filter (\<lambda>e. e \<noteq> []) es"
  by (induction es arbitrary: out) (auto simp: plain_name_def)

lemma path_clean_plain:
  assumes "plain_name e" and "list_all (\<lambda>e. e = [] \<or> plain_name e) es"
  shows "path_clean (join_with slash (e # es)) = join_with slash (e # filter (\<lambda>e. e \<noteq> []) es)"
proof -
  have e: "e \<noteq> []" "slash \<notin> set e" using assms(1) by (auto simp: plain_name_def)
  have s: "split_on slash (join_with slash (e # es)) = e # es"
    by (rule split_on_join, simp) (use assms e(2) in \<open>fastforce simp: list_all_iff plain_name_def\<close>)
  obtain c e' where c: "e = c # e'" "c \<noteq> slash" using e by (cases e) auto
  then obtain r where j: "join_with slash (e # es) = c # r" by (cases es) auto
  have ne: "join_with slash (e # xs) \<noteq> []" for xs using e by (cases xs) auto
  show ?thesis using clean_elems_plain [of "e # es" False "[]"] assms e s j c(2) ne by (simp add: path_clean_def Let_def)
qed

lemma path_join_file: "plain_name folder \<Longrightarrow> plain_name key \<Longrightarrow> path_join [folder, key] = folder @ slash # key"
  using path_clean_plain [of folder "[key]"] by (simp add: path_join_def plain_name_def)

lemma path_join_results:
  assumes "plain_name folder" and "plain_name k"
  shows "path_join [folder, ''results/'' @ k @ ''/''] = folder @ slash # ''results/'' @ k"
proof -
  have r: "plain_name ''results''" by (simp add: plain_name_def slash_def)
  have "join_with slash [folder, ''results/'' @ k @ ''/''] = join_with slash (folder # [''results'', k, []])" by (simp add: slash_def)
  moreover have "path_clean (join_with slash (folder # [''results'', k, []])) = join_with slash (folder # [''results'', k])"
    using path_clean_plain [of folder "[''results'', k, []]"] assms r by (simp add: plain_name_def)
  ultimately show ?thesis using assms by (simp add: path_join_def plain_name_def slash_def)
qed

lemma walk_remove_other: "p \<notin> set ps \<Longrightarrow> map_of (snd (walk_remove fails ps n fs)) p = map_of fs p"
  by (induction ps arbitrary: n fs) (simp_all add: map_of_filter_neq)

lemma DeletePrefix_other:
  "\<not> under (path_join [folder, prefix @ [slash]]) p \<Longrightarrow> map_of (snd (DeletePrefix fails folder (prefix @ [slash]) fs)) p = map_of fs p"
  by (simp add: DeletePrefix_def Let_def has_suffix_def walk_remove_other)

lemma walk_remove_removes: "map_of (snd (walk_remove fails ps n fs)) p \<in> {map_of fs p, None}"
proof (induction ps arbitrary: n fs)
  case (Cons q ps)
  then show ?case using Cons.IH [of "n + 1" "filter (\<lambda>(x, d). x \<noteq> q) fs"] by (auto simp: map_of_filter_neq split: if_splits)
qed simp

lemma DeletePrefix_removes:
  "map_of (snd (DeletePrefix fails folder prefix fs)) p = map_of fs p \<or> map_of (snd (DeletePrefix fails folder prefix fs)) p = None"
  using walk_remove_removes [of fails _ 0 fs p] by (auto simp: DeletePrefix_def Let_def)

lemma Delete_other:
  "map_of (snd (Delete io fileName folder fs)) p = map_of fs p
    \<or> map_of (snd (Delete io fileName folder fs)) p = None \<and> resolvePath folder fileName = Inr p"
  by (auto simp: Delete_def map_of_filter_neq split: sum.split)

text \<open>A file that lies directly in a tenant's folder is not below the results of a batch.\<close>

lemma slashes_under: "under dir p \<Longrightarrow> count_list dir slash \<le> count_list p slash"
  by (auto simp: under_def has_prefix_iff)

lemma DeletePrefix_results_keeps:
  assumes "plain_name folder" and "plain_name k" and "plain_name folder'" and "plain_name key"
  shows "map_of (snd (DeletePrefix fails folder (''results/'' @ k @ ''/'') fs)) (path_join [folder', key])
    = map_of fs (path_join [folder', key])"
proof -
  have "count_list (path_join [folder', key]) slash = 1"
    using assms(3,4) by (simp add: path_join_file plain_name_def)
  moreover have "2 \<le> count_list (path_join [folder, ''results/'' @ k @ ''/'']) slash"
    unfolding path_join_results [OF assms(1,2)] by (simp add: slash_def)
  ultimately have "\<not> under (path_join [folder, ''results/'' @ k @ ''/'']) (path_join [folder', key])" using slashes_under by fastforce
  then show ?thesis using DeletePrefix_other [of folder "''results/'' @ k"] by (simp add: slash_def)
qed

section \<open>The create-only interface\<close>

text \<open>
  What the result store and the finalizer rely on: publishing under a free name
  makes exactly that object readable, and publishing never changes an object
  that is already there.
\<close>

locale create_only_store =
  fixes read :: "'s \<Rightarrow> 'k \<Rightarrow> 'v option"
    and publish :: "'k \<Rightarrow> 'v \<Rightarrow> 's \<Rightarrow> 's"
  assumes publish_free: "read s k = None \<Longrightarrow> read (publish k v s) k' = (if k' = k then Some v else read s k')"
    and publish_taken: "read s k = Some w \<Longrightarrow> publish k v s = s"
begin

lemma published_readable: "read (publish k v s) k \<noteq> None"
  by (cases "read s k") (auto simp: publish_free publish_taken)

lemma never_overwritten: "read s k = Some w \<Longrightarrow> read (publish k' v s) k = Some w"
  by (cases "read s k'") (auto simp: publish_free publish_taken)

lemma first_writer_wins: "read s k = None \<Longrightarrow> read (publish k v' (publish k v s)) k = Some v"
  by (simp add: never_overwritten publish_free)

end

definition publish :: "string \<Rightarrow> string \<Rightarrow> files \<Rightarrow> files" where
  "publish p d fs = snd (stream_Commit True \<lparr>st_path = p, st_data = d\<rparr> fs)"

interpretation fs_store: create_only_store map_of publish
  by unfold_locales (auto simp: publish_def stream_Commit_def)

lemma stream_Commit_Ok:
  "map_of fs (st_path w) = None \<Longrightarrow>
    stream_Commit True w fs = (Inr \<lparr>md_Size = int (length (st_data w)), md_LinesNumber = 0\<rparr>, publish (st_path w) (st_data w) fs)"
  by (simp add: stream_Commit_def publish_def)

section \<open>Counting is independent of the chunks\<close>

text \<open>The reference: newline-terminated lines plus an unterminated last one.\<close>

definition line_count :: "string \<Rightarrow> int" where
  "line_count d = int (length (filter (\<lambda>c. c = newline) d)) + (if d \<noteq> [] \<and> last d \<noteq> newline then 1 else 0)"

definition newlines :: "string \<Rightarrow> int" where
  "newlines d = int (length (filter (\<lambda>c. c = newline) d))"

lemma newlines_simps [simp]:
  "newlines [] = 0" "newlines (c # d) = (if c = newline then 1 else 0) + newlines d"
  "newlines (d @ e) = newlines d + newlines e"
  by (simp_all add: newlines_def)

lemma newlines_nonneg: "0 \<le> newlines d"
  by (simp add: newlines_def)

lemma scan_bytes_spec:
  "(LineLimit r > 0 \<longrightarrow> LineCount r \<le> LineLimit r) \<Longrightarrow>
    scan_bytes d r =
      (if LineLimit r > 0 \<and> LineCount r + newlines d > LineLimit r then Inl ErrTooManyLines
       else Inr (r\<lparr>LineCount := LineCount r + newlines d,
                  hasTrailingContent := (if d = [] then hasTrailingContent r else last d \<noteq> newline)\<rparr>))"
proof (induction d arbitrary: r)
  case (Cons c d)
  show ?case
  proof (cases "c = newline")
    case True
    show ?thesis
    proof (cases "LineLimit r > 0 \<and> LineCount r + 1 > LineLimit r")
      case True
      then have "LineCount r + (1 + newlines d) > LineLimit r" using newlines_nonneg [of d] by linarith
      with True \<open>c = newline\<close> show ?thesis by (simp add: Let_def)
    next
      case False
      then show ?thesis
        using Cons.IH [of "r\<lparr>LineCount := LineCount r + 1, hasTrailingContent := False\<rparr>"] \<open>c = newline\<close>
        by (auto simp: Let_def algebra_simps)
    qed
  next
    case False
    then show ?thesis
      using Cons.IH [of "r\<lparr>hasTrailingContent := True\<rparr>"] Cons.prems by auto
  qed
qed auto

text \<open>The state after the bytes \<open>d\<close> were read without an error and without EOF.\<close>

definition after_bytes :: "int \<Rightarrow> int \<Rightarrow> string \<Rightarrow> LimitedCountingReader" where
  "after_bytes sz ln d = \<lparr>SizeLimit = sz, LineLimit = ln, BytesRead = int (length d),
     LineCount = newlines d, hasTrailingContent = (d \<noteq> [] \<and> last d \<noteq> newline)\<rparr>"

definition within :: "int \<Rightarrow> int \<Rightarrow> bool" where
  "within limit n = (limit > 0 \<longrightarrow> n \<le> limit)"

lemma Read_more:
  "within ln (newlines d) \<Longrightarrow>
    Read c False (after_bytes sz ln d) =
      (if \<not> within sz (int (length (d @ c))) then Inl ErrFileTooLarge
       else if \<not> within ln (newlines (d @ c)) then Inl ErrTooManyLines
       else Inr (after_bytes sz ln (d @ c)))"
  by (auto simp: Read_def Let_def after_bytes_def scan_bytes_spec within_def)

lemma Read_last:
  "within ln (newlines d) \<Longrightarrow>
    Read c True (after_bytes sz ln d) =
      (if \<not> within sz (int (length (d @ c))) then Inl ErrFileTooLarge
       else if \<not> within ln (line_count (d @ c)) then Inl ErrTooManyLines
       else Inr ((after_bytes sz ln (d @ c))\<lparr>LineCount := line_count (d @ c)\<rparr>))"
  by (auto simp: Read_def Let_def after_bytes_def scan_bytes_spec within_def line_count_def
      simp flip: newlines_def)

definition limits_ok :: "int \<Rightarrow> int \<Rightarrow> string \<Rightarrow> bool" where
  "limits_ok sz ln d = (within sz (int (length d)) \<and> within ln (line_count d))"

lemma line_count_newlines: "line_count d = newlines d + (if d \<noteq> [] \<and> last d \<noteq> newline then 1 else 0)"
  by (simp add: line_count_def newlines_def)

lemma limits_prefix:
  "limits_ok sz ln (d @ c) \<Longrightarrow> within sz (int (length d)) \<and> within ln (newlines d)"
  using newlines_nonneg [of c] by (auto simp: limits_ok_def within_def line_count_newlines split: if_splits)

lemma copy_chunks_from:
  "within ln (newlines d) \<Longrightarrow>
    (if limits_ok sz ln (d @ concat cs)
     then copy_chunks cs eofWithLast (after_bytes sz ln d)
       = Inr ((after_bytes sz ln (d @ concat cs))\<lparr>LineCount := line_count (d @ concat cs)\<rparr>)
     else copy_chunks cs eofWithLast (after_bytes sz ln d) \<in> {Inl ErrFileTooLarge, Inl ErrTooManyLines})"
proof (induction cs arbitrary: d)
  case Nil
  then show ?case by (simp add: Read_last limits_ok_def)
next
  case (Cons c cs)
  have last_chunk: ?case if "cs = []"
    using Cons.prems limits_prefix [of sz ln "d @ c" "[]"] that
    by (auto simp: Read_last Read_more limits_ok_def)
  have more: ?case if "cs = c' # cs'" for c' cs'
    using Cons.IH [of "d @ c"] Cons.prems limits_prefix [of sz ln "d @ c" "concat cs"] that
    by (auto simp: Read_more split: if_splits)
  show ?case using last_chunk more by (cases cs) blast+
qed

lemma new_reader_start: "new_reader sz ln = after_bytes sz ln []"
  by (simp add: new_reader_def after_bytes_def)

text \<open>
  An upload is stored exactly when the whole content fits both limits, in
  whichever chunks the request body arrives and whether EOF comes with the last
  chunk or after it; then the object holds the whole content under the resolved
  path and the reported size and number of lines are those of the content (an
  unterminated last line counts). Otherwise one of the two limit errors is
  returned and nothing is stored.
\<close>

theorem Store_limits_exact:
  assumes "resolvePath folderName fileName = Inr p" and "map_of fs p = None"
  shows "if limits_ok sz ln (concat chunks)
    then Store True fileName folderName sz ln chunks eofWithLast fs
      = (Inr \<lparr>md_Size = int (length (concat chunks)), md_LinesNumber = line_count (concat chunks)\<rparr>,
         (p, concat chunks) # fs)
    else Store True fileName folderName sz ln chunks eofWithLast fs
      \<in> {(Inl ErrFileTooLarge, fs), (Inl ErrTooManyLines, fs)}"
  using copy_chunks_from [of ln "[]" sz chunks eofWithLast] assms
  by (auto simp: Store_def new_reader_start within_def)

theorem Store_limits_exact_witness:
  "resolvePath ''t-1'' ''f.jsonl'' = Inr ''t-1/f.jsonl'' \<and>
   Store True ''f.jsonl'' ''t-1'' 5 2 [''a'' @ [newline], ''bc''] False []
     = (Inr \<lparr>md_Size = 4, md_LinesNumber = 2\<rparr>, [(''t-1/f.jsonl'', ''a'' @ [newline] @ ''bc'')])"
proof -
  have p: "resolvePath ''t-1'' ''f.jsonl'' = Inr ''t-1/f.jsonl''" by code_simp
  have l: "limits_ok 5 2 (concat [''a'' @ [newline], ''bc''])"
    "line_count (concat [''a'' @ [newline], ''bc'']) = 2" by code_simp+
  show ?thesis
    using Store_limits_exact [OF p, of "[]" 5 2 "[''a'' @ [newline], ''bc'']" False] p l by simp
qed

end
