(* ===== verification/File_Db.thy ===== *)
theory File_Db
  imports Batch_Store File_Store
begin

text \<open>
  File objects and their metadata table: the types of
  \<^verbatim>\<open>internal/shared/openai/file.go\<close>, the converters of
  \<^verbatim>\<open>internal/shared/converter/file_converter.go\<close>, and the client
  \<^verbatim>\<open>internal/database/postgresql/file_db.go\<close>, which shares the table core with the
  batch client. The status column is never written by the gateway and has no
  counterpart here.
\<close>

section \<open>Types\<close>

definition FileObjectPurposeBatch :: string where "FileObjectPurposeBatch = ''batch''"
definition FileObjectPurposeBatchOutput :: string where "FileObjectPurposeBatchOutput = ''batch_output''"

definition purpose_IsValid :: "string \<Rightarrow> bool" where
  "purpose_IsValid p = (p \<in> set [''assistants'', ''assistants_output'', FileObjectPurposeBatch,
     FileObjectPurposeBatchOutput, ''fine-tune'', ''fine-tune-results'', ''vision'', ''user_data''])"

record FileObject =
  fo_ID :: string
  fo_Bytes :: int
  fo_CreatedAt :: int
  fo_ExpiresAt :: "int option"
  fo_Filename :: string
  fo_Object :: string
  fo_Purpose :: string
  fo_Status :: string

definition zero_file :: FileObject where
  "zero_file = \<lparr>fo_ID = [], fo_Bytes = 0, fo_CreatedAt = 0, fo_ExpiresAt = None, fo_Filename = [],
     fo_Object = [], fo_Purpose = [], fo_Status = []\<rparr>"

text \<open>
  The JSON document of the spec column: one that decodes as a file object, with the
  object it decodes to, or another one.
\<close>

datatype file_spec = SpecFile FileObject | SpecOther

record FileItem =
  ft_ID :: string
  ft_TenantID :: string
  ft_Expiry :: int
  ft_Tags :: tags
  ft_Spec :: "file_spec option"
  ft_Purpose :: string

record FileQuery = BaseQuery +
  q_Purpose :: string

definition no_file_query :: FileQuery where
  "no_file_query = \<lparr>q_IDs = [], q_TenantID = [], q_TagSelectors = [], q_TagsLogicalCond = LogicalCondNone,
    q_Expired = False, q_AfterID = [], q_Descending = False, q_Purpose = []\<rparr>"

record file_row = base_row +
  frow_spec :: "file_spec option"
  frow_purpose :: string

section \<open>Converters\<close>

text \<open>The object a marshalled file object decodes to; the encoding of a file object cannot fail.\<close>

definition json_file :: "FileObject \<Rightarrow> FileObject" where
  "json_file f = f\<lparr>fo_ID := to_valid_utf8 (fo_ID f), fo_Filename := to_valid_utf8 (fo_Filename f), fo_Object := to_valid_utf8 (fo_Object f),
     fo_Purpose := to_valid_utf8 (fo_Purpose f), fo_Status := to_valid_utf8 (fo_Status f)\<rparr>"

definition FileToDBItem :: "FileObject \<Rightarrow> string \<Rightarrow> tags \<Rightarrow> FileItem" where
  "FileToDBItem file tenantID tags =
    \<lparr>ft_ID = fo_ID file, ft_TenantID = tenantID,
     ft_Expiry = (case fo_ExpiresAt file of None \<Rightarrow> 0 | Some e \<Rightarrow> if e > 0 then e else 0),
     ft_Tags = tags, ft_Spec = Some (SpecFile (json_file file)), ft_Purpose = fo_Purpose file\<rparr>"

definition DBItemToFile :: "FileItem \<Rightarrow> FileObject res" where
  "DBItemToFile item = (case ft_Spec item of None \<Rightarrow> Inr zero_file | Some SpecOther \<Rightarrow> Inl (ErrOther ''failed to unmarshal file'')
     | Some (SpecFile f) \<Rightarrow> Inr f)"

section \<open>The client\<close>

definition row_of_file :: "FileItem \<Rightarrow> file_row" where
  "row_of_file item = \<lparr>row_id = ft_ID item, row_tenant = ft_TenantID item, row_expiry = ft_Expiry item,
     row_tags = ft_Tags item, frow_spec = ft_Spec item, frow_purpose = ft_Purpose item\<rparr>"

definition file_of_row :: "bool \<Rightarrow> file_row \<Rightarrow> FileItem" where
  "file_of_row includeStatic r = \<lparr>ft_ID = row_id r, ft_TenantID = row_tenant r, ft_Expiry = row_expiry r,
     ft_Tags = row_tags r, ft_Spec = (if includeStatic then frow_spec r else None), ft_Purpose = frow_purpose r\<rparr>"

definition file_DBStore :: "conn \<Rightarrow> FileItem \<Rightarrow> file_row list \<Rightarrow> unit res \<times> file_row list" where
  "file_DBStore c item t =
    (if ft_ID item = [] then (Inl (ErrInvalid ''ID is empty''), t)
     else case exec_stmt c (pg_store (row_of_file item)) t of
        (Inl e, t') \<Rightarrow> (Inl e, t')
      | (Inr ok, t') \<Rightarrow> (if ok then Inr () else Inl ErrDB, t'))"

definition purpose_filter :: "FileQuery \<Rightarrow> (file_row \<Rightarrow> bool) list" where
  "purpose_filter query = (if q_Purpose query = [] then [] else [\<lambda>r. frow_purpose r = q_Purpose query])"

definition file_DBGet ::
  "conn \<Rightarrow> instant \<Rightarrow> FileQuery \<Rightarrow> bool \<Rightarrow> nat \<Rightarrow> nat \<Rightarrow> file_row list \<Rightarrow> (FileItem list \<times> nat \<times> bool) res" where
  "file_DBGet c now query includeStatic start limit t =
    (let (rows, cursor, more) = pg_get now query start limit (purpose_filter query) [] t
     in if query_conditions now query (purpose_filter query) ([] :: (file_row \<Rightarrow> bool) list) \<noteq> [] \<and> c \<noteq> ConnOk
        then Inl ErrDB else Inr (map (file_of_row includeStatic) rows, cursor, more))"

definition file_DBDelete :: "conn \<Rightarrow> string list \<Rightarrow> file_row list \<Rightarrow> string list res \<times> file_row list" where
  "file_DBDelete c ids t = (if ids = [] then (Inr [], t) else exec_stmt c (pg_delete ids) t)"

section \<open>Laws\<close>

text \<open>The table's integrity: file ids are unique.\<close>

definition files_ok :: "file_row list \<Rightarrow> bool" where
  "files_ok t = distinct (map row_id t)"

lemma files_ok_ops [keeps]:
  "files_ok t \<Longrightarrow> files_ok (snd (file_DBStore c item t))"
  "files_ok t \<Longrightarrow> files_ok (snd (file_DBDelete c ids t))"
  by (cases c; auto simp: files_ok_def file_DBStore_def pg_store_def row_of_file_def;
      auto simp: files_ok_def file_DBDelete_def pg_delete_def distinct_map_filter)+

lemma DBItemToFile_stored [simp]:
  "DBItemToFile (file_of_row True (row_of_file (FileToDBItem f tenant tags))) = Inr (json_file f)"
  "ft_TenantID (file_of_row True (row_of_file (FileToDBItem f tenant tags))) = tenant"
  by (simp_all add: DBItemToFile_def file_of_row_def row_of_file_def FileToDBItem_def)

lemma json_file_id:
  "valid_utf8 (fo_ID f) \<Longrightarrow> valid_utf8 (fo_Filename f) \<Longrightarrow> valid_utf8 (fo_Object f) \<Longrightarrow> valid_utf8 (fo_Purpose f) \<Longrightarrow> valid_utf8 (fo_Status f)
    \<Longrightarrow> json_file f = f"
  by (simp add: json_file_def to_valid_utf8_id)

lemma valid_utf8_purpose: "purpose_IsValid p \<Longrightarrow> valid_utf8 p"
  by (rule valid_utf8_ascii) (auto simp: purpose_IsValid_def FileObjectPurposeBatch_def FileObjectPurposeBatchOutput_def)

lemma json_file_simps [simp]: "fo_Bytes (json_file f) = fo_Bytes f" "fo_Filename (json_file f) = to_valid_utf8 (fo_Filename f)"
  "fo_ID (json_file f) = to_valid_utf8 (fo_ID f)" "fo_ExpiresAt (json_file f) = fo_ExpiresAt f"
  by (simp_all add: json_file_def)

lemma file_get_rows:
  assumes "file_DBGet c now query b start limit t = Inr (items, cursor, m)" and "item \<in> set items"
  obtains r where "r \<in> set t" and "item = file_of_row b r"
    and "list_all (\<lambda>cond. cond r) (query_conditions now query (purpose_filter query) [])"
proof -
  from assms have "item \<in> file_of_row b ` set (select_rows (query_conditions now query (purpose_filter query) [])
      (q_Descending query) t)"
    by (auto simp: file_DBGet_def pg_get_def Let_def split: if_splits dest!: in_set_takeD in_set_dropD)
  then show ?thesis
    using that by (auto simp: select_rows_def order_by_id_def split: if_splits)
qed

end
