(* ===== verification/Collector.thy ===== *)
theory Collector
  imports File_Db
begin

text \<open>
  The expiry collector (\<^verbatim>\<open>internal/gc/collector/collector.go\<close>) and the pod watcher
  that feeds the reconciler (\<^verbatim>\<open>internal/gc/podwatcher/watcher.go\<close>). The deletions
  of one page run concurrently but touch different rows and objects; they are
  modelled in list order.
\<close>

section \<open>State\<close>

record gc_state =
  gs_db :: db
  gs_files :: "file_row list"
  gs_store :: files

record gc_result =
  BatchesDeleted :: nat
  FilesDeleted :: nat
  BatchesFailed :: nat
  FilesFailed :: nat

text \<open>How the environment treats one deletion: the statement, the object store's removals.\<close>

record gc_env =
  ge_conn :: conn
  ge_fails :: "string \<Rightarrow> bool"
  ge_io :: bool

section \<open>Operations\<close>

definition gc_pageSize :: nat where "gc_pageSize = 100"

definition processBatch ::
  "(string \<Rightarrow> string) \<Rightarrow> bool \<Rightarrow> gc_env \<Rightarrow> BatchItem \<Rightarrow> gc_state \<Rightarrow> bool res \<times> gc_state" where
  "processBatch sha dryRun env job s =
    (if dryRun then (Inr False, s)
     else let store = (case GetFolderNameByTenantID sha (bi_TenantID job) of
                  Inl _ \<Rightarrow> gs_store s
                | Inr folder \<Rightarrow> snd (DeletePrefix (ge_fails env) folder (''results/'' @ bi_ID job @ ''/'') (gs_store s)));
              s1 = s\<lparr>gs_store := store\<rparr>
          in (case DBDelete (ge_conn env) [bi_ID job] (gs_db s1) of
              (Inl e, d) \<Rightarrow> (Inl e, s1\<lparr>gs_db := d\<rparr>)
            | (Inr ids, d) \<Rightarrow> (Inr (ids \<noteq> []), s1\<lparr>gs_db := d\<rparr>)))"

definition processFile ::
  "(string \<Rightarrow> string) \<Rightarrow> bool \<Rightarrow> gc_env \<Rightarrow> FileItem \<Rightarrow> gc_state \<Rightarrow> bool res \<times> gc_state" where
  "processFile sha dryRun env file s =
    (if dryRun then (Inr False, s)
     else (case DBItemToFile file of
         Inl e \<Rightarrow> (Inl e, s)
       | Inr fileObject \<Rightarrow>
           (case GetFolderNameByTenantID sha (ft_TenantID file) of
              Inl e \<Rightarrow> (Inl e, s)
            | Inr folderName \<Rightarrow>
                let storageName = FileStorageName (fo_ID fileObject) (fo_Filename fileObject);
                    (r, store) = Delete (ge_io env) storageName folderName (gs_store s);
                    s1 = s\<lparr>gs_store := store\<rparr>
                in (case hard_error r of
                    Some e \<Rightarrow> (Inl e, s1)
                  | None \<Rightarrow> (case file_DBDelete (ge_conn env) [ft_ID file] (gs_files s1) of
                        (Inl e, t) \<Rightarrow> (Inl e, s1\<lparr>gs_files := t\<rparr>)
                      | (Inr ids, t) \<Rightarrow> (Inr (ids \<noteq> []), s1\<lparr>gs_files := t\<rparr>))))))"

text \<open>The counters of one page: deleted and failed items.\<close>

fun process_page :: "('a \<Rightarrow> 's \<Rightarrow> bool res \<times> 's) \<Rightarrow> 'a list \<Rightarrow> nat \<times> nat \<Rightarrow> 's \<Rightarrow> (nat \<times> nat) \<times> 's" where
  "process_page process [] n s = (n, s)"
| "process_page process (x # xs) (deleted, failed) s =
    (case process x s of
       (Inl e, s') \<Rightarrow> process_page process xs (deleted, failed + 1) s'
     | (Inr d, s') \<Rightarrow> process_page process xs (if d then deleted + 1 else deleted, failed) s')"

text \<open>
  The loop the two collections share. \<open>ctxDone\<close> tells whether the context is
  cancelled when the page at a cursor is about to be read; the bound on the
  pages gives \<open>None\<close>.
\<close>

fun collect_pages ::
  "nat \<Rightarrow> (nat \<Rightarrow> bool) \<Rightarrow> (nat \<Rightarrow> 's \<Rightarrow> ('a list \<times> nat \<times> bool) res) \<Rightarrow> ('a \<Rightarrow> 's \<Rightarrow> bool res \<times> 's)
    \<Rightarrow> nat \<Rightarrow> nat \<times> nat \<Rightarrow> 's \<Rightarrow> (error option \<times> (nat \<times> nat) \<times> 's) option" where
  "collect_pages 0 ctxDone get process cursor n s = None"
| "collect_pages (Suc fuel) ctxDone get process cursor n s =
    (if ctxDone cursor then Some (Some ErrContext, n, s)
     else case get cursor s of
         Inl e \<Rightarrow> Some (Some e, n, s)
       | Inr (items, nextCursor, expectMore) \<Rightarrow>
           let (n', s') = process_page process items n s
           in if expectMore then collect_pages fuel ctxDone get process nextCursor n' s'
              else Some (None, n', s'))"

definition expired_query :: BatchQuery where
  "expired_query = no_query\<lparr>q_Expired := True\<rparr>"

definition expired_file_query :: FileQuery where
  "expired_file_query = no_file_query\<lparr>q_Expired := True\<rparr>"

record gc_inputs =
  gi_ctxDone :: "nat \<Rightarrow> bool"
  gi_now :: "nat \<Rightarrow> instant"
  gi_conn :: "nat \<Rightarrow> conn"
  gi_env :: "string \<Rightarrow> gc_env"

definition collectBatchJobs ::
  "(string \<Rightarrow> string) \<Rightarrow> bool \<Rightarrow> gc_inputs \<Rightarrow> gc_state \<Rightarrow> (error option \<times> (nat \<times> nat) \<times> gc_state) option" where
  "collectBatchJobs sha dryRun i s =
    collect_pages (Suc (length (batch_items (gs_db s)))) (gi_ctxDone i)
      (\<lambda>cursor s. DBGet (gi_conn i cursor) (gi_now i cursor) expired_query False cursor gc_pageSize (gs_db s))
      (\<lambda>job. processBatch sha dryRun (gi_env i (bi_ID job)) job) 0 (0, 0) s"

definition collectFiles ::
  "(string \<Rightarrow> string) \<Rightarrow> bool \<Rightarrow> gc_inputs \<Rightarrow> gc_state \<Rightarrow> (error option \<times> (nat \<times> nat) \<times> gc_state) option" where
  "collectFiles sha dryRun i s =
    collect_pages (Suc (length (gs_files s))) (gi_ctxDone i)
      (\<lambda>cursor s. file_DBGet (gi_conn i cursor) (gi_now i cursor) expired_file_query True cursor gc_pageSize (gs_files s))
      (\<lambda>file. processFile sha dryRun (gi_env i (ft_ID file)) file) 0 (0, 0) s"

text \<open>\<^verbatim>\<open>run\<close>: an error of the first collection is logged and the second one runs.\<close>

definition gc_run ::
  "(string \<Rightarrow> string) \<Rightarrow> bool \<Rightarrow> gc_inputs \<Rightarrow> gc_inputs \<Rightarrow> gc_state \<Rightarrow> (gc_result \<times> gc_state) option" where
  "gc_run sha dryRun i j s =
    (case collectBatchJobs sha dryRun i s of
       None \<Rightarrow> None
     | Some (_, (bd, bf), s1) \<Rightarrow>
         (case collectFiles sha dryRun j s1 of
            None \<Rightarrow> None
          | Some (_, (fd, ff), s2) \<Rightarrow>
              Some (\<lparr>BatchesDeleted = bd, FilesDeleted = fd, BatchesFailed = bf, FilesFailed = ff\<rparr>, s2)))"

section \<open>The pod watcher\<close>

record Pod =
  pod_Name :: string
  pod_Conditions :: "(string \<times> string) list"

definition isPodReady :: "Pod \<Rightarrow> bool" where
  "isPodReady pod = list_ex (\<lambda>(ty, st). ty = ''Ready'' \<and> st = ''True'') (pod_Conditions pod)"

definition LivePods :: "Pod list res \<Rightarrow> string list res" where
  "LivePods podList = (case podList of Inl e \<Rightarrow> Inl e | Inr pods \<Rightarrow> Inr (map pod_Name (filter isPodReady pods)))"

record StatefulSet =
  sts_Name :: string
  sts_Replicas :: "int option"
  sts_ReadyReplicas :: int

text \<open>The live set handed to the handler, if any.\<close>

definition onStatefulSetChange :: "string \<Rightarrow> StatefulSet \<Rightarrow> Pod list res \<Rightarrow> string list option" where
  "onStatefulSetChange stsName sts podList =
    (let desired = (case sts_Replicas sts of None \<Rightarrow> 1 | Some n \<Rightarrow> n)
     in if sts_Name sts \<noteq> stsName then None
        else if sts_ReadyReplicas sts \<noteq> desired then None
        else (case LivePods podList of Inl _ \<Rightarrow> None | Inr live \<Rightarrow> Some live))"

section \<open>Collecting a set that shrinks under its own cursor\<close>

locale shrinking_collection =
  fixes get :: "nat \<Rightarrow> 's \<Rightarrow> ('a list \<times> nat \<times> bool) res"
    and process :: "'a \<Rightarrow> 's \<Rightarrow> bool res \<times> 's"
    and expired :: "'s \<Rightarrow> 'a list"
    and page :: nat
    and inv :: "'s \<Rightarrow> bool"
  assumes get_page: "get cursor s = Inr (take page (drop cursor (expired s)),
      cursor + length (take page (drop cursor (expired s))), page < length (drop cursor (expired s)))"
    and inv_distinct: "inv s \<Longrightarrow> distinct (expired s)"
    and process_removes: "inv s \<Longrightarrow> x \<in> set (expired s) \<Longrightarrow>
      \<exists>s'. process x s = (Inr True, s') \<and> inv s' \<and> expired s' = remove1 x (expired s)"
begin

lemma process_prefix:
  "inv s \<Longrightarrow> expired s = xs @ ys \<Longrightarrow>
    \<exists>s'. process_page process xs (d, f) s = ((d + length xs, f), s') \<and> inv s' \<and> expired s' = ys"
proof (induction xs arbitrary: d s)
  case (Cons x xs)
  obtain s1 where s1: "process x s = (Inr True, s1)" "inv s1" "expired s1 = remove1 x (expired s)"
    using process_removes [OF Cons.prems(1), of x] Cons.prems(2) by auto
  from s1(3) Cons.prems(2) have "expired s1 = xs @ ys" by simp
  from Cons.IH [OF s1(2) this, of "d + 1"] s1(1) show ?case by simp
qed simp

lemma one_cycle:
  assumes "inv s" and "length (expired s) \<le> 2 * page" and "0 < fuel" and "page < length (expired s) \<Longrightarrow> 2 \<le> fuel"
  shows "\<exists>s'. collect_pages fuel (\<lambda>_. False) get process 0 (0, 0) s = Some (None, (min page (length (expired s)), 0), s')
    \<and> inv s' \<and> expired s' = drop page (expired s)"
proof -
  obtain m where m: "fuel = Suc m" using assms(3) by (cases fuel) auto
  then have m': "page < length (expired s) \<Longrightarrow> 0 < m" using assms(4) by auto
  obtain s1 where s1: "process_page process (take page (expired s)) (0, 0) s = ((length (take page (expired s)), 0), s1)"
      "inv s1" "expired s1 = drop page (expired s)"
    using process_prefix [OF assms(1), of "take page (expired s)" "drop page (expired s)" 0 0] by auto
  have "length (expired s1) \<le> page" using s1(3) assms(2) by simp
  then have "get (min page (length (expired s))) s1 = Inr ([], min page (length (expired s)), False)"
    if "page < length (expired s)" using that by (simp add: get_page)
  then show ?thesis
    using s1 m m' by (cases m) (auto simp: get_page [of 0 s] min_def)
qed

end

subsection \<open>The two collections are such sets\<close>

lemma map_filter_key:
  assumes "distinct (map key xs)" and "x \<in> set xs" and "\<And>r. key' (g r) = key r"
  shows "map g (filter (\<lambda>r. key r \<noteq> key x) xs) = remove1 (g x) (map g xs)"
  using assms(1,2)
proof (induction xs)
  case (Cons y ys)
  show ?case
  proof (cases "key y = key x")
    case True
    from Cons.prems(1) have fresh: "key y \<notin> key ` set ys" by simp
    with True have "x \<notin> set ys" by (metis image_eqI)
    with Cons.prems(2) have "y = x" by simp
    moreover have "filter (\<lambda>r. key r \<noteq> key x) ys = ys" using fresh True by (auto simp: filter_id_conv) (metis image_eqI)
    ultimately show ?thesis by simp
  next
    case False
    then have "g y \<noteq> g x" using assms(3) by metis
    with False Cons show ?thesis by auto
  qed
qed simp

definition expired_rows :: "instant \<Rightarrow> 'a base_row_scheme list \<Rightarrow> 'a base_row_scheme list" where
  "expired_rows now t = sort_key row_id (filter (expiryCondition now) t)"

definition expired_items :: "instant \<Rightarrow> gc_state \<Rightarrow> BatchItem list" where
  "expired_items now s = map (item_of_row False) (expired_rows now (batch_items (gs_db s)))"

definition expired_files :: "instant \<Rightarrow> gc_state \<Rightarrow> FileItem list" where
  "expired_files now s = map (file_of_row True) (expired_rows now (gs_files s))"

text \<open>An environment in which every statement and every removal of a whole object succeeds.\<close>

definition ok_env :: "(string \<Rightarrow> bool) \<Rightarrow> gc_env" where
  "ok_env fails = \<lparr>ge_conn = ConnOk, ge_fails = fails, ge_io = True\<rparr>"

lemma distinct_expired: "distinct (map row_id t) \<Longrightarrow> distinct (map row_id (expired_rows now t))"
  by (auto simp: expired_rows_def distinct_map intro: inj_on_subset)

lemma expired_rows_delete:
  assumes "distinct (map row_id t)" and "x \<in> set (expired_rows now t)" and "\<And>r. key' (g r) = row_id r"
  shows "map g (expired_rows now (filter (\<lambda>r. row_id r \<notin> {row_id x}) t)) = remove1 (g x) (map g (expired_rows now t))"
proof -
  have "expired_rows now (filter (\<lambda>r. row_id r \<notin> {row_id x}) t) = filter (\<lambda>r. row_id r \<noteq> row_id x) (expired_rows now t)"
    by (simp add: expired_rows_def filter_sort conj_commute)
  moreover have "distinct (map row_id (expired_rows now t))"
    using assms(1) by (rule distinct_expired)
  ultimately show ?thesis using map_filter_key [of row_id "expired_rows now t" x key' g] assms(2,3) by simp
qed

lemma get_expired_items:
  "DBGet ConnOk now expired_query False cursor gc_pageSize (gs_db s) =
    Inr (take gc_pageSize (drop cursor (expired_items now s)),
      cursor + length (take gc_pageSize (drop cursor (expired_items now s))),
      gc_pageSize < length (drop cursor (expired_items now s)))"
  by (simp add: DBGet_def expired_query_def no_query_def pg_get_def query_conditions_def select_rows_def
      order_by_id_def expired_items_def expired_rows_def Let_def take_map drop_map min_def)

lemma get_expired_files:
  "file_DBGet ConnOk now expired_file_query True cursor gc_pageSize (gs_files s) =
    Inr (take gc_pageSize (drop cursor (expired_files now s)),
      cursor + length (take gc_pageSize (drop cursor (expired_files now s))),
      gc_pageSize < length (drop cursor (expired_files now s)))"
  by (simp add: file_DBGet_def expired_file_query_def no_file_query_def pg_get_def query_conditions_def select_rows_def
      order_by_id_def expired_files_def expired_rows_def purpose_filter_def Let_def take_map drop_map min_def)

lemma processBatch_removes:
  assumes s: "db_ok (gs_db s)" and x: "x \<in> set (expired_items now s)"
  shows "\<exists>s'. processBatch sha False (ok_env fails) x s = (Inr True, s') \<and> db_ok (gs_db s')
    \<and> expired_items now s' = remove1 x (expired_items now s)"
proof -
  obtain r where r: "r \<in> set (expired_rows now (batch_items (gs_db s)))" "x = item_of_row False r"
    using x by (auto simp: expired_items_def)
  then have id: "bi_ID x = row_id r" "row_id r \<in> row_id ` set (batch_items (gs_db s))"
    by (auto simp: item_of_row_def expired_rows_def)
  have ok: "db_ok (snd (DBDelete ConnOk [row_id r] (gs_db s)))" by (rule safeD(1) [OF safe_DBDelete s])
  have rows: "batch_items (snd (DBDelete ConnOk [row_id r] (gs_db s)))
      = filter (\<lambda>q. row_id q \<notin> {row_id r}) (batch_items (gs_db s))"
    by (simp add: DBDelete_def pg_delete_def)
  have "\<exists>y \<in> set (batch_items (gs_db s)). row_id y = row_id r" using id(2) by (metis imageE)
  then have del: "\<exists>ids. fst (DBDelete ConnOk [row_id r] (gs_db s)) = Inr ids \<and> ids \<noteq> []"
    by (auto simp: DBDelete_def pg_delete_def filter_empty_conv)
  have "map (item_of_row False) (expired_rows now (filter (\<lambda>q. row_id q \<notin> {row_id r}) (batch_items (gs_db s))))
      = remove1 x (expired_items now s)"
    unfolding expired_items_def r(2)
    by (rule expired_rows_delete [OF _ r(1), where key' = bi_ID])
      (use s in \<open>simp_all add: db_ok_def item_of_row_def\<close>)
  then show ?thesis
    using ok rows del
    by (auto simp: processBatch_def ok_env_def id(1) Let_def expired_items_def split: prod.split)
qed

interpretation batches: shrinking_collection
    "\<lambda>cursor s. DBGet ConnOk now expired_query False cursor gc_pageSize (gs_db s)"
    "\<lambda>job. processBatch sha False (ok_env (fails (bi_ID job))) job" "expired_items now" gc_pageSize
    "\<lambda>s. db_ok (gs_db s)"
  for now sha fails
proof
  show "distinct (expired_items now s)" if "db_ok (gs_db s)" for s
  proof -
    have "distinct (map bi_ID (expired_items now s))"
      using distinct_expired [of "batch_items (gs_db s)" now] that
      by (simp add: expired_items_def item_of_row_def o_def db_ok_def)
    then show ?thesis by (simp add: distinct_map)
  qed
qed (use get_expired_items processBatch_removes in auto)

text \<open>Every file row has a tenant, so that its folder can be derived, and a document that decodes.\<close>

definition gc_files_ok :: "gc_state \<Rightarrow> bool" where
  "gc_files_ok s = (files_ok (gs_files s) \<and> list_all (\<lambda>r. row_tenant r \<noteq> [] \<and> frow_spec r \<noteq> Some SpecOther) (gs_files s))"

lemma resolve_storage_name: "\<exists>p. resolvePath (''t-'' @ x) (FileStorageName i n) = Inr p"
  by (simp add: resolvePath_def FileStorageName_def)

lemma processFile_removes:
  assumes s: "gc_files_ok s" and x: "x \<in> set (expired_files now s)"
  shows "\<exists>s'. processFile sha False (ok_env fails) x s = (Inr True, s') \<and> gc_files_ok s'
    \<and> expired_files now s' = remove1 x (expired_files now s)"
proof -
  obtain r where r: "r \<in> set (expired_rows now (gs_files s))" "x = file_of_row True r"
    using x by (auto simp: expired_files_def)
  then have r': "r \<in> set (gs_files s)" by (simp add: expired_rows_def)
  have id: "ft_ID x = row_id r" "ft_TenantID x = row_tenant r" by (simp_all add: r(2) file_of_row_def)
  have "frow_spec r \<noteq> Some SpecOther" using s r' by (simp add: gc_files_ok_def list_all_iff)
  then have "\<exists>f. DBItemToFile x = Inr f"
    by (auto simp: r(2) DBItemToFile_def file_of_row_def split: option.split file_spec.split)
  then obtain f where f: "DBItemToFile x = Inr f" by blast
  have folder: "GetFolderNameByTenantID sha (row_tenant r) = Inr (''t-'' @ take 61 (sha (row_tenant r)))"
    using s r' by (auto simp: GetFolderNameByTenantID_def gc_files_ok_def list_all_iff)
  let ?t = "filter (\<lambda>q. row_id q \<notin> {row_id r}) (gs_files s)"
  have del: "file_DBDelete ConnOk [row_id r] (gs_files s) = (Inr (map row_id (filter (\<lambda>q. row_id q \<in> {row_id r}) (gs_files s))), ?t)"
    by (simp add: file_DBDelete_def pg_delete_def)
  have some: "filter (\<lambda>q. row_id q \<in> {row_id r}) (gs_files s) \<noteq> []"
    using r' by (auto simp: filter_empty_conv)
  have step: "\<exists>st. processFile sha False (ok_env fails) x s = (Inr True, s\<lparr>gs_store := st, gs_files := ?t\<rparr>)"
  proof -
    obtain p where p: "resolvePath (''t-'' @ take 61 (sha (row_tenant r)))
        (FileStorageName (fo_ID f) (fo_Filename f)) = Inr p"
      using resolve_storage_name by blast
    from hard_error_Delete [OF p] some show ?thesis
      by (auto simp: processFile_def f id folder ok_env_def Let_def del split_beta)
  qed
  have "map (file_of_row True) (expired_rows now ?t) = remove1 x (expired_files now s)"
    unfolding expired_files_def r(2)
    by (rule expired_rows_delete [OF _ r(1), where key' = ft_ID])
      (use s in \<open>simp_all add: gc_files_ok_def files_ok_def file_of_row_def\<close>)
  moreover have "gc_files_ok (s\<lparr>gs_store := st, gs_files := ?t\<rparr>)" for st
    using s by (auto simp: gc_files_ok_def files_ok_def distinct_map_filter list_all_iff)
  ultimately show ?thesis using step by (auto simp: expired_files_def)
qed

interpretation file_rows: shrinking_collection
    "\<lambda>cursor s. file_DBGet ConnOk now expired_file_query True cursor gc_pageSize (gs_files s)"
    "\<lambda>file. processFile sha False (ok_env (fails (ft_ID file))) file" "expired_files now" gc_pageSize gc_files_ok
  for now sha fails
proof
  show "distinct (expired_files now s)" if "gc_files_ok s" for s
  proof -
    have "distinct (map ft_ID (expired_files now s))"
      using distinct_expired [of "gs_files s" now] that
      by (simp add: expired_files_def file_of_row_def o_def gc_files_ok_def files_ok_def)
    then show ?thesis by (simp add: distinct_map)
  qed
qed (use get_expired_files processFile_removes in auto)

section \<open>A collection always ends\<close>

lemma collect_pages_ends:
  assumes shrink: "\<And>x s. m (snd (process x s)) \<le> m s"
    and more: "\<And>cursor s items nxt. get cursor s = Inr (items, nxt, True) \<Longrightarrow> cursor < nxt \<and> nxt < (m s :: nat)"
  shows "m s - cursor < fuel \<Longrightarrow> collect_pages fuel ctxDone get process cursor n s \<noteq> None"
proof (induction fuel arbitrary: cursor n s)
  case (Suc fuel)
  have page: "m (snd (process_page process xs n s)) \<le> m s" for xs n s
  proof (induction xs arbitrary: n s)
    case (Cons x xs)
    obtain d f where n: "n = (d, f)" by (cases n)
    obtain r s1 where p: "process x s = (r, s1)" by fastforce
    have "m s1 \<le> m s" using shrink [of x s] p by simp
    then have "m (snd (process_page process xs n1 s1)) \<le> m s" for n1
      using Cons.IH [of n1 s1] by (rule order_trans [rotated])
    then show ?case by (simp add: n p split: sum.split)
  qed simp
  show ?case
  proof (cases "get cursor s")
    case (Inr b)
    obtain items nxt mr where b: "b = (items, nxt, mr)" by (cases b)
    obtain n' s' where pp: "process_page process items n s = (n', s')" by fastforce
    have "m s' \<le> m s" using page [of items n s] pp by simp
    then have "mr \<Longrightarrow> m s' - nxt < fuel" using more [of cursor s items nxt] Inr b Suc.prems by auto
    then show ?thesis using Suc.IH [of s' nxt n'] Inr b pp by auto
  qed simp
qed simp

lemma expired_getD:
  "DBGet c now expired_query b cursor n d = Inr (items, nxt, m) \<Longrightarrow> x \<in> set items \<Longrightarrow>
    \<exists>r \<in> set (batch_items d). x = item_of_row b r \<and> expiryCondition now r"
  by (auto simp: DBGet_def expired_query_def no_query_def pg_get_def query_conditions_def select_rows_def
      order_by_id_def Let_def split: if_splits dest!: in_set_takeD in_set_dropD) blast+

lemma expired_file_getD:
  "file_DBGet c now expired_file_query b cursor n t = Inr (items, nxt, m) \<Longrightarrow> x \<in> set items \<Longrightarrow>
    \<exists>r \<in> set t. x = file_of_row b r \<and> expiryCondition now r"
  by (auto simp: file_DBGet_def expired_file_query_def no_file_query_def pg_get_def query_conditions_def select_rows_def
      order_by_id_def purpose_filter_def Let_def split: if_splits dest!: in_set_takeD in_set_dropD) blast+

lemma get_bound:
  assumes "DBGet c now expired_query b cursor gc_pageSize d = Inr (items, nxt, True)"
  shows "cursor < nxt \<and> nxt < length (batch_items d)"
proof -
  have "cursor < nxt \<and> nxt < length (filter (expiryCondition now) (batch_items d))"
    using assms by (auto simp: DBGet_def expired_query_def no_query_def pg_get_def query_conditions_def select_rows_def
        order_by_id_def Let_def gc_pageSize_def split: if_splits)
  then show ?thesis by (meson length_filter_le less_le_trans)
qed

lemma file_get_bound:
  assumes "file_DBGet c now expired_file_query b cursor gc_pageSize t = Inr (items, nxt, True)"
  shows "cursor < nxt \<and> nxt < length t"
proof -
  have "cursor < nxt \<and> nxt < length (filter (expiryCondition now) t)"
    using assms by (auto simp: file_DBGet_def expired_file_query_def no_file_query_def pg_get_def query_conditions_def
        select_rows_def order_by_id_def purpose_filter_def Let_def gc_pageSize_def split: if_splits)
  then show ?thesis by (meson length_filter_le less_le_trans)
qed

lemma processBatch_db:
  "gs_db (snd (processBatch sha dry env job s)) =
     (if dry then gs_db s else snd (DBDelete (ge_conn env) [bi_ID job] (gs_db s)))"
  "gs_files (snd (processBatch sha dry env job s)) = gs_files s"
  by (simp_all add: processBatch_def Let_def split_beta split: sum.split)

lemma processFile_rows:
  "gs_db (snd (processFile sha dry env f s)) = gs_db s"
  "gs_files (snd (processFile sha dry env f s)) = gs_files s
    \<or> gs_files (snd (processFile sha dry env f s)) = snd (file_DBDelete (ge_conn env) [ft_ID f] (gs_files s))"
  by (auto simp: processFile_def Let_def split_beta split: sum.split option.split)

lemma find_item_DBDelete: "k \<notin> set ids \<Longrightarrow> find_item k (snd (DBDelete c ids d)) = find_item k d"
  by (auto simp: DBDelete_def pg_delete_def snd_exec_stmt find_item_def intro: by_key_filter_other)

lemma entries_DBDelete:
  "k \<notin> set ids \<Longrightarrow> filter (\<lambda>e. en_batch e = k) (batch_entries (snd (DBDelete c ids d))) = filter (\<lambda>e. en_batch e = k) (batch_entries d)"
  by (auto simp: DBDelete_def pg_delete_def snd_exec_stmt intro!: filter_cong)

lemma by_key_file_DBDelete: "k \<notin> set ids \<Longrightarrow> by_key row_id k (snd (file_DBDelete c ids t)) = by_key row_id k t"
  by (auto simp: file_DBDelete_def pg_delete_def snd_exec_stmt intro: by_key_filter_other)

lemma collections_end:
  "collectBatchJobs sha dry i s \<noteq> None" "collectFiles sha dry i s \<noteq> None"
proof -
  have "length (batch_items (gs_db (snd (processBatch sha dry env job s)))) \<le> length (batch_items (gs_db s))" for env job s
    by (simp add: processBatch_db DBDelete_def pg_delete_def snd_exec_stmt)
  then show "collectBatchJobs sha dry i s \<noteq> None"
    unfolding collectBatchJobs_def
    by (intro collect_pages_ends [where m = "\<lambda>s. length (batch_items (gs_db s))"]) (auto dest: get_bound)
  have "length (gs_files (snd (processFile sha dry env f s))) \<le> length (gs_files s)" for env f s
    using processFile_rows(2) [of sha dry env f s] by (auto simp: file_DBDelete_def pg_delete_def snd_exec_stmt)
  then show "collectFiles sha dry i s \<noteq> None"
    unfolding collectFiles_def
    by (intro collect_pages_ends [where m = "\<lambda>s. length (gs_files s)"]) (auto dest: file_get_bound)
qed

lemma collect_pages_inv:
  assumes step: "\<And>cursor s items nxt m x s1. P s \<Longrightarrow> get cursor s = Inr (items, nxt, m) \<Longrightarrow> x \<in> set items \<Longrightarrow>
      P s1 \<Longrightarrow> P (snd (process x s1))"
  shows "P s \<Longrightarrow> collect_pages fuel ctxDone get process cursor n s = Some (e, n', s') \<Longrightarrow> P s'"
proof (induction fuel arbitrary: cursor n s)
  case (Suc fuel)
  have page: "P (snd (process_page process xs n s1))"
    if "get cursor s = Inr (items, nxt, m)" "set xs \<subseteq> set items" "P s1" for items nxt m xs n s1
    using that(2,3)
  proof (induction xs arbitrary: n s1)
    case (Cons x xs)
    obtain d f where n: "n = (d, f)" by (cases n)
    obtain r s2 where p: "process x s1 = (r, s2)" by fastforce
    have "P s2" using step [OF Suc.prems(1) that(1) _ Cons.prems(2), of x] Cons.prems(1) p by simp
    then show ?case using Cons.IH Cons.prems(1) by (simp add: n p split: sum.split)
  qed simp
  have more: "P s'" if "get cursor s = Inr (items, nxt, m)" "\<not> ctxDone cursor" for items nxt m
    using Suc.prems(2) page [OF that(1) subset_refl Suc.prems(1), of n]
      Suc.IH [of "snd (process_page process items n s)" nxt "fst (process_page process items n s)"] that
    by (auto simp: split_beta split: if_splits)
  show ?case
    using Suc.prems more by (cases "get cursor s") (auto split: if_splits)
qed simp

lemma collectBatchJobs_keeps:
  assumes run: "collectBatchJobs sha dry i s = Some (e, n, s')" and s: "db_ok (gs_db s)"
    and r: "find_item k (gs_db s) = Some r" "\<And>c. \<not> expiryCondition (gi_now i c) r"
  shows "db_ok (gs_db s') \<and> find_item k (gs_db s') = Some r \<and> gs_files s' = gs_files s
    \<and> filter (\<lambda>e. en_batch e = k) (batch_entries (gs_db s')) = filter (\<lambda>e. en_batch e = k) (batch_entries (gs_db s))"
    (is "?P s'")
proof (rule collect_pages_inv [where P = ?P, OF _ _ run [unfolded collectBatchJobs_def]])
  fix cursor items nxt m x and s0 s1 :: gc_state
  assume P: "?P s0" "?P s1"
    and x: "DBGet (gi_conn i cursor) (gi_now i cursor) expired_query False cursor gc_pageSize (gs_db s0) = Inr (items, nxt, m)" "x \<in> set items"
  from expired_getD [OF x] obtain r' where r': "r' \<in> set (batch_items (gs_db s0))" "x = item_of_row False r'"
    "expiryCondition (gi_now i cursor) r'" by blast
  have "r' \<noteq> r" using r'(3) r(2) by metis
  then have "bi_ID x \<noteq> k"
    using r' P(1) db_ok_by_key(1) [of "gs_db s0" k r] db_ok_by_key(1) [of "gs_db s0" k r'] by (auto simp: item_of_row_def)
  then show "?P (snd (processBatch sha dry (gi_env i (bi_ID x)) x s1))"
    using P(2) safeD(1) [OF safe_DBDelete] by (auto simp: processBatch_db find_item_DBDelete entries_DBDelete)
qed (use s r in auto)

lemma collectFiles_keeps:
  assumes run: "collectFiles sha dry j s = Some (e, n, s')" and s: "files_ok (gs_files s)"
    and f: "by_key row_id k (gs_files s) = Some rf" "\<And>c. \<not> expiryCondition (gi_now j c) rf"
  shows "gs_db s' = gs_db s \<and> files_ok (gs_files s') \<and> by_key row_id k (gs_files s') = Some rf"
    (is "?P s'")
proof (rule collect_pages_inv [where P = ?P, OF _ _ run [unfolded collectFiles_def]])
  fix cursor items nxt m x and s0 s1 :: gc_state
  assume P: "?P s0" "?P s1"
    and x: "file_DBGet (gi_conn j cursor) (gi_now j cursor) expired_file_query True cursor gc_pageSize (gs_files s0) = Inr (items, nxt, m)" "x \<in> set items"
  from expired_file_getD [OF x] obtain r' where r': "r' \<in> set (gs_files s0)" "x = file_of_row True r'"
    "expiryCondition (gi_now j cursor) r'" by blast
  have "r' \<noteq> rf" using r'(3) f(2) by metis
  then have "ft_ID x \<noteq> k"
    using r' P(1) by (auto simp: file_of_row_def files_ok_def by_key_Some_iff distinct_map inj_on_def)
  then show "?P (snd (processFile sha dry (gi_env j (ft_ID x)) x s1))"
    using P(2) processFile_rows [of sha dry "gi_env j (ft_ID x)" x s1] files_ok_ops(2) [of "gs_files s1"]
    by (auto simp: by_key_file_DBDelete)
qed (use s f in auto)

section \<open>What a cycle removes from the file store\<close>

text \<open>
  The paths a cycle may remove: the result objects of a batch that is expired at one of
  the instants its pages are read, and the content of such a file.
\<close>

definition expired_result_path :: "(string \<Rightarrow> string) \<Rightarrow> gc_inputs \<Rightarrow> gc_state \<Rightarrow> string \<Rightarrow> bool" where
  "expired_result_path sha i s p = (\<exists>r \<in> set (batch_items (gs_db s)). \<exists>c folder. expiryCondition (gi_now i c) r
     \<and> GetFolderNameByTenantID sha (row_tenant r) = Inr folder \<and> under (path_join [folder, ''results/'' @ row_id r @ ''/'']) p)"

definition expired_content_path :: "(string \<Rightarrow> string) \<Rightarrow> gc_inputs \<Rightarrow> gc_state \<Rightarrow> string \<Rightarrow> bool" where
  "expired_content_path sha j s p = (\<exists>r \<in> set (gs_files s). \<exists>c f folder. expiryCondition (gi_now j c) r
     \<and> DBItemToFile (file_of_row True r) = Inr f \<and> GetFolderNameByTenantID sha (row_tenant r) = Inr folder
     \<and> resolvePath folder (FileStorageName (fo_ID f) (fo_Filename f)) = Inr p)"

lemma processBatch_store:
  "map_of (gs_store (snd (processBatch sha dry env job s))) p = map_of (gs_store s) p
    \<or> map_of (gs_store (snd (processBatch sha dry env job s))) p = None
      \<and> (\<exists>folder. GetFolderNameByTenantID sha (bi_TenantID job) = Inr folder
           \<and> under (path_join [folder, ''results/'' @ bi_ID job @ ''/'']) p)"
proof (cases "GetFolderNameByTenantID sha (bi_TenantID job)")
  case (Inr folder)
  then show ?thesis
    using DeletePrefix_removes [of "ge_fails env" folder "''results/'' @ bi_ID job @ ''/''" "gs_store s" p]
      DeletePrefix_other [of folder "''results/'' @ bi_ID job" p "ge_fails env" "gs_store s"]
    by (auto simp: processBatch_def Let_def slash_def split_beta split: sum.split)
qed (simp add: processBatch_def Let_def split_beta split: sum.split)

lemma processFile_store:
  "map_of (gs_store (snd (processFile sha dry env f s))) p = map_of (gs_store s) p
    \<or> map_of (gs_store (snd (processFile sha dry env f s))) p = None
      \<and> (\<exists>obj folder. DBItemToFile f = Inr obj \<and> GetFolderNameByTenantID sha (ft_TenantID f) = Inr folder
           \<and> resolvePath folder (FileStorageName (fo_ID obj) (fo_Filename obj)) = Inr p)"
proof (cases "DBItemToFile f")
  case obj: (Inr obj)
  show ?thesis
  proof (cases "GetFolderNameByTenantID sha (ft_TenantID f)")
    case (Inr folder)
    with obj Delete_other [of "ge_io env" "FileStorageName (fo_ID obj) (fo_Filename obj)" folder "gs_store s" p] show ?thesis
      by (auto simp: processFile_def Let_def split_beta split: sum.split option.split)
  qed (simp add: processFile_def obj)
qed (simp add: processFile_def)

lemma collectBatchJobs_store:
  assumes run: "collectBatchJobs sha dry i s = Some (e, n, s')"
  shows "set (batch_items (gs_db s')) \<subseteq> set (batch_items (gs_db s)) \<and> gs_files s' = gs_files s \<and> (dry \<longrightarrow> s' = s)
    \<and> (\<forall>p. map_of (gs_store s') p = map_of (gs_store s) p \<or> map_of (gs_store s') p = None \<and> expired_result_path sha i s p)"
    (is "?P s'")
proof (rule collect_pages_inv [where P = ?P, OF _ _ run [unfolded collectBatchJobs_def]])
  fix cursor items nxt m x and s0 s1 :: gc_state
  let ?s2 = "snd (processBatch sha dry (gi_env i (bi_ID x)) x s1)"
  assume P: "?P s0" "?P s1"
    and x: "DBGet (gi_conn i cursor) (gi_now i cursor) expired_query False cursor gc_pageSize (gs_db s0) = Inr (items, nxt, m)" "x \<in> set items"
  from expired_getD [OF x] P(1) obtain r where r: "r \<in> set (batch_items (gs_db s))" "x = item_of_row False r"
    "expiryCondition (gi_now i cursor) r" by blast
  have "expired_result_path sha i s p"
    if "GetFolderNameByTenantID sha (bi_TenantID x) = Inr folder" "under (path_join [folder, ''results/'' @ bi_ID x @ ''/'']) p" for p folder
    unfolding expired_result_path_def using r that by (auto simp: item_of_row_def)
  then have "map_of (gs_store ?s2) p = map_of (gs_store s1) p \<or> map_of (gs_store ?s2) p = None \<and> expired_result_path sha i s p" for p
    using processBatch_store [of sha dry "gi_env i (bi_ID x)" x s1 p] by blast
  moreover have "dry \<longrightarrow> ?s2 = s1" by (simp add: processBatch_def)
  moreover have "set (batch_items (gs_db ?s2)) \<subseteq> set (batch_items (gs_db s1))"
    by (auto simp: processBatch_db DBDelete_def pg_delete_def snd_exec_stmt)
  ultimately show "?P ?s2" using P(2) by (simp add: processBatch_db(2)) (metis subset_trans)
qed simp

lemma collectFiles_store:
  assumes run: "collectFiles sha dry j s = Some (e, n, s')"
  shows "gs_db s' = gs_db s \<and> set (gs_files s') \<subseteq> set (gs_files s) \<and> (dry \<longrightarrow> s' = s)
    \<and> (\<forall>p. map_of (gs_store s') p = map_of (gs_store s) p \<or> map_of (gs_store s') p = None \<and> expired_content_path sha j s p)"
    (is "?P s'")
proof (rule collect_pages_inv [where P = ?P, OF _ _ run [unfolded collectFiles_def]])
  fix cursor items nxt m x and s0 s1 :: gc_state
  let ?s2 = "snd (processFile sha dry (gi_env j (ft_ID x)) x s1)"
  assume P: "?P s0" "?P s1"
    and x: "file_DBGet (gi_conn j cursor) (gi_now j cursor) expired_file_query True cursor gc_pageSize (gs_files s0) = Inr (items, nxt, m)" "x \<in> set items"
  from expired_file_getD [OF x] P(1) obtain r where r: "r \<in> set (gs_files s)" "x = file_of_row True r"
    "expiryCondition (gi_now j cursor) r" by blast
  have "expired_content_path sha j s p"
    if "DBItemToFile x = Inr f" "GetFolderNameByTenantID sha (ft_TenantID x) = Inr folder"
      "resolvePath folder (FileStorageName (fo_ID f) (fo_Filename f)) = Inr p" for p f folder
    unfolding expired_content_path_def using r that by (auto simp: file_of_row_def)
  then have "map_of (gs_store ?s2) p = map_of (gs_store s1) p \<or> map_of (gs_store ?s2) p = None \<and> expired_content_path sha j s p" for p
    using processFile_store [of sha dry "gi_env j (ft_ID x)" x s1 p] by blast
  moreover have "dry \<longrightarrow> ?s2 = s1" by (simp add: processFile_def)
  moreover have "set (gs_files ?s2) \<subseteq> set (gs_files s1)"
    using processFile_rows(2) [of sha dry "gi_env j (ft_ID x)" x s1]
    by (auto simp: file_DBDelete_def pg_delete_def snd_exec_stmt split: if_splits)
  ultimately show "?P ?s2" using P(2) by (simp add: processFile_rows(1)) (metis subset_trans)
qed simp

section \<open>Properties\<close>

text \<open>
  C32: A collection cycle always ends, and removes nothing that has not expired: whatever
  fails on the way, every batch whose expiry lies in the future keeps its row and all its
  entries, every such file keeps its metadata row, and a path of the file store is untouched
  unless it lies below the results of an expired batch or is the content of an
  expired file, in which case it can only be removed. A dry run changes nothing at all.
\<close>

theorem gc_deletes_only_expired:
  assumes s: "db_ok (gs_db s)" "files_ok (gs_files s)"
  shows "\<exists>result s'. gc_run sha dry i j s = Some (result, s')
    \<and> (\<forall>k r. find_item k (gs_db s) = Some r \<and> (\<forall>c. \<not> expiryCondition (gi_now i c) r) \<longrightarrow> find_item k (gs_db s') = Some r
         \<and> filter (\<lambda>e. en_batch e = k) (batch_entries (gs_db s')) = filter (\<lambda>e. en_batch e = k) (batch_entries (gs_db s)))
    \<and> (\<forall>k r. by_key row_id k (gs_files s) = Some r \<and> (\<forall>c. \<not> expiryCondition (gi_now j c) r) \<longrightarrow> by_key row_id k (gs_files s') = Some r)
    \<and> (\<forall>p. map_of (gs_store s') p = map_of (gs_store s) p
         \<or> map_of (gs_store s') p = None \<and> (expired_result_path sha i s p \<or> expired_content_path sha j s p))
    \<and> (dry \<longrightarrow> s' = s)"
proof -
  obtain e1 bd bf s1 where c1: "collectBatchJobs sha dry i s = Some (e1, (bd, bf), s1)"
    using collections_end(1) [of sha dry i s] by auto
  obtain e2 fd ff s2 where c2: "collectFiles sha dry j s1 = Some (e2, (fd, ff), s2)"
    using collections_end(2) [of sha dry j s1] by auto
  note 1 = collectBatchJobs_store [OF c1] and 2 = collectFiles_store [OF c2]
  have content: "expired_content_path sha j s1 p = expired_content_path sha j s p" for p
    using 1 by (simp add: expired_content_path_def)
  have files: "by_key row_id k (gs_files s2) = Some r" if "by_key row_id k (gs_files s) = Some r" "\<forall>c. \<not> expiryCondition (gi_now j c) r" for k r
    using collectFiles_keeps [OF c2, of k r] 1 s(2) that by simp
  have rows: "find_item k (gs_db s2) = Some r
      \<and> filter (\<lambda>e. en_batch e = k) (batch_entries (gs_db s2)) = filter (\<lambda>e. en_batch e = k) (batch_entries (gs_db s))"
    if "find_item k (gs_db s) = Some r" "\<forall>c. \<not> expiryCondition (gi_now i c) r" for k r
    using collectBatchJobs_keeps [OF c1 s(1), of k r] 2 that by simp
  have paths: "map_of (gs_store s2) p = map_of (gs_store s) p
      \<or> map_of (gs_store s2) p = None \<and> (expired_result_path sha i s p \<or> expired_content_path sha j s p)" for p
    using 1 2 content by metis
  have "gc_run sha dry i j s = Some (\<lparr>BatchesDeleted = bd, FilesDeleted = fd, BatchesFailed = bf, FilesFailed = ff\<rparr>, s2)"
    using c1 c2 by (simp add: gc_run_def)
  moreover have "dry \<longrightarrow> s2 = s" using 1 2 by simp
  ultimately show ?thesis using files rows paths by blast
qed

text \<open>A cycle in which every statement succeeds at the instant \<open>now\<close>.\<close>

definition ok_inputs :: "instant \<Rightarrow> (string \<Rightarrow> string \<Rightarrow> bool) \<Rightarrow> gc_inputs" where
  "ok_inputs now fails = \<lparr>gi_ctxDone = \<lambda>_. False, gi_now = \<lambda>_. now, gi_conn = \<lambda>_. ConnOk, gi_env = \<lambda>k. ok_env (fails k)\<rparr>"

definition gc_sample :: gc_state where
  "gc_sample = \<lparr>gs_db = \<lparr>batch_items = map (\<lambda>n. (sample_row (replicate (Suc n) CHR ''b'') 0)\<lparr>row_expiry := 1\<rparr>) [0..<101] @ [sample_row ''a'' 0],
     batch_entries = []\<rparr>, gs_files = [row_of_file (FileToDBItem (zero_file\<lparr>fo_ID := ''f''\<rparr>) ''t'' [])], gs_store = []\<rparr>"

lemma gc_sample_ok: "db_ok (gs_db gc_sample)" "files_ok (gs_files gc_sample)"
proof -
  have "inj_on (\<lambda>n. replicate (Suc n) CHR ''b'') A" for A
    by (rule inj_onI) (metis Suc_inject length_replicate)
  then have "distinct (map (\<lambda>n. replicate (Suc n) CHR ''b'') [0..<101])" by (simp only: distinct_map distinct_upt simp_thms)
  then show "db_ok (gs_db gc_sample)"
    by (auto simp: db_ok_def gc_sample_def sample_row_def row_ok_def list_all_iff o_def simp del: upt_Suc upt_conv_Cons_Cons replicate_Suc)
      (auto simp: sample_row_def)
qed (simp add: files_ok_def gc_sample_def)

theorem gc_deletes_only_expired_witness:
  "\<exists>result s'. gc_run (\<lambda>x. x) False (ok_inputs (secs 5) (\<lambda>_ _. False)) (ok_inputs (secs 5) (\<lambda>_ _. False)) gc_sample = Some (result, s')
    \<and> find_item ''a'' (gs_db s') = Some (sample_row ''a'' 0)"
proof -
  have r: "find_item ''a'' (gs_db gc_sample) = Some (sample_row ''a'' 0)"
    unfolding db_ok_by_key(1) [OF gc_sample_ok(1)] by (simp add: gc_sample_def sample_row_def)
  have "\<not> expiryCondition n (sample_row ''a'' 0)" for n by (simp add: expiryCondition_def sample_row_def)
  with gc_deletes_only_expired [OF gc_sample_ok, of "\<lambda>x. x" False "ok_inputs (secs 5) (\<lambda>_ _. False)" "ok_inputs (secs 5) (\<lambda>_ _. False)"] r
  show ?thesis by blast
qed

text \<open>
  C38: A cycle advances its offset over a result set its own deletions have just
  shortened. With up to two hundred expired batches and every statement
  succeeding, it deletes the first hundred in id order and reports success,
  leaving all others for a later cycle; only with at most a hundred is the set
  empty afterwards.
\<close>

theorem collector_skips_page:
  assumes "db_ok (gs_db s)" and "length (expired_items now s) \<le> 200"
  shows "\<exists>s'. collectBatchJobs sha False (ok_inputs now fails) s = Some (None, (min 100 (length (expired_items now s)), 0), s')
    \<and> expired_items now s' = drop 100 (expired_items now s)"
proof -
  have "length (expired_items now s) \<le> length (batch_items (gs_db s))"
    by (simp add: expired_items_def expired_rows_def)
  then show ?thesis
    using batches.one_cycle [of s now "Suc (length (batch_items (gs_db s)))" sha fails] assms
    by (auto simp: collectBatchJobs_def ok_inputs_def gc_pageSize_def simp del: collect_pages.simps)
qed

theorem collector_skips_page_witness:
  "\<exists>s'. collectBatchJobs (\<lambda>x. x) False (ok_inputs (secs 5) (\<lambda>_ _. False)) gc_sample = Some (None, (100, 0), s')
    \<and> length (expired_items (secs 5) s') = 1"
proof -
  have n: "length (expired_items (secs 5) gc_sample) = 101"
    by (simp add: expired_items_def expired_rows_def gc_sample_def filter_map o_def expiryCondition_def sample_row_def
        unix_def secs_def del: upt_Suc upt_conv_Cons_Cons)
  with collector_skips_page [OF gc_sample_ok(1), of "secs 5" "\<lambda>x. x" "\<lambda>_ _. False"]
  show ?thesis by auto
qed

end
