(* ===== verification/Events.thy ===== *)
theory Events
  imports OpenAI_Batch Gateway_Prelude "HOL-Library.AList"
begin

text \<open>
  The event channel (\<^verbatim>\<open>internal/database/postgresql/batch_event.go\<close>): the table
  \<^verbatim>\<open>batch_events\<close> is the durable queue, a subscriber of a job has a bounded Go
  channel, and a delivery selects pending rows, offers them to the channel, and
  acknowledges the accepted ones by deleting their rows. What other goroutines do
  between the selection and the offer is a function argument.
\<close>

section \<open>State\<close>

datatype BatchEventType = BatchEventCancel | BatchEventPause | BatchEventResume

record BatchEvent =
  be_ID :: string
  be_Type :: BatchEventType
  be_TTL :: int

record event_row =
  ev_id :: nat
  ev_job :: string
  ev_type :: BatchEventType
  ev_expires :: int

text \<open>Subscriptions name a channel by a handle; a channel is the list of its buffered events.\<close>

record event_state =
  ev_rows :: "event_row list"
  ev_next :: nat
  ev_subs :: "(string \<times> nat) list"
  ev_chans :: "(nat \<times> BatchEventType list) list"
  ev_handle :: nat

definition eventChanBufSize :: nat where "eventChanBufSize = 100"

definition buffered :: "event_state \<Rightarrow> nat \<Rightarrow> BatchEventType list" where
  "buffered s h = (case map_of (ev_chans s) h of None \<Rightarrow> [] | Some q \<Rightarrow> q)"

section \<open>Operations\<close>

definition event_IsValid :: "BatchEvent \<Rightarrow> bool" where
  "event_IsValid be = (be_ID be \<noteq> [] \<and> be_TTL be > 0)"

definition send_stmt :: "instant \<Rightarrow> BatchEvent \<Rightarrow> event_state \<Rightarrow> unit \<times> event_state" where
  "send_stmt now be s = ((), s\<lparr>ev_rows := ev_rows s @ [\<lparr>ev_id = ev_next s, ev_job = be_ID be, ev_type = be_Type be,
     ev_expires = unix now + be_TTL be\<rparr>], ev_next := ev_next s + 1\<rparr>)"

fun send_loop :: "(nat \<Rightarrow> conn) \<Rightarrow> instant \<Rightarrow> BatchEvent list \<Rightarrow> string list \<Rightarrow> event_state
    \<Rightarrow> (string list \<times> error option) \<times> event_state" where
  "send_loop c now [] sent s = ((sent, None), s)"
| "send_loop c now (be # bes) sent s = (case exec_stmt (c (length sent)) (send_stmt now be) s of
      (Inl e, s') \<Rightarrow> ((sent, Some e), s')
    | (Inr _, s') \<Rightarrow> send_loop c now bes (sent @ [be_ID be]) s')"

definition ECProducerSendEvents ::
  "(nat \<Rightarrow> conn) \<Rightarrow> instant \<Rightarrow> BatchEvent list \<Rightarrow> event_state \<Rightarrow> (string list \<times> error option) \<times> event_state" where
  "ECProducerSendEvents c now events s =
    (if events = [] then (([], Some (ErrInvalid ''empty events'')), s)
     else if \<not> list_all event_IsValid events then (([], Some (ErrInvalid ''invalid event'')), s)
     else send_loop c now events [] s)"

definition pending :: "instant \<Rightarrow> string \<Rightarrow> event_state \<Rightarrow> event_row list" where
  "pending now jobID s = sort_key ev_id (filter (\<lambda>r. ev_job r = jobID \<and> unix now < ev_expires r) (ev_rows s))"

definition drainJobEvents :: "conn \<Rightarrow> instant \<Rightarrow> string \<Rightarrow> nat \<Rightarrow> event_state \<Rightarrow> event_row list res" where
  "drainJobEvents c now jobID limit s = (if c = ConnOk then Inr (take limit (pending now jobID s)) else Inl ErrDB)"

text \<open>The delivery loop: the events the channel has room for, in order, up to the first that does not fit.\<close>

fun offer :: "event_row list \<Rightarrow> BatchEventType list \<Rightarrow> nat list \<times> BatchEventType list" where
  "offer [] q = ([], q)"
| "offer (r # rs) q = (if length q < eventChanBufSize
     then (let (acc, q') = offer rs (q @ [ev_type r]) in (ev_id r # acc, q')) else ([], q))"

definition ack_stmt :: "string \<Rightarrow> nat list \<Rightarrow> event_state \<Rightarrow> unit \<times> event_state" where
  "ack_stmt jobID ids s = ((), s\<lparr>ev_rows := filter (\<lambda>r. \<not> (ev_job r = jobID \<and> ev_id r \<in> set ids)) (ev_rows s)\<rparr>)"

definition deliverJobEvents ::
  "conn \<Rightarrow> conn \<Rightarrow> instant \<Rightarrow> (event_state \<Rightarrow> event_state) \<Rightarrow> string \<Rightarrow> event_state \<Rightarrow> event_state" where
  "deliverJobEvents c c2 now others jobID s =
    (case map_of (ev_subs s) jobID of
       None \<Rightarrow> s
     | Some h \<Rightarrow>
         let capacity = eventChanBufSize - length (buffered s h)
         in if capacity = 0 then s
            else (case drainJobEvents c now jobID capacity s of
                Inl e \<Rightarrow> others s
              | Inr events \<Rightarrow>
                  if events = [] then others s
                  else let s1 = others s
                       in if map_of (ev_subs s1) jobID \<noteq> Some h then s1
                          else let (accepted, q) = offer events (buffered s1 h);
                                   s2 = s1\<lparr>ev_chans := AList.update h q (ev_chans s1)\<rparr>
                               in if accepted = [] then s2
                                  else snd (exec_stmt c2 (ack_stmt jobID accepted) s2)))"

fun deliverAllJobEvents ::
  "(string \<Rightarrow> conn) \<Rightarrow> (string \<Rightarrow> conn) \<Rightarrow> instant \<Rightarrow> string list \<Rightarrow> event_state \<Rightarrow> event_state" where
  "deliverAllJobEvents c c2 now [] s = s"
| "deliverAllJobEvents c c2 now (jobID # jobIDs) s =
    deliverAllJobEvents c c2 now jobIDs (deliverJobEvents (c jobID) (c2 jobID) now (\<lambda>s. s) jobID s)"

definition ECConsumerGetChannel ::
  "conn \<Rightarrow> conn \<Rightarrow> instant \<Rightarrow> bool \<Rightarrow> string \<Rightarrow> event_state \<Rightarrow> nat res \<times> event_state" where
  "ECConsumerGetChannel c c2 now producerOnly jobID s =
    (if producerOnly then (Inl (ErrInvalid ''event producer does not support subscriptions''), s)
     else if jobID = [] then (Inl (ErrInvalid ''ID is empty''), s)
     else let h = ev_handle s;
              s1 = s\<lparr>ev_subs := AList.update jobID h (ev_subs s), ev_chans := AList.update h [] (ev_chans s), ev_handle := h + 1\<rparr>
          in (Inr h, deliverJobEvents c c2 now (\<lambda>s. s) jobID s1))"

text \<open>\<^verbatim>\<open>CloseFn\<close>: removes the subscription only if it is still this channel's.\<close>

definition closeFn :: "string \<Rightarrow> nat \<Rightarrow> event_state \<Rightarrow> event_state" where
  "closeFn jobID h s = (if map_of (ev_subs s) jobID = Some h
     then s\<lparr>ev_subs := AList.delete jobID (ev_subs s)\<rparr> else s)"

definition purgeExpired :: "conn \<Rightarrow> instant \<Rightarrow> event_state \<Rightarrow> nat res \<times> event_state" where
  "purgeExpired c now s = exec_stmt c (\<lambda>s. (length (filter (\<lambda>r. ev_expires r < unix now) (ev_rows s)),
     s\<lparr>ev_rows := filter (\<lambda>r. \<not> ev_expires r < unix now) (ev_rows s)\<rparr>)) s"

section \<open>Lemmas\<close>

text \<open>Ids are serial numbers, so the table is in id order, and no channel overflows.\<close>

definition events_ok :: "event_state \<Rightarrow> bool" where
  "events_ok s = (sorted_wrt (<) (map ev_id (ev_rows s)) \<and> (\<forall>r \<in> set (ev_rows s). ev_id r < ev_next s)
    \<and> (\<forall>h. length (buffered s h) \<le> eventChanBufSize))"

lemma offer_spec:
  "length q \<le> eventChanBufSize \<Longrightarrow>
    offer rs q = (map ev_id (take (eventChanBufSize - length q) rs), q @ map ev_type (take (eventChanBufSize - length q) rs))"
proof (induction rs arbitrary: q)
  case (Cons r rs)
  show ?case
  proof (cases "length q < eventChanBufSize")
    case True
    then obtain m where "eventChanBufSize - length q = Suc m" "eventChanBufSize - length (q @ [ev_type r]) = m"
      by (metis Suc_diff_Suc diff_Suc_eq_diff_pred length_append_singleton diff_Suc_1' Suc_diff_1 zero_less_diff)
    then show ?thesis using Cons.IH [of "q @ [ev_type r]"] True by simp
  qed (use Cons.prems in simp)
qed simp

lemma buffered_update [simp]:
  "buffered (s\<lparr>ev_chans := AList.update h q (ev_chans s)\<rparr>) h' = (if h' = h then q else buffered s h')"
  by (simp add: buffered_def update_conv')

lemma buffered_other [simp]:
  "buffered (s\<lparr>ev_rows := rs\<rparr>) h = buffered s h" "buffered (s\<lparr>ev_subs := u\<rparr>) h = buffered s h"
  by (simp_all add: buffered_def)

lemma deliver_spec:
  assumes "map_of (ev_subs s) jobID = Some h" and "length (buffered s h) \<le> eventChanBufSize"
    and "capacity = eventChanBufSize - length (buffered s h)" and "taken = take capacity (pending now jobID s)"
  shows "buffered (deliverJobEvents ConnOk c2 now (\<lambda>s. s) jobID s) h = buffered s h @ map ev_type taken"
    and "ev_rows (deliverJobEvents ConnOk c2 now (\<lambda>s. s) jobID s) =
      (if c2 = ConnFail then ev_rows s
       else filter (\<lambda>r. \<not> (ev_job r = jobID \<and> ev_id r \<in> ev_id ` set taken)) (ev_rows s))"
proof -
  have off: "offer taken (buffered s h) = (map ev_id taken, buffered s h @ map ev_type taken)"
    using offer_spec [OF assms(2), of taken] assms(3,4) by simp
  have "capacity = 0 \<Longrightarrow> taken = []" using assms(4) by simp
  then show "buffered (deliverJobEvents ConnOk c2 now (\<lambda>s. s) jobID s) h = buffered s h @ map ev_type taken"
    and "ev_rows (deliverJobEvents ConnOk c2 now (\<lambda>s. s) jobID s) =
      (if c2 = ConnFail then ev_rows s
       else filter (\<lambda>r. \<not> (ev_job r = jobID \<and> ev_id r \<in> ev_id ` set taken)) (ev_rows s))"
    using assms(1) off
    by (auto simp: deliverJobEvents_def drainJobEvents_def Let_def assms(3,4) [symmetric] snd_exec_stmt ack_stmt_def)
qed

lemma events_ok_inj:
  assumes "events_ok s" and "r \<in> set (ev_rows s)" and "r' \<in> set (ev_rows s)" and "ev_id r = ev_id r'"
  shows "r = r'"
proof -
  have "distinct (map ev_id (ev_rows s))"
    using assms(1) by (simp add: events_ok_def strict_sorted_iff)
  then show ?thesis using assms(2-4) by (auto simp: distinct_map inj_on_def)
qed

lemma deliver_cases:
  "deliverJobEvents c c2 now others jobID s \<in> {s, others s} \<or>
    (\<exists>h. map_of (ev_subs s) jobID = Some h \<and> map_of (ev_subs (others s)) jobID = Some h \<and> c = ConnOk
      \<and> eventChanBufSize - length (buffered s h) \<noteq> 0
      \<and> take (eventChanBufSize - length (buffered s h)) (pending now jobID s) \<noteq> [])"
  by (cases "map_of (ev_subs s) jobID") (simp_all add: deliverJobEvents_def drainJobEvents_def Let_def)

lemma pending_sub: "r \<in> set (pending now jobID s) \<Longrightarrow> r \<in> set (ev_rows s)"
  by (simp add: pending_def)

section \<open>Properties\<close>

text \<open>
  Delivery is at least once and in order, whatever the other goroutines do
  between reading the pending events and offering them and whether or not the
  acknowledgement succeeds: the events that leave the table are a prefix of the
  pending ones in the order they were sent, and exactly those events have been
  appended, in that order, to the channel of the job's current subscriber.
\<close>

theorem delivery_at_least_once_fifo:
  assumes ok: "events_ok s" "events_ok (others s)"
  shows "\<exists>n. let taken = take n (pending now jobID s); s' = deliverJobEvents c c2 now others jobID s in
     (\<forall>r \<in> set (ev_rows s). r \<in> set (ev_rows (others s)) \<longrightarrow> r \<notin> set (ev_rows s') \<longrightarrow> r \<in> set taken)
   \<and> (taken \<noteq> [] \<longrightarrow> (\<exists>h. map_of (ev_subs (others s)) jobID = Some h
         \<and> buffered s' h = buffered (others s) h @ map ev_type taken))"
proof -
  let ?s' = "deliverJobEvents c c2 now others jobID s"
  consider (none) "?s' = s \<or> ?s' = others s"
    | (sent) h where "map_of (ev_subs s) jobID = Some h" "map_of (ev_subs (others s)) jobID = Some h" "c = ConnOk"
        "eventChanBufSize - length (buffered s h) \<noteq> 0" "take (eventChanBufSize - length (buffered s h)) (pending now jobID s) \<noteq> []"
    using deliver_cases [of c c2 now others jobID s] by blast
  then show ?thesis
  proof cases
    case none
    then show ?thesis by (intro exI [of _ 0]) (auto simp: Let_def)
  next
    case sent
    let ?cap = "eventChanBufSize - length (buffered s h)" and ?room = "eventChanBufSize - length (buffered (others s) h)"
    let ?taken = "take (min ?room ?cap) (pending now jobID s)"
    have off: "offer (take ?cap (pending now jobID s)) (buffered (others s) h) = (map ev_id ?taken, buffered (others s) h @ map ev_type ?taken)"
      using offer_spec [of "buffered (others s) h"] ok(2) by (simp add: events_ok_def)
    have s': "buffered ?s' h = buffered (others s) h @ map ev_type ?taken"
      "ev_rows ?s' = ev_rows (others s) \<or> ev_rows ?s' = filter (\<lambda>r. \<not> (ev_job r = jobID \<and> ev_id r \<in> ev_id ` set ?taken)) (ev_rows (others s))"
      using sent by (auto simp: deliverJobEvents_def drainJobEvents_def Let_def off snd_exec_stmt ack_stmt_def)
    have "r \<in> set ?taken" if "r \<in> set (ev_rows s)" "r \<in> set (ev_rows (others s))" "r \<notin> set (ev_rows ?s')" for r
    proof -
      from that s'(2) obtain r' where "r' \<in> set ?taken" "ev_id r = ev_id r'" by auto
      then show ?thesis using events_ok_inj [OF ok(1) that(1)] by (metis in_set_takeD pending_sub)
    qed
    with s'(1) sent(2) show ?thesis by (intro exI [of _ "min ?room ?cap"]) (auto simp: Let_def)
  qed
qed

definition no_events :: event_state where
  "no_events = \<lparr>ev_rows = [], ev_next = 0, ev_subs = [], ev_chans = [], ev_handle = 0\<rparr>"

definition cancel_event :: "string \<Rightarrow> int \<Rightarrow> BatchEvent" where
  "cancel_event k ttl = \<lparr>be_ID = k, be_Type = BatchEventCancel, be_TTL = ttl\<rparr>"

theorem delivery_at_least_once_fifo_witness:
  "\<exists>n. let s = snd (send_stmt 0 (cancel_event ''b'' 60) (no_events\<lparr>ev_subs := [(''b'', 0)]\<rparr>));
           taken = take n (pending 0 ''b'' s); s' = deliverJobEvents ConnOk ConnOk 0 (\<lambda>s. s) ''b'' s in
     (\<forall>r \<in> set (ev_rows s). r \<notin> set (ev_rows s') \<longrightarrow> r \<in> set taken)
   \<and> (taken \<noteq> [] \<longrightarrow> buffered s' 0 = map ev_type taken)"
proof -
  let ?s = "snd (send_stmt 0 (cancel_event ''b'' 60) (no_events\<lparr>ev_subs := [(''b'', 0)]\<rparr>))"
  have "events_ok ?s" by (simp add: events_ok_def send_stmt_def no_events_def buffered_def)
  from delivery_at_least_once_fifo [where others = "\<lambda>s. s", OF this this, of 0 "''b''" ConnOk ConnOk]
  show ?thesis by (auto simp: Let_def send_stmt_def no_events_def buffered_def)
qed

text \<open>
  A cancel event sent before the processor has subscribed is not lost: a
  subscription opened at any later instant before the event expires finds it in
  its channel, provided fewer events than the channel's capacity were pending.
\<close>

theorem cancel_reaches_late_subscriber:
  assumes sent: "ECProducerSendEvents (\<lambda>_. ConnOk) t [cancel_event k ttl] s = ((ids, None), s1)"
    and now: "unix now < unix t + ttl" and room: "length (pending now k s) < eventChanBufSize"
    and sub: "ECConsumerGetChannel ConnOk c2 now False k s1 = (Inr h, s2)"
  shows "BatchEventCancel \<in> set (buffered s2 h)"
proof -
  let ?r = "\<lparr>ev_id = ev_next s, ev_job = k, ev_type = BatchEventCancel, ev_expires = unix t + ttl\<rparr>"
  have s1: "ev_rows s1 = ev_rows s @ [?r]" "k \<noteq> []"
    using sent by (auto simp: ECProducerSendEvents_def send_stmt_def cancel_event_def event_IsValid_def split: if_splits)
  let ?sub = "s1\<lparr>ev_subs := AList.update k h (ev_subs s1), ev_chans := AList.update h [] (ev_chans s1), ev_handle := h + 1\<rparr>"
  have h: "h = ev_handle s1" and s2: "s2 = deliverJobEvents ConnOk c2 now (\<lambda>s. s) k ?sub"
    using sub s1(2) by (auto simp: ECConsumerGetChannel_def Let_def)
  have buf: "buffered ?sub h = []" by (simp add: buffered_def update_conv')
  have pend: "pending now k ?sub = sort_key ev_id (filter (\<lambda>r. ev_job r = k \<and> unix now < ev_expires r) (ev_rows s @ [?r]))"
    by (simp add: pending_def s1)
  then have len: "length (pending now k ?sub) \<le> eventChanBufSize" and mem: "?r \<in> set (pending now k ?sub)"
    using room now by (simp_all add: pending_def)
  have "buffered s2 h = map ev_type (take eventChanBufSize (pending now k ?sub))"
    using deliver_spec(1) [of ?sub k h eventChanBufSize _ now c2] buf unfolding s2 by (simp add: update_conv')
  with len have "buffered s2 h = map ev_type (pending now k ?sub)" by simp
  moreover have "ev_type ?r \<in> ev_type ` set (pending now k ?sub)" using mem by (rule imageI)
  ultimately show ?thesis by simp
qed

theorem cancel_reaches_late_subscriber_witness:
  "\<exists>ids s1 h s2. ECProducerSendEvents (\<lambda>_. ConnOk) 0 [cancel_event ''b'' 60] no_events = ((ids, None), s1)
    \<and> ECConsumerGetChannel ConnOk ConnFail (secs 5) False ''b'' s1 = (Inr h, s2) \<and> BatchEventCancel \<in> set (buffered s2 h)"
proof -
  obtain ids s1 where s1: "ECProducerSendEvents (\<lambda>_. ConnOk) 0 [cancel_event ''b'' 60] no_events = ((ids, None), s1)"
    by (simp add: ECProducerSendEvents_def cancel_event_def event_IsValid_def)
  obtain h s2 where s2: "ECConsumerGetChannel ConnOk ConnFail (secs 5) False ''b'' s1 = (Inr h, s2)"
    by (simp add: ECConsumerGetChannel_def Let_def)
  have "unix (secs 5) < unix 0 + 60" "length (pending (secs 5) ''b'' no_events) < eventChanBufSize"
    by (simp_all add: unix_def secs_def pending_def no_events_def eventChanBufSize_def)
  from cancel_reaches_late_subscriber [OF s1 this s2] s1 s2 show ?thesis by blast
qed

end
