(* ===== verification/Batch_Api.thy ===== *)
theory Batch_Api
  imports Status_Updater Events File_Db
begin

text \<open>
  The batch endpoints of the API server
  (\<^verbatim>\<open>internal/apiserver/batch/batch_handler.go\<close>) with the request helpers they use
  (\<^verbatim>\<open>internal/apiserver/common/rest.go\<close>, \<^verbatim>\<open>pagination.go\<close>, and the tenant resolution
  of \<^verbatim>\<open>internal/apiserver/middleware/request_middleware.go\<close>). A handler returns a
  response, an HTTP error status or the JSON object written with status 200; the
  decoded request body, the generated ids and the trace carrier are arguments.
\<close>

section \<open>Requests and responses\<close>

datatype 'a response = APIError nat | OK 'a

type_synonym headers = "(string \<times> string list) list"

definition LastHeaderValue :: "headers \<Rightarrow> string \<Rightarrow> string \<Rightarrow> string" where
  "LastHeaderValue hs header defaultVal = (case map_of hs header of
      None \<Rightarrow> defaultVal
    | Some vals \<Rightarrow> if vals = [] then defaultVal else if last vals \<noteq> [] then last vals else defaultVal)"

definition DefaultTenantID :: string where "DefaultTenantID = ''default''"

definition request_tenant :: "string \<Rightarrow> headers \<Rightarrow> string" where
  "request_tenant tenantHeader hs = LastHeaderValue hs tenantHeader DefaultTenantID"

lemma tenant_not_empty [simp]: "request_tenant h hs \<noteq> []"
  by (simp add: request_tenant_def LastHeaderValue_def DefaultTenantID_def split: option.split)

definition isDigits :: "string \<Rightarrow> bool" where
  "isDigits s = (list_all is_digit s \<and> s \<noteq> [])"

definition ParseAfter :: "string \<Rightarrow> string \<Rightarrow> (nat \<times> string) res" where
  "ParseAfter after idPrefix =
    (if after = [] then Inr (0, [])
     else if isDigits after then (case parse_int64 after of
         None \<Rightarrow> Inl (ErrInvalid ''after offset is out of range'')
       | Some n \<Rightarrow> Inr (nat n, []))
     else if has_prefix after idPrefix \<and> length after > length idPrefix then Inr (0, after)
     else Inl (ErrInvalid ''after must be an object ID or a non-negative integer offset''))"

text \<open>\<^verbatim>\<open>fmt.Sscanf(s, "%d")\<close>: blanks, an optional sign, digits; what follows is not read.\<close>

definition sscanf_int :: "string \<Rightarrow> int option" where
  "sscanf_int s =
    (let body = dropWhile (\<lambda>c. c = CHR '' '' \<or> c = CHR 0x09) s;
         sign = (case body of c # _ \<Rightarrow> if c = CHR ''-'' \<or> c = CHR ''+'' then [c] else [] | [] \<Rightarrow> []);
         digits = takeWhile is_digit (drop (length sign) body)
     in if digits = [] then None else parse_int64 (sign @ digits))"

definition BatchIDPrefix :: string where "BatchIDPrefix = ''batch_''"

section \<open>Reading\<close>

definition getBatchItemFromDB :: "conn \<Rightarrow> instant \<Rightarrow> string \<Rightarrow> string \<Rightarrow> db \<Rightarrow> BatchItem response" where
  "getBatchItemFromDB c now tenantID batchID s =
    (if batchID = [] then APIError 400
     else case DBGet c now (no_query\<lparr>q_IDs := [batchID], q_TenantID := tenantID\<rparr>) True 0 1 s of
         Inl e \<Rightarrow> APIError 500
       | Inr (items, cursor, expectMore) \<Rightarrow> (case items of
           [] \<Rightarrow> APIError 404
         | item # _ \<Rightarrow> if bi_TenantID item \<noteq> tenantID then APIError 404 else OK item))"

definition RetrieveBatch :: "conn \<Rightarrow> instant \<Rightarrow> string \<Rightarrow> string \<Rightarrow> db \<Rightarrow> Batch response" where
  "RetrieveBatch c now tenantID batchID s = (case getBatchItemFromDB c now tenantID batchID s of
      APIError st \<Rightarrow> APIError st | OK item \<Rightarrow> OK (DBItemToBatch item))"

record ListBatchResponse =
  lb_Data :: "Batch list"
  lb_FirstID :: "string option"
  lb_LastID :: "string option"
  lb_HasMore :: bool

definition ListBatches :: "conn \<Rightarrow> instant \<Rightarrow> string \<Rightarrow> string \<Rightarrow> string \<Rightarrow> db \<Rightarrow> ListBatchResponse response" where
  "ListBatches c now tenantID limitStr afterStr s =
    (case (if limitStr = [] then Some 20 else sscanf_int limitStr) of
       None \<Rightarrow> APIError 400
     | Some limit \<Rightarrow>
         if limitStr \<noteq> [] \<and> (limit < 1 \<or> limit > 100) then APIError 400
         else (case ParseAfter afterStr BatchIDPrefix of
             Inl e \<Rightarrow> APIError 400
           | Inr (start, afterID) \<Rightarrow>
               (case DBGet c now (no_query\<lparr>q_TenantID := tenantID, q_AfterID := afterID\<rparr>) True start (nat limit) s of
                  Inl e \<Rightarrow> APIError 500
                | Inr (items, cursor, expectMore) \<Rightarrow>
                    let batches = map DBItemToBatch items
                    in OK \<lparr>lb_Data = batches,
                           lb_FirstID = (if batches = [] then None else Some (ba_ID (hd batches))),
                           lb_LastID = (if batches = [] then None else Some (ba_ID (last batches))),
                           lb_HasMore = expectMore\<rparr>)))"

section \<open>Creating\<close>

record create_env =
  ce_now :: instant
  ce_batchID :: string
  ce_carrier :: "(string \<times> string) list"
  ce_conn_file :: conn
  ce_conn_store :: conn

definition create_tags ::
  "string list \<Rightarrow> headers \<Rightarrow> (string \<times> string) list \<Rightarrow> CreateBatchRequest \<Rightarrow> tags" where
  "create_tags passThroughHeaders hs carrier req =
    (let t0 = (case cr_OutputExpiresAfter req of
           None \<Rightarrow> []
         | Some oe \<Rightarrow> [(''output_expires_after_anchor'', oe_Anchor oe), (''output_expires_after_seconds'', itoa (nat (oe_Seconds oe)))]);
         t1 = fold (\<lambda>h t. let v = LastHeaderValue hs h [] in
                 if v \<noteq> [] then AList.update (TagPrefixPassThroughHeader @ h) v t else t) passThroughHeaders t0
     in fold (\<lambda>(k, v) t. AList.update (TagPrefixOTel @ k) v t) carrier t1)"

definition new_batch :: "create_env \<Rightarrow> CreateBatchRequest \<Rightarrow> Batch" where
  "new_batch env req =
    \<lparr>ba_ID = ce_batchID env,
     ba_Spec = zero_spec\<lparr>sp_Object := ''batch'', sp_Endpoint := cr_Endpoint req, sp_InputFileID := cr_InputFileID req,
       sp_CompletionWindow := cr_CompletionWindow req, sp_Metadata := cr_Metadata req, sp_CreatedAt := unix (ce_now env)\<rparr>,
     ba_Info = zero_status_info\<lparr>si_Status := BatchStatusValidating\<rparr>\<rparr>"

text \<open>The body is \<open>None\<close> when it does not decode.\<close>

definition CreateBatch ::
  "create_env \<Rightarrow> EndpointAllowlist \<Rightarrow> string list \<Rightarrow> headers \<Rightarrow> string \<Rightarrow> CreateBatchRequest option
    \<Rightarrow> file_row list \<Rightarrow> db \<Rightarrow> Batch response \<times> db" where
  "CreateBatch env allow passThroughHeaders hs tenantID body files s =
    (case body of
       None \<Rightarrow> (APIError 400, s)
     | Some req \<Rightarrow>
         if \<not> is_ok (ValidateWithEndpointAllowlist allow req) then (APIError 400, s)
         else (case file_DBGet (ce_conn_file env) (ce_now env)
                 (no_file_query\<lparr>q_IDs := [cr_InputFileID req], q_TenantID := tenantID\<rparr>) True 0 1 files of
             Inl e \<Rightarrow> (APIError 500, s)
           | Inr (items, cursor, expectMore) \<Rightarrow>
               (case items of
                  [] \<Rightarrow> (APIError 400, s)
                | item # _ \<Rightarrow>
                    if ft_Purpose item \<noteq> FileObjectPurposeBatch then (APIError 400, s)
                    else let batch = new_batch env req;
                             tags = create_tags passThroughHeaders hs (ce_carrier env) req
                         in (case BatchToDBItem batch tenantID tags of
                             Inl e \<Rightarrow> (APIError 500, s)
                           | Inr dbItem \<Rightarrow> (case DBStore (ce_conn_store env) dbItem s of
                                 (Inl e, s') \<Rightarrow> (APIError 500, s')
                               | (Inr _, s') \<Rightarrow> (OK batch, s'))))))"

section \<open>Cancelling\<close>

text \<open>
  The environment of one cancel request: the clocks, how each statement ends, the
  rows other statements have locked, and what the rest of the system does to the
  database before each attempt to write.
\<close>

record cancel_env =
  ca_now :: instant
  ca_get :: conn
  ca_del :: conn
  ca_locked :: "string list"
  ca_reget :: conn
  ca_upd :: "nat \<Rightarrow> conn"
  ca_fresh :: "nat \<Rightarrow> conn"
  ca_others :: "nat \<Rightarrow> db \<Rightarrow> db"
  ca_send :: conn
  ca_ttl :: int

definition maxCancelAttempts :: nat where "maxCancelAttempts = 3"

definition as_cancelling :: "instant \<Rightarrow> Batch \<Rightarrow> Batch" where
  "as_cancelling now batch = batch\<lparr>ba_Info := (ba_Info batch)\<lparr>si_Status := BatchStatusCancelling, si_CancellingAt := Some (unix now)\<rparr>\<rparr>"

text \<open>
  \<^verbatim>\<open>markCancelling\<close>: one conditional write, the check of the fresh row after a
  conflict, and the loop. The loop's first argument counts the attempts that are
  left after this one, so that the attempt number is \<open>maxCancelAttempts - left\<close>.
\<close>

definition mark_write :: "nat \<Rightarrow> cancel_env \<Rightarrow> string \<Rightarrow> BatchItem \<Rightarrow> Batch \<Rightarrow> db \<Rightarrow> Batch res \<times> db" where
  "mark_write attempt env tenantID item batch s0 =
    (let s = ca_others env attempt s0; batch' = as_cancelling (ca_now env) batch
     in case BatchToDBItem batch' tenantID (bi_Tags item) of
          Inl e \<Rightarrow> (Inl e, s)
        | Inr dbItem \<Rightarrow>
            (case DBUpdate (ca_upd env attempt) (dbItem\<lparr>bi_Epoch := bi_Epoch item, bi_ExpectedResumable := Some (bi_Resumable item)\<rparr>)
                (bi_Status item) s of
               (Inr _, s') \<Rightarrow> (Inr batch', s')
             | (Inl e, s') \<Rightarrow> (Inl e, s')))"

definition mark_refetch :: "nat \<Rightarrow> cancel_env \<Rightarrow> string \<Rightarrow> BatchStatus \<Rightarrow> BatchItem \<Rightarrow> db \<Rightarrow> BatchItem res" where
  "mark_refetch attempt env tenantID fromStatus item s =
    (case DBGet (ca_fresh env attempt) (ca_now env) (no_query\<lparr>q_IDs := [bi_ID item], q_TenantID := tenantID\<rparr>) True 0 1 s of
       Inl e \<Rightarrow> Inl e
     | Inr (items, cursor, expectMore) \<Rightarrow>
         (case items of
            [fresh] \<Rightarrow>
              if bi_Epoch fresh \<noteq> bi_Epoch item then Inl ErrConflict
              else if si_Status (ba_Info (DBItemToBatch fresh)) \<noteq> fromStatus then Inl ErrConflict
              else Inr fresh
          | _ \<Rightarrow> Inl ErrConflict))"

fun mark_attempts ::
  "nat \<Rightarrow> cancel_env \<Rightarrow> string \<Rightarrow> BatchStatus \<Rightarrow> BatchItem \<Rightarrow> Batch \<Rightarrow> db \<Rightarrow> Batch res \<times> db" where
  "mark_attempts 0 env tenantID fromStatus item batch s =
    mark_write maxCancelAttempts env tenantID item batch s"
| "mark_attempts (Suc left) env tenantID fromStatus item batch s =
    (case mark_write (maxCancelAttempts - Suc left) env tenantID item batch s of
       (Inr batch', s') \<Rightarrow> (Inr batch', s')
     | (Inl e, s') \<Rightarrow>
         if e \<noteq> ErrConflict then (Inl e, s')
         else (case mark_refetch (maxCancelAttempts - Suc left) env tenantID fromStatus item s' of
             Inl e \<Rightarrow> (Inl e, s')
           | Inr fresh \<Rightarrow> mark_attempts left env tenantID fromStatus fresh (DBItemToBatch fresh) s'))"

definition markCancelling :: "cancel_env \<Rightarrow> string \<Rightarrow> BatchItem \<Rightarrow> Batch \<Rightarrow> db \<Rightarrow> Batch res \<times> db" where
  "markCancelling env tenantID item batch s =
    mark_attempts (maxCancelAttempts - 1) env tenantID (si_Status (ba_Info batch)) item batch s"

definition send_cancel :: "cancel_env \<Rightarrow> Batch \<Rightarrow> event_state \<Rightarrow> Batch response \<times> event_state" where
  "send_cancel env batch ev =
    (case ECProducerSendEvents (\<lambda>_. ca_send env) (ca_now env) [cancel_event (ba_ID batch) (ca_ttl env)] ev of
       ((ids, Some e), ev') \<Rightarrow> (APIError 500, ev')
     | ((ids, None), ev') \<Rightarrow> (OK batch, ev'))"

definition CancelBatch ::
  "cancel_env \<Rightarrow> string \<Rightarrow> string \<Rightarrow> db \<Rightarrow> event_state \<Rightarrow> Batch response \<times> db \<times> event_state" where
  "CancelBatch env tenantID batchID s ev =
    (case getBatchItemFromDB (ca_get env) (ca_now env) tenantID batchID s of
       APIError st \<Rightarrow> (APIError st, s, ev)
     | OK item \<Rightarrow>
         let batch = DBItemToBatch item; st = si_Status (ba_Info batch)
         in if st = BatchStatusCancelled then (OK batch, s, ev)
            else if \<not> IsCancellable st then (APIError 400, s, ev)
            else if st = BatchStatusCancelling
            then (let (r, ev') = send_cancel env batch ev in (r, s, ev'))
            else (case PQDelete (ca_del env) (ca_now env) (ba_ID batch) (ca_locked env) s of
                (Inl e, s1) \<Rightarrow> (APIError 500, s1, ev)
              | (Inr n, s1) \<Rightarrow>
                  if n > 0
                  then (case getBatchItemFromDB (ca_reget env) (ca_now env) tenantID batchID s1 of
                      APIError st \<Rightarrow> (APIError st, s1, ev)
                    | OK fresh \<Rightarrow> (OK (DBItemToBatch fresh), s1, ev))
                  else (case markCancelling env tenantID item batch s1 of
                      (Inl e, s2) \<Rightarrow> (APIError (if e = ErrConflict then 409 else 500), s2, ev)
                    | (Inr batch', s2) \<Rightarrow> (let (r, ev') = send_cancel env batch' ev in (r, s2, ev')))))"

section \<open>Tenant isolation\<close>

lemma getBatchItem_OKD:
  assumes "getBatchItemFromDB c now tenantID batchID s = OK item"
  obtains r where "r \<in> set (batch_items s)" and "item = item_of_row True r" and "row_id r = batchID" and "row_tenant r = tenantID"
proof -
  from assms obtain items cursor m where get: "DBGet c now (no_query\<lparr>q_IDs := [batchID], q_TenantID := tenantID\<rparr>) True 0 1 s = Inr (item # items, cursor, m)"
      and tenant: "bi_TenantID item = tenantID"
    by (auto simp: getBatchItemFromDB_def split: if_splits sum.splits list.splits)
  from get have "item \<in> set (item # items)" by simp
  with get obtain r where "r \<in> set (batch_items s)" "item = item_of_row True r" "row_id r \<in> {batchID}"
    by (rule DBGet_mem) (simp add: no_query_def)
  with tenant that show ?thesis by (simp add: item_of_row_def)
qed

lemma getBatchItem_eq:
  assumes "db_ok s" and "tenantID \<noteq> []" and "k \<noteq> []"
  shows "getBatchItemFromDB ConnOk now tenantID k s = (case find_item k s of
      Some r \<Rightarrow> if row_tenant r = tenantID then OK (item_of_row True r) else APIError 404
    | None \<Rightarrow> APIError 404)"
  using assms by (auto simp: getBatchItemFromDB_def DBGet_by_id [unfolded One_nat_def] item_of_row_fields split: option.split)

lemma BatchToDBItem_fields:
  "BatchToDBItem batch tenant tags = Inr item \<Longrightarrow>
    bi_ID item = ba_ID batch \<and> bi_Status item = Some (ba_Info batch) \<and> bi_TenantID item = tenant
    \<and> bi_ProcessorID item = [] \<and> bi_Epoch item = 0 \<and> \<not> bi_Resumable item \<and> bi_OwnerLeaseExpiresAt item = None
    \<and> \<not> bi_BumpEpoch item"
  by (auto simp: BatchToDBItem_def zero_item_def Let_def split: if_splits option.splits)

lemma DBItemToBatch_fields [simp]:
  "ba_ID (DBItemToBatch item) = bi_ID item"
  "bi_Status item = Some d \<Longrightarrow> ba_Info (DBItemToBatch item) = d"
  by (simp_all add: DBItemToBatch_def)

lemma IsCancellable_status:
  "IsCancellable (si_Status (ba_Info (DBItemToBatch item))) \<Longrightarrow> \<exists>d. bi_Status item = Some d"
  by (cases "bi_Status item") (auto simp: DBItemToBatch_def zero_status_info_def IsCancellable_def)

section \<open>Properties\<close>

subsection \<open>Creating and reading\<close>

text \<open>
  A batch the API accepts is in the queue: the row it stores is new, belongs
  to the caller's tenant, is a candidate of the next dequeue of any processor
  with the end of its completion window as deadline, reads back as exactly the
  object the client was given, and no existing row is touched.
\<close>

theorem created_batch_is_queued:
  assumes s: "db_ok s" and now: "0 < unix (ce_now env)" and tenant: "tenantID \<noteq> []"
    and run: "CreateBatch env allow pth hs tenantID body files s = (OK b, s')"
  shows "db_ok s' \<and> find_item (ba_ID b) s = None
    \<and> (\<exists>r d. find_item (ba_ID b) s' = Some r \<and> row_tenant r = tenantID \<and> dequeue_candidate lease r
         \<and> ParseDuration (sp_CompletionWindow (ba_Spec b)) = Some d
         \<and> row_priority r = Some (secs (unix (ce_now env)) + d div 1000))
    \<and> RetrieveBatch ConnOk later tenantID (ba_ID b) s' = OK b
    \<and> (\<forall>k. k \<noteq> ba_ID b \<longrightarrow> find_item k s' = find_item k s)"
proof -
  from run obtain req item c where req: "is_ok (ValidateWithEndpointAllowlist allow req)" "b = new_batch env req"
      and item: "BatchToDBItem b tenantID (create_tags pth hs (ce_carrier env) req) = Inr item"
      and store: "DBStore c item s = (Inr (), s')"
    by (auto simp: CreateBatch_def Let_def split: option.splits if_splits sum.splits list.splits prod.splits)
  have window: "sp_CompletionWindow (ba_Spec b) \<noteq> []" "sp_CreatedAt (ba_Spec b) = unix (ce_now env)"
    using req by (auto simp: new_batch_def zero_spec_def ValidateWithEndpointAllowlist_def is_ok_iff split: if_splits)
  note f = BatchToDBItem_fields [OF item] and st = DBStore_Ok [OF s store]
  have row_ok: "row_ok (row_of_item item)" using f st(2) by (auto simp: row_of_item_def row_ok_def)
  have id: "row_id (row_of_item item) = ba_ID b" using f by (simp add: row_of_item_def)
  have ok: "db_ok s'" unfolding st(3) by (rule db_ok_append [OF s row_ok]) (use st f id in simp)
  have find: "find_item (ba_ID b) s' = Some (row_of_item item)" "\<And>k. k \<noteq> ba_ID b \<Longrightarrow> find_item k s' = find_item k s"
    using st f id by (auto simp: find_item_append split: option.split)
  have "row_state (row_of_item item) = Some BatchStatusValidating" "row_tenant (row_of_item item) = tenantID"
      "row_processor (row_of_item item) = None" "\<not> row_resumable (row_of_item item)" "row_status (row_of_item item) \<noteq> None"
    using f req(2) by (auto simp: row_of_item_def row_state_def new_batch_def)
  moreover have "\<exists>d. ParseDuration (sp_CompletionWindow (ba_Spec b)) = Some d
      \<and> row_priority (row_of_item item) = Some (secs (unix (ce_now env)) + d div 1000)"
    and "DBItemToBatch (item_of_row True (row_of_item item)) = b"
    using BatchToDBItem_roundtrip [OF item] window now by auto
  ultimately show ?thesis
    using ok find st(1,2) f tenant
    by (auto simp: dequeue_candidate_def RetrieveBatch_def getBatchItem_eq)
qed

definition sample_create :: create_env where
  "sample_create = \<lparr>ce_now = secs 1000, ce_batchID = ''batch_9'', ce_carrier = [], ce_conn_file = ConnOk, ce_conn_store = ConnOk\<rparr>"

definition sample_input :: file_row where
  "sample_input = row_of_file (FileToDBItem (zero_file\<lparr>fo_ID := ''file_1'', fo_Purpose := FileObjectPurposeBatch\<rparr>) ''t'' [])"

lemma sample_create_ok:
  "\<exists>b s'. CreateBatch sample_create \<lparr>al_extra = []\<rparr> [] [] ''t'' (Some sample_request) [sample_input] sample_db = (OK b, s')
    \<and> ba_ID b = ''batch_9''"
proof -
  have "ParseDuration ''24h'' = Some 86400000000000" by code_simp
  moreover have "IsValid \<lparr>al_extra = []\<rparr> ''/v1/completions''" by code_simp
  ultimately have "ValidateWithEndpointAllowlist \<lparr>al_extra = []\<rparr> sample_request = Inr ()"
    and "ParseDuration (cr_CompletionWindow sample_request) = Some 86400000000000"
    by (simp_all add: ValidateWithEndpointAllowlist_def sample_request_def validate_expiry_def
        MinExpirationSeconds_def MaxExpirationSeconds_def)
  then show ?thesis
    by (simp add: CreateBatch_def file_DBGet_def no_file_query_def pg_get_def query_conditions_def select_rows_def
        order_by_id_def purpose_filter_def sample_input_def row_of_file_def FileToDBItem_def zero_file_def file_of_row_def
        sample_create_def sample_request_def Let_def BatchToDBItem_def new_batch_def zero_spec_def secs_def unix_def
        DBStore_def zero_item_def pg_store_def row_of_item_def sample_db_def sample_row_def)
qed

theorem created_batch_is_queued_witness:
  "\<exists>b s' r. CreateBatch sample_create \<lparr>al_extra = []\<rparr> [] [] ''t'' (Some sample_request) [sample_input] sample_db = (OK b, s')
    \<and> find_item ''batch_9'' s' = Some r \<and> dequeue_candidate 0 r"
proof -
  obtain b s' where run: "CreateBatch sample_create \<lparr>al_extra = []\<rparr> [] [] ''t'' (Some sample_request) [sample_input] sample_db = (OK b, s')"
      "ba_ID b = ''batch_9''" using sample_create_ok by blast
  have "0 < unix (ce_now sample_create)" "''t'' \<noteq> ([] :: string)" by (simp_all add: sample_create_def secs_def unix_def)
  from created_batch_is_queued [OF sample_db_ok this run(1), of 0] run show ?thesis by auto
qed

lemma RetrieveBatch_OKD:
  assumes "db_ok s" and "getBatchItemFromDB c now tenantID k s = OK item"
  shows "\<exists>r. find_item k s = Some r \<and> item = item_of_row True r \<and> row_tenant r = tenantID"
proof -
  from assms(2) obtain r where "r \<in> set (batch_items s)" "item = item_of_row True r" "row_id r = k" "row_tenant r = tenantID"
    by (rule getBatchItem_OKD)
  then show ?thesis using db_ok_by_key(1) [OF assms(1)] by blast
qed

lemma ListBatches_mem:
  assumes "db_ok s" and "ListBatches c now tenantID lim aft s = OK resp" and "b \<in> set (lb_Data resp)" and "tenantID \<noteq> []"
  shows "\<exists>r. find_item (ba_ID b) s = Some r \<and> row_tenant r = tenantID \<and> b = DBItemToBatch (item_of_row True r)"
proof -
  from assms(2) obtain start afterID n items cursor m where
    get: "DBGet c now (no_query\<lparr>q_TenantID := tenantID, q_AfterID := afterID\<rparr>) True start n s = Inr (items, cursor, m)"
    and data: "lb_Data resp = map DBItemToBatch items"
    by (auto simp: ListBatches_def Let_def split: option.splits if_splits sum.splits)
  with assms(3) obtain item where item: "item \<in> set items" "b = DBItemToBatch item" by auto
  from get item(1) obtain r where "r \<in> set (batch_items s)" "item = item_of_row True r" "row_tenant r = tenantID"
    by (rule DBGet_mem) (use assms(4) in \<open>auto simp: no_query_def\<close>)
  then show ?thesis using item(2) db_ok_by_key(1) [OF assms(1)] by (auto simp: item_of_row_fields)
qed

text \<open>
  C29: Tenants are isolated: for a batch of another tenant, retrieving and
  cancelling it are answered with an error and change neither the database nor
  the event table, whatever the statements do, and listing never returns it.
\<close>

theorem batch_tenant_isolation:
  assumes s: "db_ok s" and r: "find_item k s = Some r" and other: "row_tenant r \<noteq> tenantID" and tenant: "tenantID \<noteq> []"
  shows "(\<exists>st. RetrieveBatch c now tenantID k s = APIError st)
    \<and> (\<exists>st. CancelBatch env tenantID k s ev = (APIError st, s, ev))
    \<and> (ListBatches c now tenantID lim aft s = OK resp \<longrightarrow> k \<notin> ba_ID ` set (lb_Data resp))"
proof -
  have get: "\<exists>st. getBatchItemFromDB c now tenantID k s = APIError st" for c now
    using RetrieveBatch_OKD [OF s] r other by (cases "getBatchItemFromDB c now tenantID k s") fastforce+
  have "k \<notin> ba_ID ` set (lb_Data resp)" if "ListBatches c now tenantID lim aft s = OK resp"
    using ListBatches_mem [OF s that _ tenant] r other by fastforce
  then show ?thesis
    using get [of c now] get [of "ca_get env" "ca_now env"] by (auto simp: RetrieveBatch_def CancelBatch_def)
qed

theorem batch_tenant_isolation_witness:
  "find_item ''b1'' sample_db \<noteq> None \<and> (\<exists>st. RetrieveBatch ConnOk 0 ''u'' ''b1'' sample_db = APIError st)"
proof -
  have r: "find_item ''b1'' sample_db = Some (sample_row ''b1'' 20)" by (simp add: find_item_def sample_db_def sample_row_def)
  with batch_tenant_isolation [OF sample_db_ok r, of "''u''"] show ?thesis by (simp add: sample_row_def)
qed

subsection \<open>Cancelling\<close>

lemma mark_write_ok:
  assumes s: "db_ok (ca_others env i s0)" and id: "ba_ID batch = bi_ID item"
    and run: "mark_write i env tenantID item batch s0 = (Inr b, s')"
  shows "ba_ID b = bi_ID item \<and> si_Status (ba_Info b) = BatchStatusCancelling
    \<and> (\<exists>r. find_item (bi_ID item) s' = Some r \<and> row_status r = Some (ba_Info b))"
proof -
  let ?b = "as_cancelling (ca_now env) batch"
  obtain it where it: "BatchToDBItem ?b tenantID (bi_Tags item) = Inr it"
    using run by (auto simp: mark_write_def Let_def split: sum.splits)
  let ?it = "it\<lparr>bi_Epoch := bi_Epoch item, bi_ExpectedResumable := Some (bi_Resumable item)\<rparr>"
  note f = BatchToDBItem_fields [OF it]
  have b: "b = ?b" and upd: "DBUpdate (ca_upd env i) ?it (bi_Status item) (ca_others env i s0) = (Inr (), s')"
    using run it by (auto simp: mark_write_def Let_def split: prod.splits sum.splits)
  from DBUpdate_OkD [OF s upd, of "ba_Info ?b"] f id b show ?thesis by (auto simp: as_cancelling_def)
qed

lemma mark_write_db:
  "snd (mark_write i env tenantID item batch s0) = ca_others env i s0 \<or>
   (\<exists>it. bi_ID it = ba_ID batch \<and> snd (mark_write i env tenantID item batch s0)
      = snd (DBUpdate (ca_upd env i) it (bi_Status item) (ca_others env i s0)))"
proof (cases "BatchToDBItem (as_cancelling (ca_now env) batch) tenantID (bi_Tags item)")
  case (Inr it)
  let ?it = "it\<lparr>bi_Epoch := bi_Epoch item, bi_ExpectedResumable := Some (bi_Resumable item)\<rparr>"
  have "bi_ID ?it = ba_ID batch" using BatchToDBItem_fields [OF Inr] by (simp add: as_cancelling_def)
  moreover have "snd (mark_write i env tenantID item batch s0) = snd (DBUpdate (ca_upd env i) ?it (bi_Status item) (ca_others env i s0))"
    by (simp add: mark_write_def Inr Let_def split: prod.split sum.split)
  ultimately show ?thesis by blast
qed (simp add: mark_write_def)

lemma mark_refetch_ok:
  assumes "db_ok s" and "mark_refetch i env tenantID from item s = Inr fresh"
  shows "bi_ID fresh = bi_ID item \<and> si_Status (ba_Info (DBItemToBatch fresh)) = from"
proof -
  from assms(2) obtain c m where get: "DBGet (ca_fresh env i) (ca_now env) (no_query\<lparr>q_IDs := [bi_ID item], q_TenantID := tenantID\<rparr>)
      True 0 1 s = Inr ([fresh], c, m)" and st: "si_Status (ba_Info (DBItemToBatch fresh)) = from"
    by (auto simp: mark_refetch_def split: sum.splits list.splits if_splits)
  have "fresh \<in> set [fresh]" by simp
  with get obtain r where "fresh = item_of_row True r" "row_id r = bi_ID item"
    by (rule DBGet_mem) (auto simp: no_query_def)
  with st show ?thesis by (simp add: item_of_row_fields)
qed

lemma mark_attempts_ok:
  assumes others: "\<And>i s. db_ok s \<Longrightarrow> db_ok (ca_others env i s)"
  shows "db_ok s \<Longrightarrow> ba_ID batch = bi_ID item \<Longrightarrow>
    mark_attempts left env tenantID from item batch s = (Inr b, s') \<Longrightarrow>
      ba_ID b = bi_ID item \<and> si_Status (ba_Info b) = BatchStatusCancelling
      \<and> (\<exists>r. find_item (bi_ID item) s' = Some r \<and> row_status r = Some (ba_Info b))"
proof (induction left arbitrary: item batch s)
  case 0
  from 0(3) have "mark_write maxCancelAttempts env tenantID item batch s = (Inr b, s')" by simp
  then show ?case by (rule mark_write_ok [OF others [OF 0(1)] 0(2)])
next
  case (Suc left)
  define i where "i = maxCancelAttempts - Suc left"
  obtain r1 s1 where w: "mark_write i env tenantID item batch s = (r1, s1)" by fastforce
  have s1: "db_ok s1"
    using mark_write_db [of i env tenantID item batch s] w others [OF Suc.prems(1), of i] safeD(1) [OF safe_DBUpdate] by auto
  show ?case
  proof (cases r1)
    case (Inl e)
    then obtain fresh where fresh: "mark_refetch i env tenantID from item s1 = Inr fresh"
        "mark_attempts left env tenantID from fresh (DBItemToBatch fresh) s1 = (Inr b, s')"
      using Suc.prems(3) w unfolding mark_attempts.simps i_def [symmetric] by (auto split: if_splits sum.splits)
    have "bi_ID fresh = bi_ID item" using mark_refetch_ok [OF s1 fresh(1)] by simp
    then show ?thesis using Suc.IH [OF s1 _ fresh(2)] by simp
  next
    case (Inr b')
    then have "mark_write i env tenantID item batch s = (Inr b, s')"
      using Suc.prems(3) w unfolding mark_attempts.simps i_def [symmetric] by simp
    then show ?thesis by (rule mark_write_ok [OF others [OF Suc.prems(1)] Suc.prems(2)])
  qed
qed

lemma send_cancel_ok:
  assumes "send_cancel env batch ev = (OK b, ev')"
  shows "b = batch \<and> (\<exists>e \<in> set (ev_rows ev'). ev_job e = ba_ID batch \<and> ev_type e = BatchEventCancel
    \<and> ev_expires e = unix (ca_now env) + ca_ttl env)"
  using assms
  by (cases "ca_send env")
    (auto simp: send_cancel_def ECProducerSendEvents_def cancel_event_def event_IsValid_def send_stmt_def split: if_splits)

lemma PQDelete_hit:
  assumes s: "db_ok s" and "PQDelete c now k locked s = (Inr n, s1)" and "n > 0"
  shows "\<exists>r. find_item k s1 = Some r \<and> row_state r = Some BatchStatusCancelled"
proof -
  have c: "c = ConnOk" using assms(2) by (cases c) (simp_all add: PQDelete_def)
  then have n: "fst (update_items (delete_guard k locked) (delete_eff now) s) > 0"
      and s1: "s1 = snd (update_items (delete_guard k locked) (delete_eff now) s)"
    using assms(2,3) by (auto simp: PQDelete_def)
  from n obtain r where r: "find_item k s = Some r" "delete_guard k locked r"
    using update_items_count [OF s, of "delete_guard k locked" k "delete_eff now"]
    by (auto simp: delete_guard_def split: option.splits if_splits)
  have "find_item k s1 = Some (delete_eff now r)"
    unfolding s1 using r by (simp add: find_item_update_items delete_eff_def)
  with r(2) show ?thesis by (auto simp: delete_eff_def row_state_def delete_guard_def)
qed

lemma cancel_paths:
  assumes "CancelBatch env tenantID k s ev = (OK b, s', ev')"
  obtains (gone) item where "getBatchItemFromDB (ca_get env) (ca_now env) tenantID k s = OK item" "b = DBItemToBatch item"
      "si_Status (ba_Info b) = BatchStatusCancelled" "s' = s"
    | (again) item where "getBatchItemFromDB (ca_get env) (ca_now env) tenantID k s = OK item"
      "si_Status (ba_Info (DBItemToBatch item)) = BatchStatusCancelling" "send_cancel env (DBItemToBatch item) ev = (OK b, ev')" "s' = s"
    | (queued) n fresh where "PQDelete (ca_del env) (ca_now env) k (ca_locked env) s = (Inr n, s')" "n > 0"
      "getBatchItemFromDB (ca_reget env) (ca_now env) tenantID k s' = OK fresh" "b = DBItemToBatch fresh"
    | (running) item batch s1 where "getBatchItemFromDB (ca_get env) (ca_now env) tenantID k s = OK item"
      "PQDelete (ca_del env) (ca_now env) k (ca_locked env) s = (Inr 0, s1)"
      "markCancelling env tenantID item (DBItemToBatch item) s1 = (Inr batch, s')" "send_cancel env batch ev = (OK b, ev')"
proof (cases "getBatchItemFromDB (ca_get env) (ca_now env) tenantID k s")
  case (OK item)
  have id: "ba_ID (DBItemToBatch item) = k"
    using OK by (auto elim!: getBatchItem_OKD simp: item_of_row_fields)
  from assms OK id that show ?thesis
    by (auto simp: CancelBatch_def Let_def split: if_splits prod.splits sum.splits response.splits)
qed (use assms in \<open>simp add: CancelBatch_def\<close>)

text \<open>
  C19: A cancel request answered with success is durable: either the batch is
  cancelled in the database, or it is cancelling there and a cancel event for it
  with the configured lifetime is in the event table. This holds although other
  components write to the database between the reads and the writes of the
  handler.
\<close>

theorem cancel_is_durable:
  assumes s: "db_ok s" and others: "\<And>i s. db_ok s \<Longrightarrow> db_ok (ca_others env i s)"
    and run: "CancelBatch env tenantID k s ev = (OK b, s', ev')"
  shows "ba_ID b = k \<and> (\<exists>r. find_item k s' = Some r \<and> row_state r = Some (si_Status (ba_Info b)))
    \<and> (si_Status (ba_Info b) = BatchStatusCancelled
       \<or> si_Status (ba_Info b) = BatchStatusCancelling
         \<and> (\<exists>e \<in> set (ev_rows ev'). ev_job e = k \<and> ev_type e = BatchEventCancel
               \<and> ev_expires e = unix (ca_now env) + ca_ttl env))"
  using run
proof (cases rule: cancel_paths)
  case (gone item)
  from RetrieveBatch_OKD [OF s gone(1)] gone show ?thesis
    by (cases "row_status (the (find_item k s))")
      (auto simp: item_of_row_fields row_state_def DBItemToBatch_def zero_status_info_def find_item_id)
next
  case (again item)
  from RetrieveBatch_OKD [OF s again(1)] again(2-4) send_cancel_ok [OF again(3)] show ?thesis
    by (cases "row_status (the (find_item k s))")
      (auto simp: item_of_row_fields row_state_def DBItemToBatch_def zero_status_info_def find_item_id)
next
  case (queued n fresh)
  have s': "db_ok s'" using safeD(1) [OF safe_PQDelete s, of "ca_del env" "ca_now env" k "ca_locked env"] queued(1) by simp
  from RetrieveBatch_OKD [OF s' queued(3)] PQDelete_hit [OF s queued(1,2)] queued(4) show ?thesis
    by (auto simp: item_of_row_fields row_state_def DBItemToBatch_def find_item_id)
next
  case (running item batch s1)
  have s1: "db_ok s1" using safeD(1) [OF safe_PQDelete s, of "ca_del env" "ca_now env" k "ca_locked env"] running(2) by simp
  have k: "bi_ID item = k" using RetrieveBatch_OKD [OF s running(1)] by (auto simp: item_of_row_fields find_item_id)
  from mark_attempts_ok [OF others s1 _ running(3) [unfolded markCancelling_def]] k send_cancel_ok [OF running(4)]
  show ?thesis by (auto simp: row_state_def)
qed

definition sample_cancel :: cancel_env where
  "sample_cancel = \<lparr>ca_now = 0, ca_get = ConnOk, ca_del = ConnOk, ca_locked = [], ca_reget = ConnOk, ca_upd = (\<lambda>_. ConnOk),
     ca_fresh = (\<lambda>_. ConnOk), ca_others = (\<lambda>_ s. s), ca_send = ConnOk, ca_ttl = 60\<rparr>"

definition running_db :: db where
  "running_db = \<lparr>batch_items = [(sample_row ''b1'' 20)\<lparr>row_processor := Some ''p'', row_epoch := 1,
     row_status := Some (zero_status_info\<lparr>si_Status := BatchStatusInProgress\<rparr>)\<rparr>], batch_entries = []\<rparr>"

lemma running_db_ok [simp]: "db_ok running_db"
  by (simp add: running_db_def db_ok_def row_ok_def sample_row_def)

lemma sample_cancel_run:
  "\<exists>b s' ev'. CancelBatch sample_cancel ''t'' ''b1'' running_db no_events = (OK b, s', ev')"
proof -
  have "(case fst (CancelBatch sample_cancel ''t'' ''b1'' running_db no_events) of OK _ \<Rightarrow> True | APIError _ \<Rightarrow> False)"
    by code_simp
  then show ?thesis
    by (cases "CancelBatch sample_cancel ''t'' ''b1'' running_db no_events") (auto split: response.splits)
qed

theorem cancel_is_durable_witness:
  "\<exists>b s' ev'. CancelBatch sample_cancel ''t'' ''b1'' running_db no_events = (OK b, s', ev')
    \<and> (\<exists>r. find_item ''b1'' s' = Some r \<and> row_state r = Some (si_Status (ba_Info b)))"
proof -
  obtain b s' ev' where run: "CancelBatch sample_cancel ''t'' ''b1'' running_db no_events = (OK b, s', ev')"
    using sample_cancel_run by blast
  from cancel_is_durable [OF running_db_ok _ run] run show ?thesis by (auto simp: sample_cancel_def)
qed

lemma mark_write_terminal:
  assumes "bi_Status item = Some d" and "\<not> IsTerminal (si_Status d)" and "find_item k (ca_others env i s) = Some r"
    and "\<not> nonTerminalCondition r"
  shows "find_item k (snd (mark_write i env tenantID item batch s)) = Some r"
proof -
  have "row_status r \<noteq> Some d" using assms(2,4) by (auto simp: nonTerminal_iff)
  then show ?thesis
    using mark_write_db [of i env tenantID item batch s] assms(1,3)
    by (auto simp: find_item_DBUpdate update_guard_def)
qed

lemma mark_attempts_terminal:
  assumes others: "\<And>i s. find_item k s = Some r \<Longrightarrow> find_item k (ca_others env i s) = Some r"
    and others_ok: "\<And>i s. db_ok s \<Longrightarrow> db_ok (ca_others env i s)"
    and r: "\<not> nonTerminalCondition r" and canc: "IsCancellable from"
  shows "db_ok s \<Longrightarrow> find_item k s = Some r \<Longrightarrow> si_Status (ba_Info (DBItemToBatch item)) = from \<Longrightarrow>
    find_item k (snd (mark_attempts left env tenantID from item batch s)) = Some r"
proof (induction left arbitrary: item batch s)
  case (0 item batch s)
  then obtain d where "bi_Status item = Some d" using IsCancellable_status canc by auto
  with 0 canc show ?case
    using mark_write_terminal [OF _ _ others r] by (auto dest: cancellable_not_terminal)
next
  case (Suc left)
  define i where "i = maxCancelAttempts - Suc left"
  obtain d where d: "bi_Status item = Some d" using IsCancellable_status canc Suc.prems(3) by auto
  obtain r1 s1 where w: "mark_write i env tenantID item batch s = (r1, s1)" by fastforce
  have s1: "db_ok s1"
    using mark_write_db [of i env tenantID item batch s] w others_ok [OF Suc.prems(1), of i] safeD(1) [OF safe_DBUpdate] by auto
  have k: "find_item k s1 = Some r"
    using mark_write_terminal [OF d _ others [OF Suc.prems(2)] r, of i tenantID batch] d w canc Suc.prems(3)
    by (auto dest: cancellable_not_terminal)
  show ?case
  proof (cases "mark_refetch i env tenantID from item s1")
    case (Inr fresh)
    have "si_Status (ba_Info (DBItemToBatch fresh)) = from" using mark_refetch_ok [OF s1 Inr] by simp
    from Suc.IH [OF s1 k this] k w Inr show ?thesis
      unfolding mark_attempts.simps i_def [symmetric] by (simp split: sum.split)
  qed (use k w in \<open>simp add: i_def [symmetric] split: sum.split\<close>)
qed

text \<open>
  No cancel request reopens or alters a finished batch: a row in a terminal
  status is the same row after any cancel of any batch by any tenant, whatever
  the statements and the other components do in between (as long as those do not
  touch it).
\<close>

theorem cancel_never_reopens:
  assumes s: "db_ok s" and r: "find_item k s = Some r" "\<not> nonTerminalCondition r"
    and others: "\<And>i s. find_item k s = Some r \<Longrightarrow> find_item k (ca_others env i s) = Some r"
      "\<And>i s. db_ok s \<Longrightarrow> db_ok (ca_others env i s)"
  shows "find_item k (fst (snd (CancelBatch env tenantID k' s ev))) = Some r"
proof (cases "getBatchItemFromDB (ca_get env) (ca_now env) tenantID k' s")
  case (OK item)
  let ?st = "si_Status (ba_Info (DBItemToBatch item))"
  obtain r1 s1 where d: "PQDelete (ca_del env) (ca_now env) (bi_ID item) (ca_locked env) s = (r1, s1)" by fastforce
  have "\<not> delete_guard (bi_ID item) (ca_locked env) r" using r(2) by (auto simp: delete_guard_def nonTerminalCondition_def terminalStatuses_def)
  then have k1: "find_item k s1 = Some r"
    using d r(1) find_item_update_items [of "delete_guard (bi_ID item) (ca_locked env)" "delete_eff (ca_now env)" k s]
    by (cases "ca_del env") (auto simp: PQDelete_def delete_eff_def)
  have s1: "db_ok s1" using safeD(1) [OF safe_PQDelete s, of "ca_del env" "ca_now env" "bi_ID item" "ca_locked env"] d by simp
  have k2: "find_item k (snd (markCancelling env tenantID item (DBItemToBatch item) s1)) = Some r" if "IsCancellable ?st"
    unfolding markCancelling_def by (rule mark_attempts_terminal [OF others r(2) that s1 k1 refl])
  show ?thesis
    using k1 k2 r(1) by (auto simp: CancelBatch_def OK Let_def d split: prod.split sum.split response.split)
qed (use r in \<open>simp add: CancelBatch_def\<close>)

theorem cancel_never_reopens_witness:
  "find_item ''b1'' (fst (snd (CancelBatch sample_cancel ''t'' ''b1''
      (running_db\<lparr>batch_items := [(sample_row ''b1'' 20)\<lparr>row_status := Some (zero_status_info\<lparr>si_Status := BatchStatusFailed\<rparr>)\<rparr>]\<rparr>) no_events))) \<noteq> None"
proof -
  let ?r = "(sample_row ''b1'' 20)\<lparr>row_status := Some (zero_status_info\<lparr>si_Status := BatchStatusFailed\<rparr>)\<rparr>"
  let ?s = "running_db\<lparr>batch_items := [?r]\<rparr>"
  have "db_ok ?s" "find_item ''b1'' ?s = Some ?r" "\<not> nonTerminalCondition ?r"
    by (simp_all add: db_ok_def running_db_def row_ok_def sample_row_def find_item_def nonTerminal_iff)
  from cancel_never_reopens [OF this, of sample_cancel] show ?thesis by (simp add: sample_cancel_def)
qed

subsection \<open>Listing\<close>

text \<open>
  A client that walks the list: it passes the last id of a page as the next
  \<^verbatim>\<open>after\<close> until \<^verbatim>\<open>has_more\<close> is false. The store is one in which every id was issued by
  the API, so that each id is a valid cursor.
\<close>

definition list_page :: "instant \<Rightarrow> string \<Rightarrow> string \<Rightarrow> db \<Rightarrow> string \<Rightarrow> (Batch list \<times> bool) res" where
  "list_page now tenantID limitStr s after = (case ListBatches ConnOk now tenantID limitStr after s of
      APIError st \<Rightarrow> Inl ErrDB | OK resp \<Rightarrow> Inr (lb_Data resp, lb_HasMore resp))"

definition tenant_batches :: "string \<Rightarrow> db \<Rightarrow> Batch list" where
  "tenant_batches tenantID s =
    map (\<lambda>r. DBItemToBatch (item_of_row True r)) (sort_key row_id (filter (\<lambda>r. row_tenant r = tenantID) (batch_items s)))"

definition issued_id :: "string \<Rightarrow> bool" where
  "issued_id k = (has_prefix k BatchIDPrefix \<and> length k > length BatchIDPrefix)"

definition issued :: "db \<Rightarrow> bool" where
  "issued s = (db_ok s \<and> list_all (\<lambda>r. issued_id (row_id r)) (batch_items s))"

definition issued_part :: "db \<Rightarrow> db" where
  "issued_part s = (if issued s then s else \<lparr>batch_items = [], batch_entries = []\<rparr>)"

lemma issued_part [simp]: "issued (issued_part s)"
  by (simp add: issued_part_def issued_def db_ok_def)

lemma isDigits_issued: "issued_id k \<Longrightarrow> \<not> isDigits k \<and> k \<noteq> []"
  by (cases k) (auto simp: issued_id_def isDigits_def BatchIDPrefix_def is_digit_def)

lemma tenant_batches_sorted:
  assumes "issued s"
  shows "sorted_wrt (<) (map ba_ID (tenant_batches tenantID s))"
proof -
  let ?t = "sort_key row_id (filter (\<lambda>r. row_tenant r = tenantID) (batch_items s))"
  have "distinct (map row_id ?t)"
    using assms by (auto simp: issued_def db_ok_def distinct_map intro: inj_on_subset)
  moreover have "sorted (map row_id ?t)" by simp
  ultimately have "sorted_wrt (<) (map row_id ?t)" by (simp only: strict_sorted_iff simp_thms)
  then show ?thesis by (simp add: tenant_batches_def o_def item_of_row_fields)
qed

lemma list_page_eq:
  assumes s: "issued s" and n: "sscanf_int limitStr = Some (int n)" "1 \<le> n" "n \<le> 100" "limitStr \<noteq> []"
    and tenant: "tenantID \<noteq> []" and after: "after = [] \<or> issued_id after"
  shows "list_page now tenantID limitStr s after =
    Inr (take n (filter (\<lambda>b. after < ba_ID b) (tenant_batches tenantID s)),
      n < length (filter (\<lambda>b. after < ba_ID b) (tenant_batches tenantID s)))"
proof -
  have aft: "ParseAfter after BatchIDPrefix = Inr (0, after)"
    using after isDigits_issued by (auto simp: ParseAfter_def issued_id_def)
  let ?f = "filter (\<lambda>r. row_tenant r = tenantID \<and> after < row_id r) (batch_items s)"
  have ne: "row_id r \<noteq> []" if "r \<in> set (batch_items s)" for r
    using that s by (auto simp: issued_def db_ok_def list_all_iff row_ok_def)
  have conds: "filter (\<lambda>r. list_all (\<lambda>c. c r) (query_conditions now (no_query\<lparr>q_TenantID := tenantID, q_AfterID := after\<rparr>) [] []))
      (batch_items s) = ?f"
    using tenant ne by (auto simp: query_conditions_def no_query_def intro!: filter_cong)
  have tb: "filter (\<lambda>b. after < ba_ID b) (tenant_batches tenantID s)
      = map (\<lambda>r. DBItemToBatch (item_of_row True r)) (sort_key row_id ?f)"
    by (simp add: tenant_batches_def filter_map o_def item_of_row_fields filter_sort conj_commute)
  have "DBGet ConnOk now (no_query\<lparr>q_TenantID := tenantID, q_AfterID := after\<rparr>) True 0 n s =
      Inr (map (item_of_row True) (take n (sort_key row_id ?f)), length (take n (sort_key row_id ?f)), n < length ?f)"
    using conds tenant
    by (simp add: DBGet_def pg_get_def Let_def select_rows_def order_by_id_def no_query_def query_conditions_def min_def)
  with aft n show ?thesis
    by (simp add: list_page_def ListBatches_def Let_def tb take_map)
qed

lemma sscanf_20: "sscanf_int ''20'' = Some (int 20)"
  by code_simp

interpretation batch_pages: keyset_source "list_page now (request_tenant h hs) ''20'' (issued_part s)" ba_ID
    "\<lambda>after b. after < ba_ID b" "tenant_batches (request_tenant h hs) (issued_part s)" 20
    "\<lambda>after. 20 < length (filter (\<lambda>b. after < ba_ID b) (tenant_batches (request_tenant h hs) (issued_part s)))"
    "\<lambda>after. after = [] \<or> issued_id after"
  for now h hs s
proof
  let ?rows = "tenant_batches (request_tenant h hs) (issued_part s)"
  show "list_page now (request_tenant h hs) ''20'' (issued_part s) c = Inr (take 20 (filter (\<lambda>b. c < ba_ID b) ?rows),
      20 < length (filter (\<lambda>b. c < ba_ID b) ?rows))" if "c = [] \<or> issued_id c" for c
    by (rule list_page_eq) (use that sscanf_20 in auto)
  show "filter (\<lambda>b. ba_ID y < ba_ID b) ?rows = ys" if "?rows = xs @ y # ys" for xs y ys
    by (rule sorted_after [OF tenant_batches_sorted that]) simp
  show "ba_ID b = [] \<or> issued_id (ba_ID b)" if "b \<in> set ?rows" for b
    using that issued_part [of s] by (auto simp: tenant_batches_def issued_def list_all_iff item_of_row_fields)
qed auto

text \<open>
  C30: Listing is complete: a client that follows the cursor from page to page
  with the default page size receives every batch of its tenant exactly once, in
  id order, after finitely many requests.
\<close>

theorem list_walk_complete:
  assumes "issued s"
  shows "key_loop (Suc (length (tenant_batches (request_tenant h hs) s))) (list_page now (request_tenant h hs) ''20'' s) ba_ID [] []
    = Some (Inr (tenant_batches (request_tenant h hs) s))"
proof -
  have s: "issued_part s = s" using assms by (simp add: issued_part_def)
  have "[] < ba_ID b" if "b \<in> set (tenant_batches (request_tenant h hs) s)" for b
    using that assms by (auto simp: tenant_batches_def issued_def db_ok_def list_all_iff row_ok_def item_of_row_fields)
  then show ?thesis using batch_pages.key_loop_all [of "[]" h hs s now] unfolding s by blast
qed

definition listed_db :: db where
  "listed_db = \<lparr>batch_items = [sample_row ''batch_2'' 1, sample_row ''batch_1'' 2], batch_entries = []\<rparr>"

theorem list_walk_complete_witness:
  "\<exists>bs. key_loop (Suc (length bs)) (list_page 0 ''t'' ''20'' listed_db) ba_ID [] [] = Some (Inr bs) \<and> map ba_ID bs = [''batch_1'', ''batch_2'']"
proof -
  have t: "request_tenant ''h'' [(''h'', [''t''])] = ''t''" by code_simp
  have "issued listed_db"
    by (simp add: issued_def listed_db_def db_ok_def sample_row_def row_ok_def issued_id_def BatchIDPrefix_def)
  from list_walk_complete [OF this, of "''h''" "[(''h'', [''t''])]" 0, unfolded t]
  have "key_loop (Suc (length (tenant_batches ''t'' listed_db))) (list_page 0 ''t'' ''20'' listed_db) ba_ID [] []
    = Some (Inr (tenant_batches ''t'' listed_db))" .
  moreover have "map ba_ID (tenant_batches ''t'' listed_db) = [''batch_1'', ''batch_2'']"
    by (simp add: tenant_batches_def listed_db_def sample_row_def item_of_row_def DBItemToBatch_def)
  ultimately show ?thesis by (intro exI conjI)
qed

end
