(* ===== verification/File_Api.thy ===== *)
theory File_Api
  imports Batch_Api
begin

text \<open>
  The file endpoints of the API server
  (\<^verbatim>\<open>internal/apiserver/file/file_handler.go\<close>) over the metadata table and the file
  store. The outcome of reading the multipart form, the generated id, the clock
  and the fate of each statement and file operation are arguments.
\<close>

section \<open>Types\<close>

datatype form_error = FormTooLarge | FormMissing | FormOther

record upload =
  up_Filename :: string
  up_Size :: int
  up_Chunks :: "string list"
  up_EofWithLast :: bool

record create_file_request =
  cf_ContentLength :: int
  cf_File :: "form_error + upload"
  cf_Purpose :: string
  cf_Anchor :: string
  cf_Seconds :: string

record FileAPIConfig =
  fc_DefaultExpirationSeconds :: int
  fc_MaxSizeBytes :: int
  fc_MaxLineCount :: int

record file_env =
  fe_now :: instant
  fe_fileID :: string
  fe_io :: bool
  fe_conn :: conn
  fe_io2 :: bool
  fe_conn2 :: conn

record file_state =
  fs_rows :: "file_row list"
  fs_store :: files

section \<open>Uploading\<close>

definition DefaultFileExpirationSeconds :: int where "DefaultFileExpirationSeconds = 90 * 24 * 60 * 60"
definition DefaultMaxFileSizeBytes :: int where "DefaultMaxFileSizeBytes = 200 * 2 ^ 20"
definition DefaultMaxFileLineCount :: int where "DefaultMaxFileLineCount = 50000"

definition FileAPIConfig_applyDefaults :: "FileAPIConfig \<Rightarrow> FileAPIConfig" where
  "FileAPIConfig_applyDefaults f =
    \<lparr>fc_DefaultExpirationSeconds = (if fc_DefaultExpirationSeconds f \<le> 0 then DefaultFileExpirationSeconds else fc_DefaultExpirationSeconds f),
     fc_MaxSizeBytes = (if fc_MaxSizeBytes f \<le> 0 then DefaultMaxFileSizeBytes else fc_MaxSizeBytes f),
     fc_MaxLineCount = (if fc_MaxLineCount f \<le> 0 then DefaultMaxFileLineCount else fc_MaxLineCount f)\<rparr>"

definition MaxInt64 :: int where "MaxInt64 = 2 ^ 63 - 1"
definition maxUploadFormOverhead :: int where "maxUploadFormOverhead = 2 ^ 20"
definition maxUploadFileSize :: int where "maxUploadFileSize = MaxInt64 - maxUploadFormOverhead"

definition max_request_size :: "FileAPIConfig \<Rightarrow> int" where
  "max_request_size cfg =
    (if fc_MaxSizeBytes cfg \<le> maxUploadFileSize then fc_MaxSizeBytes cfg + maxUploadFormOverhead else MaxInt64)"

text \<open>The expiry instant of an upload, or the rejection of its parameters.\<close>

definition upload_expiry :: "FileAPIConfig \<Rightarrow> int \<Rightarrow> create_file_request \<Rightarrow> int option" where
  "upload_expiry cfg createdAt req =
    (if cf_Anchor req \<noteq> [] \<or> cf_Seconds req \<noteq> []
     then (if cf_Anchor req = [] \<or> cf_Seconds req = [] then None
           else if cf_Anchor req \<noteq> ''created_at'' then None
           else (case parse_int64 (cf_Seconds req) of
               None \<Rightarrow> None
             | Some n \<Rightarrow> if n < MinExpirationSeconds \<or> n > MaxExpirationSeconds then None else Some (createdAt + n)))
     else Some (createdAt + fc_DefaultExpirationSeconds cfg))"

definition sanitize_name :: "string \<Rightarrow> string \<Rightarrow> string" where
  "sanitize_name fileID filename =
    (let origName = path_base filename
     in if origName = [] \<or> origName = ''.'' \<or> origName = ''..'' \<or> origName = ''/'' then fileID @ ''.jsonl'' else origName)"

definition store_status :: "error \<Rightarrow> nat" where
  "store_status e = (if e = ErrFileTooLarge \<or> e = ErrTooManyLines then 400 else if e = ErrFileExists then 409 else 500)"

text \<open>
  The part of the handler after the parameters are accepted: store the content,
  then the metadata; the deferred cleanup deletes the content unless both were
  stored.
\<close>

definition store_upload ::
  "(string \<Rightarrow> string) \<Rightarrow> file_env \<Rightarrow> FileAPIConfig \<Rightarrow> string \<Rightarrow> string \<Rightarrow> int \<Rightarrow> upload \<Rightarrow> file_state
    \<Rightarrow> FileObject response \<times> file_state" where
  "store_upload sha env cfg tenantID purpose expiresAt up s =
    (let fileID = fe_fileID env; origName = sanitize_name fileID (up_Filename up); storageName = FileStorageName fileID origName
     in case GetFolderNameByTenantID sha tenantID of
          Inl e \<Rightarrow> (APIError 500, s)
        | Inr folderName \<Rightarrow>
            (case Store (fe_io env) storageName folderName (fc_MaxSizeBytes cfg) (fc_MaxLineCount cfg)
                (up_Chunks up) (up_EofWithLast up) (fs_store s) of
               (Inl e, st) \<Rightarrow> (APIError (store_status e), s\<lparr>fs_store := st\<rparr>)
             | (Inr meta, st) \<Rightarrow>
                 let fileObj = \<lparr>fo_ID = fileID, fo_Bytes = md_Size meta, fo_CreatedAt = unix (fe_now env),
                       fo_ExpiresAt = (if expiresAt > 0 then Some expiresAt else None), fo_Filename = origName,
                       fo_Object = ''file'', fo_Purpose = purpose, fo_Status = ''uploaded''\<rparr>
                 in (case file_DBStore (fe_conn env) (FileToDBItem fileObj tenantID []) (fs_rows s) of
                     (Inl e, t) \<Rightarrow> (APIError 500, \<lparr>fs_rows = t, fs_store = snd (Delete (fe_io2 env) storageName folderName st)\<rparr>)
                   | (Inr _, t) \<Rightarrow> (OK fileObj, \<lparr>fs_rows = t, fs_store = st\<rparr>))))"

definition CreateFile ::
  "(string \<Rightarrow> string) \<Rightarrow> file_env \<Rightarrow> FileAPIConfig \<Rightarrow> string \<Rightarrow> create_file_request \<Rightarrow> file_state
    \<Rightarrow> FileObject response \<times> file_state" where
  "CreateFile sha env cfg tenantID req s =
    (if cf_ContentLength req > max_request_size cfg then (APIError 400, s)
     else case cf_File req of
         Inl FormTooLarge \<Rightarrow> (APIError 400, s)
       | Inl FormMissing \<Rightarrow> (APIError 400, s)
       | Inl FormOther \<Rightarrow> (APIError 500, s)
       | Inr up \<Rightarrow>
           if up_Size up > fc_MaxSizeBytes cfg then (APIError 400, s)
           else if cf_Purpose req = [] then (APIError 400, s)
           else if \<not> purpose_IsValid (cf_Purpose req) then (APIError 400, s)
           else (case upload_expiry cfg (unix (fe_now env)) req of
               None \<Rightarrow> (APIError 400, s)
             | Some expiresAt \<Rightarrow> store_upload sha env cfg tenantID (cf_Purpose req) expiresAt up s))"

section \<open>Reading and deleting\<close>

definition getFileItemFromDB :: "conn \<Rightarrow> instant \<Rightarrow> string \<Rightarrow> string \<Rightarrow> file_row list \<Rightarrow> FileItem response" where
  "getFileItemFromDB c now tenantID fileID t =
    (if fileID = [] then APIError 400
     else case file_DBGet c now (no_file_query\<lparr>q_IDs := [fileID], q_TenantID := tenantID\<rparr>) True 0 1 t of
         Inl e \<Rightarrow> APIError 500
       | Inr (items, cursor, expectMore) \<Rightarrow> (case items of
           [] \<Rightarrow> APIError 404
         | item # _ \<Rightarrow> if ft_TenantID item \<noteq> tenantID then APIError 404 else OK item))"

definition RetrieveFile :: "conn \<Rightarrow> instant \<Rightarrow> string \<Rightarrow> string \<Rightarrow> file_row list \<Rightarrow> FileObject response" where
  "RetrieveFile c now tenantID fileID t = (case getFileItemFromDB c now tenantID fileID t of
      APIError st \<Rightarrow> APIError st
    | OK item \<Rightarrow> (case DBItemToFile item of Inl e \<Rightarrow> APIError 500 | Inr fileObj \<Rightarrow> OK fileObj))"

definition DownloadFile ::
  "(string \<Rightarrow> string) \<Rightarrow> file_env \<Rightarrow> string \<Rightarrow> string \<Rightarrow> file_state \<Rightarrow> string response" where
  "DownloadFile sha env tenantID fileID s =
    (case getFileItemFromDB (fe_conn env) (fe_now env) tenantID fileID (fs_rows s) of
       APIError st \<Rightarrow> APIError st
     | OK item \<Rightarrow>
         (case DBItemToFile item of
            Inl e \<Rightarrow> APIError 500
          | Inr fileObj \<Rightarrow>
              (case GetFolderNameByTenantID sha (ft_TenantID item) of
                 Inl e \<Rightarrow> APIError 500
               | Inr folderName \<Rightarrow>
                   (case Retrieve (fe_io env) (FileStorageName (fo_ID fileObj) (fo_Filename fileObj)) folderName (fs_store s) of
                      Inl e \<Rightarrow> APIError 500
                    | Inr (content, meta) \<Rightarrow> OK content))))"

definition DeleteFile ::
  "(string \<Rightarrow> string) \<Rightarrow> file_env \<Rightarrow> string \<Rightarrow> string \<Rightarrow> file_state \<Rightarrow> string response \<times> file_state" where
  "DeleteFile sha env tenantID fileID s =
    (case getFileItemFromDB (fe_conn env) (fe_now env) tenantID fileID (fs_rows s) of
       APIError st \<Rightarrow> (APIError st, s)
     | OK item \<Rightarrow>
         (case DBItemToFile item of Inl e \<Rightarrow> (APIError 500, s) | Inr fileObj \<Rightarrow>
           (case GetFolderNameByTenantID sha (ft_TenantID item) of
             Inl e \<Rightarrow> (APIError 500, s)
           | Inr folderName \<Rightarrow>
               let (r, st) = Delete (fe_io env) (FileStorageName (fo_ID fileObj) (fo_Filename fileObj)) folderName (fs_store s);
                   s1 = s\<lparr>fs_store := st\<rparr>
               in (case hard_error r of
                   Some e \<Rightarrow> (APIError 500, s1)
                 | None \<Rightarrow> (case file_DBDelete (fe_conn2 env) [fo_ID fileObj] (fs_rows s1) of
                       (Inl e, t) \<Rightarrow> (APIError 500, s1\<lparr>fs_rows := t\<rparr>)
                     | (Inr ids, t) \<Rightarrow> (OK (fo_ID fileObj), s1\<lparr>fs_rows := t\<rparr>))))))"

section \<open>Listing\<close>

definition FileIDPrefix :: string where "FileIDPrefix = ''file_''"
definition defaultListFilesLimit :: int where "defaultListFilesLimit = 20"
definition maxListFilesLimit :: int where "maxListFilesLimit = 10000"

record ListFilesResponse =
  lf_Data :: "FileObject list"
  lf_FirstID :: string
  lf_LastID :: string
  lf_HasMore :: bool

fun file_objects :: "FileItem list \<Rightarrow> FileObject list res" where
  "file_objects [] = Inr []"
| "file_objects (item # items) =
    (case DBItemToFile item of
       Inl e \<Rightarrow> Inl e
     | Inr f \<Rightarrow> (case file_objects items of Inl e \<Rightarrow> Inl e | Inr fs \<Rightarrow> Inr (f # fs)))"

definition ListFiles ::
  "conn \<Rightarrow> instant \<Rightarrow> string \<Rightarrow> string \<Rightarrow> string \<Rightarrow> string \<Rightarrow> string \<Rightarrow> file_row list \<Rightarrow> ListFilesResponse response" where
  "ListFiles c now tenantID after limitStr order purposeStr t =
    (case ParseAfter after FileIDPrefix of
       Inl e \<Rightarrow> APIError 400
     | Inr (start, afterID) \<Rightarrow>
         (case (if limitStr = [] then Some defaultListFilesLimit else parse_int64 limitStr) of
            None \<Rightarrow> APIError 400
          | Some limit \<Rightarrow>
              if limitStr \<noteq> [] \<and> (limit < 1 \<or> limit > maxListFilesLimit) then APIError 400
              else if order \<noteq> [] \<and> order \<noteq> ''asc'' \<and> order \<noteq> ''desc'' then APIError 400
              else if purposeStr \<noteq> [] \<and> \<not> purpose_IsValid purposeStr then APIError 400
              else (case file_DBGet c now (no_file_query\<lparr>q_TenantID := tenantID, q_AfterID := afterID,
                        q_Descending := (order = [] \<or> order = ''desc''), q_Purpose := purposeStr\<rparr>) True start (nat limit) t of
                  Inl e \<Rightarrow> APIError 500
                | Inr (items, cursor, expectMore) \<Rightarrow>
                    (case file_objects items of
                       Inl e \<Rightarrow> APIError 500
                     | Inr objs \<Rightarrow> OK \<lparr>lf_Data = objs, lf_FirstID = (if objs = [] then [] else fo_ID (hd objs)),
                           lf_LastID = (if objs = [] then [] else fo_ID (last objs)), lf_HasMore = expectMore\<rparr>))))"

section \<open>Lemmas\<close>

lemma file_get_by_id:
  assumes s: "files_ok t" and "tenant \<noteq> []"
  shows "file_DBGet ConnOk now (no_file_query\<lparr>q_IDs := [k], q_TenantID := tenant\<rparr>) b 0 (Suc 0) t =
    (case by_key row_id k t of
       Some r \<Rightarrow> if row_tenant r = tenant then Inr ([file_of_row b r], 1, False) else Inr ([], 0, False)
     | None \<Rightarrow> Inr ([], 0, False))"
proof -
  have f: "filter (\<lambda>r. row_id r = k \<and> row_tenant r = tenant) t
      = (case by_key row_id k t of Some r \<Rightarrow> if row_tenant r = tenant then [r] else [] | None \<Rightarrow> [])"
    using s by (simp add: files_ok_def filter_by_key)
  show ?thesis
    using assms(2) f
    by (auto simp: file_DBGet_def no_file_query_def pg_get_def query_conditions_def select_rows_def order_by_id_def
        purpose_filter_def Let_def split: option.splits)
qed

lemma getFileItem_eq:
  assumes "files_ok t" and "tenantID \<noteq> []" and "k \<noteq> []"
  shows "getFileItemFromDB ConnOk now tenantID k t = (case by_key row_id k t of
      Some r \<Rightarrow> if row_tenant r = tenantID then OK (file_of_row True r) else APIError 404
    | None \<Rightarrow> APIError 404)"
  using assms by (auto simp: getFileItemFromDB_def file_get_by_id file_of_row_def split: option.split)

lemma getFileItem_OKD:
  assumes "files_ok t" and "getFileItemFromDB c now tenantID k t = OK item"
  shows "\<exists>r. by_key row_id k t = Some r \<and> item = file_of_row True r \<and> row_tenant r = tenantID"
proof -
  from assms(2) obtain items cursor m where get: "file_DBGet c now (no_file_query\<lparr>q_IDs := [k], q_TenantID := tenantID\<rparr>) True 0 1 t
      = Inr (item # items, cursor, m)" and tenant: "ft_TenantID item = tenantID"
    by (auto simp: getFileItemFromDB_def split: if_splits sum.splits list.splits)
  from get have "item \<in> set (item # items)" by simp
  with get obtain r where r: "r \<in> set t" "item = file_of_row True r"
      "list_all (\<lambda>cond. cond r) (query_conditions now (no_file_query\<lparr>q_IDs := [k], q_TenantID := tenantID\<rparr>) (purpose_filter (no_file_query\<lparr>q_IDs := [k], q_TenantID := tenantID\<rparr>)) [])"
    by (rule file_get_rows)
  then have "row_id r = k" by (simp add: query_conditions_def no_file_query_def)
  with r tenant assms(1) show ?thesis by (auto simp: files_ok_def by_key_Some_iff file_of_row_def)
qed

lemma Store_OkD:
  assumes "Store io fileName folderName sz ln chunks eofl fs = (Inr meta, fs')"
  obtains p where "resolvePath folderName fileName = Inr p" "map_of fs p = None" "fs' = (p, concat chunks) # fs"
    "md_Size meta = int (length (concat chunks))" "limits_ok sz ln (concat chunks)"
proof -
  from assms obtain p r where p: "resolvePath folderName fileName = Inr p" "map_of fs p = None" "io"
      "copy_chunks chunks eofl (new_reader sz ln) = Inr r" "fs' = (p, concat chunks) # fs" "md_Size meta = int (length (concat chunks))"
    by (auto simp: Store_def split: sum.splits if_splits)
  have "limits_ok sz ln (concat chunks)"
    using copy_chunks_from [of ln "[]" sz chunks eofl] p(4) by (auto simp: new_reader_start within_def split: if_splits)
  with p that show ?thesis by blast
qed

lemma file_DBStore_Ok:
  assumes "file_DBStore c item t = (Inr (), t')"
  shows "t' = t @ [row_of_file item] \<and> ft_ID item \<notin> row_id ` set t \<and> ft_ID item \<noteq> []"
  using assms by (cases c) (auto simp: file_DBStore_def pg_store_def row_of_file_def split: if_splits)

lemma CreateFile_OKD:
  assumes "CreateFile sha env cfg tenantID req s = (OK f, s')"
  obtains up expiresAt where "cf_File req = Inr up" "upload_expiry cfg (unix (fe_now env)) req = Some expiresAt"
    "store_upload sha env cfg tenantID (cf_Purpose req) expiresAt up s = (OK f, s')" "purpose_IsValid (cf_Purpose req)"
  using assms by (auto simp: CreateFile_def split: if_splits sum.splits option.splits form_error.splits)

lemma store_upload_OKD:
  assumes "store_upload sha env cfg tenantID purpose expiresAt up s = (OK f, s')"
  obtains folder p where "GetFolderNameByTenantID sha tenantID = Inr folder"
    "resolvePath folder (FileStorageName (fo_ID f) (fo_Filename f)) = Inr p" "map_of (fs_store s) p = None"
    "fs_store s' = (p, concat (up_Chunks up)) # fs_store s" "fs_rows s' = fs_rows s @ [row_of_file (FileToDBItem f tenantID [])]"
    "fo_ID f = fe_fileID env" "fo_ID f \<notin> row_id ` set (fs_rows s)" "fo_ID f \<noteq> []" "fo_Bytes f = int (length (concat (up_Chunks up)))"
    "fo_Purpose f = purpose" "fo_ExpiresAt f = (if expiresAt > 0 then Some expiresAt else None)" "fo_CreatedAt f = unix (fe_now env)"
    "limits_ok (fc_MaxSizeBytes cfg) (fc_MaxLineCount cfg) (concat (up_Chunks up))" "fo_Object f = ''file''" "fo_Status f = ''uploaded''"
    "fo_Filename f = sanitize_name (fe_fileID env) (up_Filename up)"
proof -
  from assms obtain folder meta st where 1: "GetFolderNameByTenantID sha tenantID = Inr folder"
      and 2: "Store (fe_io env) (FileStorageName (fo_ID f) (fo_Filename f)) folder (fc_MaxSizeBytes cfg) (fc_MaxLineCount cfg)
          (up_Chunks up) (up_EofWithLast up) (fs_store s) = (Inr meta, st)"
      and 3: "file_DBStore (fe_conn env) (FileToDBItem f tenantID []) (fs_rows s) = (Inr (), fs_rows s')" "fs_store s' = st"
      and 4: "fo_ID f = fe_fileID env" "fo_Bytes f = md_Size meta" "fo_Purpose f = purpose" "fo_CreatedAt f = unix (fe_now env)"
        "fo_ExpiresAt f = (if expiresAt > 0 then Some expiresAt else None)" "fo_Object f = ''file''" "fo_Status f = ''uploaded''"
        "fo_Filename f = sanitize_name (fe_fileID env) (up_Filename up)"
    by (auto simp: store_upload_def Let_def split: sum.splits prod.splits)
  from 2 obtain p where "resolvePath folder (FileStorageName (fo_ID f) (fo_Filename f)) = Inr p" "map_of (fs_store s) p = None"
      "st = (p, concat (up_Chunks up)) # fs_store s" "md_Size meta = int (length (concat (up_Chunks up)))"
      "limits_ok (fc_MaxSizeBytes cfg) (fc_MaxLineCount cfg) (concat (up_Chunks up))"
    by (rule Store_OkD)
  with 1 3 4 file_DBStore_Ok [OF 3(1)] that show ?thesis by (simp add: FileToDBItem_def)
qed

section \<open>Properties\<close>

text \<open>
  C31: An upload that succeeds under a name that is UTF-8 can be downloaded byte for byte by
  its tenant, and its metadata reads back as the object the client was given. Under any name
  the metadata reads back as its JSON encoding, the content is stored under the name of the
  upload and fits the configured limits, and no other object or row is affected.
\<close>

theorem upload_download_roundtrip:
  assumes ok: "files_ok (fs_rows s)" and tenant: "tenantID \<noteq> []"
    and run: "CreateFile sha env cfg tenantID req s = (OK f, s')"
    and later: "fe_conn env' = ConnOk" "fe_io env'" and ids: "valid_utf8 (fe_fileID env)"
  shows "\<exists>up. cf_File req = Inr up
    \<and> (valid_utf8 (fo_Filename f) \<longrightarrow> DownloadFile sha env' tenantID (fo_ID f) s' = OK (concat (up_Chunks up))
         \<and> RetrieveFile ConnOk (fe_now env') tenantID (fo_ID f) (fs_rows s') = OK f)
    \<and> RetrieveFile ConnOk (fe_now env') tenantID (fo_ID f) (fs_rows s') = OK (json_file f)
    \<and> (\<exists>folder p. GetFolderNameByTenantID sha tenantID = Inr folder \<and> resolvePath folder (FileStorageName (fo_ID f) (fo_Filename f)) = Inr p
         \<and> map_of (fs_store s') p = Some (concat (up_Chunks up)))
    \<and> limits_ok (fc_MaxSizeBytes cfg) (fc_MaxLineCount cfg) (concat (up_Chunks up))
    \<and> fo_Bytes f = int (length (concat (up_Chunks up))) \<and> purpose_IsValid (fo_Purpose f)
    \<and> (\<forall>p d. map_of (fs_store s) p = Some d \<longrightarrow> map_of (fs_store s') p = Some d)
    \<and> (\<forall>k. k \<noteq> fo_ID f \<longrightarrow> by_key row_id k (fs_rows s') = by_key row_id k (fs_rows s))"
proof -
  from run obtain up expiresAt where up: "cf_File req = Inr up" "purpose_IsValid (cf_Purpose req)"
      and st: "store_upload sha env cfg tenantID (cf_Purpose req) expiresAt up s = (OK f, s')"
    by (rule CreateFile_OKD)
  from st obtain folder p where D: "GetFolderNameByTenantID sha tenantID = Inr folder"
      "resolvePath folder (FileStorageName (fo_ID f) (fo_Filename f)) = Inr p" "map_of (fs_store s) p = None"
      "fs_store s' = (p, concat (up_Chunks up)) # fs_store s" "fs_rows s' = fs_rows s @ [row_of_file (FileToDBItem f tenantID [])]"
      "fo_ID f \<notin> row_id ` set (fs_rows s)" "fo_ID f \<noteq> []" "fo_Bytes f = int (length (concat (up_Chunks up)))"
      "fo_Purpose f = cf_Purpose req" "limits_ok (fc_MaxSizeBytes cfg) (fc_MaxLineCount cfg) (concat (up_Chunks up))"
      "fo_ID f = fe_fileID env" "fo_Object f = ''file''" "fo_Status f = ''uploaded''"
    by (rule store_upload_OKD) blast
  have same: "json_file f = f" if "valid_utf8 (fo_Filename f)"
    by (rule json_file_id) (use that ids up(2) D(9,11-13) valid_utf8_purpose in \<open>simp_all add: valid_utf8_ascii\<close>)
  let ?r = "row_of_file (FileToDBItem f tenantID [])"
  have id: "row_id ?r = fo_ID f" "row_tenant ?r = tenantID" by (simp_all add: row_of_file_def FileToDBItem_def)
  have ok': "files_ok (fs_rows s')" using ok D(5,6) id by (simp add: files_ok_def)
  have find: "by_key row_id (fo_ID f) (fs_rows s') = Some ?r"
    using D(5,6) id by (simp add: by_key_append by_key_None_iff [THEN iffD2])
  have get: "getFileItemFromDB ConnOk now tenantID (fo_ID f) (fs_rows s') = OK (file_of_row True ?r)" for now
    using getFileItem_eq [OF ok' tenant D(7)] find id by simp
  have "by_key row_id k (fs_rows s') = by_key row_id k (fs_rows s)" if "k \<noteq> fo_ID f" for k
    using that D(5) id by (simp add: by_key_append split: option.split)
  moreover have "DownloadFile sha env' tenantID (fo_ID f) s' = OK (concat (up_Chunks up))" if "valid_utf8 (fo_Filename f)"
    using get D later same [OF that] by (simp add: DownloadFile_def Retrieve_def)
  ultimately show ?thesis using get up D same by (auto simp: RetrieveFile_def)
qed

definition sample_file_env :: file_env where
  "sample_file_env = \<lparr>fe_now = secs 10, fe_fileID = ''file_1'', fe_io = True, fe_conn = ConnOk, fe_io2 = True, fe_conn2 = ConnOk\<rparr>"

definition sample_upload :: create_file_request where
  "sample_upload = \<lparr>cf_ContentLength = 40, cf_File = Inr \<lparr>up_Filename = ''in.jsonl'', up_Size = 3, up_Chunks = [''a'', ''bc''], up_EofWithLast = False\<rparr>,
     cf_Purpose = ''batch'', cf_Anchor = [], cf_Seconds = []\<rparr>"

definition sample_file_config :: FileAPIConfig where
  "sample_file_config = FileAPIConfig_applyDefaults \<lparr>fc_DefaultExpirationSeconds = 0, fc_MaxSizeBytes = 0, fc_MaxLineCount = 0\<rparr>"

lemma sample_upload_run:
  "\<exists>f s'. CreateFile (\<lambda>x. x) sample_file_env sample_file_config ''t'' sample_upload \<lparr>fs_rows = [], fs_store = []\<rparr> = (OK f, s')"
proof -
  have "(case fst (CreateFile (\<lambda>x. x) sample_file_env sample_file_config ''t'' sample_upload \<lparr>fs_rows = [], fs_store = []\<rparr>) of
      OK _ \<Rightarrow> True | APIError _ \<Rightarrow> False)" by code_simp
  then show ?thesis
    by (cases "CreateFile (\<lambda>x. x) sample_file_env sample_file_config ''t'' sample_upload \<lparr>fs_rows = [], fs_store = []\<rparr>")
      (auto split: response.splits)
qed

lemma sample_upload_name:
  assumes "CreateFile (\<lambda>x. x) sample_file_env sample_file_config ''t'' sample_upload \<lparr>fs_rows = [], fs_store = []\<rparr> = (OK f, s')"
  shows "fo_Filename f = ''in.jsonl''"
proof -
  have "(case fst (CreateFile (\<lambda>x. x) sample_file_env sample_file_config ''t'' sample_upload \<lparr>fs_rows = [], fs_store = []\<rparr>) of
      OK f \<Rightarrow> fo_Filename f = ''in.jsonl'' | APIError _ \<Rightarrow> False)" by code_simp
  with assms show ?thesis by simp
qed

theorem upload_download_roundtrip_witness:
  "\<exists>f s'. CreateFile (\<lambda>x. x) sample_file_env sample_file_config ''t'' sample_upload \<lparr>fs_rows = [], fs_store = []\<rparr> = (OK f, s')
    \<and> DownloadFile (\<lambda>x. x) sample_file_env ''t'' (fo_ID f) s' = OK ''abc''"
proof -
  obtain f s' where run: "CreateFile (\<lambda>x. x) sample_file_env sample_file_config ''t'' sample_upload \<lparr>fs_rows = [], fs_store = []\<rparr> = (OK f, s')"
    using sample_upload_run by blast
  have "files_ok (fs_rows \<lparr>fs_rows = [], fs_store = []\<rparr>)" "''t'' \<noteq> ([] :: string)" "valid_utf8 (fe_fileID sample_file_env)"
    by (simp_all add: files_ok_def sample_file_env_def valid_utf8_ascii)
  moreover have "valid_utf8 (fo_Filename f)" using sample_upload_name run by (simp add: valid_utf8_ascii)
  ultimately have "DownloadFile (\<lambda>x. x) sample_file_env ''t'' (fo_ID f) s' = OK ''abc''"
    using upload_download_roundtrip [OF _ _ run, of sample_file_env] by (auto simp: sample_upload_def sample_file_env_def)
  with run show ?thesis by blast
qed

lemma storage_name_plain:
  "slash \<notin> set i \<Longrightarrow> 2 < length i \<Longrightarrow> plain_name (FileStorageName i n)"
proof -
  assume i: "slash \<notin> set i" "2 < length i"
  have "slash \<notin> set (path_ext n)" by (auto simp: path_ext_def Let_def slash_def dot_def dest!: set_takeWhileD)
  moreover have "2 < length (FileStorageName i n)" using i(2) by (simp add: FileStorageName_def)
  then have "FileStorageName i n \<noteq> []" "FileStorageName i n \<noteq> [dot]" "FileStorageName i n \<noteq> [dot, dot]" by auto
  ultimately show ?thesis using i(1) by (auto simp: plain_name_def FileStorageName_def slash_def)
qed

text \<open>
  C0: An upload whose file extension is not UTF-8 is accepted and stored, and then cannot be read:
  the row keeps the name as JSON encodes it, the storage name is rebuilt from that name, and
  with no other object under the new identifier the download is answered with status 500.
\<close>

theorem undecodable_extension_unreadable:
  assumes ok: "files_ok (fs_rows s)" and tenant: "tenantID \<noteq> []"
    and run: "CreateFile sha env cfg tenantID req s = (OK f, s')" and later: "fe_conn env' = ConnOk"
    and ids: "valid_utf8 (fe_fileID env)" "slash \<notin> set (fe_fileID env)" "2 < length (fe_fileID env)"
    and folder: "GetFolderNameByTenantID sha tenantID = Inr folder" "plain_name folder"
    and name: "FileStorageName (fo_ID f) (to_valid_utf8 (fo_Filename f)) \<noteq> FileStorageName (fo_ID f) (fo_Filename f)"
    and new: "\<And>p. map_of (fs_store s) p \<noteq> None \<Longrightarrow> \<not> has_prefix p (folder @ slash # fe_fileID env)"
  shows "DownloadFile sha env' tenantID (fo_ID f) s' = APIError 500"
proof -
  from run obtain up expiresAt where st: "store_upload sha env cfg tenantID (cf_Purpose req) expiresAt up s = (OK f, s')"
    by (rule CreateFile_OKD)
  from st folder(1) obtain p where D: "resolvePath folder (FileStorageName (fo_ID f) (fo_Filename f)) = Inr p"
      "fs_store s' = (p, concat (up_Chunks up)) # fs_store s" "fs_rows s' = fs_rows s @ [row_of_file (FileToDBItem f tenantID [])]"
      "fo_ID f \<notin> row_id ` set (fs_rows s)" "fo_ID f \<noteq> []" "fo_ID f = fe_fileID env"
    by (auto elim!: store_upload_OKD)
  let ?r = "row_of_file (FileToDBItem f tenantID [])"
  have id: "row_id ?r = fo_ID f" "row_tenant ?r = tenantID" by (simp_all add: row_of_file_def FileToDBItem_def)
  have ok': "files_ok (fs_rows s')" using ok D(3,4) id by (simp add: files_ok_def)
  have find: "by_key row_id (fo_ID f) (fs_rows s') = Some ?r"
    using D(3,4) id by (simp add: by_key_append by_key_None_iff [THEN iffD2])
  have get: "getFileItemFromDB ConnOk now tenantID (fo_ID f) (fs_rows s') = OK (file_of_row True ?r)" for now
    using getFileItem_eq [OF ok' tenant D(5)] find id by simp
  let ?n' = "FileStorageName (fo_ID f) (to_valid_utf8 (fo_Filename f))"
  have path: "resolvePath folder (FileStorageName (fo_ID f) n) = Inr (folder @ slash # FileStorageName (fo_ID f) n)" for n
    using path_join_file [OF folder(2) storage_name_plain [OF ids(2,3)]] folder(2) D(5)
    by (simp add: resolvePath_def plain_name_def D(6) FileStorageName_def)
  have "map_of (fs_store s) (folder @ slash # ?n') = None"
    using new [of "folder @ slash # ?n'"] by (fastforce simp: has_prefix_iff FileStorageName_def D(6))
  then have "Retrieve (fe_io env') ?n' folder (fs_store s') = Inl ErrNotFound"
    using D(1,2) path name by (auto simp: Retrieve_def)
  then show ?thesis using get later folder(1) ids(1) D(6) by (simp add: DownloadFile_def to_valid_utf8_id)
qed

definition odd_upload :: create_file_request where
  "odd_upload = sample_upload\<lparr>cf_File := Inr \<lparr>up_Filename = ''a.'' @ [CHR 0xFF], up_Size = 3, up_Chunks = [''abc''], up_EofWithLast = False\<rparr>\<rparr>"

theorem undecodable_extension_unreadable_witness:
  "\<exists>f s'. CreateFile (\<lambda>x. x) sample_file_env sample_file_config ''t'' odd_upload \<lparr>fs_rows = [], fs_store = []\<rparr> = (OK f, s')
    \<and> DownloadFile (\<lambda>x. x) sample_file_env ''t'' (fo_ID f) s' = APIError 500"
proof -
  let ?run = "CreateFile (\<lambda>x. x) sample_file_env sample_file_config ''t'' odd_upload \<lparr>fs_rows = [], fs_store = []\<rparr>"
  have "(case fst ?run of
      OK f \<Rightarrow> FileStorageName (fo_ID f) (to_valid_utf8 (fo_Filename f)) \<noteq> FileStorageName (fo_ID f) (fo_Filename f) | APIError _ \<Rightarrow> False)"
    by code_simp
  then obtain f s' where run: "?run = (OK f, s')"
      and name: "FileStorageName (fo_ID f) (to_valid_utf8 (fo_Filename f)) \<noteq> FileStorageName (fo_ID f) (fo_Filename f)"
    by (cases ?run) (auto split: response.splits)
  have "GetFolderNameByTenantID (\<lambda>x. x) ''t'' = Inr ''t-t''" "plain_name ''t-t''"
    by (simp_all add: GetFolderNameByTenantID_def plain_name_def slash_def dot_def)
  with undecodable_extension_unreadable [OF _ _ run _ _ _ _ _ _ name, of sample_file_env "''t-t''"] run show ?thesis
    by (simp add: files_ok_def sample_file_env_def valid_utf8_ascii slash_def)
qed

text \<open>
  An upload that is refused or fails leaves no content behind: whatever goes
  wrong, if the cleanup deletion works, every path of the file store holds exactly
  what it held before.
\<close>

theorem failed_upload_leaves_no_content:
  assumes "fe_io2 env" and "CreateFile sha env cfg tenantID req s = (APIError st, s')"
  shows "map_of (fs_store s') p = map_of (fs_store s) p"
proof -
  have cleaned: "map_of (snd (Delete True n folder ((q, d) # fs))) p = map_of fs p"
    if "resolvePath folder n = Inr q" "map_of fs q = None" for n folder q d fs
    using that by (auto simp: Delete_def map_of_filter_neq)
  have failed: "fs' = fs" if "Store io n folder sz ln chunks eofl fs = (Inl e, fs')" for io n folder sz ln chunks eofl fs e fs'
    using that by (auto simp: Store_def split: sum.splits if_splits)
  have up: "map_of (fs_store s1) p = map_of (fs_store s) p"
    if run: "store_upload sha env cfg tenantID purpose expiresAt up s = (APIError st, s1)" for purpose expiresAt up s1
  proof (cases "GetFolderNameByTenantID sha tenantID")
    case (Inr folder)
    let ?name = "FileStorageName (fe_fileID env) (sanitize_name (fe_fileID env) (up_Filename up))"
    obtain r fs1 where store: "Store (fe_io env) ?name folder (fc_MaxSizeBytes cfg) (fc_MaxLineCount cfg)
        (up_Chunks up) (up_EofWithLast up) (fs_store s) = (r, fs1)" by fastforce
    show ?thesis
    proof (cases r)
      case (Inl e)
      then have "fs1 = fs_store s" using failed store by blast
      with run store Inr Inl show ?thesis by (auto simp: store_upload_def Let_def)
    next
      case meta: (Inr meta)
      from store [unfolded meta] obtain q where q: "resolvePath folder ?name = Inr q" "map_of (fs_store s) q = None"
          "fs1 = (q, concat (up_Chunks up)) # fs_store s" by (rule Store_OkD)
      have "fs_store s1 = snd (Delete True ?name folder fs1)"
        using run store meta Inr assms(1) by (auto simp: store_upload_def Let_def split: sum.splits prod.splits)
      then show ?thesis using cleaned [OF q(1,2)] q(3) by simp
    qed
  qed (use that in \<open>simp add: store_upload_def\<close>)
  from assms(2) up show ?thesis
    by (auto simp: CreateFile_def split: if_splits sum.splits option.splits form_error.splits)
qed

theorem failed_upload_leaves_no_content_witness:
  "\<exists>st s'. CreateFile (\<lambda>x. x) (sample_file_env\<lparr>fe_conn := ConnFail\<rparr>) sample_file_config ''t'' sample_upload \<lparr>fs_rows = [], fs_store = []\<rparr> = (APIError st, s')
    \<and> map_of (fs_store s') ''t-t/file_1.jsonl'' = None"
proof -
  let ?run = "CreateFile (\<lambda>x. x) (sample_file_env\<lparr>fe_conn := ConnFail\<rparr>) sample_file_config ''t'' sample_upload \<lparr>fs_rows = [], fs_store = []\<rparr>"
  have "(case fst ?run of OK _ \<Rightarrow> False | APIError _ \<Rightarrow> True)" by code_simp
  then obtain st s' where run: "?run = (APIError st, s')" by (cases ?run) (auto split: response.splits)
  from failed_upload_leaves_no_content [OF _ run, of "''t-t/file_1.jsonl''"]
  have "map_of (fs_store s') ''t-t/file_1.jsonl'' = None" by (simp add: sample_file_env_def)
  with run show ?thesis by blast
qed

text \<open>
  Files of other tenants are out of reach: retrieving, downloading and
  deleting one is answered with an error and changes neither its metadata nor any
  content, whatever the environment does.
\<close>

theorem file_tenant_isolation:
  assumes ok: "files_ok (fs_rows s)" and r: "by_key row_id k (fs_rows s) = Some r" and other: "row_tenant r \<noteq> tenantID"
  shows "(\<exists>st. RetrieveFile c now tenantID k (fs_rows s) = APIError st)
    \<and> (\<exists>st. DownloadFile sha env tenantID k s = APIError st)
    \<and> (\<exists>st. DeleteFile sha env tenantID k s = (APIError st, s))"
proof -
  have get: "\<exists>st. getFileItemFromDB c now tenantID k (fs_rows s) = APIError st" for c now
    using getFileItem_OKD [OF ok] r other by (cases "getFileItemFromDB c now tenantID k (fs_rows s)") fastforce+
  show ?thesis
    using get [of c now] get [of "fe_conn env" "fe_now env"]
    by (auto simp: RetrieveFile_def DownloadFile_def DeleteFile_def)
qed

theorem file_tenant_isolation_witness:
  "\<exists>st. DeleteFile (\<lambda>x. x) sample_file_env ''u'' ''file_1'' \<lparr>fs_rows = [sample_input], fs_store = []\<rparr>
      = (APIError st, \<lparr>fs_rows = [sample_input], fs_store = []\<rparr>)"
proof -
  let ?s = "\<lparr>fs_rows = [sample_input], fs_store = []\<rparr>"
  have "files_ok (fs_rows ?s)" "by_key row_id ''file_1'' (fs_rows ?s) = Some sample_input" "row_tenant sample_input \<noteq> ''u''"
    by (simp_all add: files_ok_def sample_input_def row_of_file_def FileToDBItem_def zero_file_def)
  from file_tenant_isolation [OF this] show ?thesis by blast
qed

text \<open>
  Deleting a file is complete and can be retried: when the handler reports
  success, the metadata row is gone, the content can no longer be read, and a
  delete that failed half-way (content removed, metadata still there) succeeds
  when it is repeated in a healthy environment.
\<close>

theorem delete_file_complete:
  assumes ok: "files_ok (fs_rows s)" and tenant: "tenantID \<noteq> []" and k: "k \<noteq> []"
    and r: "by_key row_id k (fs_rows s) = Some r" "row_tenant r = tenantID" "frow_spec r = Some (SpecFile f)" "fo_ID f = k"
    and healthy: "fe_conn env = ConnOk" "fe_conn2 env = ConnOk" "fe_io env"
  shows "\<exists>s'. DeleteFile sha env tenantID k s = (OK k, s')
    \<and> RetrieveFile ConnOk now tenantID k (fs_rows s') = APIError 404
    \<and> (\<forall>folder p. GetFolderNameByTenantID sha tenantID = Inr folder \<longrightarrow>
         resolvePath folder (FileStorageName k (fo_Filename f)) = Inr p \<longrightarrow> map_of (fs_store s') p = None)"
proof -
  let ?folder = "''t-'' @ take 61 (sha tenantID)"
  have folder: "GetFolderNameByTenantID sha tenantID = Inr ?folder" using tenant by (simp add: GetFolderNameByTenantID_def)
  obtain p where p: "resolvePath ?folder (FileStorageName k (fo_Filename f)) = Inr p"
    using k by (auto simp: resolvePath_def FileStorageName_def)
  have item: "getFileItemFromDB ConnOk (fe_now env) tenantID k (fs_rows s) = OK (file_of_row True r)"
    using getFileItem_eq [OF ok tenant k] r by simp
  have obj: "DBItemToFile (file_of_row True r) = Inr f" "ft_TenantID (file_of_row True r) = tenantID"
    using r by (simp_all add: DBItemToFile_def file_of_row_def)
  let ?t = "filter (\<lambda>q. row_id q \<notin> {k}) (fs_rows s)"
  let ?st = "snd (Delete True (FileStorageName k (fo_Filename f)) ?folder (fs_store s))"
  have run: "DeleteFile sha env tenantID k s = (OK k, \<lparr>fs_rows = ?t, fs_store = ?st\<rparr>)"
    using hard_error_Delete [OF p, of "fs_store s"] item obj folder healthy r(4)
    by (simp add: DeleteFile_def Let_def split_beta file_DBDelete_def pg_delete_def)
  have "files_ok ?t" using ok by (simp add: files_ok_def distinct_map_filter)
  moreover have "by_key row_id k ?t = None" by (auto simp: by_key_None_iff)
  ultimately have "RetrieveFile ConnOk now tenantID k ?t = APIError 404"
    by (simp add: RetrieveFile_def getFileItem_eq tenant k)
  moreover have "map_of ?st p = None" using p by (simp add: Delete_def map_of_filter_neq)
  ultimately show ?thesis using run folder p by auto
qed

theorem delete_file_complete_witness:
  "\<exists>s'. DeleteFile (\<lambda>x. x) sample_file_env ''t'' ''file_1'' \<lparr>fs_rows = [sample_input], fs_store = []\<rparr> = (OK ''file_1'', s')"
proof -
  let ?s = "\<lparr>fs_rows = [sample_input], fs_store = []\<rparr>"
  have "files_ok (fs_rows ?s)" "''t'' \<noteq> ([] :: string)" "''file_1'' \<noteq> ([] :: string)"
    "by_key row_id ''file_1'' (fs_rows ?s) = Some sample_input" "row_tenant sample_input = ''t''"
    "frow_spec sample_input = Some (SpecFile (zero_file\<lparr>fo_ID := ''file_1'', fo_Purpose := FileObjectPurposeBatch\<rparr>))"
    by (simp_all add: files_ok_def sample_input_def row_of_file_def FileToDBItem_def zero_file_def json_file_def
        FileObjectPurposeBatch_def to_valid_utf8_id valid_utf8_ascii)
  from delete_file_complete [OF this, of sample_file_env "\<lambda>x. x" 0] show ?thesis by (auto simp: sample_file_env_def)
qed

end
