(* ===== verification/Semaphores.thy ===== *)
theory Semaphores
  imports Gateway_Prelude
begin

text \<open>
  Concurrency control: the channel semaphore
  (\<^verbatim>\<open>internal/util/semaphore/semaphore.go\<close>), the adaptive semaphore with its sleeping
  goroutines (\<^verbatim>\<open>adaptive.go\<close>), and the controller that raises the limit additively
  and cuts it multiplicatively (\<^verbatim>\<open>aimd.go\<close>), whose backoff is a multiplication in
  binary floating point.
\<close>

section \<open>The channel semaphore\<close>

text \<open>
  The buffered channel is its length and its capacity. \<open>sem_guard\<close> tells whether a
  double-release callback is installed and \<open>sem_fired\<close> how often it ran; the
  \<^verbatim>\<open>sync.Once\<close> around it is the condition on that count.
\<close>

record semaphore =
  sem_cap :: nat
  sem_tokens :: nat
  sem_guard :: bool
  sem_fired :: nat

definition sem_New :: "int \<Rightarrow> bool \<Rightarrow> semaphore res" where
  "sem_New capacity guard = (if capacity \<le> 0 then Inl ErrCap
     else Inr \<lparr>sem_cap = nat capacity, sem_tokens = 0, sem_guard = guard, sem_fired = 0\<rparr>)"

text \<open>
  A \<^verbatim>\<open>select\<close> with both cases ready picks one of them: \<open>pick\<close> is that choice, and
  \<open>ctxErr\<close> the error of a context that is done. \<open>None\<close> means that the call blocks.
\<close>

definition sem_Acquire :: "bool \<Rightarrow> error option \<Rightarrow> semaphore \<Rightarrow> (unit res \<times> semaphore) option" where
  "sem_Acquire pick ctxErr s =
    (let send = (Inr (), s\<lparr>sem_tokens := sem_tokens s + 1\<rparr>) in
     case ctxErr of
       None \<Rightarrow> if sem_tokens s < sem_cap s then Some send else None
     | Some e \<Rightarrow> if sem_tokens s < sem_cap s \<and> pick then Some send else Some (Inl e, s))"

definition sem_Release :: "semaphore \<Rightarrow> semaphore" where
  "sem_Release s =
    (if sem_tokens s > 0 then s\<lparr>sem_tokens := sem_tokens s - 1\<rparr>
     else if sem_guard s \<and> sem_fired s = 0 then s\<lparr>sem_fired := 1\<rparr> else s)"

definition sem_TryAcquire :: "semaphore \<Rightarrow> bool \<times> semaphore" where
  "sem_TryAcquire s =
    (if sem_tokens s < sem_cap s then (True, s\<lparr>sem_tokens := sem_tokens s + 1\<rparr>) else (False, s))"

section \<open>The adaptive semaphore\<close>

record AdaptiveSemaphore =
  as_limit :: int
  as_count :: int
  as_guard :: bool
  as_fired :: nat

definition NewAdaptive :: "int \<Rightarrow> bool \<Rightarrow> AdaptiveSemaphore res" where
  "NewAdaptive capacity guard = (if capacity \<le> 0 then Inl ErrCap
     else Inr \<lparr>as_limit = capacity, as_count = 0, as_guard = guard, as_fired = 0\<rparr>)"

definition as_TryAcquire :: "AdaptiveSemaphore \<Rightarrow> bool \<times> AdaptiveSemaphore" where
  "as_TryAcquire s = (if as_count s < as_limit s then (True, s\<lparr>as_count := as_count s + 1\<rparr>) else (False, s))"

definition as_Release :: "AdaptiveSemaphore \<Rightarrow> AdaptiveSemaphore" where
  "as_Release s =
    (if as_count s > 0 then s\<lparr>as_count := as_count s - 1\<rparr>
     else if as_guard s \<and> as_fired s = 0 then s\<lparr>as_fired := 1\<rparr> else s)"

definition as_SetLimit :: "int \<Rightarrow> AdaptiveSemaphore \<Rightarrow> AdaptiveSemaphore" where
  "as_SetLimit newLimit s = s\<lparr>as_limit := (if newLimit < 1 then 1 else newLimit)\<rparr>"

section \<open>Goroutines waiting in Acquire\<close>

text \<open>
  The phases of a goroutine that calls \<^verbatim>\<open>Acquire\<close> on the adaptive semaphore:
  outside, between its check of the context and the moment \<^verbatim>\<open>cond.Wait\<close> has put it
  on the notify list (it holds the mutex there), on that list, signalled and
  competing for the mutex, holding a token, or returned with the context error.
\<close>

datatype phase = Idle | Checked | Asleep | Awake | Holding | Failed

text \<open>
  A goroutine also has its context, and the helper it starts on the slow path,
  which broadcasts once when the context is done. The mutex is \<open>sy_lock\<close>.
\<close>

record thread =
  th_phase :: phase
  th_done :: bool
  th_fired :: bool

record sem_sys =
  sy_sem :: AdaptiveSemaphore
  sy_lock :: "nat option"
  sy_threads :: "thread list"

definition idle_thread :: thread where
  "idle_thread = \<lparr>th_phase = Idle, th_done = False, th_fired = False\<rparr>"

definition set_phase :: "nat \<Rightarrow> phase \<Rightarrow> thread list \<Rightarrow> thread list" where
  "set_phase i p ts = ts[i := (ts ! i)\<lparr>th_phase := p\<rparr>]"

definition wake_all :: "thread list \<Rightarrow> thread list" where
  "wake_all = map (\<lambda>t. if th_phase t = Asleep then t\<lparr>th_phase := Awake\<rparr> else t)"

definition in_phase :: "phase \<Rightarrow> thread list \<Rightarrow> nat" where
  "in_phase p ts = length (filter (\<lambda>t. th_phase t = p) ts)"

text \<open>
  Entering the loop of \<^verbatim>\<open>Acquire\<close> with the mutex held: a free slot is taken, a done
  context ends the call, and otherwise the goroutine goes on to \<^verbatim>\<open>cond.Wait\<close>.
\<close>

definition acquire_loop :: "nat \<Rightarrow> sem_sys \<Rightarrow> sem_sys" where
  "acquire_loop i s =
    (case as_TryAcquire (sy_sem s) of
       (True, sem) \<Rightarrow> s\<lparr>sy_sem := sem, sy_threads := set_phase i Holding (sy_threads s)\<rparr>
     | (False, sem) \<Rightarrow>
         if th_done (sy_threads s ! i) then s\<lparr>sy_threads := set_phase i Failed (sy_threads s)\<rparr>
         else s\<lparr>sy_lock := Some i, sy_threads := set_phase i Checked (sy_threads s)\<rparr>)"

text \<open>
  The steps of the goroutines; a call that failed may be followed by another one
  with a new context. \<^verbatim>\<open>Signal\<close> wakes one goroutine on the notify list, and
  the helper's \<^verbatim>\<open>Broadcast\<close> does not take the mutex, so that it may run while another
  goroutine holds it.
\<close>

inductive sem_step :: "sem_sys \<Rightarrow> sem_sys \<Rightarrow> bool" where
  acquire: "\<lbrakk>i < length (sy_threads s); th_phase (sy_threads s ! i) = Idle; sy_lock s = None\<rbrakk>
    \<Longrightarrow> sem_step s (acquire_loop i (s\<lparr>sy_threads := (sy_threads s)[i := (sy_threads s ! i)\<lparr>th_fired := False\<rparr>]\<rparr>))"
| wait: "\<lbrakk>i < length (sy_threads s); th_phase (sy_threads s ! i) = Checked\<rbrakk>
    \<Longrightarrow> sem_step s (s\<lparr>sy_lock := None, sy_threads := set_phase i Asleep (sy_threads s)\<rparr>)"
| wake: "\<lbrakk>i < length (sy_threads s); th_phase (sy_threads s ! i) = Awake; sy_lock s = None\<rbrakk>
    \<Longrightarrow> sem_step s (acquire_loop i s)"
| again: "\<lbrakk>i < length (sy_threads s); th_phase (sy_threads s ! i) = Failed\<rbrakk>
    \<Longrightarrow> sem_step s (s\<lparr>sy_threads := (sy_threads s)[i := idle_thread]\<rparr>)"
| context_done: "i < length (sy_threads s)
    \<Longrightarrow> sem_step s (s\<lparr>sy_threads := (sy_threads s)[i := (sy_threads s ! i)\<lparr>th_done := True\<rparr>]\<rparr>)"
| broadcast: "\<lbrakk>i < length (sy_threads s); th_phase (sy_threads s ! i) \<in> {Checked, Asleep, Awake};
      th_done (sy_threads s ! i); \<not> th_fired (sy_threads s ! i)\<rbrakk>
    \<Longrightarrow> sem_step s (s\<lparr>sy_threads := wake_all ((sy_threads s)[i := (sy_threads s ! i)\<lparr>th_fired := True\<rparr>])\<rparr>)"
| release_signal: "\<lbrakk>i < length (sy_threads s); th_phase (sy_threads s ! i) = Holding; sy_lock s = None;
      j < length (sy_threads s); th_phase (sy_threads s ! j) = Asleep\<rbrakk>
    \<Longrightarrow> sem_step s (s\<lparr>sy_sem := as_Release (sy_sem s), sy_threads := set_phase j Awake (set_phase i Idle (sy_threads s))\<rparr>)"
| release_quiet: "\<lbrakk>i < length (sy_threads s); th_phase (sy_threads s ! i) = Holding; sy_lock s = None;
      in_phase Asleep (sy_threads s) = 0\<rbrakk>
    \<Longrightarrow> sem_step s (s\<lparr>sy_sem := as_Release (sy_sem s), sy_threads := set_phase i Idle (sy_threads s)\<rparr>)"
| set_limit: "sy_lock s = None
    \<Longrightarrow> sem_step s (s\<lparr>sy_sem := as_SetLimit n (sy_sem s), sy_threads := wake_all (sy_threads s)\<rparr>)"

inductive_cases sem_stepE: "sem_step s s'"

definition sem_start :: "int \<Rightarrow> nat \<Rightarrow> sem_sys" where
  "sem_start limit n = \<lparr>sy_sem = \<lparr>as_limit = limit, as_count = 0, as_guard = True, as_fired = 0\<rparr>, sy_lock = None,
     sy_threads = replicate n idle_thread\<rparr>"

text \<open>
  The states of one run: the first goroutine holds the only token, the second one
  checks its context, the context ends and the helper broadcasts, and only then does
  the second goroutine reach the notify list.
\<close>

definition two_threads :: "nat option \<Rightarrow> phase \<Rightarrow> bool \<Rightarrow> bool \<Rightarrow> sem_sys" where
  "two_threads lock p dn fired =
    \<lparr>sy_sem = \<lparr>as_limit = 1, as_count = 1, as_guard = True, as_fired = 0\<rparr>, sy_lock = lock,
     sy_threads = [idle_thread\<lparr>th_phase := Holding\<rparr>, \<lparr>th_phase = p, th_done = dn, th_fired = fired\<rparr>]\<rparr>"

lemmas two_defs = two_threads_def idle_thread_def acquire_loop_def as_TryAcquire_def set_phase_def wake_all_def

lemma two_threads_checked: "sem_step\<^sup>*\<^sup>* (sem_start 1 2) (two_threads (Some 1) Checked False False)"
proof -
  have "sem_step (sem_start 1 2) (two_threads None Idle False False)"
    using sem_step.acquire [of 0 "sem_start 1 2"]
    by (simp add: two_defs sem_start_def numeral_2_eq_2)
  moreover have "sem_step (two_threads None Idle False False) (two_threads (Some 1) Checked False False)"
    using sem_step.acquire [of 1 "two_threads None Idle False False"] by (simp add: two_defs)
  ultimately show ?thesis by (meson converse_rtranclp_into_rtranclp rtranclp.rtrancl_refl)
qed

lemma two_threads_asleep: "sem_step\<^sup>*\<^sup>* (sem_start 1 2) (two_threads None Asleep False False)"
  using sem_step.wait [of 1 "two_threads (Some 1) Checked False False"]
  by (intro rtranclp.rtrancl_into_rtrancl [OF two_threads_checked]) (simp add: two_defs)

lemma two_threads_missed: "sem_step\<^sup>*\<^sup>* (sem_start 1 2) (two_threads None Asleep True True)"
proof -
  have "sem_step (two_threads (Some 1) Checked False False) (two_threads (Some 1) Checked True False)"
    using sem_step.context_done [of 1 "two_threads (Some 1) Checked False False"] by (simp add: two_defs)
  moreover have "sem_step (two_threads (Some 1) Checked True False) (two_threads (Some 1) Checked True True)"
    using sem_step.broadcast [of 1 "two_threads (Some 1) Checked True False"] by (simp add: two_defs)
  moreover have "sem_step (two_threads (Some 1) Checked True True) (two_threads None Asleep True True)"
    using sem_step.wait [of 1 "two_threads (Some 1) Checked True True"] by (simp add: two_defs)
  ultimately show ?thesis using two_threads_checked by (meson rtranclp.rtrancl_into_rtrancl)
qed

section \<open>No token is handed out twice and no signal is lost\<close>

lemma filter_update_count:
  "i < length ts \<Longrightarrow>
    length (filter P (ts[i := t])) + (if P (ts ! i) then 1 else 0) = length (filter P ts) + (if P t then 1 else 0)"
proof (induction ts arbitrary: i)
  case (Cons a ts)
  show ?case
  proof (cases i)
    case (Suc n)
    with Cons.IH [of n] Cons.prems show ?thesis by auto
  qed simp
qed simp

lemma in_phase_pos: "i < length ts \<Longrightarrow> th_phase (ts ! i) = p \<Longrightarrow> 0 < in_phase p ts"
  unfolding in_phase_def by (auto simp: filter_empty_conv intro!: Nat.gr0I)

lemma in_phase_update:
  "i < length ts \<Longrightarrow> in_phase p (ts[i := t]) =
    (if th_phase (ts ! i) = p then in_phase p ts - 1 else in_phase p ts) + (if th_phase t = p then 1 else 0)"
  using filter_update_count [of i ts "\<lambda>t. th_phase t = p" t] in_phase_pos [of i ts p]
  by (auto simp: in_phase_def split: if_splits)

lemma in_phase_set_phase:
  "i < length ts \<Longrightarrow> in_phase p (set_phase i q ts) =
    (if th_phase (ts ! i) = p then in_phase p ts - 1 else in_phase p ts) + (if q = p then 1 else 0)"
  by (simp add: set_phase_def in_phase_update)

lemma in_phase_same:
  "i < length ts \<Longrightarrow> th_phase t = th_phase (ts ! i) \<Longrightarrow> in_phase p (ts[i := t]) = in_phase p ts"
  using in_phase_pos [of i ts p] by (auto simp: in_phase_update)

lemma in_phase_wake_all:
  "in_phase p (wake_all ts) =
    (if p = Asleep then 0 else if p = Awake then in_phase Awake ts + in_phase Asleep ts else in_phase p ts)"
  unfolding in_phase_def wake_all_def by (induction ts) (auto simp: filter_empty_conv)

lemma length_wake_all [simp]: "length (wake_all ts) = length ts"
  by (simp add: wake_all_def)

lemma length_set_phase [simp]: "length (set_phase i p ts) = length ts"
  by (simp add: set_phase_def)

definition sem_inv :: "sem_sys \<Rightarrow> bool" where
  "sem_inv s \<longleftrightarrow>
     1 \<le> as_limit (sy_sem s)
   \<and> as_count (sy_sem s) = int (in_phase Holding (sy_threads s))
   \<and> in_phase Checked (sy_threads s) = (if sy_lock s = None then 0 else 1)
   \<and> (sy_lock s \<noteq> None \<longrightarrow> as_limit (sy_sem s) \<le> as_count (sy_sem s))
   \<and> (in_phase Asleep (sy_threads s) > 0
       \<longrightarrow> as_limit (sy_sem s) \<le> as_count (sy_sem s) + int (in_phase Awake (sy_threads s)))"

lemma sem_inv_start: "1 \<le> limit \<Longrightarrow> sem_inv (sem_start limit n)"
  by (simp add: sem_inv_def sem_start_def in_phase_def idle_thread_def)

lemma acquire_loop_inv:
  assumes inv: "sem_inv s" and i: "i < length (sy_threads s)" and lock: "sy_lock s = None"
    and ph: "th_phase (sy_threads s ! i) \<in> {Idle, Awake}"
  shows "sem_inv (acquire_loop i s)"
  using inv lock ph in_phase_pos [OF i] i
  by (auto simp: acquire_loop_def as_TryAcquire_def sem_inv_def in_phase_set_phase split: if_splits)

lemma sem_step_inv:
  assumes "sem_step s s'" and inv: "sem_inv s"
  shows "sem_inv s'"
  using assms(1)
proof cases
  case (acquire i)
  let ?s = "s\<lparr>sy_threads := (sy_threads s)[i := (sy_threads s ! i)\<lparr>th_fired := False\<rparr>]\<rparr>"
  have "sem_inv ?s" using inv acquire by (auto simp: sem_inv_def in_phase_same)
  then have "sem_inv (acquire_loop i ?s)" by (rule acquire_loop_inv) (use acquire in auto)
  with acquire show ?thesis by simp
next
  case (wait i)
  with inv in_phase_pos [of i "sy_threads s" Checked] show ?thesis
    by (auto simp: sem_inv_def in_phase_set_phase split: if_splits)
next
  case (wake i)
  with inv show ?thesis by (simp add: acquire_loop_inv)
next
  case (again i)
  with inv show ?thesis by (auto simp: sem_inv_def in_phase_update idle_thread_def)
next
  case (context_done i)
  with inv show ?thesis by (auto simp: sem_inv_def in_phase_same)
next
  case (broadcast i)
  with inv show ?thesis by (auto simp: sem_inv_def in_phase_same in_phase_wake_all)
next
  case (release_signal i j)
  with inv in_phase_pos [of i "sy_threads s" Holding] in_phase_pos [of j "sy_threads s" Asleep] show ?thesis
    by (auto simp: sem_inv_def in_phase_set_phase as_Release_def set_phase_def nth_list_update in_phase_update)
next
  case (release_quiet i)
  with inv in_phase_pos [of i "sy_threads s" Holding] show ?thesis
    by (auto simp: sem_inv_def in_phase_set_phase as_Release_def)
next
  case (set_limit n)
  with inv show ?thesis by (auto simp: sem_inv_def in_phase_wake_all as_SetLimit_def)
qed

text \<open>
  C15: In every state that goroutines using the adaptive semaphore can reach, under
  any interleaving of acquisitions, releases, changes of the limit, done contexts
  and wake-ups: the count is the number of goroutines that hold a token, and if a
  goroutine sleeps although slots are free, then at least as many goroutines as
  there are free slots have been woken and will take them. No signal is lost.
\<close>

theorem adaptive_no_lost_signal:
  assumes "sem_step\<^sup>*\<^sup>* (sem_start limit n) s" and "1 \<le> limit"
  shows "as_count (sy_sem s) = int (in_phase Holding (sy_threads s))
    \<and> (in_phase Asleep (sy_threads s) > 0
        \<longrightarrow> as_limit (sy_sem s) - as_count (sy_sem s) \<le> int (in_phase Awake (sy_threads s)))"
proof -
  from assms(1) have "sem_inv s"
    by (induction rule: rtranclp_induct) (use assms(2) sem_inv_start sem_step_inv in blast)+
  then show ?thesis by (auto simp: sem_inv_def)
qed

theorem adaptive_no_lost_signal_witness:
  "sem_step\<^sup>*\<^sup>* (sem_start 1 2) (two_threads None Asleep False False)
   \<and> in_phase Asleep (sy_threads (two_threads None Asleep False False)) = 1
   \<and> as_limit (sy_sem (two_threads None Asleep False False)) - as_count (sy_sem (two_threads None Asleep False False)) \<le> 0"
  using adaptive_no_lost_signal [OF two_threads_asleep] two_threads_asleep
  by (simp add: two_threads_def in_phase_def idle_thread_def)

lemma missed_step:
  assumes "sem_step (two_threads None Asleep True True) s'"
  shows "th_phase (sy_threads s' ! 1) = Asleep \<or> th_phase (sy_threads s' ! 0) = Idle
    \<or> (\<exists>n. sy_sem s' = as_SetLimit n (sy_sem (two_threads None Asleep True True)))"
  using assms
proof cases
  case (context_done i)
  then show ?thesis by (cases i) (auto simp: two_defs)
qed (auto simp: two_defs less_Suc_eq)

text \<open>
  C36: The broadcast of a done context can be lost. There is a run in which a
  goroutine sleeps in \<^verbatim>\<open>Acquire\<close> although its context is done and its helper has
  already broadcast: no slot is free and nothing that the goroutine or its helper
  can still do wakes it, so that it stays asleep in every step but a release, a
  change of the limit or the end of another waiting goroutine's context.
\<close>

theorem adaptive_cancel_can_be_missed:
  "\<exists>s. sem_step\<^sup>*\<^sup>* (sem_start 1 2) s
     \<and> th_phase (sy_threads s ! 1) = Asleep \<and> th_done (sy_threads s ! 1) \<and> th_fired (sy_threads s ! 1)
     \<and> as_count (sy_sem s) = as_limit (sy_sem s)
     \<and> (\<forall>s'. sem_step s s' \<longrightarrow> th_phase (sy_threads s' ! 1) = Asleep
          \<or> th_phase (sy_threads s' ! 0) = Idle \<or> (\<exists>n. sy_sem s' = as_SetLimit n (sy_sem s)))"
  by (intro exI [of _ "two_threads None Asleep True True"] conjI two_threads_missed)
    (use missed_step in \<open>auto simp: two_defs\<close>)

theorem adaptive_cancel_can_be_missed_witness:
  "\<exists>s. sem_step\<^sup>*\<^sup>* (sem_start 1 2) s \<and> th_phase (sy_threads s ! 1) = Asleep \<and> th_done (sy_threads s ! 1)"
  using adaptive_cancel_can_be_missed by blast

section \<open>Multiplication in binary floating point\<close>

text \<open>
  A \<^verbatim>\<open>float64\<close> between 0 and 1 is a mantissa of at most 53 bits over a power of two.
  \<open>round53\<close> rounds a natural number to 53 significant bits, to nearest with ties to
  even, as the conversion \<^verbatim>\<open>float64(limit)\<close> and the product do.
\<close>

record float64 =
  fl_mant :: nat
  fl_exp :: nat

definition unit_float :: "float64 \<Rightarrow> bool" where
  "unit_float f = (0 < fl_mant f \<and> fl_mant f < 2 ^ 53 \<and> fl_mant f < 2 ^ fl_exp f)"

fun excess_bits :: "nat \<Rightarrow> nat" where
  "excess_bits x = (if x < 2 ^ 53 then 0 else Suc (excess_bits (x div 2)))"

declare excess_bits.simps [simp del]

definition round53 :: "nat \<Rightarrow> nat" where
  "round53 x = (let u = 2 ^ excess_bits x; q = x div u; r = x mod u in
     (if 2 * r > u \<or> 2 * r = u \<and> odd q then q + 1 else q) * u)"

definition scale_floor :: "float64 \<Rightarrow> nat \<Rightarrow> nat" where
  "scale_floor f n = round53 (round53 n * fl_mant f) div 2 ^ fl_exp f"

lemma round53_small: "x < 2 ^ 53 \<Longrightarrow> round53 x = x"
  by (simp add: round53_def excess_bits.simps)

lemma excess_bits_le: "2 ^ 53 \<le> x \<Longrightarrow> 2 ^ (excess_bits x + 52) \<le> x"
proof (induction x rule: excess_bits.induct)
  case (1 x)
  show ?case
  proof (cases "x div 2 < 2 ^ 53")
    case False
    with 1 have "2 ^ (excess_bits (x div 2) + 52) \<le> x div 2" by simp
    then have "2 ^ Suc (excess_bits (x div 2) + 52) \<le> x" by (simp only: power_Suc)
    moreover have "excess_bits x = Suc (excess_bits (x div 2))" using 1(2) by (simp add: excess_bits.simps [of x])
    ultimately show ?thesis by (simp only: add_Suc)
  qed (use 1(2) in \<open>simp add: excess_bits.simps [of x] excess_bits.simps [of "x div 2"]\<close>)
qed

lemma round53_le:
  assumes "x \<le> a * 2 ^ j" and a: "a < 2 ^ 53"
  shows "round53 x \<le> a * 2 ^ j"
proof (cases "x < 2 ^ 53")
  case True
  with assms show ?thesis by (simp add: round53_small)
next
  case False
  define sh where "sh = excess_bits x"
  have "2 ^ (sh + 52) \<le> a * 2 ^ j" using excess_bits_le [of x] False assms(1) by (simp add: sh_def)
  also have "\<dots> < 2 ^ 53 * 2 ^ j" using a by simp
  also have "\<dots> = 2 ^ (53 + j)" by (simp only: power_add)
  finally have "sh + 52 < 53 + j" by (rule power_less_imp_less_exp [rotated]) simp
  then have sj: "sh \<le> j" by simp
  then obtain b where b: "a * 2 ^ j = b * 2 ^ sh"
    by (metis le_add_diff_inverse mult.assoc mult.commute power_add)
  show ?thesis
  proof (cases "x mod 2 ^ sh = 0")
    case True
    then have "round53 x = x"
      by (simp add: round53_def Let_def sh_def [symmetric]) (metis True div_mult_mod_eq add.right_neutral)
    with assms show ?thesis by simp
  next
    case False
    then have "x div 2 ^ sh * 2 ^ sh < b * 2 ^ sh"
      using assms(1) b by (metis div_mult_mod_eq le_add1 le_neq_implies_less add_cancel_right_right order.strict_trans1 nat_less_le)
    then have "x div 2 ^ sh + 1 \<le> b" by simp
    then have "(x div 2 ^ sh + 1) * 2 ^ sh \<le> b * 2 ^ sh" by (rule mult_le_mono1)
    moreover have "round53 x \<le> (x div 2 ^ sh + 1) * 2 ^ sh"
      by (auto simp: round53_def Let_def sh_def [symmetric])
    ultimately show ?thesis using b by simp
  qed
qed

lemma scale_floor_le:
  assumes "unit_float f" and n: "n < 2 ^ 53"
  shows "scale_floor f n \<le> n"
proof -
  have "n * fl_mant f \<le> n * 2 ^ fl_exp f" using assms(1) by (simp add: unit_float_def)
  then have "round53 (n * fl_mant f) \<le> n * 2 ^ fl_exp f" using n by (rule round53_le)
  then have "round53 (n * fl_mant f) div 2 ^ fl_exp f \<le> n * 2 ^ fl_exp f div 2 ^ fl_exp f" by (rule div_le_mono)
  then show ?thesis using n by (simp add: scale_floor_def round53_small)
qed

section \<open>Additive increase, multiplicative decrease\<close>

record AIMDConfig =
  MinLimit :: int
  MaxLimit :: int
  BackoffFactor :: float64
  AdditiveIncrease :: int

record AIMDController =
  ctl_cfg :: AIMDConfig
  ctl_limit :: int
  ctl_successCount :: int

definition clamp :: "int \<Rightarrow> int \<Rightarrow> int \<Rightarrow> int" where
  "clamp v lo hi = (if v < lo then lo else if v > hi then hi else v)"

text \<open>
  An operation returns the controller and the call of \<^verbatim>\<open>setFn\<close> it makes after it has
  released the controller's mutex, if it makes one. The sum is a 64-bit addition.
\<close>

definition NewAIMDController :: "AIMDConfig \<Rightarrow> int \<Rightarrow> AIMDController \<times> int option" where
  "NewAIMDController cfg initialLimit =
    (let limit = clamp initialLimit (MinLimit cfg) (MaxLimit cfg)
     in (\<lparr>ctl_cfg = cfg, ctl_limit = limit, ctl_successCount = 0\<rparr>, if limit \<noteq> initialLimit then Some limit else None))"

definition computeSuccessLimit :: "AIMDController \<Rightarrow> AIMDController \<times> int" where
  "computeSuccessLimit c =
    (let n = ctl_successCount c + 1 in
     if n \<ge> ctl_limit c then
       (let limit = min (signed_take_bit 63 (ctl_limit c + AdditiveIncrease (ctl_cfg c))) (MaxLimit (ctl_cfg c))
        in (c\<lparr>ctl_limit := limit, ctl_successCount := 0\<rparr>, if limit \<noteq> ctl_limit c then limit else 0))
     else (c\<lparr>ctl_successCount := n\<rparr>, 0))"

definition computeBackoffLimit :: "AIMDController \<Rightarrow> AIMDController \<times> int" where
  "computeBackoffLimit c =
    (let limit = max (MinLimit (ctl_cfg c)) (int (scale_floor (BackoffFactor (ctl_cfg c)) (nat (ctl_limit c))))
     in (c\<lparr>ctl_limit := limit, ctl_successCount := 0\<rparr>, if limit \<noteq> ctl_limit c then limit else 0))"

definition set_call :: "AIMDController \<times> int \<Rightarrow> AIMDController \<times> int option" where
  "set_call r = (case r of (c, newLimit) \<Rightarrow> (c, if newLimit > 0 then Some newLimit else None))"

definition RecordSuccess :: "AIMDController \<Rightarrow> AIMDController \<times> int option" where
  "RecordSuccess c = set_call (computeSuccessLimit c)"

definition RecordRateLimit :: "AIMDController \<Rightarrow> AIMDController \<times> int option" where
  "RecordRateLimit c = set_call (computeBackoffLimit c)"

text \<open>
  The signal of one result (\<^verbatim>\<open>recordAIMDSignal\<close> in \<^verbatim>\<open>dispatcher_aimd.go\<close>): its HTTP status,
  if it has a response, and whether a retry for capacity preceded it.
\<close>

definition recordAIMDSignal :: "int option \<Rightarrow> bool \<Rightarrow> AIMDController \<Rightarrow> AIMDController \<times> int option" where
  "recordAIMDSignal statusCode hadCapacityRetry c =
    (case statusCode of
       None \<Rightarrow> (c, None)
     | Some sc \<Rightarrow> if sc = 429 \<or> sc \<ge> 500 \<or> hadCapacityRetry then RecordRateLimit c else RecordSuccess c)"

text \<open>
  The controller and the semaphore of an endpoint together. The calls of \<^verbatim>\<open>setFn\<close> are
  made outside the mutex, so that several may be under way and reach the
  semaphore in any order.
\<close>

record aimd_sys =
  ai_ctl :: AIMDController
  ai_calls :: "int list"
  ai_sem :: AdaptiveSemaphore

inductive aimd_step :: "aimd_sys \<Rightarrow> aimd_sys \<Rightarrow> bool" where
  signal: "recordAIMDSignal sc retry (ai_ctl s) = (c, call)
    \<Longrightarrow> aimd_step s (s\<lparr>ai_ctl := c, ai_calls := (case call of None \<Rightarrow> ai_calls s | Some n \<Rightarrow> n # ai_calls s)\<rparr>)"
| set_fn: "n \<in> set (ai_calls s)
    \<Longrightarrow> aimd_step s (s\<lparr>ai_calls := remove1 n (ai_calls s), ai_sem := as_SetLimit n (ai_sem s)\<rparr>)"
| try_acquire: "aimd_step s (s\<lparr>ai_sem := snd (as_TryAcquire (ai_sem s))\<rparr>)"
| release: "aimd_step s (s\<lparr>ai_sem := as_Release (ai_sem s)\<rparr>)"

definition aimd_start :: "AIMDConfig \<Rightarrow> aimd_sys" where
  "aimd_start cfg =
    (let (c, call) = NewAIMDController cfg (MaxLimit cfg)
     in \<lparr>ai_ctl = c, ai_calls = (case call of None \<Rightarrow> [] | Some n \<Rightarrow> [n]),
         ai_sem = \<lparr>as_limit = MaxLimit cfg, as_count = 0, as_guard = True, as_fired = 0\<rparr>\<rparr>)"

definition aimd_ok :: "AIMDConfig \<Rightarrow> bool" where
  "aimd_ok cfg = (0 < MinLimit cfg \<and> MinLimit cfg \<le> MaxLimit cfg \<and> 0 < AdditiveIncrease cfg \<and> unit_float (BackoffFactor cfg)
    \<and> MaxLimit cfg < 2 ^ 53 \<and> MaxLimit cfg + AdditiveIncrease cfg < 2 ^ 63)"

definition in_limits :: "AIMDConfig \<Rightarrow> int \<Rightarrow> bool" where
  "in_limits cfg n = (MinLimit cfg \<le> n \<and> n \<le> MaxLimit cfg)"

definition aimd_inv :: "AIMDConfig \<Rightarrow> aimd_sys \<Rightarrow> bool" where
  "aimd_inv cfg s = (ctl_cfg (ai_ctl s) = cfg \<and> in_limits cfg (ctl_limit (ai_ctl s)) \<and> list_all (in_limits cfg) (ai_calls s)
    \<and> in_limits cfg (as_limit (ai_sem s)) \<and> 0 \<le> as_count (ai_sem s) \<and> as_count (ai_sem s) \<le> MaxLimit cfg)"

lemma RecordSuccess_limits:
  assumes "aimd_ok cfg" "ctl_cfg c = cfg" "in_limits cfg (ctl_limit c)" "RecordSuccess c = (c', call)"
  shows "ctl_cfg c' = cfg \<and> in_limits cfg (ctl_limit c') \<and> ctl_limit c \<le> ctl_limit c' \<and> list_all (in_limits cfg) (case call of None \<Rightarrow> [] | Some n \<Rightarrow> [n])"
proof -
  have "signed_take_bit 63 (ctl_limit c + AdditiveIncrease cfg) = ctl_limit c + AdditiveIncrease cfg"
    using assms(1,3) by (intro signed_take_bit_int_eq_self) (auto simp: aimd_ok_def in_limits_def)
  then show ?thesis using assms
    by (auto simp: RecordSuccess_def set_call_def computeSuccessLimit_def Let_def in_limits_def aimd_ok_def split: if_splits)
qed

lemma RecordRateLimit_limits:
  assumes "aimd_ok cfg" "ctl_cfg c = cfg" "in_limits cfg (ctl_limit c)" "RecordRateLimit c = (c', call)"
  shows "ctl_cfg c' = cfg \<and> in_limits cfg (ctl_limit c') \<and> ctl_limit c' \<le> ctl_limit c \<and> list_all (in_limits cfg) (case call of None \<Rightarrow> [] | Some n \<Rightarrow> [n])"
proof -
  have "scale_floor (BackoffFactor cfg) (nat (ctl_limit c)) \<le> nat (ctl_limit c)"
    using assms(1,3) by (intro scale_floor_le) (auto simp: aimd_ok_def in_limits_def nat_less_iff)
  then show ?thesis using assms
    by (auto simp: RecordRateLimit_def set_call_def computeBackoffLimit_def Let_def in_limits_def aimd_ok_def split: if_splits)
qed

lemma aimd_step_inv:
  assumes "aimd_step s s'" "aimd_ok cfg" "aimd_inv cfg s"
  shows "aimd_inv cfg s'"
  using assms(1)
proof cases
  case (signal sc retry c call)
  have "ctl_cfg c = cfg \<and> in_limits cfg (ctl_limit c) \<and> list_all (in_limits cfg) (case call of None \<Rightarrow> [] | Some n \<Rightarrow> [n])"
    using signal(2) assms(3) RecordSuccess_limits [OF assms(2), of "ai_ctl s" c call] RecordRateLimit_limits [OF assms(2), of "ai_ctl s" c call]
    by (auto simp: recordAIMDSignal_def aimd_inv_def split: option.splits if_splits)
  with signal assms(3) show ?thesis by (auto simp: aimd_inv_def split: option.splits)
next
  case (set_fn n)
  with assms show ?thesis
    by (auto simp: aimd_inv_def as_SetLimit_def list_all_iff in_limits_def aimd_ok_def dest: set_mp [OF set_remove1_subset])
next
  case try_acquire
  with assms show ?thesis by (auto simp: aimd_inv_def as_TryAcquire_def in_limits_def)
next
  case release
  with assms show ?thesis by (auto simp: aimd_inv_def as_Release_def)
qed

text \<open>
  Under every interleaving of results, rate-limit signals, acquisitions,
  releases and late or reordered calls that set the limit, the limit of the
  controller, the limit of the semaphore and every limit still on its way to it
  stay between the configured minimum and maximum, and no more requests than the
  maximum are in flight. The backoff is computed in floating point with its
  rounding.
\<close>

theorem aimd_limits_in_range:
  assumes ok: "aimd_ok cfg" and reach: "aimd_step\<^sup>*\<^sup>* (aimd_start cfg) s"
  shows "in_limits cfg (ctl_limit (ai_ctl s)) \<and> in_limits cfg (as_limit (ai_sem s)) \<and> list_all (in_limits cfg) (ai_calls s)
    \<and> as_count (ai_sem s) \<le> MaxLimit cfg"
proof -
  have "aimd_inv cfg (aimd_start cfg)"
    using ok by (auto simp: aimd_inv_def aimd_start_def NewAIMDController_def clamp_def in_limits_def aimd_ok_def)
  with reach have "aimd_inv cfg s"
    by (induction rule: rtranclp_induct) (use ok aimd_step_inv in blast)+
  then show ?thesis by (simp add: aimd_inv_def)
qed

definition sample_aimd :: AIMDConfig where
  "sample_aimd = \<lparr>MinLimit = 5, MaxLimit = 10, BackoffFactor = \<lparr>fl_mant = 1, fl_exp = 1\<rparr>, AdditiveIncrease = 1\<rparr>"

theorem aimd_limits_in_range_witness:
  "\<exists>s. aimd_step\<^sup>*\<^sup>* (aimd_start sample_aimd) s \<and> ai_calls s = [5] \<and> as_limit (ai_sem s) = 10
     \<and> in_limits sample_aimd (ctl_limit (ai_ctl s)) \<and> list_all (in_limits sample_aimd) (ai_calls s)"
proof -
  let ?s = "aimd_start sample_aimd"
  have st: "recordAIMDSignal (Some 429) False (ai_ctl ?s) = ((ai_ctl ?s)\<lparr>ctl_limit := 5\<rparr>, Some 5)"
    by (simp add: recordAIMDSignal_def RecordRateLimit_def set_call_def computeBackoffLimit_def scale_floor_def round53_small
        aimd_start_def NewAIMDController_def clamp_def sample_aimd_def)
  have "aimd_step ?s (?s\<lparr>ai_ctl := (ai_ctl ?s)\<lparr>ctl_limit := 5\<rparr>, ai_calls := 5 # ai_calls ?s\<rparr>)"
    using aimd_step.signal [OF st] by simp
  then have reach: "aimd_step\<^sup>*\<^sup>* ?s (?s\<lparr>ai_ctl := (ai_ctl ?s)\<lparr>ctl_limit := 5\<rparr>, ai_calls := 5 # ai_calls ?s\<rparr>)" by blast
  have "aimd_ok sample_aimd" by (simp add: aimd_ok_def sample_aimd_def unit_float_def)
  from aimd_limits_in_range [OF this reach] reach show ?thesis
    by (intro exI conjI) (auto simp: aimd_start_def NewAIMDController_def sample_aimd_def clamp_def)
qed

end
