(* ===== verification/Pipeline.thy ===== *)
theory Pipeline
  imports Status_Updater Semaphores "HOL-Library.AList" "HOL-Library.Multiset"
begin

text \<open>
  The execution pipeline of a job (\<^verbatim>\<open>internal/processor/pipeline\<close>): requests and
  results, the set of pending requests, the progress counts, the checkpointer that
  drains the results into a durable sink, the router that hands results of the
  shared queues to their jobs, and the chain of dispatchers. JSON encoding and
  SHA-256 are arguments, and a message that quotes the text of an error is cut
  before it.
\<close>

section \<open>Requests and results\<close>

record OutputError =
  er_Code :: string
  er_Message :: string

text \<open>A response body: a decoded JSON text, or an object the code builds itself.\<close>

datatype json = JNull | JText string | JString string | JObject "(string \<times> json) list"

record ResponseData =
  rd_StatusCode :: int
  rd_RequestID :: string
  rd_Body :: json

record RequestItem =
  rq_RequestID :: string
  rq_CustomID :: string
  rq_ModelID :: string
  rq_Endpoint :: string
  rq_Body :: string
  rq_Headers :: "(string \<times> string) list"
  rq_ParseError :: "OutputError option"
  rq_SubmittedAt :: "instant option"

text \<open>\<open>ri_Ack\<close> names the durable delivery the result arrived on, if it has one.\<close>

record ResultItem =
  ri_RequestID :: string
  ri_CustomID :: string
  ri_ModelID :: string
  ri_Response :: "ResponseData option"
  ri_Error :: "OutputError option"
  ri_HadCapacityRetry :: bool
  ri_SubmittedAt :: "instant option"
  ri_Ack :: "nat option"

definition msg_Error :: "string \<Rightarrow> string \<Rightarrow> RequestItem \<Rightarrow> ResultItem" where
  "msg_Error code message r =
    \<lparr>ri_RequestID = rq_RequestID r, ri_CustomID = rq_CustomID r, ri_ModelID = rq_ModelID r, ri_Response = None,
     ri_Error = Some \<lparr>er_Code = code, er_Message = message\<rparr>, ri_HadCapacityRetry = False,
     ri_SubmittedAt = rq_SubmittedAt r, ri_Ack = None\<rparr>"

text \<open>The message quotes the model with \<^verbatim>\<open>%q\<close>; \<open>isPrint\<close> is the table of the printable runes.\<close>

definition ModelNotFound :: "(nat \<Rightarrow> bool) \<Rightarrow> RequestItem \<Rightarrow> ResultItem" where
  "ModelNotFound isPrint r = msg_Error ''model_not_found'' (''model '' @ go_quote isPrint (rq_ModelID r) @ '' not configured'') r"

definition Succeeded :: "ResultItem \<Rightarrow> bool" where
  "Succeeded r = (ri_Error r = None \<and> (case ri_Response r of None \<Rightarrow> False
     | Some d \<Rightarrow> 200 \<le> rd_StatusCode d \<and> rd_StatusCode d \<le> 299))"

record outputLine =
  ol_ID :: string
  ol_CustomID :: string
  ol_Response :: "ResponseData option"
  ol_Error :: "OutputError option"

definition MarshalResultLine ::
  "(outputLine \<Rightarrow> string res) \<Rightarrow> (string \<Rightarrow> string) \<Rightarrow> ResultItem \<Rightarrow> (string \<times> string \<times> int) res" where
  "MarshalResultLine marshal sha256hex msg =
    (case marshal \<lparr>ol_ID = ri_RequestID msg, ol_CustomID = ri_CustomID msg, ol_Response = ri_Response msg, ol_Error = ri_Error msg\<rparr> of
       Inl e \<Rightarrow> Inl e
     | Inr b \<Rightarrow> let line = b @ [newline] in Inr (line, sha256hex line, int (length line)))"

section \<open>Why a context ended\<close>

text \<open>The causes of \<^verbatim>\<open>batchctx\<close>; \<open>CauseOther\<close> is any other cause, in particular the neutral one.\<close>

datatype cause = CauseNone | CauseDeadline | CauseExpired | CauseCancelled | CauseShutdown | CauseOther

definition Cause :: "cause \<Rightarrow> error option" where
  "Cause c = (case c of CauseDeadline \<Rightarrow> Some ErrExpired | CauseExpired \<Rightarrow> Some ErrExpired
     | CauseCancelled \<Rightarrow> Some ErrCancelled | CauseShutdown \<Rightarrow> Some ErrShutdown | _ \<Rightarrow> None)"

definition cause_IsTerminal :: "error \<Rightarrow> bool" where
  "cause_IsTerminal e = (e = ErrExpired \<or> e = ErrCancelled \<or> e = ErrShutdown)"

definition cancelCode :: "cause \<Rightarrow> BatchErrorCode" where
  "cancelCode c = (case c of CauseDeadline \<Rightarrow> ErrCodeBatchExpired | CauseExpired \<Rightarrow> ErrCodeBatchExpired
     | CauseCancelled \<Rightarrow> ErrCodeBatchCancelled | _ \<Rightarrow> ErrCodeBatchFailed)"

definition cancel_result :: "cause \<Rightarrow> RequestItem \<Rightarrow> ResultItem" where
  "cancel_result c = msg_Error (code_name (cancelCode c)) (Message (cancelCode c))"

section \<open>Pending requests\<close>

text \<open>The map is an association list, and \<open>pr_done\<close> tells whether the channel of capacity one holds a signal.\<close>

record PendingRequests =
  pr_m :: "(string \<times> RequestItem) list"
  pr_done :: bool

definition NewPendingRequests :: PendingRequests where
  "NewPendingRequests = \<lparr>pr_m = [], pr_done = False\<rparr>"

definition pending_Store :: "RequestItem \<Rightarrow> PendingRequests \<Rightarrow> PendingRequests" where
  "pending_Store msg p = p\<lparr>pr_m := AList.update (rq_RequestID msg) msg (pr_m p)\<rparr>"

definition pending_Has :: "string \<Rightarrow> PendingRequests \<Rightarrow> bool" where
  "pending_Has requestID p = (map_of (pr_m p) requestID \<noteq> None)"

definition attach :: "RequestItem \<Rightarrow> ResultItem \<Rightarrow> ResultItem" where
  "attach msg result = result\<lparr>ri_CustomID := rq_CustomID msg, ri_ModelID := rq_ModelID msg, ri_SubmittedAt := rq_SubmittedAt msg\<rparr>"

definition pending_Enrich :: "ResultItem \<Rightarrow> PendingRequests \<Rightarrow> bool \<times> ResultItem" where
  "pending_Enrich result p =
    (if ri_Error result \<noteq> None
     then (map_of (pr_m p) (ri_RequestID result) \<noteq> None \<or> ri_CustomID result \<noteq> [], result)
     else if ri_CustomID result \<noteq> [] then (True, result)
     else (case map_of (pr_m p) (ri_RequestID result) of
         None \<Rightarrow> (False, result)
       | Some msg \<Rightarrow> (True, attach msg result)))"

definition pending_remove :: "string \<Rightarrow> PendingRequests \<Rightarrow> PendingRequests" where
  "pending_remove q p = (let m = AList.delete q (pr_m p) in p\<lparr>pr_m := m, pr_done := (pr_done p \<or> m = [])\<rparr>)"

definition pending_Resolve :: "ResultItem \<Rightarrow> PendingRequests \<Rightarrow> bool \<times> PendingRequests" where
  "pending_Resolve result p =
    (let q = ri_RequestID result; known = (map_of (pr_m p) q \<noteq> None) in
     if ri_Error result \<noteq> None then (if known then (True, pending_remove q p) else (ri_CustomID result \<noteq> [], p))
     else if ri_CustomID result \<noteq> [] \<or> known then (True, pending_remove q p)
     else (False, p))"

definition pending_IDs :: "PendingRequests \<Rightarrow> string list" where
  "pending_IDs p = map fst (pr_m p)"

definition pending_DrainUnresolved :: "PendingRequests \<Rightarrow> RequestItem list \<times> PendingRequests" where
  "pending_DrainUnresolved p = (map snd (pr_m p), \<lparr>pr_m = [], pr_done = (pr_done p \<or> pr_m p \<noteq> [])\<rparr>)"

section \<open>Progress\<close>

record ProgressTracker =
  pt_total :: int
  pt_completed :: int
  pt_failed :: int
  pt_dirty :: bool

definition NewProgressTracker :: "int \<Rightarrow> ProgressTracker" where
  "NewProgressTracker n = \<lparr>pt_total = n, pt_completed = 0, pt_failed = 0, pt_dirty = False\<rparr>"

definition tracker_RecordSuccess :: "ProgressTracker \<Rightarrow> ProgressTracker" where
  "tracker_RecordSuccess pt = pt\<lparr>pt_completed := pt_completed pt + 1, pt_dirty := True\<rparr>"

definition tracker_RecordFailure :: "ProgressTracker \<Rightarrow> ProgressTracker" where
  "tracker_RecordFailure pt = pt\<lparr>pt_failed := pt_failed pt + 1, pt_dirty := True\<rparr>"

definition AddFailed :: "int \<Rightarrow> ProgressTracker \<Rightarrow> ProgressTracker" where
  "AddFailed n pt = pt\<lparr>pt_failed := pt_failed pt + n, pt_dirty := True\<rparr>"

definition AddCompleted :: "int \<Rightarrow> ProgressTracker \<Rightarrow> ProgressTracker" where
  "AddCompleted n pt = pt\<lparr>pt_completed := pt_completed pt + n, pt_dirty := True\<rparr>"

definition Counts :: "ProgressTracker \<Rightarrow> BatchRequestCounts" where
  "Counts pt = \<lparr>rc_Total = pt_total pt, rc_Completed = pt_completed pt, rc_Failed = pt_failed pt\<rparr>"

section \<open>The checkpointer\<close>

text \<open>
  What surrounds one result: what the other goroutines do to the pending set and
  the rest of the system to the durable state before it is handled, and the
  environment of the sink's call.
\<close>

record ('e, 's) drain_env =
  de_pending :: "PendingRequests \<Rightarrow> PendingRequests"
  de_system :: "'s \<Rightarrow> 's"
  de_sink :: 'e

record 's drain_state =
  dr_pending :: PendingRequests
  dr_tracker :: ProgressTracker
  dr_store :: 's
  dr_firstErr :: "error option"
  dr_conflictErr :: "error option"
  dr_aborted :: bool
  dr_acked :: "ResultItem list"

definition checkpoint_record :: "ResultItem \<Rightarrow> ProgressTracker \<Rightarrow> ProgressTracker" where
  "checkpoint_record msg pt = (if Succeeded msg then tracker_RecordSuccess pt else tracker_RecordFailure pt)"

type_synonym ('e, 's) result_sink = "'e \<Rightarrow> ResultItem \<Rightarrow> string \<Rightarrow> string \<Rightarrow> int \<Rightarrow> 's \<Rightarrow> bool res \<times> 's"

definition checkpoint ::
  "(outputLine \<Rightarrow> string res) \<Rightarrow> (string \<Rightarrow> string) \<Rightarrow> ('e, 's) result_sink \<Rightarrow> 'e \<Rightarrow> ResultItem \<Rightarrow> 's drain_state
    \<Rightarrow> unit res \<times> 's drain_state" where
  "checkpoint marshal sha256hex sink env msg d =
    (case MarshalResultLine marshal sha256hex msg of
       Inl e \<Rightarrow> (Inl e, d)
     | Inr (line, sha, sz) \<Rightarrow>
         (case sink env msg line sha sz (dr_store d) of
            (Inl e, s') \<Rightarrow> (Inl e, d\<lparr>dr_store := s'\<rparr>)
          | (Inr committed, s') \<Rightarrow>
              (Inr (), d\<lparr>dr_store := s', dr_pending := snd (pending_Resolve msg (dr_pending d)),
                 dr_tracker := (if committed then checkpoint_record msg (dr_tracker d) else dr_tracker d)\<rparr>)))"

text \<open>
  One iteration of \<^verbatim>\<open>Drain\<close>. A delivery is acknowledged only after its checkpoint;
  \<open>dr_acked\<close> collects the results whose delivery was.
\<close>

definition drain_one ::
  "(outputLine \<Rightarrow> string res) \<Rightarrow> (string \<Rightarrow> string) \<Rightarrow> ('e, 's) result_sink \<Rightarrow> ('e, 's) drain_env \<Rightarrow> ResultItem
    \<Rightarrow> 's drain_state \<Rightarrow> 's drain_state" where
  "drain_one marshal sha256hex sink env msg0 d0 =
    (let d = d0\<lparr>dr_pending := de_pending env (dr_pending d0), dr_store := de_system env (dr_store d0)\<rparr>;
         (accepted, msg) = pending_Enrich msg0 (dr_pending d)
     in if \<not> accepted \<or> dr_firstErr d \<noteq> None \<or> dr_conflictErr d \<noteq> None then d
        else (case checkpoint marshal sha256hex sink (de_sink env) msg d of
            (Inl e, d') \<Rightarrow> if e = ErrConflict then d'\<lparr>dr_conflictErr := Some e, dr_aborted := True\<rparr>
                           else d'\<lparr>dr_firstErr := Some e, dr_aborted := True\<rparr>
          | (Inr _, d') \<Rightarrow> (case ri_Ack msg of None \<Rightarrow> d' | Some h \<Rightarrow> d'\<lparr>dr_acked := dr_acked d' @ [msg]\<rparr>)))"

fun drain_all ::
  "(outputLine \<Rightarrow> string res) \<Rightarrow> (string \<Rightarrow> string) \<Rightarrow> ('e, 's) result_sink \<Rightarrow> (('e, 's) drain_env \<times> ResultItem) list
    \<Rightarrow> 's drain_state \<Rightarrow> 's drain_state" where
  "drain_all marshal sha256hex sink [] d = d"
| "drain_all marshal sha256hex sink ((env, msg) # msgs) d =
    drain_all marshal sha256hex sink msgs (drain_one marshal sha256hex sink env msg d)"

definition Drain ::
  "(outputLine \<Rightarrow> string res) \<Rightarrow> (string \<Rightarrow> string) \<Rightarrow> ('e, 's) result_sink \<Rightarrow> (('e, 's) drain_env \<times> ResultItem) list
    \<Rightarrow> PendingRequests \<Rightarrow> ProgressTracker \<Rightarrow> 's \<Rightarrow> error option \<times> 's drain_state" where
  "Drain marshal sha256hex sink msgs pend pt s =
    (let d = drain_all marshal sha256hex sink msgs
           \<lparr>dr_pending = pend, dr_tracker = pt, dr_store = s, dr_firstErr = None, dr_conflictErr = None, dr_aborted = False, dr_acked = []\<rparr>
     in (if dr_conflictErr d \<noteq> None then dr_conflictErr d else dr_firstErr d, d))"

lemma enrich_id: "pending_Enrich msg p = (b, msg') \<Longrightarrow> ri_RequestID msg' = ri_RequestID msg"
  by (auto simp: pending_Enrich_def attach_def split: option.splits if_splits)

lemma drain_one_cases:
  obtains (skip) "dr_store (drain_one marshal sha sink env msg d) = de_system env (dr_store d)"
      "dr_acked (drain_one marshal sha sink env msg d) = dr_acked d"
  | (called) msg' line r s' where
      "sink (de_sink env) msg' line (sha line) (int (length line)) (de_system env (dr_store d)) = (r, s')" "line \<noteq> []"
      "dr_store (drain_one marshal sha sink env msg d) = s'" "ri_RequestID msg' = ri_RequestID msg"
      "dr_acked (drain_one marshal sha sink env msg d) = dr_acked d
       \<or> is_ok r \<and> dr_acked (drain_one marshal sha sink env msg d) = dr_acked d @ [msg']"
proof (cases "pending_Enrich msg (de_pending env (dr_pending d))")
  case (Pair b msg')
  show ?thesis
  proof (cases "\<not> b \<or> dr_firstErr d \<noteq> None \<or> dr_conflictErr d \<noteq> None")
    case True
    with Pair skip show ?thesis by (simp add: drain_one_def)
  next
    case False
    show ?thesis
    proof (cases "MarshalResultLine marshal sha msg'")
      case (Inl e)
      with False Pair skip show ?thesis by (simp add: drain_one_def checkpoint_def Let_def split: if_splits)
    next
      case (Inr l)
      then obtain line where l: "l = (line, sha line, int (length line))" "line \<noteq> []"
        by (auto simp: MarshalResultLine_def Let_def split: sum.splits)
      obtain r s' where call: "sink (de_sink env) msg' line (sha line) (int (length line)) (de_system env (dr_store d)) = (r, s')"
        by fastforce
      show ?thesis
        by (rule called [OF call l(2)]; cases r; cases "ri_Ack msg'")
          (use False Pair Inr l call enrich_id [OF Pair] in
            \<open>simp_all add: drain_one_def checkpoint_def Let_def\<close>)
    qed
  qed
qed

section \<open>The contract of a sink\<close>

text \<open>
  What the checkpointer relies on. \<open>accounted q s\<close>: the result of request \<open>q\<close> is durable
  in \<open>s\<close>. A call of the sink, with the digest and size of the line, that returns without an error makes its request
  accounted; no call and nothing the rest of the system does (\<open>calm\<close>) takes that
  back; both keep the integrity \<open>good\<close> of the store.
\<close>

locale durable_sink =
  fixes sink :: "('e, 's) result_sink"
    and sha :: "string \<Rightarrow> string"
    and good :: "'s \<Rightarrow> bool"
    and accounted :: "string \<Rightarrow> 's \<Rightarrow> bool"
    and calm :: "('s \<Rightarrow> 's) \<Rightarrow> bool"
  assumes sink_good: "good s \<Longrightarrow> line \<noteq> [] \<Longrightarrow> good (snd (sink e msg line (sha line) (int (length line)) s))"
    and sink_accounts: "good s \<Longrightarrow> line \<noteq> [] \<Longrightarrow> sink e msg line (sha line) (int (length line)) s = (Inr b, s')
          \<Longrightarrow> accounted (ri_RequestID msg) s'"
    and sink_keeps: "good s \<Longrightarrow> line \<noteq> [] \<Longrightarrow> accounted q s
          \<Longrightarrow> accounted q (snd (sink e msg line (sha line) (int (length line)) s))"
    and calm_good: "calm f \<Longrightarrow> good s \<Longrightarrow> good (f s)"
    and calm_keeps: "calm f \<Longrightarrow> good s \<Longrightarrow> accounted q s \<Longrightarrow> accounted q (f s)"
begin

lemma drain_one_inv:
  assumes env: "calm (de_system env)"
    and inv: "good (dr_store d)" "\<forall>m \<in> set (dr_acked d). accounted (ri_RequestID m) (dr_store d)"
    and res: "drain_one marshal sha sink env msg d = d'"
  shows "good (dr_store d') \<and> (\<forall>m \<in> set (dr_acked d'). accounted (ri_RequestID m) (dr_store d'))"
proof -
  let ?s = "de_system env (dr_store d)"
  have g: "good ?s" and a: "\<forall>m \<in> set (dr_acked d). accounted (ri_RequestID m) ?s"
    using env inv calm_good calm_keeps by blast+
  show ?thesis
  proof (cases rule: drain_one_cases [of marshal sha sink env msg d])
    case skip
    with res g a show ?thesis by simp
  next
    case (called msg' line r s')
    have "good s'" and keeps: "\<And>q. accounted q ?s \<Longrightarrow> accounted q s'"
      using sink_good [OF g called(2), of "de_sink env" msg'] sink_keeps [OF g called(2), of _ "de_sink env" msg'] called(1) by simp_all
    moreover have "is_ok r \<Longrightarrow> accounted (ri_RequestID msg') s'"
      using sink_accounts [OF g called(2), of "de_sink env" msg'] called(1) by (auto simp: is_ok_iff)
    ultimately show ?thesis using res a called(3,5) by auto
  qed
qed

lemma drain_all_inv:
  assumes "list_all (\<lambda>(env, msg). calm (de_system env)) msgs"
    and "good (dr_store d)" "\<forall>m \<in> set (dr_acked d). accounted (ri_RequestID m) (dr_store d)"
  shows "good (dr_store (drain_all marshal sha sink msgs d))
    \<and> (\<forall>m \<in> set (dr_acked (drain_all marshal sha sink msgs d)). accounted (ri_RequestID m) (dr_store (drain_all marshal sha sink msgs d)))"
  using assms
proof (induction msgs arbitrary: d)
  case (Cons a msgs)
  obtain env msg where a: "a = (env, msg)" by fastforce
  have "good (dr_store (drain_one marshal sha sink env msg d))
    \<and> (\<forall>m \<in> set (dr_acked (drain_one marshal sha sink env msg d)). accounted (ri_RequestID m) (dr_store (drain_one marshal sha sink env msg d)))"
    by (rule drain_one_inv [OF _ _ _ refl]) (use Cons a in auto)
  with Cons a show ?case by simp
qed simp

lemma drained_good:
  assumes "list_all (\<lambda>(env, msg). calm (de_system env)) msgs" and "good s"
    and "Drain marshal sha sink msgs pend pt s = (err, d)"
  shows "good (dr_store d)"
  using drain_all_inv [OF assms(1), of "\<lparr>dr_pending = pend, dr_tracker = pt, dr_store = s, dr_firstErr = None,
      dr_conflictErr = None, dr_aborted = False, dr_acked = []\<rparr>"] assms
  by (auto simp: Drain_def Let_def)

lemma acks_are_accounted:
  assumes "list_all (\<lambda>(env, msg). calm (de_system env)) msgs" and "good s"
    and "Drain marshal sha sink msgs pend pt s = (err, d)" and "m \<in> set (dr_acked d)"
  shows "accounted (ri_RequestID m) (dr_store d)"
  using drain_all_inv [OF assms(1), of "\<lparr>dr_pending = pend, dr_tracker = pt, dr_store = s, dr_firstErr = None,
      dr_conflictErr = None, dr_aborted = False, dr_acked = []\<rparr>"] assms
  by (auto simp: Drain_def Let_def)

end

section \<open>Results of the shared queues\<close>

record GenerateResponse =
  gr_RequestID :: string
  gr_Response :: string
  gr_StatusCode :: int
  gr_ErrorCode :: string
  gr_ErrorMessage :: string
  gr_HadCapacityRetry :: bool

definition IsNonHTTPFailure :: "GenerateResponse \<Rightarrow> bool" where
  "IsNonHTTPFailure r = (gr_StatusCode r = 0 \<and> (gr_ErrorCode r \<noteq> [] \<or> gr_ErrorMessage r \<noteq> []))"

definition bare_result :: "string \<Rightarrow> ResultItem" where
  "bare_result q = \<lparr>ri_RequestID = q, ri_CustomID = [], ri_ModelID = [], ri_Response = None, ri_Error = None,
     ri_HadCapacityRetry = False, ri_SubmittedAt = None, ri_Ack = None\<rparr>"

text \<open>\<open>parses\<close> tells whether a text is a JSON object.\<close>

definition asyncResult :: "(string \<Rightarrow> bool) \<Rightarrow> GenerateResponse \<Rightarrow> ResultItem" where
  "asyncResult parses resp =
    (let result = bare_result (gr_RequestID resp);
         failed = (\<lambda>code m. result\<lparr>ri_Error := Some \<lparr>er_Code = code, er_Message = m\<rparr>\<rparr>);
         answer = (\<lambda>sc body. result\<lparr>ri_Response := Some \<lparr>rd_StatusCode = sc, rd_RequestID = gr_RequestID resp, rd_Body = body\<rparr>\<rparr>);
         statusCode = (if gr_StatusCode resp = 0 then 200 else gr_StatusCode resp);
         twoxx = (200 \<le> statusCode \<and> statusCode < 300)
     in if IsNonHTTPFailure resp
        then failed (if gr_ErrorCode resp = [] then ''server_error'' else gr_ErrorCode resp)
               (if gr_ErrorMessage resp = [] then ''async request failed'' else gr_ErrorMessage resp)
        else if gr_Response resp = []
        then (if twoxx then failed ''server_error'' ''async response has no body'' else answer statusCode (JObject []))
        else if parses (gr_Response resp) then answer statusCode (JText (gr_Response resp))
        else if twoxx then failed ''parse_error'' ''response body could not be parsed''
        else answer statusCode (JObject [(''error'', JObject [(''message'', JString (gr_Response resp))])]))"

text \<open>
  The routing step of \<^verbatim>\<open>ResultBroadcaster.Run\<close>: every subscriber whose pending set owns
  the request is handed the result; a delivery nobody owns is acknowledged only if
  the residue check, where one is installed, allows it. The second component tells
  whether the broadcaster acknowledges.
\<close>

definition route ::
  "(nat \<times> (string \<Rightarrow> bool) option) list \<Rightarrow> (string \<Rightarrow> bool res) option \<Rightarrow> ResultItem \<Rightarrow> nat list \<times> bool" where
  "route subscribers residueSafe result =
    (let q = ri_RequestID result;
         targets = map fst (filter (\<lambda>(ch, owns). case owns of None \<Rightarrow> True | Some f \<Rightarrow> f q) subscribers)
     in if targets \<noteq> [] then (targets, False)
        else ([], ri_Ack result \<noteq> None \<and> (case residueSafe of None \<Rightarrow> True | Some f \<Rightarrow> f q = Inr True)))"

section \<open>Dispatching over HTTP\<close>

record ClientError =
  ce_Category :: string
  ce_Message :: string
  ce_StatusCode :: int
  ce_DroppedTTL :: bool
  ce_ResponseBody :: string
  ce_Type :: string

definition base_result :: "RequestItem \<Rightarrow> ResultItem" where
  "base_result msg = (bare_result (rq_RequestID msg))\<lparr>ri_CustomID := rq_CustomID msg, ri_ModelID := rq_ModelID msg,
     ri_SubmittedAt := rq_SubmittedAt msg\<rparr>"

definition handleClientError :: "(string \<Rightarrow> bool) \<Rightarrow> ClientError \<Rightarrow> ResultItem \<Rightarrow> ResultItem" where
  "handleClientError parses ce result =
    (if ce_StatusCode ce \<le> 0 then result\<lparr>ri_Error := Some \<lparr>er_Code = ce_Category ce, er_Message = ce_Message ce\<rparr>\<rparr>
     else if ce_DroppedTTL ce
     then result\<lparr>ri_Error := Some \<lparr>er_Code = code_name ErrCodeBatchExpired, er_Message = Message ErrCodeBatchExpired\<rparr>\<rparr>
     else result\<lparr>ri_Response := Some \<lparr>rd_StatusCode = ce_StatusCode ce, rd_RequestID = ri_RequestID result,
       rd_Body = (if ce_ResponseBody ce = [] then JObject []
          else if parses (ce_ResponseBody ce) then JText (ce_ResponseBody ce)
          else JObject [(''error'', JObject [(''message'', JString (ce_ResponseBody ce)), (''type'', JString (ce_Type ce))])])\<rparr>\<rparr>)"

definition handleSuccess :: "(string \<Rightarrow> bool) \<Rightarrow> GenerateResponse \<Rightarrow> ResultItem \<Rightarrow> ResultItem" where
  "handleSuccess parses resp result =
    (if gr_Response resp \<noteq> [] \<and> \<not> parses (gr_Response resp)
     then result\<lparr>ri_Error := Some \<lparr>er_Code = ''PARSE_ERROR'', er_Message = ''response body could not be parsed''\<rparr>\<rparr>
     else result\<lparr>ri_Response := Some \<lparr>rd_StatusCode = 200, rd_RequestID = gr_RequestID resp,
       rd_Body = (if gr_Response resp = [] then JNull else JText (gr_Response resp))\<rparr>\<rparr>)"

definition buildResult ::
  "(string \<Rightarrow> bool) \<Rightarrow> RequestItem \<Rightarrow> GenerateResponse option \<Rightarrow> ClientError option \<Rightarrow> ResultItem" where
  "buildResult parses msg resp clientErr =
    (let result = (base_result msg)\<lparr>ri_HadCapacityRetry := (case resp of None \<Rightarrow> False | Some r \<Rightarrow> gr_HadCapacityRetry r)\<rparr>
     in case clientErr of
          Some ce \<Rightarrow> handleClientError parses ce result
        | None \<Rightarrow> (case resp of
              None \<Rightarrow> result\<lparr>ri_Error := Some \<lparr>er_Code = ''SERVER_ERROR'', er_Message = ''inference returned no response''\<rparr>\<rparr>
            | Some r \<Rightarrow> handleSuccess parses r result))"

text \<open>
  One request of the direct dispatcher: \<open>known\<close> tells whether the model has a client,
  \<open>answer\<close> is what the client returned, and \<open>ctx\<close> the cause if the context is done by then.
\<close>

definition direct_result ::
  "(nat \<Rightarrow> bool) \<Rightarrow> (string \<Rightarrow> bool) \<Rightarrow> bool \<Rightarrow> GenerateResponse option \<times> ClientError option \<Rightarrow> cause option \<Rightarrow> RequestItem \<Rightarrow> ResultItem" where
  "direct_result isPrint parses known answer ctx msg =
    (if \<not> known then ModelNotFound isPrint msg
     else let result = buildResult parses msg (fst answer) (snd answer)
          in case ctx of
               None \<Rightarrow> result
             | Some c \<Rightarrow> if ri_Error result \<noteq> None \<and> ri_Response result = None
                 then result\<lparr>ri_Error := Some \<lparr>er_Code = code_name (cancelCode c), er_Message = Message (cancelCode c)\<rparr>\<rparr>
                 else result)"

lemma direct_result_id:
  "ri_RequestID (direct_result isPrint parses known answer ctx msg) = rq_RequestID msg"
  "ri_ModelID (direct_result isPrint parses known answer ctx msg) = rq_ModelID msg"
  by (auto simp: direct_result_def ModelNotFound_def msg_Error_def buildResult_def base_result_def bare_result_def
      handleClientError_def handleSuccess_def Let_def split: option.split)

lemma cancel_result_id: "ri_RequestID (cancel_result c msg) = rq_RequestID msg"
  by (simp add: cancel_result_def msg_Error_def)

section \<open>The fence before dispatch\<close>

text \<open>
  \<^verbatim>\<open>PreDispatcher.Run\<close>, the loop over the request channel: for each request the cause if the
  context is done when it is read, the instant, what the rest of the system did to
  the store before, and the environment of the hook. The result is what is passed on
  as a result at once, what is handed to the inner dispatcher, and the store. \<open>errText\<close> is
  the message of an error.
\<close>

record ('e, 's) pre_env =
  pe_done :: "cause option"
  pe_now :: instant
  pe_system :: "'s \<Rightarrow> 's"
  pe_hook :: 'e

type_synonym ('e, 's) submit_hook = "'e \<Rightarrow> RequestItem \<Rightarrow> 's \<Rightarrow> bool res \<times> 's"

fun pre_loop ::
  "(error \<Rightarrow> string) \<Rightarrow> ('e, 's) submit_hook \<Rightarrow> (('e, 's) pre_env \<times> RequestItem) list \<Rightarrow> 's \<Rightarrow> ResultItem list \<times> RequestItem list \<times> 's" where
  "pre_loop errText hook [] s = ([], [], s)"
| "pre_loop errText hook ((env, msg) # rest) s0 =
    (let s = pe_system env s0 in
     case pe_done env of
       Some c \<Rightarrow> (map (\<lambda>(e, m). cancel_result c m) ((env, msg) # rest), [], s)
     | None \<Rightarrow>
         (case rq_ParseError msg of
            Some pe \<Rightarrow> (let (out, dispatched, s') = pre_loop errText hook rest s
                         in (msg_Error (er_Code pe) (er_Message pe) msg # out, dispatched, s'))
          | None \<Rightarrow>
              (case hook (pe_hook env) msg s of
                 (Inl e, s1) \<Rightarrow>
                   if e = ErrConflict then ([], [], s1)
                   else (let (out, dispatched, s') = pre_loop errText hook rest s1
                         in (msg_Error ''server_error'' (errText e) msg # out, dispatched, s'))
               | (Inr submit, s1) \<Rightarrow>
                   (let (out, dispatched, s') = pre_loop errText hook rest s1
                    in (out, if submit then msg\<lparr>rq_SubmittedAt := Some (pe_now env)\<rparr> # dispatched else dispatched, s')))))"

section \<open>Dispatching over a queue\<close>

text \<open>
  The submit phase of \<^verbatim>\<open>AsyncDispatcher.Run\<close>: \<open>submit\<close> is \<open>None\<close> for a model without a client, and
  otherwise the error of the submission, if any. Then the requests that are still
  pending when waiting ends are drained as errors with the cancel code.
\<close>

fun async_submit :: "(nat \<Rightarrow> bool) \<Rightarrow> (RequestItem \<Rightarrow> OutputError option option) \<Rightarrow> RequestItem list \<Rightarrow> PendingRequests \<Rightarrow> ResultItem list \<times> PendingRequests" where
  "async_submit isPrint submit [] p = ([], p)"
| "async_submit isPrint submit (msg # msgs) p =
    (case submit msg of
       None \<Rightarrow> (let (out, p') = async_submit isPrint submit msgs p in (ModelNotFound isPrint msg # out, p'))
     | Some err \<Rightarrow>
         (let (out, p') = async_submit isPrint submit msgs (pending_Store msg p)
          in (case err of None \<Rightarrow> out | Some oe \<Rightarrow> msg_Error (er_Code oe) (er_Message oe) msg # out, p')))"

definition async_finish :: "cause \<Rightarrow> PendingRequests \<Rightarrow> ResultItem list \<times> PendingRequests" where
  "async_finish c p = (let (msgs, p') = pending_DrainUnresolved p in (map (cancel_result c) msgs, p'))"

text \<open>The queue is asked to drop the pending requests only when the batch aborts for good.\<close>

definition async_cancels :: "cause \<Rightarrow> PendingRequests \<Rightarrow> string list" where
  "async_cancels c p = (if Cause c = Some ErrCancelled \<or> Cause c = Some ErrExpired then pending_IDs p else [])"

lemma msg_Error_id [simp]: "ri_RequestID (msg_Error a b m) = rq_RequestID m" "ri_CustomID (msg_Error a b m) = rq_CustomID m"
  by (simp_all add: msg_Error_def)

lemma pending_Has_Store: "pending_Has q (pending_Store m p) \<longleftrightarrow> q = rq_RequestID m \<or> pending_Has q p"
  by (simp add: pending_Has_def pending_Store_def AList.update_conv')

text \<open>Every submitted request is answered at once or pending, and what was pending stays so.\<close>

lemma async_submit_covers:
  "async_submit isPrint submit msgs p = (out, p') \<Longrightarrow>
    (\<forall>m \<in> set msgs. rq_RequestID m \<in> ri_RequestID ` set out \<or> pending_Has (rq_RequestID m) p') \<and>
    (\<forall>q. pending_Has q p \<longrightarrow> pending_Has q p')"
proof (induction isPrint submit msgs p arbitrary: out p' rule: async_submit.induct)
  case (2 isPrint submit msg msgs p)
  show ?case
  proof (cases "submit msg")
    case None
    with 2 show ?thesis by (force simp: ModelNotFound_def split: prod.splits)
  next
    case (Some err)
    obtain out1 where rec: "async_submit isPrint submit msgs (pending_Store msg p) = (out1, p')"
      and out: "set out1 \<subseteq> set out"
      using 2(3) Some by (auto simp: subset_insertI split: prod.splits option.splits)
    from 2(2) [OF Some rec] image_mono [OF out, of ri_RequestID] show ?thesis by (auto simp: pending_Has_Store)
  qed
qed simp

text \<open>
  The pending set stays consistent: whenever it became empty by a resolution or a
  drain, the signal that wakes \<^verbatim>\<open>Wait\<close> is in the channel.
\<close>

lemma pending_Resolve_signals:
  "pending_Resolve r p = (True, p') \<Longrightarrow> ri_Error r = None \<or> pending_Has (ri_RequestID r) p \<Longrightarrow> pr_m p' = [] \<Longrightarrow> pr_done p'"
  by (auto simp: pending_Resolve_def pending_remove_def pending_Has_def Let_def split: if_splits)

section \<open>The dispatcher with concurrency limits\<close>

definition as_Acquire :: "error option \<Rightarrow> AdaptiveSemaphore \<Rightarrow> (unit res \<times> AdaptiveSemaphore) option" where
  "as_Acquire ctxErr s =
    (case as_TryAcquire s of
       (True, s') \<Rightarrow> Some (Inr (), s')
     | (False, s') \<Rightarrow> (case ctxErr of Some e \<Rightarrow> Some (Inl e, s') | None \<Rightarrow> None))"

text \<open>
  The contract of a semaphore as the dispatcher uses it: a granted call takes
  exactly one token that was free, a refused one none, and giving a token back
  undoes the grant.
\<close>

locale token_pool =
  fixes acquire_op :: "'c \<Rightarrow> 'p \<Rightarrow> (unit res \<times> 'p) option"
    and release_op :: "'p \<Rightarrow> 'p"
    and held :: "'p \<Rightarrow> int"
    and bound :: "'p \<Rightarrow> int"
  assumes granted: "acquire_op c p = Some (Inr (), p') \<Longrightarrow> held p' = held p + 1 \<and> held p' \<le> bound p' \<and> bound p' = bound p"
    and refused: "acquire_op c p = Some (Inl e, p') \<Longrightarrow> p' = p"
    and returned: "0 < held p \<Longrightarrow> held (release_op p) = held p - 1 \<and> bound (release_op p) = bound p"
begin

lemma acquire_release:
  "acquire_op c p = Some (Inr (), p') \<Longrightarrow> 0 \<le> held p \<Longrightarrow> held (release_op p') = held p"
  using granted [of c p p'] returned [of p'] by auto

end

interpretation chan_pool: token_pool "\<lambda>(pick, e). sem_Acquire pick e" sem_Release "\<lambda>s. int (sem_tokens s)" "\<lambda>s. int (sem_cap s)"
  by unfold_locales (auto simp: sem_Acquire_def sem_Release_def Let_def split: option.splits if_splits prod.splits)

interpretation adaptive_pool: token_pool as_Acquire as_Release as_count as_limit
  by unfold_locales (auto simp: as_Acquire_def as_TryAcquire_def as_Release_def split: option.splits if_splits)

text \<open>
  A run of the dispatcher: the requests not read yet, the request that holds the
  slot of its endpoint and waits for a global one, the requests handed to the
  inner dispatcher, the results it returned, and the results passed on. The
  endpoint semaphores are shared with other jobs, whose tokens \<open>ad_foreign\<close> counts.
\<close>

record aimd_run =
  ad_todo :: "RequestItem list"
  ad_slot :: "RequestItem option"
  ad_inner :: "RequestItem list"
  ad_back :: "ResultItem list"
  ad_out :: "ResultItem list"
  ad_stopped :: bool
  ad_global :: semaphore
  ad_eps :: "AdaptiveSemaphore list"
  ad_foreign :: "nat list"

definition on_endpoint :: "nat option \<Rightarrow> (AdaptiveSemaphore \<Rightarrow> AdaptiveSemaphore) \<Rightarrow> AdaptiveSemaphore list \<Rightarrow> AdaptiveSemaphore list" where
  "on_endpoint i f eps = (case i of None \<Rightarrow> eps | Some i \<Rightarrow> eps[i := f (eps ! i)])"

definition endpoint_Acquire :: "nat option \<Rightarrow> error option \<Rightarrow> AdaptiveSemaphore list \<Rightarrow> (unit res \<times> AdaptiveSemaphore list) option" where
  "endpoint_Acquire i ctxErr eps =
    (case i of None \<Rightarrow> Some (Inr (), eps)
     | Some i \<Rightarrow> map_option (\<lambda>(r, sem). (r, eps[i := sem])) (as_Acquire ctxErr (eps ! i)))"

text \<open>
  The steps of the job itself. \<open>ep\<close> maps a model to its endpoint. The slot is taken in two steps
  (\<^verbatim>\<open>acquireSlot\<close>); when the second fails the endpoint slot is given back. After a
  failure the remaining requests are answered with the cancel code.
\<close>

inductive aimd_own_step :: "(string \<Rightarrow> nat option) \<Rightarrow> aimd_run \<Rightarrow> aimd_run \<Rightarrow> bool" for ep where
  take_endpoint: "\<lbrakk>ad_todo d = msg # rest; ad_slot d = None; \<not> ad_stopped d;
      endpoint_Acquire (ep (rq_ModelID msg)) ctxErr (ad_eps d) = Some (Inr (), eps)\<rbrakk>
    \<Longrightarrow> aimd_own_step ep d (d\<lparr>ad_todo := rest, ad_slot := Some msg, ad_eps := eps\<rparr>)"
| endpoint_refused: "\<lbrakk>ad_todo d = msg # rest; ad_slot d = None; \<not> ad_stopped d;
      endpoint_Acquire (ep (rq_ModelID msg)) ctxErr (ad_eps d) = Some (Inl e, eps)\<rbrakk>
    \<Longrightarrow> aimd_own_step ep d (d\<lparr>ad_todo := rest, ad_eps := eps, ad_stopped := True, ad_out := ad_out d @ [cancel_result c msg]\<rparr>)"
| take_global: "\<lbrakk>ad_slot d = Some msg; sem_Acquire pick ctxErr (ad_global d) = Some (Inr (), g)\<rbrakk>
    \<Longrightarrow> aimd_own_step ep d (d\<lparr>ad_slot := None, ad_global := g, ad_inner := ad_inner d @ [msg]\<rparr>)"
| global_refused: "\<lbrakk>ad_slot d = Some msg; sem_Acquire pick ctxErr (ad_global d) = Some (Inl e, g)\<rbrakk>
    \<Longrightarrow> aimd_own_step ep d (d\<lparr>ad_slot := None, ad_global := g, ad_stopped := True,
          ad_eps := on_endpoint (ep (rq_ModelID msg)) as_Release (ad_eps d), ad_out := ad_out d @ [cancel_result c msg]\<rparr>)"
| drain_rest: "\<lbrakk>ad_todo d = msg # rest; ad_stopped d\<rbrakk>
    \<Longrightarrow> aimd_own_step ep d (d\<lparr>ad_todo := rest, ad_out := ad_out d @ [cancel_result c msg]\<rparr>)"
| inner_result: "msg \<in> set (ad_inner d)
    \<Longrightarrow> aimd_own_step ep d (d\<lparr>ad_inner := remove1 msg (ad_inner d),
          ad_back := ad_back d @ [direct_result isPrint parses known answer ctx msg]\<rparr>)"
| pass_on: "ad_back d = r # rest
    \<Longrightarrow> aimd_own_step ep d (d\<lparr>ad_back := rest, ad_eps := on_endpoint (ep (ri_ModelID r)) as_Release (ad_eps d),
          ad_global := sem_Release (ad_global d), ad_out := ad_out d @ [r]\<rparr>)"

text \<open>The steps of the surroundings: the limits of the endpoints change, and other jobs take and return tokens.\<close>

inductive aimd_env_step :: "aimd_run \<Rightarrow> aimd_run \<Rightarrow> bool" where
  limit_changed: "i < length (ad_eps d)
    \<Longrightarrow> aimd_env_step d (d\<lparr>ad_eps := (ad_eps d)[i := as_SetLimit n (ad_eps d ! i)]\<rparr>)"
| foreign_acquire: "\<lbrakk>i < length (ad_eps d); as_Acquire ctxErr (ad_eps d ! i) = Some (Inr (), sem)\<rbrakk>
    \<Longrightarrow> aimd_env_step d (d\<lparr>ad_eps := (ad_eps d)[i := sem], ad_foreign := (ad_foreign d)[i := ad_foreign d ! i + 1]\<rparr>)"
| foreign_release: "\<lbrakk>i < length (ad_eps d); 0 < ad_foreign d ! i\<rbrakk>
    \<Longrightarrow> aimd_env_step d (d\<lparr>ad_eps := (ad_eps d)[i := as_Release (ad_eps d ! i)], ad_foreign := (ad_foreign d)[i := ad_foreign d ! i - 1]\<rparr>)"

inductive aimd_run_step :: "(string \<Rightarrow> nat option) \<Rightarrow> aimd_run \<Rightarrow> aimd_run \<Rightarrow> bool" for ep where
  own: "aimd_own_step ep d d' \<Longrightarrow> aimd_run_step ep d d'"
| environment: "aimd_env_step d d' \<Longrightarrow> aimd_run_step ep d d'"

definition ad_models :: "aimd_run \<Rightarrow> string list" where
  "ad_models d = (case ad_slot d of None \<Rightarrow> [] | Some m \<Rightarrow> [rq_ModelID m]) @ map rq_ModelID (ad_inner d) @ map ri_ModelID (ad_back d)"

definition ad_ids :: "aimd_run \<Rightarrow> string multiset" where
  "ad_ids d = mset (map rq_RequestID (ad_todo d)) + mset (case ad_slot d of None \<Rightarrow> [] | Some m \<Rightarrow> [rq_RequestID m])
     + mset (map rq_RequestID (ad_inner d)) + mset (map ri_RequestID (ad_back d)) + mset (map ri_RequestID (ad_out d))"

definition on_ep :: "(string \<Rightarrow> nat option) \<Rightarrow> nat \<Rightarrow> string list \<Rightarrow> nat" where
  "on_ep ep i ms = length (filter (\<lambda>m. ep m = Some i) ms)"

definition aimd_run_inv :: "(string \<Rightarrow> nat option) \<Rightarrow> string multiset \<Rightarrow> nat \<Rightarrow> aimd_run \<Rightarrow> bool" where
  "aimd_run_inv ep ids cap d =
    (ad_ids d = ids \<and> sem_cap (ad_global d) = cap \<and> length (ad_foreign d) = length (ad_eps d)
     \<and> sem_tokens (ad_global d) = length (ad_inner d) + length (ad_back d) \<and> sem_tokens (ad_global d) \<le> cap
     \<and> (\<forall>m i. ep m = Some i \<longrightarrow> i < length (ad_eps d))
     \<and> (\<forall>i < length (ad_eps d). as_count (ad_eps d ! i) = int (ad_foreign d ! i + on_ep ep i (ad_models d))))"

lemma on_ep_simps [simp]:
  "on_ep ep i [] = 0" "on_ep ep i (m # ms) = (if ep m = Some i then 1 else 0) + on_ep ep i ms"
  "on_ep ep i (ms @ ms') = on_ep ep i ms + on_ep ep i ms'"
  by (simp_all add: on_ep_def)

lemma on_ep_remove1:
  "x \<in> set xs \<Longrightarrow> on_ep ep i (map f xs) = on_ep ep i (map f (remove1 x xs)) + (if ep (f x) = Some i then 1 else 0)"
  by (induction xs) auto

lemma mset_map_remove1: "x \<in> set xs \<Longrightarrow> mset (map f xs) = add_mset (f x) (mset (map f (remove1 x xs)))"
  by (induction xs) auto

lemma length_remove1_Suc: "x \<in> set xs \<Longrightarrow> length xs = Suc (length (remove1 x xs))"
  by (induction xs) auto

lemma endpoint_granted:
  assumes "endpoint_Acquire i e eps = Some (Inr (), eps')" and "\<And>k. i = Some k \<Longrightarrow> k < length eps"
  shows "length eps' = length eps"
    and "j < length eps \<Longrightarrow> as_count (eps' ! j) = as_count (eps ! j) + (if i = Some j then 1 else 0)"
  using assms adaptive_pool.granted [of e "eps ! the i"]
  by (auto simp: endpoint_Acquire_def nth_list_update split: option.splits)

lemma endpoint_refused_same: "endpoint_Acquire i e eps = Some (Inl er, eps') \<Longrightarrow> eps' = eps"
  using adaptive_pool.refused [of e "eps ! the i"] by (auto simp: endpoint_Acquire_def split: option.splits)

lemma endpoint_released:
  assumes "\<And>k. i = Some k \<Longrightarrow> k < length eps \<and> 0 < as_count (eps ! k)"
  shows "length (on_endpoint i as_Release eps) = length eps"
    and "j < length eps \<Longrightarrow> as_count (on_endpoint i as_Release eps ! j) = as_count (eps ! j) - (if i = Some j then 1 else 0)"
  using assms adaptive_pool.returned by (auto simp: on_endpoint_def nth_list_update split: option.splits)

lemma aimd_own_inv:
  assumes "aimd_own_step ep d d'" and inv: "aimd_run_inv ep ids cap d"
  shows "aimd_run_inv ep ids cap d'"
  using assms(1)
proof cases
  case (take_endpoint msg rest ctxErr eps)
  then show ?thesis
    using inv endpoint_granted [OF take_endpoint(5)]
    by (auto simp: aimd_run_inv_def ad_ids_def ad_models_def)
next
  case (endpoint_refused msg rest ctxErr e eps c)
  then show ?thesis
    using inv endpoint_refused_same [OF endpoint_refused(5)]
    by (auto simp: aimd_run_inv_def ad_ids_def ad_models_def cancel_result_id)
next
  case (take_global msg pick ctxErr g)
  then show ?thesis
    using inv chan_pool.granted [of "(pick, ctxErr)" "ad_global d" g]
    by (auto simp: aimd_run_inv_def ad_ids_def ad_models_def)
next
  case (global_refused msg pick ctxErr e g c)
  have pos: "k < length (ad_eps d) \<and> 0 < as_count (ad_eps d ! k)" if "ep (rq_ModelID msg) = Some k" for k
    using inv that global_refused(2) by (auto simp: aimd_run_inv_def ad_models_def)
  show ?thesis
    using inv global_refused chan_pool.refused [of "(pick, ctxErr)" "ad_global d" e g] endpoint_released [OF pos]
    by (auto simp: aimd_run_inv_def ad_ids_def ad_models_def cancel_result_id)
next
  case (drain_rest msg rest c)
  then show ?thesis using inv by (auto simp: aimd_run_inv_def ad_ids_def ad_models_def cancel_result_id)
next
  case (inner_result msg isPrint parses known answer ctx)
  show ?thesis
    using inv inner_result(1) length_remove1_Suc [OF inner_result(2)] mset_map_remove1 [OF inner_result(2), of rq_RequestID]
      on_ep_remove1 [OF inner_result(2), of ep _ rq_ModelID]
    by (auto simp: aimd_run_inv_def ad_ids_def ad_models_def direct_result_id)
next
  case (pass_on r rest)
  have pos: "k < length (ad_eps d) \<and> 0 < as_count (ad_eps d ! k)" if "ep (ri_ModelID r) = Some k" for k
    using inv that pass_on(2) by (auto simp: aimd_run_inv_def ad_models_def)
  show ?thesis
    using inv pass_on chan_pool.returned [of "ad_global d"] endpoint_released [OF pos]
    by (auto simp: aimd_run_inv_def ad_ids_def ad_models_def)
qed

lemma aimd_env_inv:
  assumes "aimd_env_step d d'" and inv: "aimd_run_inv ep ids cap d"
  shows "aimd_run_inv ep ids cap d'"
  using assms(1)
proof cases
  case (limit_changed i n)
  then show ?thesis
    using inv by (auto simp: aimd_run_inv_def ad_ids_def ad_models_def nth_list_update as_SetLimit_def)
next
  case (foreign_acquire i ctxErr sem)
  then show ?thesis
    using inv adaptive_pool.granted [OF foreign_acquire(3)]
    by (auto simp: aimd_run_inv_def ad_ids_def ad_models_def nth_list_update)
next
  case (foreign_release i)
  then show ?thesis
    using inv adaptive_pool.returned [of "ad_eps d ! i"]
    by (auto simp: aimd_run_inv_def ad_ids_def ad_models_def nth_list_update)
qed

lemma aimd_run_inv_step: "aimd_run_step ep d d' \<Longrightarrow> aimd_run_inv ep ids cap d \<Longrightarrow> aimd_run_inv ep ids cap d'"
  by (auto elim: aimd_run_step.cases intro: aimd_own_inv aimd_env_inv)

definition aimd_run_start :: "RequestItem list \<Rightarrow> nat \<Rightarrow> AdaptiveSemaphore list \<Rightarrow> aimd_run" where
  "aimd_run_start reqs cap eps =
    \<lparr>ad_todo = reqs, ad_slot = None, ad_inner = [], ad_back = [], ad_out = [], ad_stopped = False,
     ad_global = \<lparr>sem_cap = cap, sem_tokens = 0, sem_guard = False, sem_fired = 0\<rparr>, ad_eps = eps,
     ad_foreign = map (\<lambda>sem. nat (as_count sem)) eps\<rparr>"

definition ad_work :: "aimd_run \<Rightarrow> nat" where
  "ad_work d = 4 * length (ad_todo d) + (case ad_slot d of None \<Rightarrow> 0 | Some _ \<Rightarrow> 3) + 2 * length (ad_inner d) + length (ad_back d)"

lemma aimd_run_reach:
  assumes "(aimd_run_step ep)\<^sup>*\<^sup>* (aimd_run_start reqs cap eps) d"
    and "\<And>m i. ep m = Some i \<Longrightarrow> i < length eps" and "list_all (\<lambda>sem. 0 \<le> as_count sem) eps"
  shows "aimd_run_inv ep (mset (map rq_RequestID reqs)) cap d"
  using assms(1)
proof (induction rule: rtranclp_induct)
  case base
  show ?case
    using assms(2,3) by (auto simp: aimd_run_inv_def aimd_run_start_def ad_ids_def ad_models_def list_all_length)
qed (rule aimd_run_inv_step)

text \<open>
  C13: The dispatcher neither loses nor duplicates a request and leaks no token,
  under every interleaving with the inner dispatcher, with other jobs on the same
  endpoints and with changes of their limits, and whether or not the context ends
  on the way: never more than the configured number of requests are in flight,
  and when all is done there is exactly one result for each request and every
  token of this job has been given back.
\<close>

theorem dispatcher_conserves:
  assumes "(aimd_run_step ep)\<^sup>*\<^sup>* (aimd_run_start reqs cap eps) d"
    and "\<And>m i. ep m = Some i \<Longrightarrow> i < length eps" and "list_all (\<lambda>sem. 0 \<le> as_count sem) eps"
  shows "length (ad_inner d) \<le> cap
    \<and> (ad_work d = 0 \<longrightarrow> mset (map ri_RequestID (ad_out d)) = mset (map rq_RequestID reqs)
         \<and> sem_tokens (ad_global d) = 0 \<and> map as_count (ad_eps d) = map int (ad_foreign d))"
proof (intro conjI impI)
  have inv: "aimd_run_inv ep (mset (map rq_RequestID reqs)) cap d"
    by (rule aimd_run_reach [OF assms(1) _ assms(3)]) (rule assms(2))
  note inv = inv [unfolded aimd_run_inv_def]
  from inv show "length (ad_inner d) \<le> cap" by simp
  assume "ad_work d = 0"
  then have empty: "ad_todo d = []" "ad_slot d = None" "ad_inner d = []" "ad_back d = []"
    by (simp_all add: ad_work_def split: option.splits)
  from inv show "mset (map ri_RequestID (ad_out d)) = mset (map rq_RequestID reqs)" "sem_tokens (ad_global d) = 0"
    by (simp_all add: ad_ids_def empty)
  from inv show "map as_count (ad_eps d) = map int (ad_foreign d)"
    by (intro nth_equalityI) (simp_all add: ad_models_def empty)
qed

definition one_model :: "string \<Rightarrow> nat option" where
  "one_model m = (if m = ''m'' then Some 0 else None)"

definition sample_request_item :: RequestItem where
  "sample_request_item = \<lparr>rq_RequestID = ''r1'', rq_CustomID = ''c1'', rq_ModelID = ''m'', rq_Endpoint = [], rq_Body = [],
     rq_Headers = [], rq_ParseError = None, rq_SubmittedAt = None\<rparr>"

definition sample_sem :: AdaptiveSemaphore where
  "sample_sem = \<lparr>as_limit = 1, as_count = 0, as_guard = True, as_fired = 0\<rparr>"

lemma sample_dispatch:
  "\<exists>d. (aimd_run_step one_model)\<^sup>*\<^sup>* (aimd_run_start [sample_request_item] 1 [sample_sem]) d \<and> ad_work d = 0"
proof -
  let ?d0 = "aimd_run_start [sample_request_item] 1 [sample_sem]"
  let ?d1 = "?d0\<lparr>ad_todo := [], ad_slot := Some sample_request_item, ad_eps := [sample_sem\<lparr>as_count := 1\<rparr>]\<rparr>"
  let ?d2 = "?d1\<lparr>ad_slot := None, ad_global := (ad_global ?d1)\<lparr>sem_tokens := 1\<rparr>, ad_inner := [sample_request_item]\<rparr>"
  let ?r = "direct_result (\<lambda>_. False) (\<lambda>_. True) False (None, None) None sample_request_item"
  let ?d3 = "?d2\<lparr>ad_inner := [], ad_back := [?r]\<rparr>"
  have 1: "aimd_own_step one_model ?d0 ?d1"
    using aimd_own_step.take_endpoint [of ?d0 sample_request_item "[]" one_model None "[sample_sem\<lparr>as_count := 1\<rparr>]"]
    by (simp add: aimd_run_start_def endpoint_Acquire_def one_model_def sample_request_item_def as_Acquire_def
        as_TryAcquire_def sample_sem_def)
  have 2: "aimd_own_step one_model ?d1 ?d2"
    using aimd_own_step.take_global [of ?d1 sample_request_item True None "(ad_global ?d1)\<lparr>sem_tokens := 1\<rparr>" one_model]
    by (simp add: aimd_run_start_def sem_Acquire_def)
  have 3: "aimd_own_step one_model ?d2 ?d3"
    using aimd_own_step.inner_result [of sample_request_item ?d2 one_model "\<lambda>_. False" "\<lambda>_. True" False "(None, None)" None]
    by (simp add: aimd_run_start_def)
  obtain d4 where 4: "aimd_own_step one_model ?d3 d4" "ad_work d4 = 0"
    using aimd_own_step.pass_on [of ?d3 ?r "[]" one_model] by (simp add: aimd_run_start_def ad_work_def)
  from 1 2 3 4 show ?thesis by (meson aimd_run_step.own converse_rtranclp_into_rtranclp rtranclp.rtrancl_refl)
qed

theorem dispatcher_conserves_witness:
  "\<exists>d. (aimd_run_step one_model)\<^sup>*\<^sup>* (aimd_run_start [sample_request_item] 1 [sample_sem]) d \<and> ad_work d = 0
     \<and> mset (map ri_RequestID (ad_out d)) = {#''r1''#}"
proof -
  obtain d where d: "(aimd_run_step one_model)\<^sup>*\<^sup>* (aimd_run_start [sample_request_item] 1 [sample_sem]) d" "ad_work d = 0"
    using sample_dispatch by blast
  have "i < length [sample_sem]" if "one_model m = Some i" for m i using that by (simp add: one_model_def split: if_splits)
  then have "mset (map ri_RequestID (ad_out d)) = mset (map rq_RequestID [sample_request_item])"
    using dispatcher_conserves [OF d(1)] d(2) by (simp add: sample_sem_def)
  with d show ?thesis by (intro exI conjI) (auto simp: sample_request_item_def)
qed

text \<open>A run with the number of the job's own steps in it.\<close>

inductive aimd_runs :: "(string \<Rightarrow> nat option) \<Rightarrow> nat \<Rightarrow> aimd_run \<Rightarrow> aimd_run \<Rightarrow> bool" for ep where
  nothing: "aimd_runs ep 0 d d"
| own_next: "aimd_runs ep n d d1 \<Longrightarrow> aimd_own_step ep d1 d2 \<Longrightarrow> aimd_runs ep (Suc n) d d2"
| env_next: "aimd_runs ep n d d1 \<Longrightarrow> aimd_env_step d1 d2 \<Longrightarrow> aimd_runs ep n d d2"

lemma own_step_work: "aimd_own_step ep d d' \<Longrightarrow> ad_work d' < ad_work d"
  by (induction rule: aimd_own_step.induct) (auto simp: ad_work_def length_remove1_Suc split: option.splits)

lemma env_step_work: "aimd_env_step d d' \<Longrightarrow> ad_work d' = ad_work d"
  by (induction rule: aimd_env_step.induct) (auto simp: ad_work_def)

lemma aimd_runs_work: "aimd_runs ep n d d' \<Longrightarrow> n + ad_work d' \<le> ad_work d"
  by (induction rule: aimd_runs.induct) (auto dest: own_step_work env_step_work)

lemma aimd_runs_reach: "aimd_runs ep n d d' \<Longrightarrow> (aimd_run_step ep)\<^sup>*\<^sup>* d d'"
  by (induction rule: aimd_runs.induct) (auto intro: rtranclp.rtrancl_into_rtrancl aimd_run_step.intros)

lemma aimd_runs_trans: "aimd_runs ep m d1 d2 \<Longrightarrow> aimd_runs ep n d d1 \<Longrightarrow> aimd_runs ep (n + m) d d2"
  by (induction rule: aimd_runs.induct) (auto intro: aimd_runs.intros)

text \<open>The next request waits for an endpoint all of whose tokens are held by other jobs.\<close>

definition ad_waits :: "(string \<Rightarrow> nat option) \<Rightarrow> aimd_run \<Rightarrow> bool" where
  "ad_waits ep d = (case ad_todo d of [] \<Rightarrow> False
     | msg # rest \<Rightarrow> ad_slot d = None \<and> \<not> ad_stopped d
         \<and> (case ep (rq_ModelID msg) of None \<Rightarrow> False | Some i \<Rightarrow> as_limit (ad_eps d ! i) \<le> int (ad_foreign d ! i)))"

lemma own_step_possible:
  assumes inv: "aimd_run_inv ep ids cap d" and cap: "0 < cap" and work: "0 < ad_work d" and free: "\<not> ad_waits ep d"
  shows "\<exists>d'. aimd_own_step ep d d'"
proof -
  note inv = inv [unfolded aimd_run_inv_def]
  consider (result) r rest where "ad_back d = r # rest"
    | (inner) msg where "msg \<in> set (ad_inner d)"
    | (slot) msg where "ad_back d = []" "ad_inner d = []" "ad_slot d = Some msg"
    | (todo) msg rest where "ad_back d = []" "ad_inner d = []" "ad_slot d = None" "ad_todo d = msg # rest"
    using work by (cases "ad_back d"; cases "ad_inner d"; cases "ad_slot d"; cases "ad_todo d") (auto simp: ad_work_def)
  then show ?thesis
  proof cases
    case (result r rest)
    from aimd_own_step.pass_on [OF this] show ?thesis by blast
  next
    case (inner msg)
    from aimd_own_step.inner_result [OF this] show ?thesis by blast
  next
    case (slot msg)
    then have "sem_Acquire True None (ad_global d) = Some (Inr (), (ad_global d)\<lparr>sem_tokens := sem_tokens (ad_global d) + 1\<rparr>)"
      using inv cap by (simp add: sem_Acquire_def)
    from aimd_own_step.take_global [OF slot(3) this] show ?thesis by blast
  next
    case (todo msg rest)
    show ?thesis
    proof (cases "ad_stopped d")
      case True
      from aimd_own_step.drain_rest [OF todo(4) this] show ?thesis by blast
    next
      case False
      have "\<exists>eps'. endpoint_Acquire (ep (rq_ModelID msg)) None (ad_eps d) = Some (Inr (), eps')"
      proof (cases "ep (rq_ModelID msg)")
        case (Some i)
        with inv have "as_count (ad_eps d ! i) = int (ad_foreign d ! i)" by (simp add: ad_models_def todo)
        then show ?thesis
          using free todo Some False by (auto simp: ad_waits_def endpoint_Acquire_def as_Acquire_def as_TryAcquire_def)
      qed (simp add: endpoint_Acquire_def)
      with aimd_own_step.take_endpoint [OF todo(4,3) False] show ?thesis by blast
    qed
  qed
qed

text \<open>Limits stay positive, so that a waiting job is woken when the other jobs return their tokens.\<close>

definition limits_positive :: "aimd_run \<Rightarrow> bool" where
  "limits_positive d = list_all (\<lambda>sem. 1 \<le> as_limit sem) (ad_eps d)"

lemma acquire_limit: "as_Acquire e sem = Some (r, sem') \<Longrightarrow> as_limit sem' = as_limit sem"
  by (auto simp: as_Acquire_def as_TryAcquire_def split: option.splits if_splits)

lemma release_limit: "as_limit (as_Release sem) = as_limit sem"
  by (simp add: as_Release_def)

lemma limits_update: "list_all P xs \<Longrightarrow> P y \<Longrightarrow> list_all P (xs[i := y])"
  by (auto simp: list_all_iff dest!: set_update_subset_insert [THEN subsetD])

lemma limits_update_same: "list_all (\<lambda>s. 1 \<le> as_limit s) xs \<Longrightarrow> as_limit y = as_limit (xs ! i) \<Longrightarrow> list_all (\<lambda>s. 1 \<le> as_limit s) (xs[i := y])"
  by (cases "i < length xs") (auto simp: list_all_length nth_list_update)

lemma limits_own: "aimd_own_step ep d d' \<Longrightarrow> limits_positive d \<Longrightarrow> limits_positive d'"
  by (induction rule: aimd_own_step.induct)
    (auto simp: limits_positive_def endpoint_Acquire_def on_endpoint_def release_limit dest: acquire_limit
      intro!: limits_update_same split: option.splits)

lemma limits_env: "aimd_env_step d d' \<Longrightarrow> limits_positive d \<Longrightarrow> limits_positive d'"
proof (induction rule: aimd_env_step.induct)
  case (limit_changed i d n)
  then show ?case by (auto simp: limits_positive_def as_SetLimit_def intro!: limits_update)
qed (auto simp: limits_positive_def release_limit dest: acquire_limit intro!: limits_update_same)

lemma limits_runs: "aimd_runs ep n d d' \<Longrightarrow> limits_positive d \<Longrightarrow> limits_positive d'"
  by (induction rule: aimd_runs.induct) (auto intro: limits_own limits_env)

lemma wait_ends:
  assumes "aimd_run_inv ep ids cap d" and "limits_positive d"
  shows "\<exists>d'. aimd_runs ep 0 d d' \<and> \<not> ad_waits ep d'"
  using assms
proof (induction "sum_list (ad_foreign d)" arbitrary: d rule: less_induct)
  case less
  show ?case
  proof (cases "ad_waits ep d")
    case True
    then obtain msg rest i where i: "ad_todo d = msg # rest" "ep (rq_ModelID msg) = Some i" "as_limit (ad_eps d ! i) \<le> int (ad_foreign d ! i)"
      by (auto simp: ad_waits_def split: list.splits option.splits)
    have len: "i < length (ad_eps d)" "i < length (ad_foreign d)" using less.prems(1) i(2) by (auto simp: aimd_run_inv_def)
    have "1 \<le> as_limit (ad_eps d ! i)" using less.prems(2) len(1) by (simp add: limits_positive_def list_all_length)
    then have pos: "0 < ad_foreign d ! i" using i(3) by linarith
    let ?d' = "d\<lparr>ad_eps := (ad_eps d)[i := as_Release (ad_eps d ! i)], ad_foreign := (ad_foreign d)[i := ad_foreign d ! i - 1]\<rparr>"
    have step: "aimd_env_step d ?d'" by (rule aimd_env_step.foreign_release [OF len(1) pos])
    have "sum_list (ad_foreign ?d') < sum_list (ad_foreign d)"
      using len(2) pos member_le_sum_list [of "ad_foreign d ! i" "ad_foreign d"] by (simp add: sum_list_update)
    from less.hyps [OF this aimd_env_inv [OF step less.prems(1)] limits_env [OF step less.prems(2)]] obtain d2 where
      d2: "aimd_runs ep 0 ?d' d2" "\<not> ad_waits ep d2" by blast
    have "aimd_runs ep 0 d ?d'" by (rule aimd_runs.env_next [OF aimd_runs.nothing step])
    with aimd_runs_trans [OF d2(1) this] d2(2) show ?thesis by auto
  qed (auto intro: aimd_runs.nothing)
qed

lemma run_to_the_end:
  assumes "aimd_run_inv ep ids cap d" and "limits_positive d" and "0 < cap"
  shows "\<exists>n d'. aimd_runs ep n d d' \<and> ad_work d' = 0"
  using assms(1,2)
proof (induction "ad_work d" arbitrary: d rule: less_induct)
  case less
  show ?case
  proof (cases "ad_work d = 0")
    case False
    obtain d1 where d1: "aimd_runs ep 0 d d1" "\<not> ad_waits ep d1" using wait_ends [OF less.prems] by blast
    have "aimd_run_inv ep ids cap d1 \<and> ad_work d1 = ad_work d"
      using d1(1) less.prems(1)
      by (induction n \<equiv> "0 :: nat" d d1 rule: aimd_runs.induct) (auto intro: aimd_env_inv dest: env_step_work)
    then have inv1: "aimd_run_inv ep ids cap d1" "0 < ad_work d1" "ad_work d1 = ad_work d" using False by simp_all
    obtain d2 where d2: "aimd_own_step ep d1 d2" using own_step_possible [OF inv1(1) assms(3) inv1(2) d1(2)] by blast
    have "ad_work d2 < ad_work d" using own_step_work [OF d2] inv1(3) by simp
    from less.hyps [OF this aimd_own_inv [OF d2 inv1(1)] limits_own [OF d2 limits_runs [OF d1(1) less.prems(2)]]] obtain n d3 where
      d3: "aimd_runs ep n d2 d3" "ad_work d3 = 0" by blast
    from aimd_runs_trans [OF d3(1) aimd_runs.own_next [OF d1(1) d2]] d3(2) show ?thesis by blast
  qed (auto intro: aimd_runs.nothing)
qed



end
