(* ===== verification/Result_Store.thy ===== *)
theory Result_Store
  imports Pipeline Resumable_Store File_Store
begin

text \<open>
  The durable side of an activated batch: the manifest of its requests
  (\<^verbatim>\<open>internal/processor/worker/manifest.go\<close>), the sink that stores every result as an
  object and commits it to the entry store (\<^verbatim>\<open>result_store.go\<close>), activation, lease
  renewal and the hook that marks a request before it is dispatched
  (\<^verbatim>\<open>resumable_runner.go\<close>), and the check that guards unrouted deliveries
  (\<^verbatim>\<open>broadcasters.go\<close>).
\<close>

section \<open>The manifest\<close>

record manifestEntry =
  me_Ordinal :: int
  me_CustomID :: string
  me_RequestID :: string
  me_Rejected :: bool
  me_ErrorCode :: string
  me_ResultKey :: string
  me_ResultBytes :: int
  me_ResultSHA256 :: string
  me_ErrLine :: string

type_synonym requestManifest = "manifestEntry list"

definition resumableResultKey :: "string \<Rightarrow> string \<Rightarrow> string" where
  "resumableResultKey batchID requestID = ''results/'' @ batchID @ ''/'' @ requestID @ ''.jsonl''"

definition rejectedEntry ::
  "(string \<Rightarrow> string) \<Rightarrow> string \<Rightarrow> int \<Rightarrow> string \<Rightarrow> string \<Rightarrow> string \<Rightarrow> string \<Rightarrow> manifestEntry" where
  "rejectedEntry sha256hex batchID ordinal customID requestID errorCode errLine =
    \<lparr>me_Ordinal = ordinal, me_CustomID = customID, me_RequestID = requestID, me_Rejected = True, me_ErrorCode = errorCode,
     me_ResultKey = resumableResultKey batchID requestID, me_ResultBytes = int (length errLine),
     me_ResultSHA256 = sha256hex errLine, me_ErrLine = errLine\<rparr>"

definition acceptedEntry :: "int \<Rightarrow> string \<Rightarrow> string \<Rightarrow> manifestEntry" where
  "acceptedEntry ordinal customID requestID =
    \<lparr>me_Ordinal = ordinal, me_CustomID = customID, me_RequestID = requestID, me_Rejected = False, me_ErrorCode = [],
     me_ResultKey = [], me_ResultBytes = 0, me_ResultSHA256 = [], me_ErrLine = []\<rparr>"

definition activationEntry :: "manifestEntry \<Rightarrow> ResumableActivationEntry" where
  "activationEntry e =
    \<lparr>ae_RequestID = me_RequestID e, ae_Ordinal = me_Ordinal e, ae_CustomID = me_CustomID e,
     ae_Status = (if me_Rejected e then ResumableEntryFailed else ResumableEntryPending),
     ae_ErrorCode = (if me_Rejected e then me_ErrorCode e else []),
     ae_ResultKey = (if me_Rejected e then me_ResultKey e else []),
     ae_ResultBytes = (if me_Rejected e then me_ResultBytes e else 0),
     ae_ResultSHA256 = (if me_Rejected e then me_ResultSHA256 e else [])\<rparr>"

definition activationEntries :: "requestManifest \<Rightarrow> ResumableActivationEntry list" where
  "activationEntries m = map activationEntry m"

section \<open>The result sink\<close>

record durable =
  du_db :: db
  du_files :: files

record batchResultStore =
  rst_batchID :: string
  rst_folder :: string
  rst_processorID :: string
  rst_epoch :: int

definition newBatchResultStore :: "(string \<Rightarrow> string) \<Rightarrow> string \<Rightarrow> string \<Rightarrow> string \<Rightarrow> int \<Rightarrow> batchResultStore res" where
  "newBatchResultStore sha256hex batchID tenantID processorID epoch =
    (case GetFolderNameByTenantID sha256hex tenantID of
       Inl e \<Rightarrow> Inl e
     | Inr folder \<Rightarrow> Inr \<lparr>rst_batchID = batchID, rst_folder = folder, rst_processorID = processorID, rst_epoch = epoch\<rparr>)"

text \<open>
  The environment of one checkpoint: the connections of its statements, the
  database clock, whether each access to the file store works, and the fresh
  identifier of a fallback key.
\<close>

record sink_env =
  se_find :: conn
  se_commit :: conn
  se_verify :: conn
  se_now :: instant
  se_put :: bool
  se_read :: bool
  se_put2 :: bool
  se_remove :: bool
  se_uuid :: string

definition verifyStored :: "(string \<Rightarrow> string) \<Rightarrow> bool \<Rightarrow> string \<Rightarrow> string \<Rightarrow> string \<Rightarrow> int \<Rightarrow> files \<Rightarrow> bool" where
  "verifyStored sha256hex io folder key digest sz fs =
    (case Retrieve io key folder fs of
       Inl e \<Rightarrow> False
     | Inr (data, md) \<Rightarrow> md_Size md = sz \<and> sha256hex data = digest)"

definition fallbackKey :: "string \<Rightarrow> string \<Rightarrow> string \<Rightarrow> string" where
  "fallbackKey batchID requestID uuid = ''results/'' @ batchID @ ''/'' @ requestID @ ''.'' @ uuid @ ''.jsonl''"

definition storeObject ::
  "(string \<Rightarrow> string) \<Rightarrow> batchResultStore \<Rightarrow> sink_env \<Rightarrow> string \<Rightarrow> string \<Rightarrow> string \<Rightarrow> int \<Rightarrow> files \<Rightarrow> string res \<times> files" where
  "storeObject sha256hex st env requestID line digest sz fs =
    (let key = resumableResultKey (rst_batchID st) requestID in
     case Store (se_put env) key (rst_folder st) 0 0 [line] False fs of
       (Inr _, fs') \<Rightarrow> (Inr key, fs')
     | (Inl e, fs') \<Rightarrow>
         if e \<noteq> ErrFileExists then (Inl e, fs')
         else if verifyStored sha256hex (se_read env) (rst_folder st) key digest sz fs' then (Inr key, fs')
         else let fallback = fallbackKey (rst_batchID st) requestID (se_uuid env)
              in (case Store (se_put2 env) fallback (rst_folder st) 0 0 [line] False fs' of
                    (Inr _, fs'') \<Rightarrow> (Inr fallback, fs'')
                  | (Inl e2, fs'') \<Rightarrow> (Inl e2, fs'')))"

definition result_of :: "ResultItem \<Rightarrow> string \<Rightarrow> int \<Rightarrow> string \<Rightarrow> ResumableResult" where
  "result_of msg digest sz key =
    \<lparr>rr_Status = (if Succeeded msg then ResumableEntryCompleted else ResumableEntryFailed), rr_ResultKey = key,
     rr_ResultBytes = sz, rr_ResultSHA256 = digest,
     rr_ErrorCode = (if Succeeded msg then [] else case ri_Error msg of None \<Rightarrow> [] | Some oe \<Rightarrow> er_Code oe)\<rparr>"

definition sink_Checkpoint ::
  "(string \<Rightarrow> string) \<Rightarrow> batchResultStore \<Rightarrow> sink_env \<Rightarrow> ResultItem \<Rightarrow> string \<Rightarrow> string \<Rightarrow> int \<Rightarrow> durable \<Rightarrow> bool res \<times> durable" where
  "sink_Checkpoint sha256hex st env msg line digest sz s =
    (case FindEntryByRequestID (se_find env) (rst_batchID st) (ri_RequestID msg) (du_db s) of
       Inl e \<Rightarrow> (Inl e, s)
     | Inr entry \<Rightarrow>
         if (case entry of None \<Rightarrow> False | Some e \<Rightarrow> entry_terminal (re_Status e)) then (Inr False, s)
         else (case storeObject sha256hex st env (ri_RequestID msg) line digest sz (du_files s) of
             (Inl e, fs) \<Rightarrow> (Inl e, s\<lparr>du_files := fs\<rparr>)
           | (Inr key, fs) \<Rightarrow>
               (case CheckpointEntryResult (se_commit env) (se_verify env) (se_now env) (rst_batchID st) (ri_RequestID msg)
                       (rst_processorID st) (rst_epoch st) (result_of msg digest sz key) (du_db s) of
                  (Inl e, db') \<Rightarrow> (Inl e, s\<lparr>du_db := db', du_files := fs\<rparr>)
                | (Inr committed, db') \<Rightarrow>
                    (Inr committed, s\<lparr>du_db := db', du_files :=
                       (if committed \<or> key = resumableResultKey (rst_batchID st) (ri_RequestID msg) then fs
                        else snd (Delete (se_remove env) key (rst_folder st) fs))\<rparr>))))"

definition putRejectedObject ::
  "(string \<Rightarrow> string) \<Rightarrow> batchResultStore \<Rightarrow> bool \<Rightarrow> bool \<Rightarrow> manifestEntry \<Rightarrow> files \<Rightarrow> unit res \<times> files" where
  "putRejectedObject sha256hex st io io2 e fs =
    (case Store io (me_ResultKey e) (rst_folder st) 0 0 [me_ErrLine e] False fs of
       (Inr _, fs') \<Rightarrow> (Inr (), fs')
     | (Inl er, fs') \<Rightarrow>
         if er \<noteq> ErrFileExists then (Inl er, fs')
         else if verifyStored sha256hex io2 (rst_folder st) (me_ResultKey e) (me_ResultSHA256 e) (me_ResultBytes e) fs'
         then (Inr (), fs')
         else (Inl (ErrOther ''rejected result holds unexpected bytes''), fs'))"

section \<open>Activation, lease and dispatch fence\<close>

fun put_rejected ::
  "(string \<Rightarrow> string) \<Rightarrow> batchResultStore \<Rightarrow> (string \<Rightarrow> bool) \<Rightarrow> (string \<Rightarrow> bool) \<Rightarrow> requestManifest \<Rightarrow> files \<Rightarrow> unit res \<times> files" where
  "put_rejected sha256hex st io io2 [] fs = (Inr (), fs)"
| "put_rejected sha256hex st io io2 (e # es) fs =
    (if \<not> me_Rejected e then put_rejected sha256hex st io io2 es fs
     else (case putRejectedObject sha256hex st (io (me_RequestID e)) (io2 (me_RequestID e)) e fs of
         (Inl er, fs') \<Rightarrow> (Inl er, fs')
       | (Inr _, fs') \<Rightarrow> put_rejected sha256hex st io io2 es fs'))"

record activation_env =
  av_conn :: conn
  av_now :: instant
  av_put :: "string \<Rightarrow> bool"
  av_read :: "string \<Rightarrow> bool"
  av_lease :: duration

text \<open>
  \<^verbatim>\<open>activateResumable\<close>: the sink writes at the identity of the running processor, while the
  activation is fenced on the owner recorded in the item.
\<close>

definition activateResumable ::
  "(string \<Rightarrow> string) \<Rightarrow> activation_env \<Rightarrow> string \<Rightarrow> BatchItem \<Rightarrow> JobInfo \<Rightarrow> requestManifest \<Rightarrow> durable
    \<Rightarrow> batchResultStore res \<times> durable" where
  "activateResumable sha256hex env self jobItem jobInfo manifest s =
    (case newBatchResultStore sha256hex (bi_ID jobItem) (ji_TenantID jobInfo) self (bi_Epoch jobItem) of
       Inl e \<Rightarrow> (Inl e, s)
     | Inr st \<Rightarrow>
         (case put_rejected sha256hex st (av_put env) (av_read env) manifest (du_files s) of
            (Inl e, fs) \<Rightarrow> (Inl e, s\<lparr>du_files := fs\<rparr>)
          | (Inr _, fs) \<Rightarrow>
              (case ActivateResumableBatch (av_conn env) (av_now env)
                      \<lparr>ac_BatchID = bi_ID jobItem, ac_ProcessorID = bi_ProcessorID jobItem, ac_Epoch = bi_Epoch jobItem,
                       ac_LeaseTTL = av_lease env, ac_Entries = activationEntries manifest\<rparr> (du_db s) of
                 (Inl e, db') \<Rightarrow> (Inl e, s\<lparr>du_db := db', du_files := fs\<rparr>)
               | (Inr _, db') \<Rightarrow> (Inr st, s\<lparr>du_db := db', du_files := fs\<rparr>))))"

text \<open>
  One tick of \<^verbatim>\<open>renewBatchLease\<close>: whether the loop goes on, whether it reports a lost
  ownership, and the database.
\<close>

definition renew_tick ::
  "conn \<Rightarrow> instant \<Rightarrow> duration \<Rightarrow> string \<Rightarrow> BatchItem \<Rightarrow> db \<Rightarrow> bool \<times> bool \<times> db" where
  "renew_tick c now ttl self jobItem s =
    (case RenewResumableBatchLease c now (bi_ID jobItem) self (bi_Epoch jobItem) ttl s of
       (Inr _, s') \<Rightarrow> (True, False, s')
     | (Inl e, s') \<Rightarrow> if e = ErrConflict then (False, True, s') else (True, False, s'))"

record mark_env =
  mk_conn :: conn
  mk_verify :: conn
  mk_now :: instant

definition markEntryInFlightHook ::
  "string \<Rightarrow> int \<Rightarrow> string \<Rightarrow> mark_env \<Rightarrow> RequestItem \<Rightarrow> db \<Rightarrow> bool res \<times> db" where
  "markEntryInFlightHook jobID epoch self env msg s =
    MarkEntryInFlight (mk_conn env) (mk_verify env) (mk_now env) jobID (rq_RequestID msg) self epoch s"

definition residueGate :: "conn \<Rightarrow> db \<Rightarrow> string \<Rightarrow> bool res" where
  "residueGate c s requestID = (case HasOpenEntryByRequest c requestID s of Inl e \<Rightarrow> Inl e | Inr op \<Rightarrow> Inr (\<not> op))"

section \<open>Objects\<close>

lemma copy_unlimited:
  "copy_chunks [line] False (new_reader 0 0) = Inr ((after_bytes 0 0 line)\<lparr>LineCount := line_count line\<rparr>)"
  using copy_chunks_from [of 0 "[]" 0 "[line]" False] by (simp add: new_reader_start within_def limits_ok_def)

lemma Store_unlimited:
  assumes "resolvePath folder key = Inr p"
  shows "Store io key folder 0 0 [line] False fs =
    (if map_of fs p \<noteq> None then (Inl ErrFileExists, fs)
     else if \<not> io then (Inl (ErrOther ''filesystem''), fs)
     else (Inr \<lparr>md_Size = int (length line), md_LinesNumber = line_count line\<rparr>, (p, line) # fs))"
  using copy_unlimited assms by (simp add: Store_def del: copy_chunks.simps)

text \<open>The object under a key, and that it has the recorded size and digest.\<close>

definition object_at :: "string \<Rightarrow> string \<Rightarrow> files \<Rightarrow> string option" where
  "object_at folder key fs = (case resolvePath folder key of Inl e \<Rightarrow> None | Inr p \<Rightarrow> map_of fs p)"

definition holds_object :: "(string \<Rightarrow> string) \<Rightarrow> string \<Rightarrow> string \<Rightarrow> int \<Rightarrow> string \<Rightarrow> files \<Rightarrow> bool" where
  "holds_object sha256hex folder key sz digest fs =
    (case object_at folder key fs of None \<Rightarrow> False | Some d \<Rightarrow> int (length d) = sz \<and> sha256hex d = digest)"

definition more_files :: "files \<Rightarrow> files \<Rightarrow> bool" where
  "more_files fs fs' = (\<forall>p d. map_of fs p = Some d \<longrightarrow> map_of fs' p = Some d)"

lemma holds_object_more: "more_files fs fs' \<Longrightarrow> holds_object sha folder key sz dg fs \<Longrightarrow> holds_object sha folder key sz dg fs'"
  by (auto simp: more_files_def holds_object_def object_at_def split: sum.splits option.splits)

lemma Store_more: "more_files fs (snd (Store io key folder 0 0 [line] False fs))"
proof (cases "resolvePath folder key")
  case (Inl e)
  then show ?thesis by (simp add: Store_def more_files_def)
next
  case (Inr p)
  show ?thesis by (auto simp: Store_unlimited [OF Inr] more_files_def)
qed

lemma Store_Ok_object:
  assumes "Store io key folder 0 0 [line] False fs = (Inr md, fs')"
  shows "holds_object sha folder key (int (length line)) (sha line) fs' \<and> object_at folder key fs = None"
proof (cases "resolvePath folder key")
  case (Inl e)
  with assms show ?thesis by (simp add: Store_def)
next
  case (Inr p)
  with assms show ?thesis by (auto simp: Store_unlimited [OF Inr] holds_object_def object_at_def split: if_splits)
qed

lemma Store_Inl: "Store io key folder sz ln chunks eof fs = (Inl e, fs') \<Longrightarrow> fs' = fs"
  by (auto simp: Store_def split: sum.splits if_splits)

lemma verifyStored_object: "verifyStored sha io folder key dg sz fs \<Longrightarrow> holds_object sha folder key sz dg fs"
  by (auto simp: verifyStored_def Retrieve_def holds_object_def object_at_def split: sum.splits option.splits if_splits)

lemma more_files_refl [simp]: "more_files fs fs"
  by (simp add: more_files_def)

lemma more_files_trans: "more_files a b \<Longrightarrow> more_files b c \<Longrightarrow> more_files a c"
  by (simp add: more_files_def)

text \<open>
  What \<^verbatim>\<open>storeObject\<close> guarantees: no object disappears or changes, the object under the
  returned key has the size and digest of the line, and a fallback key was free.
\<close>

lemma storeObject_spec:
  assumes "storeObject sha st env q line (sha line) (int (length line)) fs = (r, fs')"
  shows "more_files fs fs'"
    and "r = Inr key \<Longrightarrow> holds_object sha (rst_folder st) key (int (length line)) (sha line) fs'"
    and "r = Inr key \<Longrightarrow> key \<noteq> resumableResultKey (rst_batchID st) q \<Longrightarrow> object_at (rst_folder st) key fs = None"
proof -
  let ?key = "resumableResultKey (rst_batchID st) q"
  let ?fb = "fallbackKey (rst_batchID st) q (se_uuid env)"
  obtain r1 fs1 where s1: "Store (se_put env) ?key (rst_folder st) 0 0 [line] False fs = (r1, fs1)" by fastforce
  obtain r2 fs2 where s2: "Store (se_put2 env) ?fb (rst_folder st) 0 0 [line] False fs1 = (r2, fs2)" by fastforce
  have m1: "more_files fs fs1" and m2: "more_files fs1 fs2"
    using Store_more [of fs "se_put env" ?key "rst_folder st" line] Store_more [of fs1 "se_put2 env" ?fb "rst_folder st" line] s1 s2
    by simp_all
  have e1: "r1 = Inl ErrFileExists \<Longrightarrow> fs1 = fs"
    using s1 Store_Inl by simp
  have o1: "r1 = Inr x \<Longrightarrow> holds_object sha (rst_folder st) ?key (int (length line)) (sha line) fs1" for x
    using s1 Store_Ok_object by simp
  have o2: "r2 = Inr x \<Longrightarrow> holds_object sha (rst_folder st) ?fb (int (length line)) (sha line) fs2 \<and> object_at (rst_folder st) ?fb fs1 = None" for x
    using s2 Store_Ok_object by simp
  note defs = storeObject_def Let_def s1 s2
  show "more_files fs fs'"
    using assms m1 more_files_trans [OF m1 m2] by (auto simp: defs split: sum.splits if_splits)
  show "holds_object sha (rst_folder st) key (int (length line)) (sha line) fs'" if "r = Inr key"
    using assms that o1 o2
    by (auto simp: defs split: sum.splits if_splits dest: verifyStored_object)
  show "object_at (rst_folder st) key fs = None" if "r = Inr key" "key \<noteq> ?key"
  proof -
    have "key = ?fb \<and> r1 = Inl ErrFileExists \<and> (\<exists>x. r2 = Inr x)"
      using assms that by (auto simp: defs split: sum.splits if_splits)
    with o2 e1 show ?thesis by auto
  qed
qed

section \<open>The sink keeps its contract\<close>

text \<open>
  What may happen to one batch: its row evolves or disappears, and while it is
  there its entries evolve.
\<close>

definition batch_evolves :: "string \<Rightarrow> db \<Rightarrow> db \<Rightarrow> bool" where
  "batch_evolves k s s' =
    ((\<forall>r'. find_item k s' = Some r' \<longrightarrow> (\<exists>r. find_item k s = Some r \<and> row_evolves r r'))
     \<and> (\<forall>q e. find_entry (k, q) s = Some e \<longrightarrow> find_item k s' \<noteq> None \<longrightarrow> (\<exists>e'. find_entry (k, q) s' = Some e' \<and> entry_evolves e e')))"

lemma db_evolves_batch: "db_evolves s s' \<Longrightarrow> batch_evolves k s s'"
  unfolding db_evolves_def batch_evolves_def by (metis fst_conv)

text \<open>A request of batch \<open>k\<close> is accounted for when its entry is terminal, or the batch is gone.\<close>

definition accounted :: "string \<Rightarrow> string \<Rightarrow> durable \<Rightarrow> bool" where
  "accounted k q s = (find_item k (du_db s) = None
     \<or> (\<exists>en. find_entry (k, q) (du_db s) = Some en \<and> entry_terminal (en_status en)))"

text \<open>Every terminal entry of the batch has its object, with the recorded size and digest.\<close>

definition objects_ok :: "(string \<Rightarrow> string) \<Rightarrow> string \<Rightarrow> string \<Rightarrow> durable \<Rightarrow> bool" where
  "objects_ok sha256hex folder k s =
    (\<forall>q en. find_entry (k, q) (du_db s) = Some en \<and> entry_terminal (en_status en) \<longrightarrow>
       holds_object sha256hex folder (unnull (en_key en)) (case en_bytes en of None \<Rightarrow> 0 | Some n \<Rightarrow> n) (unnull (en_sha en)) (du_files s))"

definition durable_ok :: "(string \<Rightarrow> string) \<Rightarrow> string \<Rightarrow> string \<Rightarrow> durable \<Rightarrow> bool" where
  "durable_ok sha256hex folder k s = (db_ok (du_db s) \<and> objects_ok sha256hex folder k s)"

text \<open>
  What the rest of the system may do between two steps of the owner: keep the
  integrity of the tables, let the batch evolve, and not touch the objects while a
  new terminal entry of the batch brings its own.
\<close>

definition calm :: "(string \<Rightarrow> string) \<Rightarrow> string \<Rightarrow> string \<Rightarrow> (durable \<Rightarrow> durable) \<Rightarrow> bool" where
  "calm sha256hex folder k f =
    (\<forall>s. durable_ok sha256hex folder k s \<longrightarrow> durable_ok sha256hex folder k (f s) \<and> batch_evolves k (du_db s) (du_db (f s)))"

lemma accounted_evolves:
  "batch_evolves k (du_db s) (du_db s') \<Longrightarrow> accounted k q s \<Longrightarrow> accounted k q s'"
  by (cases "find_item k (du_db s')") (fastforce simp: batch_evolves_def accounted_def entry_evolves_def)+

lemma unnull_nullable [simp]: "unnull (nullable x) = x" "0 \<le> n \<Longrightarrow> (case nullable_int n of None \<Rightarrow> 0 | Some m \<Rightarrow> m) = n"
  by (auto simp: unnull_def nullable_def nullable_int_def)

lemma Delete_free_more:
  assumes "more_files fs fs'" and "object_at folder key fs = None"
  shows "more_files fs (snd (Delete io key folder fs'))"
proof (cases "resolvePath folder key")
  case (Inl e)
  with assms show ?thesis by (simp add: Delete_def)
next
  case (Inr p)
  then have "map_of fs p = None" using assms(2) by (simp add: object_at_def)
  moreover have "map_of (filter (\<lambda>(q, d). q \<noteq> p) fs') q = (if q = p then None else map_of fs' q)" for q
    by (induction fs') auto
  ultimately show ?thesis using assms(1) Inr by (auto simp: Delete_def more_files_def)
qed

lemma objects_ok_more:
  "objects_ok sha folder k s \<Longrightarrow> more_files (du_files s) fs \<Longrightarrow> objects_ok sha folder k (s\<lparr>du_files := fs\<rparr>)"
  by (auto simp: objects_ok_def intro: holds_object_more)

lemma objects_ok_checkpoint:
  assumes ok: "objects_ok sha folder k s" and m: "more_files (du_files s) fs"
    and obj: "holds_object sha folder (rr_ResultKey res) (rr_ResultBytes res) (rr_ResultSHA256 res) fs" "0 \<le> rr_ResultBytes res"
  shows "objects_ok sha folder k (s\<lparr>du_db := put_entry (k, q) (checkpoint_eff now res) (du_db s), du_files := fs\<rparr>)"
proof -
  have "find_entry (k, q') (put_entry (k, q) (checkpoint_eff now res) (du_db s))
      = (if q' = q then map_option (checkpoint_eff now res) (find_entry (k, q') (du_db s)) else find_entry (k, q') (du_db s))" for q'
    by (subst find_entry_put) (auto simp: checkpoint_eff_def entry_key_def)
  then show ?thesis
    using ok obj holds_object_more [OF m] by (auto simp: objects_ok_def checkpoint_eff_def split: if_splits)
qed

lemma sink_commit_spec:
  assumes ok: "durable_ok sha f k s" and more: "more_files (du_files s) fs"
    and obj: "holds_object sha f (rr_ResultKey res) (rr_ResultBytes res) (rr_ResultSHA256 res) fs" "0 \<le> rr_ResultBytes res"
    and st: "rr_Status res = ResumableEntryCompleted \<or> rr_Status res = ResumableEntryFailed"
    and call: "CheckpointEntryResult c c2 now k q pid e res (du_db s) = (r, db')"
    and kept: "r = Inr False \<Longrightarrow> more_files (du_files s) fs'" "r \<noteq> Inr False \<Longrightarrow> fs' = fs"
  defines "s' \<equiv> s\<lparr>du_db := db', du_files := fs'\<rparr>"
  shows "durable_ok sha f k s' \<and> batch_evolves k (du_db s) (du_db s') \<and> (r = Inr b \<longrightarrow> accounted k q s')"
proof -
  have db: "db_ok (du_db s)" and objs: "objects_ok sha f k s" using ok by (simp_all add: durable_ok_def)
  have "db_ok db'" "batch_evolves k (du_db s) db'"
    using safeD [OF safe_CheckpointEntryResult db, of c c2 now k q pid e res] call by (simp_all add: db_evolves_batch)
  moreover from db call have "objects_ok sha f k s' \<and> (r = Inr b \<longrightarrow> accounted k q s')"
    unfolding CheckpointEntryResult_write [OF st]
  proof (cases rule: entry_write_split)
    case same
    have "more_files (du_files s) fs'" using kept more by (cases "r = Inr False") auto
    from objects_ok_more [OF objs this] same show ?thesis by (cases b) (auto simp: s'_def accounted_def)
  next
    case (written en)
    with kept have "fs' = fs" by simp
    moreover have "find_entry (k, q) db' = Some (checkpoint_eff now res en)"
      using written(1) by (simp add: written(3) find_entry_put checkpoint_eff_def entry_key_def)
    then have "accounted k q s'" using st by (auto simp: s'_def accounted_def checkpoint_eff_def entry_terminal_iff)
    ultimately show ?thesis using objects_ok_checkpoint [OF objs more obj] written by (simp add: s'_def)
  qed
  ultimately show ?thesis by (simp add: durable_ok_def s'_def)
qed

lemma sink_spec:
  assumes ok: "durable_ok sha (rst_folder st) (rst_batchID st) s"
    and call: "sink_Checkpoint sha st env msg line (sha line) (int (length line)) s = (r, s')"
  shows "durable_ok sha (rst_folder st) (rst_batchID st) s'
    \<and> batch_evolves (rst_batchID st) (du_db s) (du_db s')
    \<and> (r = Inr b \<longrightarrow> accounted (rst_batchID st) (ri_RequestID msg) s')"
proof -
  let ?k = "rst_batchID st" and ?q = "ri_RequestID msg" and ?f = "rst_folder st"
  have db: "db_ok (du_db s)" and obj: "objects_ok sha ?f ?k s" using ok by (simp_all add: durable_ok_def)
  obtain r1 fs where store: "storeObject sha st env ?q line (sha line) (int (length line)) (du_files s) = (r1, fs)" by fastforce
  have more: "more_files (du_files s) fs" by (rule storeObject_spec(1) [OF store])
  have idle: "durable_ok sha ?f ?k (s\<lparr>du_files := fs'\<rparr>) \<and> batch_evolves ?k (du_db s) (du_db s)"
    if "more_files (du_files s) fs'" for fs'
    using that db objects_ok_more [OF obj] by (simp add: durable_ok_def db_evolves_batch)
  consider (early) e where "s' = s" "r = Inl e"
    | (terminal) en where "s' = s" "find_entry (?k, ?q) (du_db s) = Some en" "entry_terminal (en_status en)"
    | (nostore) e where "r1 = Inl e" "r = Inl e" "s' = s\<lparr>du_files := fs\<rparr>"
    | (stored) key where "r1 = Inr key"
        "(case CheckpointEntryResult (se_commit env) (se_verify env) (se_now env) ?k ?q (rst_processorID st) (rst_epoch st)
                (result_of msg (sha line) (int (length line)) key) (du_db s) of
            (Inl e, db') \<Rightarrow> (Inl e, s\<lparr>du_db := db', du_files := fs\<rparr>)
          | (Inr committed, db') \<Rightarrow> (Inr committed, s\<lparr>du_db := db', du_files :=
               (if committed \<or> key = resumableResultKey ?k ?q then fs else snd (Delete (se_remove env) key ?f fs))\<rparr>)) = (r, s')"
    using call store
    by (cases r1; cases "se_find env"; cases "find_entry (?k, ?q) (du_db s)")
      (auto simp: sink_Checkpoint_def FindEntryByRequestID_def scanEntryRow_def split: if_splits)
  then show ?thesis
  proof cases
    case early
    with ok show ?thesis by (simp add: db_evolves_batch)
  next
    case terminal
    with ok show ?thesis by (auto simp: accounted_def db_evolves_batch)
  next
    case nostore
    with idle [OF more] show ?thesis by simp
  next
    case (stored key)
    let ?res = "result_of msg (sha line) (int (length line)) key"
    let ?del = "snd (Delete (se_remove env) key ?f fs)"
    obtain r2 db' where ck: "CheckpointEntryResult (se_commit env) (se_verify env) (se_now env) ?k ?q (rst_processorID st)
        (rst_epoch st) ?res (du_db s) = (r2, db')" by fastforce
    define fs' where "fs' = (if r2 = Inr False \<and> key \<noteq> resumableResultKey ?k ?q then ?del else fs)"
    have s': "r = r2 \<and> s' = s\<lparr>du_db := db', du_files := fs'\<rparr>"
      using stored(2) ck by (cases r2) (auto simp: fs'_def split: if_splits)
    have "holds_object sha ?f (rr_ResultKey ?res) (rr_ResultBytes ?res) (rr_ResultSHA256 ?res) fs"
      using storeObject_spec(2) [OF store stored(1)] by (simp add: result_of_def)
    moreover have "more_files (du_files s) fs'" "r2 \<noteq> Inr False \<Longrightarrow> fs' = fs"
      using more Delete_free_more [OF more storeObject_spec(3) [OF store stored(1)]] by (simp_all add: fs'_def)
    ultimately show ?thesis
      using sink_commit_spec [OF ok more _ _ _ ck, of fs' b] s'
      by (cases "Succeeded msg") (simp_all add: result_of_def)
  qed
qed

text \<open>The sink of a batch implements the interface the checkpointer drains into.\<close>

interpretation batch_sink: durable_sink "sink_Checkpoint sha st" sha "durable_ok sha (rst_folder st) (rst_batchID st)"
  "accounted (rst_batchID st)" "calm sha (rst_folder st) (rst_batchID st)" for sha st
proof
  fix s line e msg q
  let ?call = "sink_Checkpoint sha st e msg line (sha line) (int (length line)) s"
  assume ok: "durable_ok sha (rst_folder st) (rst_batchID st) s"
  have spec: "durable_ok sha (rst_folder st) (rst_batchID st) (snd ?call)
      \<and> batch_evolves (rst_batchID st) (du_db s) (du_db (snd ?call))"
    using sink_spec [OF ok, of e msg line "fst ?call" "snd ?call"] by simp
  show "durable_ok sha (rst_folder st) (rst_batchID st) (snd ?call)" using spec by simp
  show "accounted (rst_batchID st) q (snd ?call)" if "accounted (rst_batchID st) q s"
    using accounted_evolves that spec by blast
  show "accounted (rst_batchID st) (ri_RequestID msg) s'" if "?call = (Inr b, s')" for b s'
    using sink_spec [OF ok that, of b] by simp
next
  fix f s q
  assume "calm sha (rst_folder st) (rst_batchID st) f" and ok: "durable_ok sha (rst_folder st) (rst_batchID st) s"
  then have "durable_ok sha (rst_folder st) (rst_batchID st) (f s)" and "batch_evolves (rst_batchID st) (du_db s) (du_db (f s))"
    by (simp_all add: calm_def)
  then show "durable_ok sha (rst_folder st) (rst_batchID st) (f s)"
    and "accounted (rst_batchID st) q s \<Longrightarrow> accounted (rst_batchID st) q (f s)"
    using accounted_evolves by blast+
qed

section \<open>A superseded owner\<close>

text \<open>
  Another owner took the batch at a higher epoch; from then on no state of the
  batch makes the old owner its holder again.
\<close>

definition superseded :: "string \<Rightarrow> int \<Rightarrow> db \<Rightarrow> bool" where
  "superseded k e s = (case find_item k s of None \<Rightarrow> True | Some r \<Rightarrow> e < row_epoch r)"

lemma superseded_stable: "db_evolves s s' \<Longrightarrow> superseded k e s \<Longrightarrow> superseded k e s'"
  by (cases "find_item k s'") (force simp: superseded_def db_evolves_def row_evolves_def)+

lemma superseded_no_lock: "db_ok s \<Longrightarrow> superseded k e s \<Longrightarrow> \<not> owner_lock now k pid e s"
  by (auto simp: owner_lock_iff superseded_def renew_guard_def split: option.splits)

text \<open>\<open>pre_loop\<close> under the marking hook: what a superseded owner gets done.\<close>

lemma hook_superseded:
  assumes "db_ok s" and "superseded k e s" and "markEntryInFlightHook k e pid env msg s = (r, s')"
  shows "s' = s \<and> (\<forall>b. r = Inr b \<longrightarrow> \<not> b)"
proof -
  have noop: "entry_stmt (mk_now env) k (rq_RequestID msg) pid e (mark_eff pid) s = (0, s)"
    using superseded_no_lock [OF assms(1,2)] by (simp add: entry_stmt_def update_entries_def sql_count_def sql_update_def)
  then show ?thesis
    using assms(3) by (cases "mk_conn env")
      (auto simp: markEntryInFlightHook_def MarkEntryInFlight_def entry_write_def split: sum.splits)
qed

lemma pre_loop_superseded:
  assumes "list_all (\<lambda>(env, msg). \<forall>s. db_ok s \<longrightarrow> db_ok (pe_system env s) \<and> db_evolves s (pe_system env s)) msgs"
    and "db_ok s" and "superseded k e s"
  shows "fst (snd (pre_loop errText (markEntryInFlightHook k e pid) msgs s)) = []"
  using assms
proof (induction msgs arbitrary: s)
  case (Cons a msgs)
  obtain env msg where a: "a = (env, msg)" by fastforce
  let ?s = "pe_system env s"
  have s: "db_ok ?s" "superseded k e ?s" using Cons.prems a superseded_stable [of s ?s] by auto
  obtain r s1 where h: "markEntryInFlightHook k e pid (pe_hook env) msg ?s = (r, s1)" by fastforce
  note hs = hook_superseded [OF s h]
  have "fst (snd (pre_loop errText (markEntryInFlightHook k e pid) msgs ?s)) = []"
    using Cons.IH [OF _ s] Cons.prems(1) by simp
  then show ?case
    using h hs by (cases r) (auto simp: a Let_def split: option.split prod.split)
qed simp

section \<open>A sample drain\<close>

definition sample_store :: batchResultStore where
  "sample_store = \<lparr>rst_batchID = ''b1'', rst_folder = ''f'', rst_processorID = ''p'', rst_epoch = 1\<rparr>"

definition sample_sink_env :: sink_env where
  "sample_sink_env = \<lparr>se_find = ConnOk, se_commit = ConnOk, se_verify = ConnOk, se_now = 50, se_put = True, se_read = True,
     se_put2 = True, se_remove = True, se_uuid = ''u''\<rparr>"

definition sample_durable :: durable where
  "sample_durable = \<lparr>du_db = active_db, du_files = []\<rparr>"

definition sample_pending :: PendingRequests where
  "sample_pending = pending_Store (sample_request_item\<lparr>rq_RequestID := ''r2''\<rparr>) NewPendingRequests"

definition sample_answer :: GenerateResponse where
  "sample_answer = \<lparr>gr_RequestID = ''r2'', gr_Response = ''{}'', gr_StatusCode = 200, gr_ErrorCode = [], gr_ErrorMessage = [],
     gr_HadCapacityRetry = False\<rparr>"

definition sample_drain :: "error option \<times> durable drain_state" where
  "sample_drain = Drain (\<lambda>l. Inr ''line'') id (sink_Checkpoint id sample_store)
     [(\<lparr>de_pending = id, de_system = id, de_sink = sample_sink_env\<rparr>, (asyncResult (\<lambda>b. True) sample_answer)\<lparr>ri_Ack := Some 0\<rparr>)]
     sample_pending (NewProgressTracker 2) sample_durable"

lemma sample_store_id: "rst_batchID sample_store = ''b1''"
  by (simp add: sample_store_def)

lemma calm_id: "calm sha folder k id"
  by (simp add: calm_def db_evolves_batch)

lemma sample_durable_ok: "durable_ok sha folder ''b1'' sample_durable"
proof -
  have "objects_ok sha folder ''b1'' sample_durable"
    by (auto simp: objects_ok_def sample_durable_def find_entry_def active_db_def sample_entry_def entry_key_def
        entry_terminal_iff by_key_def split: if_splits)
  then show ?thesis by (simp add: durable_ok_def sample_durable_def)
qed

lemma sample_drain_acked:
  "map ri_RequestID (dr_acked (snd sample_drain)) = [''r2'']" "find_item ''b1'' (du_db (dr_store (snd sample_drain))) \<noteq> None"
  by code_simp+

definition sample_feed :: "((mark_env, db) pre_env \<times> RequestItem) list" where
  "sample_feed = [(\<lparr>pe_done = None, pe_now = 50, pe_system = id, pe_hook = \<lparr>mk_conn = ConnOk, mk_verify = ConnOk, mk_now = 50\<rparr>\<rparr>,
     sample_request_item)]"

section \<open>Properties of the durable pipeline\<close>

text \<open>
  C5: A delivery is acknowledged only after its result is durable. However the
  deliveries of a batch arrive, whatever fails on the way and whatever the rest of
  the system does between two of them, for every delivery the checkpointer has
  acknowledged, either the batch is gone or its entry is terminal and the file
  store holds an object with the recorded size and digest under the recorded key.
\<close>

theorem ack_only_after_checkpoint:
  assumes "durable_ok sha (rst_folder st) (rst_batchID st) s"
    and "list_all (\<lambda>(env, msg). calm sha (rst_folder st) (rst_batchID st) (de_system env)) msgs"
    and "Drain marshal sha (sink_Checkpoint sha st) msgs pend pt s = (err, d)"
    and "m \<in> set (dr_acked d)"
  shows "find_item (rst_batchID st) (du_db (dr_store d)) = None
    \<or> (\<exists>en. find_entry (rst_batchID st, ri_RequestID m) (du_db (dr_store d)) = Some en \<and> entry_terminal (en_status en)
         \<and> holds_object sha (rst_folder st) (unnull (en_key en)) (case en_bytes en of None \<Rightarrow> 0 | Some n \<Rightarrow> n) (unnull (en_sha en))
             (du_files (dr_store d)))"
  using batch_sink.acks_are_accounted [OF assms(2,1,3,4)] batch_sink.drained_good [OF assms(2,1,3)]
  by (auto simp: accounted_def durable_ok_def objects_ok_def)

theorem ack_only_after_checkpoint_witness:
  "\<exists>en. find_entry (''b1'', ''r2'') (du_db (dr_store (snd sample_drain))) = Some en \<and> entry_terminal (en_status en)"
proof -
  obtain m where m: "m \<in> set (dr_acked (snd sample_drain))" "ri_RequestID m = ''r2''"
    using sample_drain_acked(1) by (cases "dr_acked (snd sample_drain)") auto
  obtain err d where sd: "sample_drain = (err, d)" by fastforce
  show ?thesis
    using ack_only_after_checkpoint [OF sample_durable_ok [folded sample_store_id] _ sd [unfolded sample_drain_def], of m]
      m sample_drain_acked(2) calm_id
    by (auto simp: sd sample_store_id)
qed

text \<open>
  An owner that was superseded dispatches nothing. Once the batch is gone or
  another processor took it at a higher epoch, the loop that feeds the dispatcher
  forwards no request any more, whatever happens between its steps and whichever of
  its statements fail.
\<close>

theorem superseded_owner_dispatches_nothing:
  assumes "db_ok s" and "superseded k e s"
    and "list_all (\<lambda>(env, msg). \<forall>s. db_ok s \<longrightarrow> db_ok (pe_system env s) \<and> db_evolves s (pe_system env s)) msgs"
    and "pre_loop errText (markEntryInFlightHook k e pid) msgs s = (out, dispatched, s')"
  shows "dispatched = []"
  using pre_loop_superseded [OF assms(3,1,2), of errText pid] assms(4) by simp

theorem superseded_owner_dispatches_nothing_witness:
  "superseded ''b1'' 0 active_db
   \<and> fst (snd (pre_loop (\<lambda>e. []) (markEntryInFlightHook ''b1'' 0 ''p'') sample_feed active_db)) = []
   \<and> length (fst (snd (pre_loop (\<lambda>e. []) (markEntryInFlightHook ''b1'' 1 ''p'') sample_feed active_db))) = 1"
proof (intro conjI)
  show old: "superseded ''b1'' 0 active_db"
    by (simp add: superseded_def active_facts) (simp add: active_row_def)
  obtain out dispatched s' where feed: "pre_loop (\<lambda>e. []) (markEntryInFlightHook ''b1'' 0 ''p'') sample_feed active_db = (out, dispatched, s')"
    by (metis prod_cases3)
  show "fst (snd (pre_loop (\<lambda>e. []) (markEntryInFlightHook ''b1'' 0 ''p'') sample_feed active_db)) = []"
    using superseded_owner_dispatches_nothing [OF active_db_ok old _ feed] feed by (simp add: sample_feed_def)
  show "length (fst (snd (pre_loop (\<lambda>e. []) (markEntryInFlightHook ''b1'' 1 ''p'') sample_feed active_db))) = 1"
    by code_simp
qed

text \<open>
  C34: A delivery that no running batch owns is acknowledged only when no work
  depends on it: nobody is handed it, no subscriber owns it, and every entry with
  its request identifier is terminal, so it stays as it is for as long as its batch
  exists.
\<close>

theorem residue_ack_safe:
  assumes "route subscribers (Some (residueGate c s)) result = (targets, True)" and "db_evolves s s'"
  shows "targets = [] \<and> (\<forall>(ch, owns) \<in> set subscribers. \<exists>f. owns = Some f \<and> \<not> f (ri_RequestID result))
    \<and> (\<forall>k en. find_entry (k, ri_RequestID result) s = Some en \<longrightarrow>
          entry_terminal (en_status en) \<and> (find_item k s' \<noteq> None \<longrightarrow> find_entry (k, ri_RequestID result) s' = Some en))"
proof -
  let ?q = "ri_RequestID result"
  have none: "filter (\<lambda>(ch, owns). case owns of None \<Rightarrow> True | Some f \<Rightarrow> f ?q) subscribers = []" and t: "targets = []"
    and gate: "residueGate c s ?q = Inr True"
    using assms(1) by (auto simp: route_def Let_def split: if_splits)
  have fin: "entry_terminal (en_status en)" if "find_entry (k, ?q) s = Some en" for k en
  proof -
    from that have "en \<in> set (batch_entries s)" "en_request en = ?q"
      by (auto simp: find_entry_def entry_key_def dest: by_key_SomeD)
    with gate show ?thesis
      by (cases "en_status en") (auto simp: residueGate_def HasOpenEntryByRequest_def list_ex_iff entry_terminal_iff split: if_splits)
  qed
  then have "find_entry (k, ?q) s' = Some en" if "find_entry (k, ?q) s = Some en" "find_item k s' \<noteq> None" for k en
    using that assms(2) by (fastforce simp: db_evolves_def entry_evolves_def)
  with none t fin show ?thesis by (auto simp: filter_empty_conv split: option.splits)
qed

theorem residue_ack_safe_witness:
  "let s = du_db (dr_store (snd sample_drain)); r = (bare_result ''r2'')\<lparr>ri_Ack := Some 0\<rparr>
   in route [(0, Some (\<lambda>q. q = ''r1''))] (Some (residueGate ConnOk s)) r = ([], True)
      \<and> (\<exists>en. find_entry (''b1'', ''r2'') s = Some en \<and> entry_terminal (en_status en))
      \<and> route [] (Some (residueGate ConnOk active_db)) r = ([], False)"
proof -
  let ?s = "du_db (dr_store (snd sample_drain))" and ?r = "(bare_result ''r2'')\<lparr>ri_Ack := Some 0\<rparr>"
  have 1: "route [(0, Some (\<lambda>q. q = ''r1''))] (Some (residueGate ConnOk ?s)) ?r = ([], True)"
    and 2: "route [] (Some (residueGate ConnOk active_db)) ?r = ([], False)"
    and 3: "find_entry (''b1'', ''r2'') ?s \<noteq> None"
    by code_simp+
  with residue_ack_safe [OF 1, of ?s] show ?thesis by (auto simp: Let_def bare_result_def)
qed

text \<open>
  C35: What the checkpointer records for an answer of the queue to a request it
  still waits for: it is always accepted, and the recorded line carries the
  request's custom identifier exactly when the answer is not turned into an error;
  an answer that is turned into an error (no HTTP status, no body, or an
  unreadable body of a successful status) is recorded with an empty one.
\<close>

theorem async_result_metadata:
  assumes "map_of (pr_m p) (gr_RequestID resp) = Some msg"
  shows "fst (pending_Enrich (asyncResult parses resp) p)
    \<and> ri_CustomID (snd (pending_Enrich (asyncResult parses resp) p))
      = (if ri_Error (asyncResult parses resp) = None then rq_CustomID msg else [])
    \<and> (ri_Error (asyncResult parses resp) = None) =
      (\<not> IsNonHTTPFailure resp
       \<and> ((gr_StatusCode resp \<noteq> 0 \<and> (gr_StatusCode resp < 200 \<or> 300 \<le> gr_StatusCode resp))
          \<or> gr_Response resp \<noteq> [] \<and> parses (gr_Response resp)))"
  using assms by (auto simp: asyncResult_def pending_Enrich_def attach_def bare_result_def Let_def)

theorem async_result_metadata_witness:
  "ri_CustomID (snd (pending_Enrich (asyncResult (\<lambda>b. True) sample_answer) sample_pending)) = ''c1''
   \<and> ri_CustomID (snd (pending_Enrich (asyncResult (\<lambda>b. False) sample_answer) sample_pending)) = []"
proof -
  have p: "map_of (pr_m sample_pending) (gr_RequestID sample_answer) = Some (sample_request_item\<lparr>rq_RequestID := ''r2''\<rparr>)"
    by (simp add: sample_pending_def sample_answer_def pending_Store_def NewPendingRequests_def sample_request_item_def)
  have "\<not> IsNonHTTPFailure sample_answer" "gr_StatusCode sample_answer = 200" "gr_Response sample_answer \<noteq> []"
    by (simp_all add: sample_answer_def IsNonHTTPFailure_def)
  then show ?thesis
    using async_result_metadata [OF p] by (simp add: sample_request_item_def)
qed

end
