(* ===== verification/Finalizer.thy ===== *)
theory Finalizer
  imports Result_Store File_Db
begin

text \<open>
  Finalization of an activated batch
  (\<^verbatim>\<open>internal/processor/worker/finalizer_resumable.go\<close>, file records in
  \<^verbatim>\<open>finalizer.go\<close>): the entries are read page by page, their checkpointed result
  objects are verified and streamed into the output and the error artifact, the
  artifacts are committed with their file records, and the terminal status is
  written under the fence.
\<close>

section \<open>File records\<close>

record final_state =
  fs_db :: db
  fs_files :: files
  fs_meta :: "file_row list"

text \<open>
  The expiry of an output file: the tag of the batch if it is a positive number,
  otherwise the configured default. The API writes the tag after checking its range,
  so the sum stays within 64 bits.
\<close>

definition resolveOutputExpiration :: "int \<Rightarrow> int \<Rightarrow> tags \<Rightarrow> int" where
  "resolveOutputExpiration cfgDefault now batchTags =
    (let dflt = (if cfgDefault > 0 then now + cfgDefault else 0)
     in case map_of batchTags ''output_expires_after_seconds'' of
          None \<Rightarrow> dflt
        | Some s \<Rightarrow> (case parse_int64 s of Some ttl \<Rightarrow> if ttl > 0 then now + ttl else dflt | None \<Rightarrow> dflt))"

definition output_file :: "int \<Rightarrow> int \<Rightarrow> string \<Rightarrow> string \<Rightarrow> int \<Rightarrow> tags \<Rightarrow> FileObject" where
  "output_file cfgDefault now fileID fileName sz batchTags =
    (let e = resolveOutputExpiration cfgDefault now batchTags
     in \<lparr>fo_ID = fileID, fo_Bytes = sz, fo_CreatedAt = now, fo_ExpiresAt = (if e > 0 then Some e else None),
         fo_Filename = fileName, fo_Object = ''file'', fo_Purpose = FileObjectPurposeBatchOutput, fo_Status = ''processed''\<rparr>)"

definition storeFileRecord ::
  "conn \<Rightarrow> int \<Rightarrow> int \<Rightarrow> string \<Rightarrow> string \<Rightarrow> string \<Rightarrow> int \<Rightarrow> tags \<Rightarrow> file_row list \<Rightarrow> unit res \<times> file_row list" where
  "storeFileRecord c cfgDefault now fileID fileName tenantID sz batchTags t =
    file_DBStore c (FileToDBItem (output_file cfgDefault now fileID fileName sz batchTags) tenantID []) t"

text \<open>
  \<open>ensureFileRecord\<close>: a failed store counts as done when a record of the same file is
  already there; \<open>unix\<close> seconds are those of the instant.
\<close>

definition ensureFileRecord ::
  "conn \<Rightarrow> conn \<Rightarrow> int \<Rightarrow> instant \<Rightarrow> string \<Rightarrow> string \<Rightarrow> string \<Rightarrow> int \<Rightarrow> tags \<Rightarrow> file_row list \<Rightarrow> unit res \<times> file_row list" where
  "ensureFileRecord c c2 cfgDefault now fileID fileName tenantID sz batchTags t =
    (case storeFileRecord c cfgDefault (unix now) fileID fileName tenantID sz batchTags t of
       (Inr _, t') \<Rightarrow> (Inr (), t')
     | (Inl storeErr, t') \<Rightarrow>
         (case file_DBGet c2 now (no_file_query\<lparr>q_IDs := [fileID]\<rparr>) True 0 1 t' of
            Inr ([item], cursor, m) \<Rightarrow>
              (case DBItemToFile item of Inl e \<Rightarrow> (Inl storeErr, t') | Inr fileObj \<Rightarrow>
                  if ft_TenantID item = tenantID \<and> ft_ID item = fileID \<and> ft_Purpose item = FileObjectPurposeBatchOutput
                     \<and> fo_Filename fileObj = fileName \<and> fo_Bytes fileObj = sz
                  then (Inr (), t') else (Inl storeErr, t'))
          | _ \<Rightarrow> (Inl storeErr, t')))"

section \<open>Artifact writers\<close>

text \<open>
  In existing mode \<open>aw_seen\<close> holds the bytes fed to the digest; its length is the
  count.
\<close>

record artifactWriter =
  aw_folder :: string
  aw_key :: string
  aw_fileID :: string
  aw_writer :: "stream option"
  aw_existing :: bool
  aw_seen :: string

definition stableFileID :: "(string \<Rightarrow> string) \<Rightarrow> string \<Rightarrow> string \<Rightarrow> string" where
  "stableFileID uuid5 batchID fileType = ''file_'' @ uuid5 (batchID @ [CHR 0x00] @ fileType)"

definition jobOutputStorageName :: "string \<Rightarrow> string" where
  "jobOutputStorageName jobID = ''batch_output_'' @ jobID @ ''.jsonl''"

definition jobErrorStorageName :: "string \<Rightarrow> string" where
  "jobErrorStorageName jobID = ''batch_error_'' @ jobID @ ''.jsonl''"

definition new_writer :: "string \<Rightarrow> string \<Rightarrow> string \<Rightarrow> artifactWriter" where
  "new_writer folder key fileID =
    \<lparr>aw_folder = folder, aw_key = key, aw_fileID = fileID, aw_writer = None, aw_existing = False, aw_seen = []\<rparr>"

definition aw_ensure :: "bool \<Rightarrow> artifactWriter \<Rightarrow> files \<Rightarrow> artifactWriter res" where
  "aw_ensure io w fs =
    (if aw_writer w \<noteq> None \<or> aw_existing w then Inr w
     else case OpenStream io (aw_key w) (aw_folder w) fs of
        Inl e \<Rightarrow> if e = ErrFileExists then Inr (w\<lparr>aw_existing := True, aw_seen := []\<rparr>) else Inl e
      | Inr st \<Rightarrow> Inr (w\<lparr>aw_writer := Some st\<rparr>))"

definition aw_Write :: "bool \<Rightarrow> string \<Rightarrow> artifactWriter \<Rightarrow> artifactWriter res" where
  "aw_Write io p w =
    (if aw_existing w then Inr (w\<lparr>aw_seen := aw_seen w @ p\<rparr>)
     else if \<not> io then Inl (ErrOther ''filesystem'')
     else Inr (w\<lparr>aw_writer := map_option (stream_Write p) (aw_writer w)\<rparr>))"

definition writeResult :: "bool \<Rightarrow> bool \<Rightarrow> string \<Rightarrow> artifactWriter \<Rightarrow> files \<Rightarrow> artifactWriter res" where
  "writeResult io io2 line w fs = (case aw_ensure io w fs of Inl e \<Rightarrow> Inl e | Inr w' \<Rightarrow> aw_Write io2 line w')"

definition not_executed_line :: "ResumableEntry \<Rightarrow> BatchErrorCode \<Rightarrow> outputLine" where
  "not_executed_line e code = \<lparr>ol_ID = re_RequestID e, ol_CustomID = re_CustomID e, ol_Response = None,
     ol_Error = Some \<lparr>er_Code = code_name code, er_Message = Message code\<rparr>\<rparr>"

definition writeNotExecuted ::
  "(outputLine \<Rightarrow> string res) \<Rightarrow> bool \<Rightarrow> bool \<Rightarrow> ResumableEntry \<Rightarrow> BatchErrorCode \<Rightarrow> artifactWriter \<Rightarrow> files \<Rightarrow> artifactWriter res" where
  "writeNotExecuted marshal io io2 e code w fs =
    (case aw_ensure io w fs of
       Inl er \<Rightarrow> Inl er
     | Inr w' \<Rightarrow> (case marshal (not_executed_line e code) of Inl er \<Rightarrow> Inl er | Inr b \<Rightarrow> aw_Write io2 (b @ [newline]) w'))"

definition fetchResult :: "(string \<Rightarrow> string) \<Rightarrow> bool \<Rightarrow> string \<Rightarrow> ResumableEntry \<Rightarrow> files \<Rightarrow> string res" where
  "fetchResult sha256hex io folder e fs =
    (case Retrieve io (re_ResultKey e) folder fs of
       Inl er \<Rightarrow> Inl er
     | Inr (buf, md) \<Rightarrow>
         if int (length buf) \<noteq> re_ResultBytes e then Inl (ErrOther ''integrity: size'')
         else if sha256hex buf \<noteq> re_ResultSHA256 e then Inl (ErrOther ''integrity: digest'')
         else Inr buf)"

section \<open>Assembly\<close>

text \<open>
  Whether each access to the stores works: per artifact, and per page of entries or
  per request.
\<close>

record artifact_env =
  ar_open :: bool
  ar_commit :: bool
  ar_verify :: bool
  ar_put :: conn
  ar_get :: conn
  ar_now :: instant

record finalize_env =
  fe_list :: "nat \<Rightarrow> conn"
  fe_fetch :: "string \<Rightarrow> bool"
  fe_write :: "string \<Rightarrow> bool"
  fe_out :: artifact_env
  fe_err :: artifact_env

record assembly =
  am_counts :: BatchRequestCounts
  am_out :: artifactWriter
  am_err :: artifactWriter

definition resumableEntriesPageSize :: int where "resumableEntriesPageSize = 500"

text \<open>The results of one page; an entry that is not terminal has none. Which of several errors is reported is immaterial.\<close>

fun fetch_page :: "(string \<Rightarrow> string) \<Rightarrow> finalize_env \<Rightarrow> string \<Rightarrow> files \<Rightarrow> ResumableEntry list \<Rightarrow> string list res" where
  "fetch_page sha256hex env folder fs [] = Inr []"
| "fetch_page sha256hex env folder fs (e # es) =
    (case (if entry_terminal (re_Status e) then fetchResult sha256hex (fe_fetch env (re_RequestID e)) folder e fs else Inr []) of
       Inl er \<Rightarrow> Inl er
     | Inr buf \<Rightarrow> (case fetch_page sha256hex env folder fs es of Inl er \<Rightarrow> Inl er | Inr bufs \<Rightarrow> Inr (buf # bufs)))"

definition write_entry ::
  "(outputLine \<Rightarrow> string res) \<Rightarrow> finalize_env \<Rightarrow> BatchErrorCode option \<Rightarrow> files \<Rightarrow> ResumableEntry \<times> string \<Rightarrow> assembly
    \<Rightarrow> assembly res" where
  "write_entry marshal env notExecutedCode fs = (\<lambda>(e, buf) a.
    (let counts = (am_counts a)\<lparr>rc_Total := rc_Total (am_counts a) + 1\<rparr>;
         ok = fe_write env (re_RequestID e);
         succeeded = counts\<lparr>rc_Completed := rc_Completed counts + 1\<rparr>;
         failed = counts\<lparr>rc_Failed := rc_Failed counts + 1\<rparr>;
         to_out = (\<lambda>c. case writeResult (ar_open (fe_out env)) ok buf (am_out a) fs of
             Inl er \<Rightarrow> Inl er | Inr w \<Rightarrow> Inr (a\<lparr>am_counts := c, am_out := w\<rparr>));
         to_err = (\<lambda>c. case writeResult (ar_open (fe_err env)) ok buf (am_err a) fs of
             Inl er \<Rightarrow> Inl er | Inr w \<Rightarrow> Inr (a\<lparr>am_counts := c, am_err := w\<rparr>))
     in case re_Status e of
          ResumableEntryCompleted \<Rightarrow> to_out succeeded
        | ResumableEntryFailed \<Rightarrow> if re_ErrorCode e = [] then to_out failed else to_err failed
        | _ \<Rightarrow> (case notExecutedCode of
              None \<Rightarrow> Inl (ErrOther ''entry is not terminal'')
            | Some code \<Rightarrow> (case writeNotExecuted marshal (ar_open (fe_err env)) ok e code (am_err a) fs of
                  Inl er \<Rightarrow> Inl er | Inr w \<Rightarrow> Inr (a\<lparr>am_counts := failed, am_err := w\<rparr>)))))"

fun write_page ::
  "(outputLine \<Rightarrow> string res) \<Rightarrow> finalize_env \<Rightarrow> BatchErrorCode option \<Rightarrow> files \<Rightarrow> (ResumableEntry \<times> string) list \<Rightarrow> assembly
    \<Rightarrow> assembly res" where
  "write_page marshal env code fs [] a = Inr a"
| "write_page marshal env code fs (x # xs) a =
    (case write_entry marshal env code fs x a of Inl er \<Rightarrow> Inl er | Inr a' \<Rightarrow> write_page marshal env code fs xs a')"

text \<open>The loop over the pages. It ends because every page moves the cursor past at least one entry.\<close>

function assemble_loop ::
  "(string \<Rightarrow> string) \<Rightarrow> (outputLine \<Rightarrow> string res) \<Rightarrow> finalize_env \<Rightarrow> BatchErrorCode option \<Rightarrow> string \<Rightarrow> string \<Rightarrow> final_state
    \<Rightarrow> nat \<Rightarrow> int \<Rightarrow> assembly \<Rightarrow> assembly res" where
  "assemble_loop sha256hex marshal env code jobID folder s n afterOrdinal a =
    (case ListBatchEntries (fe_list env n) jobID afterOrdinal resumableEntriesPageSize (fs_db s) of
       Inl er \<Rightarrow> Inl er
     | Inr entries \<Rightarrow>
         if entries = [] then Inr a
         else (case fetch_page sha256hex env folder (fs_files s) entries of
             Inl er \<Rightarrow> Inl er
           | Inr fetched \<Rightarrow>
               (case write_page marshal env code (fs_files s) (zip entries fetched) a of
                  Inl er \<Rightarrow> Inl er
                | Inr a' \<Rightarrow>
                    if int (length entries) < resumableEntriesPageSize then Inr a'
                    else assemble_loop sha256hex marshal env code jobID folder s (Suc n) (re_Ordinal (last entries)) a')))"
  by pat_completeness auto

definition entries_after :: "string \<Rightarrow> int \<Rightarrow> db \<Rightarrow> entry_row list" where
  "entries_after k m s = filter (\<lambda>en. m < en_ordinal en) (entries_of k s)"

lemma ListBatchEntries_Ok:
  assumes "ListBatchEntries c k m lim s = Inr es"
  shows "es = map scanEntryRow (take (nat lim) (entries_after k m s)) \<and> 0 < lim \<and> c = ConnOk"
  using assms by (auto simp: ListBatchEntries_def entries_after_def split: if_splits)

lemma page_moves:
  assumes "ListBatchEntries c k m lim s = Inr es" and "es \<noteq> []"
  shows "length (entries_after k (re_Ordinal (last es)) s) < length (entries_after k m s)"
proof -
  let ?p = "take (nat lim) (entries_after k m s)"
  have es: "es = map scanEntryRow ?p" "?p \<noteq> []" using ListBatchEntries_Ok [OF assms(1)] assms(2) by auto
  define en where "en = last ?p"
  have ord: "re_Ordinal (last es) = en_ordinal en" using es by (simp add: en_def last_map scanEntryRow_def)
  have "en \<in> set (entries_after k m s)" using es(2) in_set_takeD last_in_set unfolding en_def by metis
  then have en: "en \<in> set (entries_of k s)" "m < en_ordinal en" by (auto simp: entries_after_def)
  have eq: "entries_after k (en_ordinal en) s = filter (\<lambda>x. en_ordinal en < en_ordinal x) (entries_after k m s)"
    using en(2) by (auto simp: entries_after_def intro!: filter_cong)
  show ?thesis unfolding ord eq using en by (intro length_filter_less [of en]) (auto simp: entries_after_def)
qed

termination assemble_loop
  by (relation "measure (\<lambda>(sha256hex, marshal, env, code, jobID, folder, s, n, m, a). length (entries_after jobID m (fs_db s)))")
    (auto dest: page_moves)

declare assemble_loop.simps [simp del]

section \<open>Commit\<close>

text \<open>
  \<open>commit\<close> of one writer: the identifier of the file, empty when nothing was written.
  An artifact that an earlier attempt committed must hold the bytes this one would
  have written.
\<close>

definition verifyExisting :: "(string \<Rightarrow> string) \<Rightarrow> bool \<Rightarrow> artifactWriter \<Rightarrow> files \<Rightarrow> unit res" where
  "verifyExisting sha256hex io w fs =
    (case Retrieve io (aw_key w) (aw_folder w) fs of
       Inl e \<Rightarrow> Inl e
     | Inr (d, md) \<Rightarrow> if length d \<noteq> length (aw_seen w) \<or> sha256hex d \<noteq> sha256hex (aw_seen w)
                     then Inl (ErrOther ''committed artifact does not match re-derived content'') else Inr ())"

definition aw_commit ::
  "(string \<Rightarrow> string) \<Rightarrow> int \<Rightarrow> artifact_env \<Rightarrow> BatchItem \<Rightarrow> JobInfo \<Rightarrow> string \<Rightarrow> artifactWriter \<Rightarrow> final_state
    \<Rightarrow> string res \<times> final_state" where
  "aw_commit sha256hex cfgDefault env dbJob jobInfo fileName w s =
    (let recorded = (\<lambda>sz st. case ensureFileRecord (ar_put env) (ar_get env) cfgDefault (ar_now env) (aw_fileID w) fileName
                (ji_TenantID jobInfo) sz (bi_Tags dbJob) (fs_meta st) of
            (Inl e, t) \<Rightarrow> (Inl e, st\<lparr>fs_meta := t\<rparr>)
          | (Inr _, t) \<Rightarrow> (Inr (aw_fileID w), st\<lparr>fs_meta := t\<rparr>))
     in if aw_existing w
        then (case verifyExisting sha256hex (ar_verify env) w (fs_files s) of
            Inl e \<Rightarrow> (Inl e, s)
          | Inr _ \<Rightarrow> recorded (int (length (aw_seen w))) s)
        else case aw_writer w of
            None \<Rightarrow> (Inr [], s)
          | Some st \<Rightarrow>
              (case stream_Commit (ar_commit env) st (fs_files s) of
                 (Inl e, fs) \<Rightarrow> (Inl e, s\<lparr>fs_files := fs\<rparr>)
               | (Inr md, fs) \<Rightarrow> recorded (md_Size md) (s\<lparr>fs_files := fs\<rparr>)))"

definition output_writer :: "(string \<Rightarrow> string) \<Rightarrow> string \<Rightarrow> string \<Rightarrow> artifactWriter" where
  "output_writer uuid5 folder jobID =
    new_writer folder (FileStorageName (stableFileID uuid5 jobID ''output'') (jobOutputStorageName jobID))
      (stableFileID uuid5 jobID ''output'')"

definition error_writer :: "(string \<Rightarrow> string) \<Rightarrow> string \<Rightarrow> string \<Rightarrow> artifactWriter" where
  "error_writer uuid5 folder jobID =
    new_writer folder (FileStorageName (stableFileID uuid5 jobID ''error'') (jobErrorStorageName jobID))
      (stableFileID uuid5 jobID ''error'')"

text \<open>A stream that is not committed is discarded and leaves no file.\<close>

definition assembleResumableArtifacts ::
  "(string \<Rightarrow> string) \<Rightarrow> (string \<Rightarrow> string) \<Rightarrow> (outputLine \<Rightarrow> string res) \<Rightarrow> int \<Rightarrow> finalize_env \<Rightarrow> BatchItem \<Rightarrow> JobInfo
    \<Rightarrow> BatchErrorCode option \<Rightarrow> final_state \<Rightarrow> (BatchRequestCounts \<times> string \<times> string) res \<times> final_state" where
  "assembleResumableArtifacts sha256hex uuid5 marshal cfgDefault env dbJob jobInfo code s =
    (let jobID = ji_JobID jobInfo
     in case GetFolderNameByTenantID sha256hex (ji_TenantID jobInfo) of
          Inl e \<Rightarrow> (Inl e, s)
        | Inr folder \<Rightarrow>
            (case assemble_loop sha256hex marshal env code jobID folder s 0 (- 1)
                    \<lparr>am_counts = \<lparr>rc_Total = 0, rc_Completed = 0, rc_Failed = 0\<rparr>,
                     am_out = output_writer uuid5 folder jobID, am_err = error_writer uuid5 folder jobID\<rparr> of
               Inl e \<Rightarrow> (Inl e, s)
             | Inr a \<Rightarrow>
                 (case aw_commit sha256hex cfgDefault (fe_out env) dbJob jobInfo (jobOutputStorageName jobID) (am_out a) s of
                    (Inl e, s1) \<Rightarrow> (Inl e, s1)
                  | (Inr outputFileID, s1) \<Rightarrow>
                      (case aw_commit sha256hex cfgDefault (fe_err env) dbJob jobInfo (jobErrorStorageName jobID) (am_err a) s1 of
                         (Inl e, s2) \<Rightarrow> (Inl e, s2)
                       | (Inr errorFileID, s2) \<Rightarrow> (Inr (am_counts a, outputFileID, errorFileID), s2)))))"

section \<open>The terminal write\<close>

record terminal_env =
  te_conn :: conn
  te_check :: conn
  te_now :: instant
  te_dbnow :: instant
  te_purge :: "string \<Rightarrow> bool"

definition purgeResultObjects :: "(string \<Rightarrow> string) \<Rightarrow> (string \<Rightarrow> bool) \<Rightarrow> string \<Rightarrow> string \<Rightarrow> files \<Rightarrow> files" where
  "purgeResultObjects sha256hex fails jobID tenantID fs =
    (case GetFolderNameByTenantID sha256hex tenantID of
       Inl e \<Rightarrow> fs
     | Inr folder \<Rightarrow> snd (DeletePrefix fails folder (''results/'' @ jobID @ ''/'') fs))"

definition finalizeResumableStatus ::
  "(string \<Rightarrow> string) \<Rightarrow> terminal_env \<Rightarrow> string \<Rightarrow> BatchItem \<Rightarrow> BatchStatus \<Rightarrow> BatchStatus \<Rightarrow> BatchRequestCounts \<Rightarrow> string \<Rightarrow> string
    \<Rightarrow> final_state \<Rightarrow> unit res \<times> final_state" where
  "finalizeResumableStatus sha256hex env self dbJob expected terminal counts outputFileID errorFileID s =
    (case BuildStatus (te_now env) dbJob terminal (Some counts) None (withFileIDs outputFileID errorFileID) of
       Inl e \<Rightarrow> (Inl e, s)
     | Inr doc \<Rightarrow>
         (case FinalizeResumableBatch (te_conn env) (te_check env) (te_dbnow env)
                 \<lparr>fi_BatchID = bi_ID dbJob, fi_ProcessorID = self, fi_Epoch = bi_Epoch dbJob,
                  fi_ExpectedStatus = status_name expected, fi_Status = Some doc\<rparr> (fs_db s) of
            (Inl e, d) \<Rightarrow> (Inl e, s\<lparr>fs_db := d\<rparr>)
          | (Inr _, d) \<Rightarrow> (Inr (), s\<lparr>fs_db := d,
               fs_files := purgeResultObjects sha256hex (te_purge env) (bi_ID dbJob) (bi_TenantID dbJob) (fs_files s)\<rparr>)))"

text \<open>\<open>userCancel\<close>: the context of the job was cancelled by the user when the artifacts are complete.\<close>

definition finalizeResumableJob ::
  "(string \<Rightarrow> string) \<Rightarrow> (string \<Rightarrow> string) \<Rightarrow> (outputLine \<Rightarrow> string res) \<Rightarrow> int \<Rightarrow> conn \<Rightarrow> finalize_env \<Rightarrow> terminal_env \<Rightarrow> bool
    \<Rightarrow> string \<Rightarrow> BatchItem \<Rightarrow> JobInfo \<Rightarrow> final_state \<Rightarrow> unit res \<times> final_state" where
  "finalizeResumableJob sha256hex uuid5 marshal cfgDefault c env tenv userCancel self dbJob jobInfo s =
    (case UpdatePersistentStatus c (te_now tenv) (dbJob\<lparr>bi_ExpectedResumable := Some True\<rparr>) BatchStatusFinalizing None None (\<lambda>i. i)
            (fs_db s) of
       (Inl e, d) \<Rightarrow> (Inl e, s\<lparr>fs_db := d\<rparr>)
     | (Inr job, d) \<Rightarrow>
         (case assembleResumableArtifacts sha256hex uuid5 marshal cfgDefault env job jobInfo None (s\<lparr>fs_db := d\<rparr>) of
            (Inl e, s1) \<Rightarrow> (Inl e, s1)
          | (Inr (counts, outID, errID), s1) \<Rightarrow>
              let terminal = (if userCancel then BatchStatusCancelled else BatchStatusCompleted) in
              (case finalizeResumableStatus sha256hex tenv self job BatchStatusFinalizing terminal counts outID errID s1 of
                 (Inl e, s2) \<Rightarrow> (Inl e, s2)
               | (Inr _, s2) \<Rightarrow> (if userCancel then Inl ErrCancelled else Inr (), s2))))"

definition finalizeResumableAs ::
  "(string \<Rightarrow> string) \<Rightarrow> (string \<Rightarrow> string) \<Rightarrow> (outputLine \<Rightarrow> string res) \<Rightarrow> int \<Rightarrow> finalize_env \<Rightarrow> terminal_env
    \<Rightarrow> string \<Rightarrow> BatchItem \<Rightarrow> JobInfo \<Rightarrow> BatchStatus \<Rightarrow> BatchErrorCode \<Rightarrow> BatchStatus \<Rightarrow> final_state \<Rightarrow> unit res \<times> final_state" where
  "finalizeResumableAs sha256hex uuid5 marshal cfgDefault env tenv self dbJob jobInfo status notExecutedCode expected s =
    (case assembleResumableArtifacts sha256hex uuid5 marshal cfgDefault env (dbJob\<lparr>bi_ExpectedResumable := Some True\<rparr>) jobInfo
            (Some notExecutedCode) s of
       (Inl e, s1) \<Rightarrow> (Inl e, s1)
     | (Inr (counts, outID, errID), s1) \<Rightarrow>
         finalizeResumableStatus sha256hex tenv self (dbJob\<lparr>bi_ExpectedResumable := Some True\<rparr>) expected status counts outID errID s1)"

section \<open>What the artifacts should hold\<close>

text \<open>
  The reference: the lines of the entries in the order of their ordinals. A completed
  entry and a failed one without an error code go to the output artifact, the others
  to the error artifact; an entry that is not terminal contributes the synthetic
  line of the given code.
\<close>

definition to_output :: "ResumableEntry \<Rightarrow> bool" where
  "to_output e = (re_Status e = ResumableEntryCompleted \<or> re_Status e = ResumableEntryFailed \<and> re_ErrorCode e = [])"

definition entry_line :: "(outputLine \<Rightarrow> string res) \<Rightarrow> BatchErrorCode option \<Rightarrow> string \<Rightarrow> files \<Rightarrow> ResumableEntry \<Rightarrow> string" where
  "entry_line marshal code folder fs e =
    (if entry_terminal (re_Status e) then (case object_at folder (re_ResultKey e) fs of None \<Rightarrow> [] | Some d \<Rightarrow> d)
     else (case code of None \<Rightarrow> [] | Some c \<Rightarrow> (case marshal (not_executed_line e c) of Inl er \<Rightarrow> [] | Inr b \<Rightarrow> b @ [newline])))"

definition out_lines :: "(outputLine \<Rightarrow> string res) \<Rightarrow> BatchErrorCode option \<Rightarrow> string \<Rightarrow> files \<Rightarrow> ResumableEntry list \<Rightarrow> string list" where
  "out_lines marshal code folder fs es = map (entry_line marshal code folder fs) (filter to_output es)"

definition err_lines :: "(outputLine \<Rightarrow> string res) \<Rightarrow> BatchErrorCode option \<Rightarrow> string \<Rightarrow> files \<Rightarrow> ResumableEntry list \<Rightarrow> string list" where
  "err_lines marshal code folder fs es = map (entry_line marshal code folder fs) (filter (\<lambda>e. \<not> to_output e) es)"

definition entry_counts :: "ResumableEntry list \<Rightarrow> BatchRequestCounts" where
  "entry_counts es =
    (let n = int (length (filter (\<lambda>e. re_Status e = ResumableEntryCompleted) es))
     in \<lparr>rc_Total = int (length es), rc_Completed = n, rc_Failed = int (length es) - n\<rparr>)"

text \<open>The state of a writer after the lines \<open>bs\<close>.\<close>

definition writer_after :: "artifactWriter \<Rightarrow> files \<Rightarrow> string list \<Rightarrow> artifactWriter" where
  "writer_after w fs bs =
    (if bs = [] then w
     else case resolvePath (aw_folder w) (aw_key w) of
        Inl e \<Rightarrow> w
      | Inr p \<Rightarrow> if map_of fs p \<noteq> None then w\<lparr>aw_existing := True, aw_seen := concat bs\<rparr>
                  else w\<lparr>aw_writer := Some \<lparr>st_path = p, st_data = concat bs\<rparr>\<rparr>)"

definition fresh_writer :: "artifactWriter \<Rightarrow> bool" where
  "fresh_writer w = (aw_writer w = None \<and> \<not> aw_existing w \<and> aw_seen w = [])"

lemma writer_after_Nil [simp]: "writer_after w fs [] = w"
  by (simp add: writer_after_def)

lemma resolvePath_error: "resolvePath f k = Inl e \<Longrightarrow> e \<noteq> ErrFileExists"
  by (auto simp: resolvePath_def Let_def split: if_splits)

lemma writeResult_sound:
  assumes "fresh_writer w" and "writeResult io io2 line (writer_after w fs bs) fs = Inr w'"
  shows "w' = writer_after w fs (bs @ [line]) \<and> is_ok (resolvePath (aw_folder w) (aw_key w))"
  using assms resolvePath_error [of "aw_folder w" "aw_key w"]
  by (cases "resolvePath (aw_folder w) (aw_key w)"; cases "bs = []")
    (auto simp: writeResult_def aw_ensure_def aw_Write_def OpenStream_def writer_after_def fresh_writer_def stream_Write_def
      split: if_splits)

lemma writeResult_complete:
  assumes "fresh_writer w" and "io" and "io2" and "is_ok (resolvePath (aw_folder w) (aw_key w))"
  shows "writeResult io io2 line (writer_after w fs bs) fs = Inr (writer_after w fs (bs @ [line]))"
  using assms
  by (cases "resolvePath (aw_folder w) (aw_key w)"; cases "bs = []")
    (auto simp: writeResult_def aw_ensure_def aw_Write_def OpenStream_def writer_after_def fresh_writer_def stream_Write_def)

lemma writeNotExecuted_eq:
  "writeNotExecuted marshal io io2 e code w fs =
    (case marshal (not_executed_line e code) of
       Inl er \<Rightarrow> (case aw_ensure io w fs of Inl er' \<Rightarrow> Inl er' | Inr w' \<Rightarrow> Inl er)
     | Inr b \<Rightarrow> writeResult io io2 (b @ [newline]) w fs)"
  by (auto simp: writeNotExecuted_def writeResult_def split: sum.split)

text \<open>The state of the assembly after the entries \<open>es\<close>.\<close>

definition assembly_after ::
  "(outputLine \<Rightarrow> string res) \<Rightarrow> BatchErrorCode option \<Rightarrow> string \<Rightarrow> files \<Rightarrow> artifactWriter \<Rightarrow> artifactWriter \<Rightarrow> ResumableEntry list \<Rightarrow> assembly" where
  "assembly_after marshal code folder fs ow ew es =
    \<lparr>am_counts = entry_counts es, am_out = writer_after ow fs (out_lines marshal code folder fs es),
     am_err = writer_after ew fs (err_lines marshal code folder fs es)\<rparr>"

text \<open>An entry that can be rendered: terminal with its object in the store, or replaced by the synthetic line.\<close>

definition renderable ::
  "(string \<Rightarrow> string) \<Rightarrow> (outputLine \<Rightarrow> string res) \<Rightarrow> BatchErrorCode option \<Rightarrow> string \<Rightarrow> files \<Rightarrow> ResumableEntry \<Rightarrow> bool" where
  "renderable sha256hex marshal code folder fs e =
    (if entry_terminal (re_Status e) then holds_object sha256hex folder (re_ResultKey e) (re_ResultBytes e) (re_ResultSHA256 e) fs
     else (case code of None \<Rightarrow> False | Some c \<Rightarrow> is_ok (marshal (not_executed_line e c))))"

lemma fetchResult_sound:
  "fetchResult sha io folder e fs = Inr buf \<Longrightarrow>
    object_at folder (re_ResultKey e) fs = Some buf \<and> holds_object sha folder (re_ResultKey e) (re_ResultBytes e) (re_ResultSHA256 e) fs"
  by (auto simp: fetchResult_def Retrieve_def object_at_def holds_object_def split: sum.splits option.splits if_splits)

lemma fetchResult_complete:
  "holds_object sha folder (re_ResultKey e) (re_ResultBytes e) (re_ResultSHA256 e) fs \<Longrightarrow> io \<Longrightarrow> is_ok (fetchResult sha io folder e fs)"
  by (auto simp: fetchResult_def Retrieve_def object_at_def holds_object_def split: sum.splits option.splits if_splits)

lemma entry_counts_snoc:
  "entry_counts (es @ [e]) =
    (let c = (entry_counts es)\<lparr>rc_Total := rc_Total (entry_counts es) + 1\<rparr>
     in if re_Status e = ResumableEntryCompleted then c\<lparr>rc_Completed := rc_Completed c + 1\<rparr> else c\<lparr>rc_Failed := rc_Failed c + 1\<rparr>)"
  by (simp add: entry_counts_def Let_def)

text \<open>One entry, in both directions; \<open>buf\<close> is what was fetched for it.\<close>

lemma write_entry_sound:
  assumes w: "fresh_writer ow" "fresh_writer ew"
    and buf: "entry_terminal (re_Status e) \<Longrightarrow> object_at folder (re_ResultKey e) fs = Some buf"
    and call: "write_entry marshal env code fs (e, buf) (assembly_after marshal code folder fs ow ew es) = Inr a"
  shows "a = assembly_after marshal code folder fs ow ew (es @ [e])
    \<and> (entry_terminal (re_Status e) \<or> (\<exists>c. code = Some c \<and> is_ok (marshal (not_executed_line e c))))"
proof -
  note defs = write_entry_def Let_def assembly_after_def entry_counts_snoc out_lines_def err_lines_def to_output_def entry_line_def
  show ?thesis
  proof (cases "entry_terminal (re_Status e)")
    case True
    with buf call w show ?thesis
      by (cases "re_Status e")
        (auto simp: defs entry_terminal_iff split: sum.splits if_splits dest: writeResult_sound)
  next
    case False
    with call w show ?thesis
      by (cases "re_Status e"; cases code)
        (auto simp: defs entry_terminal_iff writeNotExecuted_eq split: sum.splits dest: writeResult_sound)
  qed
qed

lemma write_entry_complete:
  assumes w: "fresh_writer ow" "fresh_writer ew"
    and paths: "is_ok (resolvePath (aw_folder ow) (aw_key ow))" "is_ok (resolvePath (aw_folder ew) (aw_key ew))"
    and io: "ar_open (fe_out env)" "ar_open (fe_err env)" "fe_write env (re_RequestID e)"
    and r: "renderable sha marshal code folder fs e"
    and buf: "entry_terminal (re_Status e) \<Longrightarrow> object_at folder (re_ResultKey e) fs = Some buf"
  shows "write_entry marshal env code fs (e, buf) (assembly_after marshal code folder fs ow ew es)
    = Inr (assembly_after marshal code folder fs ow ew (es @ [e]))"
proof -
  note defs = write_entry_def Let_def assembly_after_def entry_counts_snoc out_lines_def err_lines_def to_output_def entry_line_def
  show ?thesis
  proof (cases "entry_terminal (re_Status e)")
    case True
    with buf w paths io show ?thesis
      by (cases "re_Status e") (auto simp: defs entry_terminal_iff writeResult_complete)
  next
    case False
    with r obtain c b where "code = Some c" "marshal (not_executed_line e c) = Inr b"
      by (auto simp: renderable_def is_ok_iff split: option.splits)
    with False w paths io show ?thesis
      by (cases "re_Status e") (auto simp: defs entry_terminal_iff writeNotExecuted_eq writeResult_complete)
  qed
qed

lemma fetch_page_sound:
  "fetch_page sha env folder fs es = Inr bufs \<Longrightarrow> length bufs = length es
    \<and> list_all2 (\<lambda>e buf. entry_terminal (re_Status e) \<longrightarrow> object_at folder (re_ResultKey e) fs = Some buf
        \<and> holds_object sha folder (re_ResultKey e) (re_ResultBytes e) (re_ResultSHA256 e) fs) es bufs"
  by (induction es arbitrary: bufs) (auto split: sum.splits if_splits dest: fetchResult_sound)

lemma fetch_page_complete:
  "list_all (renderable sha marshal code folder fs) es \<Longrightarrow> (\<And>q. fe_fetch env q) \<Longrightarrow> is_ok (fetch_page sha env folder fs es)"
proof (induction es)
  case (Cons e es)
  then obtain bufs where "fetch_page sha env folder fs es = Inr bufs" by (auto simp: is_ok_iff)
  with Cons.prems fetchResult_complete [of sha folder e fs "fe_fetch env (re_RequestID e)"] show ?case
    by (auto simp: renderable_def is_ok_iff split: if_splits)
qed simp

lemma write_page_sound:
  assumes w: "fresh_writer ow" "fresh_writer ew"
    and bufs: "list_all2 (\<lambda>e buf. entry_terminal (re_Status e) \<longrightarrow> object_at folder (re_ResultKey e) fs = Some buf
        \<and> holds_object sha folder (re_ResultKey e) (re_ResultBytes e) (re_ResultSHA256 e) fs) es bufs"
    and call: "write_page marshal env code fs (zip es bufs) (assembly_after marshal code folder fs ow ew pre) = Inr a"
  shows "a = assembly_after marshal code folder fs ow ew (pre @ es) \<and> list_all (renderable sha marshal code folder fs) es"
  using bufs call
proof (induction es bufs arbitrary: pre rule: list_all2_induct)
  case (Cons e es buf bufs)
  from Cons.prems obtain a1 where
    1: "write_entry marshal env code fs (e, buf) (assembly_after marshal code folder fs ow ew pre) = Inr a1"
    and 2: "write_page marshal env code fs (zip es bufs) a1 = Inr a" by (auto split: sum.splits)
  from write_entry_sound [OF w _ 1] Cons.hyps(1) have
    a1: "a1 = assembly_after marshal code folder fs ow ew (pre @ [e])" and r: "renderable sha marshal code folder fs e"
    by (auto simp: renderable_def)
  from Cons.IH [OF 2 [unfolded a1]] r show ?case by simp
qed simp

lemma write_page_complete:
  assumes w: "fresh_writer ow" "fresh_writer ew"
    and paths: "is_ok (resolvePath (aw_folder ow) (aw_key ow))" "is_ok (resolvePath (aw_folder ew) (aw_key ew))"
    and io: "ar_open (fe_out env)" "ar_open (fe_err env)" "\<And>q. fe_write env q"
    and bufs: "list_all2 (\<lambda>e buf. entry_terminal (re_Status e) \<longrightarrow> object_at folder (re_ResultKey e) fs = Some buf
        \<and> holds_object sha folder (re_ResultKey e) (re_ResultBytes e) (re_ResultSHA256 e) fs) es bufs"
    and r: "list_all (renderable sha marshal code folder fs) es"
  shows "write_page marshal env code fs (zip es bufs) (assembly_after marshal code folder fs ow ew pre)
    = Inr (assembly_after marshal code folder fs ow ew (pre @ es))"
  using bufs r
proof (induction es bufs arbitrary: pre rule: list_all2_induct)
  case (Cons e es buf bufs)
  have "write_entry marshal env code fs (e, buf) (assembly_after marshal code folder fs ow ew pre)
      = Inr (assembly_after marshal code folder fs ow ew (pre @ [e]))"
    using Cons.hyps(1) Cons.prems by (intro write_entry_complete [where sha = sha, OF w paths]) (auto simp: io)
  with Cons show ?case by simp
qed simp

section \<open>The pages cover the entries\<close>

text \<open>The manifest numbers the requests of a batch by distinct ordinals from zero.\<close>

definition ordinals_ok :: "string \<Rightarrow> db \<Rightarrow> bool" where
  "ordinals_ok k s = (distinct (map en_ordinal (entries_of k s)) \<and> list_all (\<lambda>en. 0 \<le> en_ordinal en) (entries_of k s))"

lemma entries_after_all: "ordinals_ok k s \<Longrightarrow> entries_after k (- 1) s = entries_of k s"
  by (auto simp: ordinals_ok_def entries_after_def list_all_iff filter_id_conv)

lemma next_page:
  assumes ok: "ordinals_ok k s" and es: "ListBatchEntries c k m lim s = Inr es" "es \<noteq> []"
  shows "entries_after k (re_Ordinal (last es)) s = drop (nat lim) (entries_after k m s)"
proof -
  let ?rows = "entries_after k m s" and ?p = "take (nat lim) (entries_after k m s)"
  have p: "es = map scanEntryRow ?p" "?p \<noteq> []" using ListBatchEntries_Ok [OF es(1)] es(2) by auto
  define en where "en = last ?p"
  have ord: "re_Ordinal (last es) = en_ordinal en" using p by (simp add: en_def last_map scanEntryRow_def)
  have "en \<in> set ?rows" using p(2) in_set_takeD last_in_set unfolding en_def by metis
  then have m: "m < en_ordinal en" by (simp add: entries_after_def)
  have "sorted_wrt (<) (map en_ordinal (entries_of k s))"
    using ok by (simp add: ordinals_ok_def strict_sorted_iff entries_of_def)
  then have "sorted_wrt (<) (map en_ordinal ?rows)"
    by (simp add: entries_after_def sorted_wrt_map sorted_wrt_filter)
  moreover have "?rows = butlast ?p @ en # drop (nat lim) ?rows"
    using p(2) by (metis append.assoc append_Cons append_Nil append_butlast_last_id append_take_drop_id en_def)
  ultimately have "filter (\<lambda>x. en_ordinal en < en_ordinal x) ?rows = drop (nat lim) ?rows"
    by (rule sorted_after)
  moreover have "filter (\<lambda>x. en_ordinal en < en_ordinal x) ?rows = entries_after k (en_ordinal en) s"
    using m by (auto simp: entries_after_def intro!: filter_cong)
  ultimately show ?thesis by (simp add: ord)
qed

lemma assemble_loop_sound:
  assumes ok: "ordinals_ok k (fs_db s)" and w: "fresh_writer ow" "fresh_writer ew"
    and call: "assemble_loop sha marshal env code k folder s n m (assembly_after marshal code folder (fs_files s) ow ew pre) = Inr a"
  shows "a = assembly_after marshal code folder (fs_files s) ow ew (pre @ map scanEntryRow (entries_after k m (fs_db s)))
    \<and> list_all (renderable sha marshal code folder (fs_files s)) (map scanEntryRow (entries_after k m (fs_db s)))"
  using call
proof (induction "length (entries_after k m (fs_db s))" arbitrary: n m pre rule: less_induct)
  case less
  let ?rows = "entries_after k m (fs_db s)" and ?P = resumableEntriesPageSize
  obtain es where es: "ListBatchEntries (fe_list env n) k m ?P (fs_db s) = Inr es"
    using less.prems by (auto simp: assemble_loop.simps [of _ _ _ _ _ _ _ n] split: sum.splits)
  note es_eq = ListBatchEntries_Ok [OF es, THEN conjunct1]
  show ?case
  proof (cases "es = []")
    case True
    then have "?rows = []" using es_eq by (simp add: resumableEntriesPageSize_def)
    with less.prems es True show ?thesis by (simp add: assemble_loop.simps [of _ _ _ _ _ _ _ n])
  next
    case False
    with less.prems es obtain bufs a' where f: "fetch_page sha env folder (fs_files s) es = Inr bufs"
      and wr: "write_page marshal env code (fs_files s) (zip es bufs) (assembly_after marshal code folder (fs_files s) ow ew pre) = Inr a'"
      and rest: "(if int (length es) < ?P then Inr a' else assemble_loop sha marshal env code k folder s (Suc n) (re_Ordinal (last es)) a') = Inr a"
      by (auto simp: assemble_loop.simps [of _ _ _ _ _ _ _ n] split: sum.splits)
    note ws = write_page_sound [OF w fetch_page_sound [OF f, THEN conjunct2] wr]
    note nx = next_page [OF ok es False]
    show ?thesis
    proof (cases "int (length es) < ?P")
      case True
      then have "es = map scanEntryRow ?rows" using es_eq by (auto simp: resumableEntriesPageSize_def)
      with rest True ws show ?thesis by simp
    next
      case False
      have "map scanEntryRow ?rows = es @ map scanEntryRow (entries_after k (re_Ordinal (last es)) (fs_db s))"
        unfolding nx by (subst es_eq) (metis append_take_drop_id map_append)
      with less.hyps [OF page_moves [OF es \<open>es \<noteq> []\<close>], of "Suc n" "pre @ es"] rest False ws show ?thesis by simp
    qed
  qed
qed

text \<open>The accesses of an assembly all work.\<close>

definition works :: "finalize_env \<Rightarrow> bool" where
  "works env = ((\<forall>n. fe_list env n = ConnOk) \<and> (\<forall>q. fe_fetch env q \<and> fe_write env q)
     \<and> (\<forall>ar \<in> {fe_out env, fe_err env}. ar_open ar \<and> ar_commit ar \<and> ar_verify ar \<and> ar_put ar = ConnOk \<and> ar_get ar = ConnOk))"

lemma assemble_loop_complete:
  assumes ok: "ordinals_ok k (fs_db s)" and w: "fresh_writer ow" "fresh_writer ew"
    and paths: "is_ok (resolvePath (aw_folder ow) (aw_key ow))" "is_ok (resolvePath (aw_folder ew) (aw_key ew))"
    and env: "works env"
    and r: "list_all (renderable sha marshal code folder (fs_files s)) (map scanEntryRow (entries_after k m (fs_db s)))"
  shows "assemble_loop sha marshal env code k folder s n m (assembly_after marshal code folder (fs_files s) ow ew pre)
    = Inr (assembly_after marshal code folder (fs_files s) ow ew (pre @ map scanEntryRow (entries_after k m (fs_db s))))"
  using r
proof (induction "length (entries_after k m (fs_db s))" arbitrary: n m pre rule: less_induct)
  case less
  let ?rows = "entries_after k m (fs_db s)" and ?P = resumableEntriesPageSize
  define es where "es = map scanEntryRow (take (nat ?P) ?rows)"
  have es: "ListBatchEntries (fe_list env n) k m ?P (fs_db s) = Inr es"
    using env by (simp add: ListBatchEntries_def works_def es_def entries_after_def resumableEntriesPageSize_def)
  show ?case
  proof (cases "es = []")
    case True
    then have "?rows = []" by (simp add: es_def resumableEntriesPageSize_def)
    with es True show ?thesis by (simp add: assemble_loop.simps [of _ _ _ _ _ _ _ n])
  next
    case False
    have res: "list_all (renderable sha marshal code folder (fs_files s)) es"
      using less.prems by (auto simp: es_def list_all_iff dest: in_set_takeD)
    obtain bufs where f: "fetch_page sha env folder (fs_files s) es = Inr bufs"
      using fetch_page_complete [OF res, of env] env by (auto simp: works_def is_ok_iff)
    have wr: "write_page marshal env code (fs_files s) (zip es bufs) (assembly_after marshal code folder (fs_files s) ow ew pre)
        = Inr (assembly_after marshal code folder (fs_files s) ow ew (pre @ es))"
      by (rule write_page_complete [OF w paths _ _ _ fetch_page_sound [OF f, THEN conjunct2] res]) (use env in \<open>auto simp: works_def\<close>)
    note nx = next_page [OF ok es False]
    have rows: "map scanEntryRow ?rows = es @ map scanEntryRow (entries_after k (re_Ordinal (last es)) (fs_db s))"
      unfolding nx by (simp add: es_def flip: map_append)
    show ?thesis
    proof (cases "int (length es) < ?P")
      case True
      then have "es = map scanEntryRow ?rows" by (auto simp: es_def resumableEntriesPageSize_def)
      with es \<open>es \<noteq> []\<close> f wr True show ?thesis by (simp add: assemble_loop.simps [of _ _ _ _ _ _ _ n])
    next
      case False
      with less.hyps [OF page_moves [OF es \<open>es \<noteq> []\<close>], of "Suc n" "pre @ es"] less.prems rows es \<open>es \<noteq> []\<close> f wr show ?thesis
        by (simp add: assemble_loop.simps [of _ _ _ _ _ _ _ n])
    qed
  qed
qed

section \<open>Commit\<close>

text \<open>The file record of an artifact: what the files API shows for it.\<close>

definition record_matches :: "string \<Rightarrow> string \<Rightarrow> int \<Rightarrow> file_row \<Rightarrow> bool" where
  "record_matches fileName tenantID sz r = (row_tenant r = tenantID \<and> frow_purpose r = FileObjectPurposeBatchOutput
     \<and> (case frow_spec r of Some (SpecFile f) \<Rightarrow> fo_Filename f \<in> {fileName, to_valid_utf8 fileName} \<and> fo_Bytes f = sz | _ \<Rightarrow> False))"

lemma record_matches_iff [simp]:
  "record_matches fileName tenantID sz r \<longleftrightarrow> row_tenant r = tenantID \<and> frow_purpose r = FileObjectPurposeBatchOutput
     \<and> (\<exists>f. frow_spec r = Some (SpecFile f) \<and> fo_Filename f \<in> {fileName, to_valid_utf8 fileName} \<and> fo_Bytes f = sz)"
  by (auto simp: record_matches_def split: option.splits file_spec.splits)

definition recorded :: "string \<Rightarrow> string \<Rightarrow> string \<Rightarrow> int \<Rightarrow> file_row list \<Rightarrow> bool" where
  "recorded fileID fileName tenantID sz t =
    (\<exists>r \<in> set t. row_id r = fileID \<and> record_matches fileName tenantID sz r)"

lemma ensureFileRecord_sound:
  assumes "ensureFileRecord c c2 dflt now fileID fileName tenantID sz tags t = (Inr u, t')" and "fileName \<noteq> []"
  shows "recorded fileID fileName tenantID sz t'"
proof (cases "fst (storeFileRecord c dflt (unix now) fileID fileName tenantID sz tags t)")
  case (Inr v)
  with assms have "storeFileRecord c dflt (unix now) fileID fileName tenantID sz tags t = (Inr v, t')"
    by (auto simp: ensureFileRecord_def split: prod.splits)
  then have "row_of_file (FileToDBItem (output_file dflt (unix now) fileID fileName sz tags) tenantID []) \<in> set t'"
    by (cases c) (auto simp: storeFileRecord_def file_DBStore_def pg_store_def split: if_splits)
  then show ?thesis
    unfolding recorded_def by (rule bexI [rotated]) (simp add: row_of_file_def FileToDBItem_def output_file_def Let_def)
next
  case (Inl e)
  with assms obtain item cursor more where
    get: "file_DBGet c2 now (no_file_query\<lparr>q_IDs := [fileID]\<rparr>) True 0 1 t' = Inr ([item], cursor, more)"
    and item: "ft_TenantID item = tenantID" "ft_ID item = fileID" "ft_Purpose item = FileObjectPurposeBatchOutput"
      "\<exists>f. DBItemToFile item = Inr f \<and> fo_Filename f = fileName \<and> fo_Bytes f = sz"
    by (cases "storeFileRecord c dflt (unix now) fileID fileName tenantID sz tags t";
        cases "file_DBGet c2 now (no_file_query\<lparr>q_IDs := [fileID]\<rparr>) True 0 1
          (snd (storeFileRecord c dflt (unix now) fileID fileName tenantID sz tags t))")
      (auto simp: ensureFileRecord_def split: prod.splits list.splits sum.splits if_splits)
  obtain r where "r \<in> set t'" "item = file_of_row True r" by (rule file_get_rows [OF get]) auto
  with item assms(2) show ?thesis
    by (auto simp: recorded_def file_of_row_def DBItemToFile_def zero_file_def split: option.splits file_spec.splits)
qed

definition artifact_done ::
  "(string \<Rightarrow> string) \<Rightarrow> artifactWriter \<Rightarrow> string \<Rightarrow> string \<Rightarrow> string list \<Rightarrow> string \<Rightarrow> final_state \<Rightarrow> bool" where
  "artifact_done sha256hex w fileName tenantID bs fileID s =
    (if bs = [] then fileID = []
     else fileID = aw_fileID w
       \<and> holds_object sha256hex (aw_folder w) (aw_key w) (int (length (concat bs))) (sha256hex (concat bs)) (fs_files s)
       \<and> recorded fileID fileName tenantID (int (length (concat bs))) (fs_meta s))"

text \<open>
  The bytes themselves: an artifact that was not there when the assembly began has exactly
  its lines; of one that an earlier attempt had stored \<open>artifact_done\<close> gives the length and the digest.
\<close>

definition artifact_bytes :: "artifactWriter \<Rightarrow> string list \<Rightarrow> files \<Rightarrow> files \<Rightarrow> bool" where
  "artifact_bytes w bs fs fs' =
    (bs = [] \<or> object_at (aw_folder w) (aw_key w) fs \<noteq> None \<or> object_at (aw_folder w) (aw_key w) fs' = Some (concat bs))"

lemma artifact_bytes_more: "artifact_bytes w bs fs fs1 \<Longrightarrow> more_files fs1 fs2 \<Longrightarrow> artifact_bytes w bs fs fs2"
  by (auto simp: artifact_bytes_def more_files_def object_at_def split: sum.splits)

lemma verifyExisting_sound:
  "verifyExisting sha io w fs = Inr u \<Longrightarrow>
    holds_object sha (aw_folder w) (aw_key w) (int (length (aw_seen w))) (sha (aw_seen w)) fs"
  by (auto simp: verifyExisting_def Retrieve_def holds_object_def object_at_def split: sum.splits option.splits if_splits)

lemma stream_Commit_sound:
  assumes "stream_Commit io \<lparr>st_path = p, st_data = d\<rparr> fs = (Inr md, fs')" and "resolvePath f key = Inr p"
  shows "more_files fs fs' \<and> md_Size md = int (length d) \<and> holds_object sha f key (int (length d)) (sha d) fs'
    \<and> object_at f key fs' = Some d"
  using assms by (auto simp: stream_Commit_def more_files_def holds_object_def object_at_def split: if_splits)

lemma writer_after_fields [simp]:
  "aw_folder (writer_after w fs bs) = aw_folder w" "aw_key (writer_after w fs bs) = aw_key w"
  "aw_fileID (writer_after w fs bs) = aw_fileID w"
  by (simp_all add: writer_after_def split: sum.split)

lemma aw_commit_sound:
  assumes w: "fresh_writer w" and p: "resolvePath (aw_folder w) (aw_key w) = Inr p" and name: "fileName \<noteq> []"
    and call: "aw_commit sha dflt env job info fileName (writer_after w fs bs) s = (Inr fid, s')"
  shows "fs_db s' = fs_db s \<and> more_files (fs_files s) (fs_files s') \<and> artifact_done sha w fileName (ji_TenantID info) bs fid s'
    \<and> artifact_bytes w bs fs (fs_files s')"
proof -
  let ?ensure = "\<lambda>sz st. ensureFileRecord (ar_put env) (ar_get env) dflt (ar_now env) (aw_fileID w) fileName
    (ji_TenantID info) sz (bi_Tags job) (fs_meta st)"
  have rec: "recorded (aw_fileID w) fileName (ji_TenantID info) sz t" if "?ensure sz st = (Inr u, t)" for sz st u t
    using ensureFileRecord_sound [OF that name] .
  consider (none) "bs = []" | (old) "bs \<noteq> []" "map_of fs p \<noteq> None" | (new) "bs \<noteq> []" "map_of fs p = None" by blast
  then show ?thesis
  proof cases
    case none
    with call w show ?thesis by (auto simp: aw_commit_def fresh_writer_def artifact_done_def artifact_bytes_def)
  next
    case old
    then have wa: "writer_after w fs bs = w\<lparr>aw_existing := True, aw_seen := concat bs\<rparr>" using p by (simp add: writer_after_def)
    from call obtain u u2 t where v: "verifyExisting sha (ar_verify env) (w\<lparr>aw_existing := True, aw_seen := concat bs\<rparr>) (fs_files s) = Inr u"
      and e: "?ensure (int (length (concat bs))) s = (Inr u2, t)" and s': "fid = aw_fileID w" "s' = s\<lparr>fs_meta := t\<rparr>"
      by (auto simp: wa aw_commit_def Let_def split: sum.splits prod.splits)
    from verifyExisting_sound [OF v] rec [OF e] old s' p show ?thesis by (simp add: artifact_done_def artifact_bytes_def object_at_def)
  next
    case new
    then have wa: "writer_after w fs bs = w\<lparr>aw_writer := Some \<lparr>st_path = p, st_data = concat bs\<rparr>\<rparr>" using p by (simp add: writer_after_def)
    obtain r1 fs1 where c: "stream_Commit (ar_commit env) \<lparr>st_path = p, st_data = concat bs\<rparr> (fs_files s) = (r1, fs1)" by fastforce
    with call w obtain md where md: "r1 = Inr md" by (cases r1) (simp_all add: wa aw_commit_def fresh_writer_def Let_def)
    note c = c [unfolded md]
    obtain r2 t where e: "?ensure (md_Size md) s = (r2, t)" by fastforce
    with call w c obtain u2 where u: "r2 = Inr u2" by (cases r2) (simp_all add: wa aw_commit_def fresh_writer_def Let_def)
    have s': "fid = aw_fileID w" "s' = s\<lparr>fs_files := fs1, fs_meta := t\<rparr>"
      using call w c e u by (simp_all add: wa aw_commit_def fresh_writer_def Let_def)
    note e = e [unfolded u]
    from stream_Commit_sound [OF c p, of sha] rec [OF e] new s' show ?thesis by (simp add: artifact_done_def artifact_bytes_def)
  qed
qed

lemma writers:
  assumes "GetFolderNameByTenantID sha tenant = Inr folder"
  shows "fresh_writer (output_writer uuid5 folder k)" "fresh_writer (error_writer uuid5 folder k)"
    "\<exists>p. resolvePath (aw_folder (output_writer uuid5 folder k)) (aw_key (output_writer uuid5 folder k)) = Inr p"
    "\<exists>p. resolvePath (aw_folder (error_writer uuid5 folder k)) (aw_key (error_writer uuid5 folder k)) = Inr p"
  using assms
  by (auto simp: fresh_writer_def output_writer_def error_writer_def new_writer_def resolvePath_def FileStorageName_def
      stableFileID_def GetFolderNameByTenantID_def split: if_splits)

lemma ensureFileRecord_mono:
  "ensureFileRecord c c2 dflt now fileID fileName tenantID sz tags t = (r, t') \<Longrightarrow> set t \<subseteq> set t'"
proof -
  assume call: "ensureFileRecord c c2 dflt now fileID fileName tenantID sz tags t = (r, t')"
  obtain r1 t1 where st: "storeFileRecord c dflt (unix now) fileID fileName tenantID sz tags t = (r1, t1)" by fastforce
  then have "set t \<subseteq> set t1"
    by (cases c) (auto simp: storeFileRecord_def file_DBStore_def pg_store_def split: if_splits)
  moreover have "t' = t1"
    using call by (cases r1) (auto simp: ensureFileRecord_def st Let_def split: sum.splits list.splits if_splits)
  ultimately show ?thesis by simp
qed

lemma aw_commit_meta:
  assumes "aw_commit sha dflt env job info fileName w s = (r, s')"
  shows "set (fs_meta s) \<subseteq> set (fs_meta s')"
proof -
  let ?ens = "\<lambda>sz. ensureFileRecord (ar_put env) (ar_get env) dflt (ar_now env) (aw_fileID w) fileName (ji_TenantID info) sz (bi_Tags job) (fs_meta s)"
  have one: "set (fs_meta s) \<subseteq> set (fs_meta s')"
    if "(case ?ens sz of (Inl e, t) \<Rightarrow> (Inl e, st\<lparr>fs_meta := t\<rparr>) | (Inr u, t) \<Rightarrow> (Inr (aw_fileID w), st\<lparr>fs_meta := t\<rparr>)) = (r, s')" for sz st
  proof -
    obtain r1 t1 where e: "?ens sz = (r1, t1)" by fastforce
    with that show ?thesis using ensureFileRecord_mono [OF e] by (cases r1) auto
  qed
  show ?thesis
  proof (cases "aw_existing w")
    case True
    then show ?thesis using assms one [of s "int (length (aw_seen w))"]
      by (cases "verifyExisting sha (ar_verify env) w (fs_files s)") (auto simp: aw_commit_def Let_def)
  next
    case False
    show ?thesis
    proof (cases "aw_writer w")
      case (Some st)
      obtain r1 fs1 where c: "stream_Commit (ar_commit env) st (fs_files s) = (r1, fs1)" by fastforce
      with False Some assms one [of "s\<lparr>fs_files := fs1\<rparr>"] show ?thesis
        by (cases r1) (auto simp: aw_commit_def Let_def)
    qed (use False assms in \<open>auto simp: aw_commit_def Let_def\<close>)
  qed
qed

lemma recorded_mono: "recorded fid name tenant sz t \<Longrightarrow> set t \<subseteq> set t' \<Longrightarrow> recorded fid name tenant sz t'"
  unfolding recorded_def by blast

lemma artifact_done_later:
  "artifact_done sha w name tenant bs fid s \<Longrightarrow> more_files (fs_files s) (fs_files s') \<Longrightarrow> set (fs_meta s) \<subseteq> set (fs_meta s')
    \<Longrightarrow> artifact_done sha w name tenant bs fid s'"
  by (auto simp: artifact_done_def intro: holds_object_more recorded_mono split: if_splits)

definition listed_entries :: "string \<Rightarrow> db \<Rightarrow> ResumableEntry list" where
  "listed_entries k s = map scanEntryRow (entries_of k s)"

lemma start_assembly:
  "\<lparr>am_counts = \<lparr>rc_Total = 0, rc_Completed = 0, rc_Failed = 0\<rparr>, am_out = ow, am_err = ew\<rparr> = assembly_after marshal code folder fs ow ew []"
  by (simp add: assembly_after_def entry_counts_def out_lines_def err_lines_def)

lemma storage_names: "jobOutputStorageName k \<noteq> []" "jobErrorStorageName k \<noteq> []"
  by (simp_all add: jobOutputStorageName_def jobErrorStorageName_def)

lemma assembly_sound:
  assumes ok: "ordinals_ok (ji_JobID info) (fs_db s)" and f: "GetFolderNameByTenantID sha (ji_TenantID info) = Inr folder"
    and call: "assembleResumableArtifacts sha uuid5 marshal dflt env job info code s = (Inr (counts, outID, errID), s')"
  shows "counts = entry_counts (listed_entries (ji_JobID info) (fs_db s)) \<and> fs_db s' = fs_db s
    \<and> list_all (renderable sha marshal code folder (fs_files s)) (listed_entries (ji_JobID info) (fs_db s))
    \<and> artifact_done sha (output_writer uuid5 folder (ji_JobID info)) (jobOutputStorageName (ji_JobID info)) (ji_TenantID info)
        (out_lines marshal code folder (fs_files s) (listed_entries (ji_JobID info) (fs_db s))) outID s'
    \<and> artifact_done sha (error_writer uuid5 folder (ji_JobID info)) (jobErrorStorageName (ji_JobID info)) (ji_TenantID info)
        (err_lines marshal code folder (fs_files s) (listed_entries (ji_JobID info) (fs_db s))) errID s'
    \<and> artifact_bytes (output_writer uuid5 folder (ji_JobID info))
        (out_lines marshal code folder (fs_files s) (listed_entries (ji_JobID info) (fs_db s))) (fs_files s) (fs_files s')
    \<and> artifact_bytes (error_writer uuid5 folder (ji_JobID info))
        (err_lines marshal code folder (fs_files s) (listed_entries (ji_JobID info) (fs_db s))) (fs_files s) (fs_files s')"
proof -
  let ?k = "ji_JobID info" and ?ow = "output_writer uuid5 folder (ji_JobID info)" and ?ew = "error_writer uuid5 folder (ji_JobID info)"
  note ws = writers [OF f, of uuid5 ?k]
  let ?loop = "assemble_loop sha marshal env code ?k folder s 0 (- 1) (assembly_after marshal code folder (fs_files s) ?ow ?ew [])"
  from call f obtain a where a: "?loop = Inr a"
    by (cases ?loop) (simp_all add: assembleResumableArtifacts_def start_assembly [where marshal = marshal and code = code and folder = folder and fs = "fs_files s"])
  obtain r1 s1 where c1: "aw_commit sha dflt (fe_out env) job info (jobOutputStorageName ?k) (am_out a) s = (r1, s1)" by fastforce
  obtain r2 s2 where c2: "aw_commit sha dflt (fe_err env) job info (jobErrorStorageName ?k) (am_err a) s1 = (r2, s2)" by fastforce
  have res: "r1 = Inr outID \<and> r2 = Inr errID \<and> s' = s2 \<and> counts = am_counts a"
    using call f a c1 c2
    by (cases r1; cases r2) (simp_all add: assembleResumableArtifacts_def start_assembly [where marshal = marshal and code = code and folder = folder and fs = "fs_files s"])
  have sound: "a = assembly_after marshal code folder (fs_files s) ?ow ?ew (listed_entries ?k (fs_db s))"
    "list_all (renderable sha marshal code folder (fs_files s)) (listed_entries ?k (fs_db s))"
    using assemble_loop_sound [OF ok ws(1,2) a] entries_after_all [OF ok] by (simp_all add: listed_entries_def)
  obtain p1 p2 where p: "resolvePath (aw_folder ?ow) (aw_key ?ow) = Inr p1" "resolvePath (aw_folder ?ew) (aw_key ?ew) = Inr p2"
    using ws(3,4) by blast
  note d1 = aw_commit_sound [OF ws(1) p(1) storage_names(1) c1 [unfolded sound(1) assembly_after_def assembly.simps res [THEN conjunct1]]]
  have d2: "fs_db s2 = fs_db s1 \<and> more_files (fs_files s1) (fs_files s2) \<and> artifact_done sha ?ew (jobErrorStorageName ?k) (ji_TenantID info)
      (err_lines marshal code folder (fs_files s) (listed_entries ?k (fs_db s))) errID s2
      \<and> artifact_bytes ?ew (err_lines marshal code folder (fs_files s) (listed_entries ?k (fs_db s))) (fs_files s) (fs_files s2)"
    using aw_commit_sound [OF ws(2) p(2) storage_names(2), of sha dflt "fe_err env" job info _ "fs_files s" _ s1 errID s2] c2 res
    by (simp add: sound(1) assembly_after_def)
  show ?thesis
    using d1 d2 res sound artifact_done_later [OF _ _ aw_commit_meta [OF c2]] artifact_bytes_more by (auto simp: assembly_after_def)
qed

section \<open>Retrying an assembly\<close>

text \<open>
  What an earlier attempt may have left: each artifact is absent or complete, and a
  file record under its identifier is the right one. The name of an artifact is compared
  with the decoded one, so it has to be UTF-8.
\<close>

definition record_ready :: "string \<Rightarrow> string \<Rightarrow> string \<Rightarrow> int \<Rightarrow> file_row list \<Rightarrow> bool" where
  "record_ready fileID fileName tenantID sz t =
    (valid_utf8 fileName \<and> (\<forall>r \<in> set t. row_id r = fileID \<longrightarrow> record_matches fileName tenantID sz r))"

definition artifact_ready :: "artifactWriter \<Rightarrow> string \<Rightarrow> string \<Rightarrow> string list \<Rightarrow> final_state \<Rightarrow> bool" where
  "artifact_ready w fileName tenantID bs s =
    (case resolvePath (aw_folder w) (aw_key w) of
       Inl e \<Rightarrow> False
     | Inr p \<Rightarrow> map_of (fs_files s) p \<in> {None, Some (concat bs)}
         \<and> record_ready (aw_fileID w) fileName tenantID (int (length (concat bs))) (fs_meta s))"

definition artifact_there :: "artifactWriter \<Rightarrow> string list \<Rightarrow> final_state \<Rightarrow> bool" where
  "artifact_there w bs s = (bs = [] \<or> object_at (aw_folder w) (aw_key w) (fs_files s) = Some (concat bs)
     \<and> aw_fileID w \<in> row_id ` set (fs_meta s))"

lemma file_get_one:
  assumes "files_ok t"
  shows "file_DBGet ConnOk now (no_file_query\<lparr>q_IDs := [k]\<rparr>) b 0 (Suc 0) t =
    (case by_key row_id k t of Some r \<Rightarrow> Inr ([file_of_row b r], 1, False) | None \<Rightarrow> Inr ([], 0, False))"
proof -
  have "filter (\<lambda>r. row_id r = k) t = (case by_key row_id k t of Some r \<Rightarrow> [r] | None \<Rightarrow> [])"
    using assms filter_by_key [of row_id t k "\<lambda>r. True"] by (simp add: files_ok_def split: option.splits)
  then show ?thesis
    by (auto simp: file_DBGet_def no_file_query_def pg_get_def query_conditions_def select_rows_def order_by_id_def
        purpose_filter_def Let_def split: option.splits)
qed

lemma ensureFileRecord_complete:
  assumes t: "files_ok t" and fid: "fid \<noteq> []" and ready: "record_ready fid name tenant sz t"
  shows "ensureFileRecord ConnOk ConnOk dflt now fid name tenant sz tags t =
    (Inr (), if fid \<in> row_id ` set t then t
             else t @ [row_of_file (FileToDBItem (output_file dflt (unix now) fid name sz tags) tenant [])])"
proof (cases "fid \<in> row_id ` set t")
  case True
  then obtain r where r: "r \<in> set t" "row_id r = fid" by auto
  then have "by_key row_id fid t = Some r" using t by (simp add: files_ok_def by_key_Some_iff)
  moreover from r ready obtain f where "row_tenant r = tenant" "frow_purpose r = FileObjectPurposeBatchOutput"
    "frow_spec r = Some (SpecFile f)" "fo_Filename f = name" "fo_Bytes f = sz" by (auto simp: record_ready_def to_valid_utf8_id)
  ultimately show ?thesis
    using True fid r(2) file_get_one [OF t, of now fid True]
    by (simp add: ensureFileRecord_def storeFileRecord_def file_DBStore_def pg_store_def row_of_file_def FileToDBItem_def
        output_file_def file_of_row_def DBItemToFile_def Let_def)
next
  case False
  with fid show ?thesis
    by (simp add: ensureFileRecord_def storeFileRecord_def file_DBStore_def pg_store_def row_of_file_def FileToDBItem_def
        output_file_def Let_def)
qed

lemma aw_commit_again:
  assumes w: "fresh_writer w" "aw_fileID w \<noteq> []" and t: "files_ok (fs_meta s)"
    and env: "ar_verify env" "ar_put env = ConnOk" "ar_get env = ConnOk"
    and ready: "artifact_ready w name (ji_TenantID info) bs s" and there: "artifact_there w bs s"
  shows "aw_commit sha dflt env job info name (writer_after w (fs_files s) bs) s = (Inr (if bs = [] then [] else aw_fileID w), s)"
proof (cases "bs = []")
  case True
  with w show ?thesis by (simp add: aw_commit_def fresh_writer_def)
next
  case False
  obtain p where p: "resolvePath (aw_folder w) (aw_key w) = Inr p" using ready by (auto simp: artifact_ready_def split: sum.splits)
  have m: "map_of (fs_files s) p = Some (concat bs)" and i: "aw_fileID w \<in> row_id ` set (fs_meta s)"
    using there False p by (auto simp: artifact_there_def object_at_def)
  have wa: "writer_after w (fs_files s) bs = w\<lparr>aw_existing := True, aw_seen := concat bs\<rparr>"
    using False p m by (simp add: writer_after_def)
  have "verifyExisting sha (ar_verify env) (w\<lparr>aw_existing := True, aw_seen := concat bs\<rparr>) (fs_files s) = Inr ()"
    using p m env by (simp add: verifyExisting_def Retrieve_def)
  moreover have "record_ready (aw_fileID w) name (ji_TenantID info) (int (length (concat bs))) (fs_meta s)"
    using ready p by (simp add: artifact_ready_def)
  note ensureFileRecord_complete [OF t w(2) this]
  ultimately show ?thesis using False env i by (simp add: wa aw_commit_def)
qed

lemma aw_commit_first:
  assumes w: "fresh_writer w" "aw_fileID w \<noteq> []" and t: "files_ok (fs_meta s)"
    and env: "ar_commit env" "ar_verify env" "ar_put env = ConnOk" "ar_get env = ConnOk"
    and p: "resolvePath (aw_folder w) (aw_key w) = Inr p" and fs: "map_of fs p = map_of (fs_files s) p"
    and ready: "artifact_ready w name (ji_TenantID info) bs s"
  obtains s' where "aw_commit sha dflt env job info name (writer_after w fs bs) s = (Inr (if bs = [] then [] else aw_fileID w), s')"
    and "fs_db s' = fs_db s" and "files_ok (fs_meta s')" and "artifact_ready w name (ji_TenantID info) bs s'" and "artifact_there w bs s'"
    and "more_files (fs_files s) (fs_files s')" and "\<And>q. q \<noteq> p \<Longrightarrow> map_of (fs_files s') q = map_of (fs_files s) q"
    and "\<And>r. r \<in> set (fs_meta s') \<Longrightarrow> row_id r \<noteq> aw_fileID w \<Longrightarrow> r \<in> set (fs_meta s)" and "set (fs_meta s) \<subseteq> set (fs_meta s')"
proof -
  let ?sz = "int (length (concat bs))"
  define row where "row = row_of_file (FileToDBItem (output_file dflt (unix (ar_now env)) (aw_fileID w) name ?sz (bi_Tags job)) (ji_TenantID info) [])"
  define t' where "t' = (if aw_fileID w \<in> row_id ` set (fs_meta s) then fs_meta s else fs_meta s @ [row])"
  have row: "row_id row = aw_fileID w" "row_tenant row = ji_TenantID info" "frow_purpose row = FileObjectPurposeBatchOutput"
      "\<exists>f. frow_spec row = Some (SpecFile f) \<and> fo_Filename f \<in> {name, to_valid_utf8 name} \<and> fo_Bytes f = ?sz"
    by (simp_all add: row_def row_of_file_def FileToDBItem_def output_file_def Let_def)
  have rr: "record_ready (aw_fileID w) name (ji_TenantID info) ?sz (fs_meta s)" and m: "map_of (fs_files s) p \<in> {None, Some (concat bs)}"
    using ready p by (simp_all add: artifact_ready_def)
  note ens = ensureFileRecord_complete [OF t w(2) rr, of dflt "ar_now env" "bi_Tags job", folded row_def t'_def]
  have t': "files_ok t'" "record_ready (aw_fileID w) name (ji_TenantID info) ?sz t'" "aw_fileID w \<in> row_id ` set t'"
      "set (fs_meta s) \<subseteq> set t'" "\<And>r. r \<in> set t' \<Longrightarrow> row_id r \<noteq> aw_fileID w \<Longrightarrow> r \<in> set (fs_meta s)"
    using t rr row by (auto simp: t'_def files_ok_def record_ready_def split: if_splits)
  consider (none) "bs = []" | (old) "bs \<noteq> []" "map_of (fs_files s) p = Some (concat bs)" | (new) "bs \<noteq> []" "map_of (fs_files s) p = None"
    using m by auto
  then show thesis
  proof cases
    case none
    with w t ready show thesis by (intro that [of s]) (simp_all add: aw_commit_def fresh_writer_def artifact_there_def)
  next
    case old
    have wa: "writer_after w fs bs = w\<lparr>aw_existing := True, aw_seen := concat bs\<rparr>" using old p fs by (simp add: writer_after_def)
    have v: "verifyExisting sha True (w\<lparr>aw_existing := True, aw_seen := concat bs\<rparr>) (fs_files s) = Inr ()"
      using p old by (simp add: verifyExisting_def Retrieve_def)
    show thesis
      using t' old p env by (intro that [of "s\<lparr>fs_meta := t'\<rparr>"])
        (simp_all add: wa aw_commit_def v ens artifact_ready_def artifact_there_def object_at_def)
  next
    case new
    have wa: "writer_after w fs bs = w\<lparr>aw_writer := Some \<lparr>st_path = p, st_data = concat bs\<rparr>\<rparr>" using new p fs by (simp add: writer_after_def)
    show thesis
      using t' new p env w by (intro that [of "s\<lparr>fs_files := (p, concat bs) # fs_files s, fs_meta := t'\<rparr>"])
        (simp_all add: wa aw_commit_def ens artifact_ready_def artifact_there_def object_at_def fresh_writer_def stream_Commit_def
          more_files_def)
  qed
qed

definition assembly_ready ::
  "(string \<Rightarrow> string) \<Rightarrow> (string \<Rightarrow> string) \<Rightarrow> (outputLine \<Rightarrow> string res) \<Rightarrow> BatchErrorCode option \<Rightarrow> JobInfo \<Rightarrow> string \<Rightarrow> final_state \<Rightarrow> bool" where
  "assembly_ready sha256hex uuid5 marshal code info folder s =
    (let k = ji_JobID info; es = listed_entries k (fs_db s); ow = output_writer uuid5 folder k; ew = error_writer uuid5 folder k
     in ordinals_ok k (fs_db s) \<and> files_ok (fs_meta s) \<and> list_all (renderable sha256hex marshal code folder (fs_files s)) es
        \<and> artifact_ready ow (jobOutputStorageName k) (ji_TenantID info) (out_lines marshal code folder (fs_files s) es) s
        \<and> artifact_ready ew (jobErrorStorageName k) (ji_TenantID info) (err_lines marshal code folder (fs_files s) es) s
        \<and> resolvePath (aw_folder ow) (aw_key ow) \<noteq> resolvePath (aw_folder ew) (aw_key ew) \<and> aw_fileID ow \<noteq> aw_fileID ew)"

lemma artifact_ready_other:
  assumes "artifact_ready w name tenant bs s" and "resolvePath (aw_folder w) (aw_key w) = Inr p" and "p \<noteq> p'"
    and "\<And>q. q \<noteq> p' \<Longrightarrow> map_of (fs_files s') q = map_of (fs_files s) q"
    and "\<And>r. r \<in> set (fs_meta s') \<Longrightarrow> row_id r \<noteq> i \<Longrightarrow> r \<in> set (fs_meta s)" and "aw_fileID w \<noteq> i"
  shows "artifact_ready w name tenant bs s'"
  using assms by (fastforce simp: artifact_ready_def record_ready_def)

lemma lines_more:
  assumes "list_all (renderable sha marshal code folder fs) es" and "more_files fs fs'"
  shows "list_all (renderable sha marshal code folder fs') es" and "out_lines marshal code folder fs' es = out_lines marshal code folder fs es"
    and "err_lines marshal code folder fs' es = err_lines marshal code folder fs es"
proof -
  have obj: "object_at folder key fs = Some d \<Longrightarrow> object_at folder key fs' = Some d" for key d
    using assms(2) by (auto simp: object_at_def more_files_def split: sum.splits)
  have "entry_line marshal code folder fs' e = entry_line marshal code folder fs e" if "e \<in> set es" for e
    using that assms(1) obj by (auto simp: entry_line_def list_all_iff renderable_def holds_object_def split: option.splits)
  then show "out_lines marshal code folder fs' es = out_lines marshal code folder fs es"
    "err_lines marshal code folder fs' es = err_lines marshal code folder fs es" by (simp_all add: out_lines_def err_lines_def)
  show "list_all (renderable sha marshal code folder fs') es"
    using assms holds_object_more [OF assms(2)] by (auto simp: list_all_iff renderable_def split: if_splits)
qed

text \<open>An assembly whose loop has run is its two commits.\<close>

lemma assemble_by_commits:
  assumes ok: "ordinals_ok (ji_JobID info) (fs_db s)" and f: "GetFolderNameByTenantID sha (ji_TenantID info) = Inr folder"
    and env: "works env" and r: "list_all (renderable sha marshal code folder (fs_files s)) (listed_entries (ji_JobID info) (fs_db s))"
    and 1: "aw_commit sha dflt (fe_out env) job info (jobOutputStorageName (ji_JobID info))
      (writer_after (output_writer uuid5 folder (ji_JobID info)) (fs_files s)
        (out_lines marshal code folder (fs_files s) (listed_entries (ji_JobID info) (fs_db s)))) s = (Inr i1, s1)"
    and 2: "aw_commit sha dflt (fe_err env) job info (jobErrorStorageName (ji_JobID info))
      (writer_after (error_writer uuid5 folder (ji_JobID info)) (fs_files s)
        (err_lines marshal code folder (fs_files s) (listed_entries (ji_JobID info) (fs_db s)))) s1 = (Inr i2, s2)"
  shows "assembleResumableArtifacts sha uuid5 marshal dflt env job info code s
    = (Inr (entry_counts (listed_entries (ji_JobID info) (fs_db s)), i1, i2), s2)"
proof -
  let ?k = "ji_JobID info"
  note ws = writers [OF f, of uuid5 ?k]
  have "assemble_loop sha marshal env code ?k folder s 0 (- 1) (assembly_after marshal code folder (fs_files s) (output_writer uuid5 folder ?k) (error_writer uuid5 folder ?k) [])
      = Inr (assembly_after marshal code folder (fs_files s) (output_writer uuid5 folder ?k) (error_writer uuid5 folder ?k) (listed_entries ?k (fs_db s)))"
    using assemble_loop_complete [OF ok ws(1,2) _ _ env, of sha marshal code folder "- 1" 0 "[]"] ws(3,4) r
    by (auto simp: entries_after_all [OF ok] listed_entries_def)
  with f 1 2 show ?thesis
    by (simp add: assembleResumableArtifacts_def start_assembly [where marshal = marshal and code = code and folder = folder and fs = "fs_files s"])
      (simp add: assembly_after_def)
qed

lemma writer_ids: "aw_fileID (output_writer uuid5 folder k) \<noteq> []" "aw_fileID (error_writer uuid5 folder k) \<noteq> []"
  by (simp_all add: output_writer_def error_writer_def new_writer_def stableFileID_def)

lemma works_artifact:
  "works env \<Longrightarrow> ar \<in> {fe_out env, fe_err env} \<Longrightarrow> ar_commit ar \<and> ar_verify ar \<and> ar_put ar = ConnOk \<and> ar_get ar = ConnOk"
  by (auto simp: works_def)

lemma assemble_again:
  assumes ok: "ordinals_ok (ji_JobID info) (fs_db s)" "files_ok (fs_meta s)" and f: "GetFolderNameByTenantID sha (ji_TenantID info) = Inr folder"
    and env: "works env" and r: "list_all (renderable sha marshal code folder (fs_files s)) (listed_entries (ji_JobID info) (fs_db s))"
    and out: "out_lines marshal code folder (fs_files s) (listed_entries (ji_JobID info) (fs_db s)) = bs"
      "artifact_ready (output_writer uuid5 folder (ji_JobID info)) (jobOutputStorageName (ji_JobID info)) (ji_TenantID info) bs s"
      "artifact_there (output_writer uuid5 folder (ji_JobID info)) bs s"
    and err: "err_lines marshal code folder (fs_files s) (listed_entries (ji_JobID info) (fs_db s)) = cs"
      "artifact_ready (error_writer uuid5 folder (ji_JobID info)) (jobErrorStorageName (ji_JobID info)) (ji_TenantID info) cs s"
      "artifact_there (error_writer uuid5 folder (ji_JobID info)) cs s"
  shows "assembleResumableArtifacts sha uuid5 marshal dflt env job info code s
    = (Inr (entry_counts (listed_entries (ji_JobID info) (fs_db s)),
        if bs = [] then [] else aw_fileID (output_writer uuid5 folder (ji_JobID info)),
        if cs = [] then [] else aw_fileID (error_writer uuid5 folder (ji_JobID info))), s)"
  by (rule assemble_by_commits [OF ok(1) f env r])
    (simp_all only: out(1) err(1), (rule aw_commit_again; use ok out err writers [OF f] writer_ids works_artifact [OF env] in simp)+)

lemma retry_spec:
  assumes ready: "assembly_ready sha uuid5 marshal code info folder s" and f: "GetFolderNameByTenantID sha (ji_TenantID info) = Inr folder"
    and env: "works env" "works env2"
  obtains s' i1 i2 where "assembleResumableArtifacts sha uuid5 marshal dflt env job info code s
        = (Inr (entry_counts (listed_entries (ji_JobID info) (fs_db s)), i1, i2), s')"
    and "assembleResumableArtifacts sha uuid5 marshal dflt env2 job2 info code s'
        = (Inr (entry_counts (listed_entries (ji_JobID info) (fs_db s)), i1, i2), s')"
proof -
  let ?k = "ji_JobID info"
  let ?es = "listed_entries ?k (fs_db s)" and ?ow = "output_writer uuid5 folder ?k" and ?ew = "error_writer uuid5 folder ?k"
  let ?out = "out_lines marshal code folder (fs_files s) ?es" and ?err = "err_lines marshal code folder (fs_files s) ?es"
  have R: "ordinals_ok ?k (fs_db s)" "files_ok (fs_meta s)" "list_all (renderable sha marshal code folder (fs_files s)) ?es"
    and r1: "artifact_ready ?ow (jobOutputStorageName ?k) (ji_TenantID info) ?out s"
    and r2: "artifact_ready ?ew (jobErrorStorageName ?k) (ji_TenantID info) ?err s"
    and ids: "aw_fileID ?ow \<noteq> aw_fileID ?ew" and paths: "resolvePath (aw_folder ?ow) (aw_key ?ow) \<noteq> resolvePath (aw_folder ?ew) (aw_key ?ew)"
    using ready by (simp_all add: assembly_ready_def Let_def)
  note ws = writers [OF f, of uuid5 ?k]
  obtain p1 p2 where p: "resolvePath (aw_folder ?ow) (aw_key ?ow) = Inr p1" "resolvePath (aw_folder ?ew) (aw_key ?ew) = Inr p2"
    using ws(3,4) by blast
  with paths have "p1 \<noteq> p2" by simp
  have io: "ar_commit (fe_out env)" "ar_verify (fe_out env)" "ar_put (fe_out env) = ConnOk" "ar_get (fe_out env) = ConnOk"
      "ar_commit (fe_err env)" "ar_verify (fe_err env)" "ar_put (fe_err env) = ConnOk" "ar_get (fe_err env) = ConnOk"
    using works_artifact [OF env(1)] by simp_all
  obtain s1 where c1: "aw_commit sha dflt (fe_out env) job info (jobOutputStorageName ?k) (writer_after ?ow (fs_files s) ?out) s
        = (Inr (if ?out = [] then [] else aw_fileID ?ow), s1)"
    and s1: "fs_db s1 = fs_db s" "files_ok (fs_meta s1)" "artifact_ready ?ow (jobOutputStorageName ?k) (ji_TenantID info) ?out s1"
      "artifact_there ?ow ?out s1" "more_files (fs_files s) (fs_files s1)" "\<And>q. q \<noteq> p1 \<Longrightarrow> map_of (fs_files s1) q = map_of (fs_files s) q"
      "\<And>r. r \<in> set (fs_meta s1) \<Longrightarrow> row_id r \<noteq> aw_fileID ?ow \<Longrightarrow> r \<in> set (fs_meta s)"
    using aw_commit_first [OF ws(1) writer_ids(1) R(2) io(1-4) p(1) refl r1] by metis
  have r2': "artifact_ready ?ew (jobErrorStorageName ?k) (ji_TenantID info) ?err s1"
    by (rule artifact_ready_other [OF r2 p(2) _ s1(6,7)]) (use \<open>p1 \<noteq> p2\<close> ids in auto)
  obtain s2 where c2: "aw_commit sha dflt (fe_err env) job info (jobErrorStorageName ?k) (writer_after ?ew (fs_files s) ?err) s1
        = (Inr (if ?err = [] then [] else aw_fileID ?ew), s2)"
    and s2: "fs_db s2 = fs_db s1" "files_ok (fs_meta s2)" "artifact_ready ?ew (jobErrorStorageName ?k) (ji_TenantID info) ?err s2"
      "artifact_there ?ew ?err s2" "more_files (fs_files s1) (fs_files s2)" "\<And>q. q \<noteq> p2 \<Longrightarrow> map_of (fs_files s2) q = map_of (fs_files s1) q"
      "\<And>r. r \<in> set (fs_meta s2) \<Longrightarrow> row_id r \<noteq> aw_fileID ?ew \<Longrightarrow> r \<in> set (fs_meta s1)" "set (fs_meta s1) \<subseteq> set (fs_meta s2)"
    using aw_commit_first [OF ws(2) writer_ids(2) s1(2) io(5-8) p(2) s1(6) [OF \<open>p1 \<noteq> p2\<close> [symmetric], symmetric] r2'] by metis
  have a1: "artifact_ready ?ow (jobOutputStorageName ?k) (ji_TenantID info) ?out s2"
    by (rule artifact_ready_other [OF s1(3) p(1) \<open>p1 \<noteq> p2\<close> s2(6,7)]) (use ids in auto)
  have t1: "artifact_there ?ow ?out s2"
    using s1(4) s2(6) [OF \<open>p1 \<noteq> p2\<close>] s2(8) by (auto simp: artifact_there_def object_at_def p)
  note more = more_files_trans [OF s1(5) s2(5)]
  note L = lines_more [OF R(3) more]
  have db: "fs_db s2 = fs_db s" using s1(1) s2(1) by simp
  have "assembleResumableArtifacts sha uuid5 marshal dflt env2 job2 info code s2 =
      (Inr (entry_counts ?es, if ?out = [] then [] else aw_fileID ?ow, if ?err = [] then [] else aw_fileID ?ew), s2)"
    using assemble_again [OF _ s2(2) f env(2), of marshal code ?out uuid5 ?err] R(1) L a1 t1 s2(3,4) by (simp add: db)
  then show thesis by (rule that [OF assemble_by_commits [OF R(1) f env(1) R(3) c1 c2]])
qed

section \<open>The terminal write\<close>

lemma entries_UpdatePersistentStatus:
  "batch_entries (snd (UpdatePersistentStatus c now job st counts slo m s)) = batch_entries s"
  by (cases c) (auto simp: UpdatePersistentStatus_def updatePersistentStatus_def DBUpdate_def update_items_def Let_def
      split: sum.split prod.split)

lemma listed_entries_cong: "batch_entries s' = batch_entries s \<Longrightarrow> listed_entries k s' = listed_entries k s \<and> ordinals_ok k s' = ordinals_ok k s"
  by (simp add: listed_entries_def ordinals_ok_def entries_of_def)

lemma FinalizeResumableBatch_Ok:
  assumes s: "db_ok s" and call: "FinalizeResumableBatch c c2 now fin s = (Inr u, s')"
  shows "\<exists>r. find_item (fi_BatchID fin) s' = Some r \<and> row_status r = fi_Status fin"
proof -
  let ?u = "update_items (finalize_guard now fin) (finalize_eff fin) s"
  have n: "fst ?u = (case find_item (fi_BatchID fin) s of None \<Rightarrow> 0 | Some r \<Rightarrow> if finalize_guard now fin r then 1 else 0)"
    by (rule update_items_count [OF s]) (simp add: finalize_guard_def)
  have f: "find_item (fi_BatchID fin) (snd ?u) = map_option (\<lambda>r. if finalize_guard now fin r then finalize_eff fin r else r) (find_item (fi_BatchID fin) s)"
    by (rule find_item_update_items) (simp add: finalize_eff_def)
  show ?thesis
  proof (cases "fst ?u > 0")
    case True
    with call have "s' = snd ?u" by (cases c) (auto simp: FinalizeResumableBatch_def split: if_splits)
    with True n f show ?thesis by (auto simp: finalize_eff_def split: option.splits if_splits)
  next
    case False
    with call show ?thesis
      by (cases c) (auto simp: FinalizeResumableBatch_def split: if_splits option.splits)
  qed
qed

lemma BuildStatus_document:
  assumes "BuildStatus now job st (Some counts) slo (withFileIDs a b) = Inr doc"
  shows "si_Status doc = st \<and> si_RequestCounts doc = counts
    \<and> (a \<noteq> [] \<longrightarrow> si_OutputFileID doc = Some a) \<and> (b \<noteq> [] \<longrightarrow> si_ErrorFileID doc = Some b)"
  using assms BuildUpdatedStatusInfo_status BuildUpdatedStatusInfo_counts
  by (fastforce simp: BuildStatus_def withFileIDs_def Let_def split: option.splits sum.splits)

lemma finalizeResumableStatus_Ok:
  assumes s: "db_ok (fs_db s)" and call: "finalizeResumableStatus sha env self job ex st counts a b s = (Inr u, s')"
  shows "\<exists>r doc. find_item (bi_ID job) (fs_db s') = Some r \<and> row_status r = Some doc \<and> si_Status doc = st \<and> si_RequestCounts doc = counts
    \<and> (a \<noteq> [] \<longrightarrow> si_OutputFileID doc = Some a) \<and> (b \<noteq> [] \<longrightarrow> si_ErrorFileID doc = Some b)"
proof -
  obtain doc where doc: "BuildStatus (te_now env) job st (Some counts) None (withFileIDs a b) = Inr doc"
    using call by (auto simp: finalizeResumableStatus_def split: sum.splits)
  let ?fin = "\<lparr>fi_BatchID = bi_ID job, fi_ProcessorID = self, fi_Epoch = bi_Epoch job, fi_ExpectedStatus = status_name ex, fi_Status = Some doc\<rparr>"
  obtain r d where fin: "FinalizeResumableBatch (te_conn env) (te_check env) (te_dbnow env) ?fin (fs_db s) = (r, d)" by fastforce
  with call doc have "r = Inr () \<and> fs_db s' = d" by (cases r) (auto simp: finalizeResumableStatus_def)
  with FinalizeResumableBatch_Ok [OF s, of "te_conn env" "te_check env" "te_dbnow env" ?fin] fin BuildStatus_document [OF doc]
  show ?thesis by auto
qed

text \<open>
  What the storage names rely on: the hex digest of the tenant, the batch identifier and
  the UUIDs of the artifacts are single path elements, and the job's description is that
  of its row. The purge of the result objects then spares the artifacts.
\<close>

definition job_names :: "(string \<Rightarrow> string) \<Rightarrow> string \<Rightarrow> BatchItem \<Rightarrow> JobInfo \<Rightarrow> bool" where
  "job_names uuid5 folder job info =
    (plain_name folder \<and> plain_name (bi_ID job) \<and> bi_TenantID job = ji_TenantID info
     \<and> list_all (\<lambda>t. slash \<notin> set (uuid5 (ji_JobID info @ [CHR 0x00] @ t))) [''output'', ''error''])"

lemma storage_ext: "path_ext (jobOutputStorageName k) = ''.jsonl''" "path_ext (jobErrorStorageName k) = ''.jsonl''"
  by (simp_all add: path_ext_def jobOutputStorageName_def jobErrorStorageName_def slash_def dot_def)

lemma artifact_keys:
  assumes "job_names uuid5 folder job info"
  shows "plain_name (aw_key (output_writer uuid5 folder (ji_JobID info)))" "plain_name (aw_key (error_writer uuid5 folder (ji_JobID info)))"
  using assms by (auto simp: job_names_def plain_name_def output_writer_def error_writer_def new_writer_def FileStorageName_def
      storage_ext stableFileID_def slash_def)

lemma purge_keeps:
  assumes "GetFolderNameByTenantID sha tenant = Inr folder" and "plain_name folder" and "plain_name k" and "plain_name key"
  shows "object_at folder key (purgeResultObjects sha fails k tenant fs) = object_at folder key fs"
  using assms DeletePrefix_results_keeps [OF assms(2,3,2,4)]
  by (simp add: purgeResultObjects_def object_at_def resolvePath_def plain_name_def)

lemma artifact_done_purged:
  assumes "artifact_done sha w name tenant bs fid s" and "artifact_bytes w bs fs (fs_files s)"
    and "object_at (aw_folder w) (aw_key w) (fs_files s') = object_at (aw_folder w) (aw_key w) (fs_files s)" and "fs_meta s' = fs_meta s"
  shows "artifact_done sha w name tenant bs fid s' \<and> artifact_bytes w bs fs (fs_files s')"
  using assms by (auto simp: artifact_done_def artifact_bytes_def holds_object_def split: if_splits)

lemma finalizeResumableStatus_files:
  "finalizeResumableStatus sha env self job ex st counts a b s = (Inr u, s') \<Longrightarrow>
    fs_meta s' = fs_meta s \<and> fs_files s' = purgeResultObjects sha (te_purge env) (bi_ID job) (bi_TenantID job) (fs_files s)"
  by (auto simp: finalizeResumableStatus_def split: sum.splits prod.splits)

lemma terminal_write_keeps_artifacts:
  assumes f: "GetFolderNameByTenantID sha (ji_TenantID info) = Inr folder" and n: "job_names uuid5 folder job info"
    and call: "finalizeResumableStatus sha env self job ex st counts a b s = (Inr u, s')"
    and w: "w \<in> {output_writer uuid5 folder (ji_JobID info), error_writer uuid5 folder (ji_JobID info)}"
    and d: "artifact_done sha w name (ji_TenantID info) bs fid s" "artifact_bytes w bs fs (fs_files s)"
  shows "artifact_done sha w name (ji_TenantID info) bs fid s' \<and> artifact_bytes w bs fs (fs_files s')"
proof (rule artifact_done_purged [OF d])
  have "aw_folder w = folder" using w by (auto simp: output_writer_def error_writer_def new_writer_def)
  then show "object_at (aw_folder w) (aw_key w) (fs_files s') = object_at (aw_folder w) (aw_key w) (fs_files s)"
    using purge_keeps [OF f] n w artifact_keys [OF n] finalizeResumableStatus_files [OF call] by (auto simp: job_names_def)
qed (use finalizeResumableStatus_files [OF call] in simp)

text \<open>A stale owner: what it still tries to write does not change the database.\<close>

lemma stale_UpdatePersistentStatus:
  assumes s: "db_ok s" and old: "superseded (bi_ID job) (bi_Epoch job) s" and e: "0 < bi_Epoch job"
  shows "snd (UpdatePersistentStatus c now job st counts slo m s) = s \<and> \<not> is_ok (fst (UpdatePersistentStatus c now job st counts slo m s))"
proof (cases "BuildStatus now job st counts slo m")
  case (Inr doc)
  let ?item = "zero_item\<lparr>bi_ID := bi_ID job, bi_Status := Some doc, bi_Epoch := bi_Epoch job, bi_ExpectedResumable := bi_ExpectedResumable job\<rparr>"
  have "update_items (update_guard ?item None) (update_eff ?item) s = (0, s)"
    by (rule update_items_noop [OF s, of _ "bi_ID job"])
      (use old e in \<open>auto simp: update_guard_def update_epoch_cond_def superseded_def split: option.splits\<close>)
  with Inr show ?thesis
    by (cases c) (simp_all add: UpdatePersistentStatus_def updatePersistentStatus_def DBUpdate_def)
qed (simp add: UpdatePersistentStatus_def updatePersistentStatus_def)

lemma stale_finalizeResumableStatus:
  assumes s: "db_ok (fs_db s)" and old: "superseded (bi_ID job) (bi_Epoch job) (fs_db s)"
  shows "fs_db (snd (finalizeResumableStatus sha env self job ex st counts a b s)) = fs_db s"
proof (cases "BuildStatus (te_now env) job st (Some counts) None (withFileIDs a b)")
  case (Inr doc)
  let ?fin = "\<lparr>fi_BatchID = bi_ID job, fi_ProcessorID = self, fi_Epoch = bi_Epoch job, fi_ExpectedStatus = status_name ex, fi_Status = Some doc\<rparr>"
  have "update_items (finalize_guard (te_dbnow env) ?fin) (finalize_eff ?fin) (fs_db s) = (0, fs_db s)"
    by (rule update_items_noop [OF s, of _ "bi_ID job"])
      (use old in \<open>auto simp: finalize_guard_def superseded_def split: option.splits\<close>)
  then have "snd (FinalizeResumableBatch (te_conn env) (te_check env) (te_dbnow env) ?fin (fs_db s)) = fs_db s"
    by (cases "te_conn env") (auto simp: FinalizeResumableBatch_def split: option.splits)
  with Inr show ?thesis by (auto simp: finalizeResumableStatus_def split: prod.split sum.split)
qed (simp add: finalizeResumableStatus_def)

lemma aw_commit_db: "fs_db (snd (aw_commit sha dflt env job info name w s)) = fs_db s"
  by (auto simp: aw_commit_def Let_def split: sum.split prod.split option.split)

lemma assemble_db: "fs_db (snd (assembleResumableArtifacts sha uuid5 marshal dflt env job info code s)) = fs_db s"
proof -
  have "aw_commit sha dflt env' job info name w s0 = (r, s1) \<Longrightarrow> fs_db s1 = fs_db s0" for env' name w s0 r s1
    using aw_commit_db by (metis snd_conv)
  then show ?thesis
    by (simp add: assembleResumableArtifacts_def Let_def split: sum.split prod.split)
qed

lemma stream_Commit_more: "stream_Commit io w fs = (r, fs') \<Longrightarrow> more_files fs fs'"
  by (auto simp: stream_Commit_def more_files_def split: if_splits)

lemma aw_commit_more: "aw_commit sha dflt env job info name w s = (r, s') \<Longrightarrow> more_files (fs_files s) (fs_files s')"
  by (auto simp: aw_commit_def Let_def split: sum.splits prod.splits option.splits if_splits dest: stream_Commit_more)

lemma assemble_more: "more_files (fs_files s) (fs_files (snd (assembleResumableArtifacts sha uuid5 marshal dflt env job info code s)))"
proof -
  have "aw_commit sha dflt (fe_out env) job info n1 w1 s = (r1, s1) \<Longrightarrow> aw_commit sha dflt (fe_err env) job info n2 w2 s1 = (r2, s2)
      \<Longrightarrow> more_files (fs_files s) (fs_files s1) \<and> more_files (fs_files s) (fs_files s2)" for n1 w1 r1 s1 n2 w2 r2 s2
    using aw_commit_more more_files_trans by metis
  then show ?thesis
    by (simp add: assembleResumableArtifacts_def Let_def split: sum.split prod.split) (meson surj_pair)
qed

section \<open>A batch to finalize\<close>

text \<open>One completed entry, one failed with an error code, one never executed; the objects of the first two are stored.\<close>

definition done_entry :: "string \<Rightarrow> int \<Rightarrow> ResumableEntryStatus \<Rightarrow> string \<Rightarrow> string \<Rightarrow> entry_row" where
  "done_entry q ord st line code = (sample_entry q ord st 1)\<lparr>en_key := Some q, en_bytes := nullable_int (int (length line)),
     en_sha := nullable line, en_code := nullable code\<rparr>"

definition final_sample :: "ResumableEntryStatus \<Rightarrow> final_state" where
  "final_sample st = \<lparr>fs_db = \<lparr>batch_items = [active_row],
       batch_entries = [done_entry ''r1'' 0 ResumableEntryCompleted ''one'' [], done_entry ''r2'' 1 ResumableEntryFailed ''two'' ''code'',
         done_entry ''r3'' 2 st ''three'' []]\<rparr>,
     fs_files = [(path_join [''t-t'', ''r1''], ''one''), (path_join [''t-t'', ''r2''], ''two''), (path_join [''t-t'', ''r3''], ''three'')],
     fs_meta = []\<rparr>"

definition final_job :: BatchItem where
  "final_job = item_of_row True active_row"

definition final_info :: JobInfo where
  "final_info = (FromDBItemToJobInfoObject final_job)"

definition ok_artifact :: artifact_env where
  "ok_artifact = \<lparr>ar_open = True, ar_commit = True, ar_verify = True, ar_put = ConnOk, ar_get = ConnOk, ar_now = 0\<rparr>"

definition ok_finalize :: finalize_env where
  "ok_finalize = \<lparr>fe_list = (\<lambda>n. ConnOk), fe_fetch = (\<lambda>q. True), fe_write = (\<lambda>q. True), fe_out = ok_artifact, fe_err = ok_artifact\<rparr>"

definition ok_terminal :: terminal_env where
  "ok_terminal = \<lparr>te_conn = ConnOk, te_check = ConnOk, te_now = 0, te_dbnow = 50, te_purge = (\<lambda>p. False)\<rparr>"

definition plain_line :: "outputLine \<Rightarrow> string res" where
  "plain_line l = Inr (case ol_Error l of None \<Rightarrow> ol_ID l | Some e \<Rightarrow> ol_ID l @ er_Code e)"

lemma works_ok: "works ok_finalize"
  by (simp add: works_def ok_finalize_def ok_artifact_def)

lemma final_sample_run:
  "fst (assembleResumableArtifacts id id plain_line 0 ok_finalize final_job final_info (Some ErrCodeBatchExpired) (final_sample ResumableEntryPending))
    = Inr (\<lparr>rc_Total = 3, rc_Completed = 1, rc_Failed = 2\<rparr>, ''file_b1'' @ [CHR 0x00] @ ''output'', ''file_b1'' @ [CHR 0x00] @ ''error'')"
  by code_simp

section \<open>Properties of finalization\<close>

text \<open>
  C8: When the assembly of a batch reports success, whatever happened on the way, the
  artifacts are exact: the counts are those of the entries, every terminal entry's
  object had the recorded size and digest, each entry contributed one line to
  exactly one artifact, and each artifact that has lines is stored, with a file
  record, holding the lines of its entries in the order of their ordinals (up to a
  digest collision when an earlier attempt had stored it); the database of batches
  is untouched.
\<close>

theorem assembly_exact:
  assumes "ordinals_ok (ji_JobID info) (fs_db s)" and "GetFolderNameByTenantID sha (ji_TenantID info) = Inr folder"
    and "assembleResumableArtifacts sha uuid5 marshal dflt env job info code s = (Inr (counts, outID, errID), s')"
    and "es = listed_entries (ji_JobID info) (fs_db s)"
  shows "counts = entry_counts es \<and> fs_db s' = fs_db s \<and> list_all (renderable sha marshal code folder (fs_files s)) es
    \<and> length (out_lines marshal code folder (fs_files s) es) + length (err_lines marshal code folder (fs_files s) es) = length es
    \<and> artifact_done sha (output_writer uuid5 folder (ji_JobID info)) (jobOutputStorageName (ji_JobID info)) (ji_TenantID info)
        (out_lines marshal code folder (fs_files s) es) outID s'
    \<and> artifact_done sha (error_writer uuid5 folder (ji_JobID info)) (jobErrorStorageName (ji_JobID info)) (ji_TenantID info)
        (err_lines marshal code folder (fs_files s) es) errID s'"
  using assembly_sound [OF assms(1-3)] sum_length_filter_compl [of to_output es] by (simp add: assms(4) out_lines_def err_lines_def)

lemma final_sample_ordinals: "ordinals_ok ''b1'' (fs_db (final_sample st))"
  by (simp add: ordinals_ok_def entries_of_def final_sample_def done_entry_def sample_entry_def)

lemma final_info_simps [simp]: "ji_JobID final_info = ''b1''" "ji_TenantID final_info = ''t''"
  by (simp_all add: final_info_def final_job_def FromDBItemToJobInfoObject_def Let_def item_of_row_def active_row_def sample_row_def)

lemma sample_folder: "GetFolderNameByTenantID id ''t'' = Inr ''t-t''"
  by (simp add: GetFolderNameByTenantID_def)

theorem assembly_exact_witness:
  "\<exists>s'. artifact_done id (error_writer id ''t-t'' ''b1'') (jobErrorStorageName ''b1'') ''t'' [''two'', ''r3batch_expired'' @ [newline]]
     (''file_b1'' @ [CHR 0x00] @ ''error'') s'"
proof -
  obtain s' where run: "assembleResumableArtifacts id id plain_line 0 ok_finalize final_job final_info (Some ErrCodeBatchExpired)
      (final_sample ResumableEntryPending) = (Inr (\<lparr>rc_Total = 3, rc_Completed = 1, rc_Failed = 2\<rparr>, ''file_b1'' @ [CHR 0x00] @ ''output'',
        ''file_b1'' @ [CHR 0x00] @ ''error''), s')"
    using final_sample_run by (metis prod.collapse)
  have "err_lines plain_line (Some ErrCodeBatchExpired) ''t-t'' (fs_files (final_sample ResumableEntryPending))
      (listed_entries ''b1'' (fs_db (final_sample ResumableEntryPending))) = [''two'', ''r3batch_expired'' @ [newline]]"
    by code_simp
  then show ?thesis
    using assembly_exact [OF _ _ run refl, of "''t-t''"] final_sample_ordinals sample_folder by auto
qed

text \<open>
  C21: A finalization can be retried. From any state in which every entry can be
  rendered and an earlier attempt left each artifact absent or complete, an assembly
  whose accesses work succeeds with the counts of the entries; and a second one,
  after a crash before the terminal write, succeeds with the same counts and file
  identifiers and changes nothing.
\<close>

theorem assembly_retry_same:
  assumes "assembly_ready sha uuid5 marshal code info folder s" and "GetFolderNameByTenantID sha (ji_TenantID info) = Inr folder"
    and "works env" and "works env2"
  shows "\<exists>i1 i2 s'. assembleResumableArtifacts sha uuid5 marshal dflt env job info code s
        = (Inr (entry_counts (listed_entries (ji_JobID info) (fs_db s)), i1, i2), s')
    \<and> assembleResumableArtifacts sha uuid5 marshal dflt env2 job2 info code s'
        = (Inr (entry_counts (listed_entries (ji_JobID info) (fs_db s)), i1, i2), s')"
  by (rule retry_spec [OF assms, of dflt job job2]) blast

lemma final_sample_ready: "assembly_ready id id plain_line (Some ErrCodeBatchExpired) final_info ''t-t'' (final_sample ResumableEntryPending)"
  by code_simp

theorem assembly_retry_same_witness:
  "\<exists>i1 i2 s'. assembleResumableArtifacts id id plain_line 0 ok_finalize final_job final_info (Some ErrCodeBatchExpired) s'
     = (Inr (entry_counts (listed_entries ''b1'' (fs_db (final_sample ResumableEntryPending))), i1, i2), s')"
  using assembly_retry_same [OF final_sample_ready _ works_ok works_ok, of 0 final_job final_job] sample_folder
  by auto

text \<open>
  C6: A batch that is reported completed is completely accounted for: every entry is
  terminal and its object was verified, the stored document has the status completed
  and the counts of the entries, its completed and failed requests add up to the
  total, and an artifact that has lines is named in it. After the terminal write and the
  purge of the result objects each artifact that has lines is stored under its key with
  a file record and holds the lines of its entries in the order of their ordinals: byte
  for byte when it was written by this run, and with their length and digest when an earlier
  attempt had stored it.
\<close>

theorem completed_batch_is_accounted:
  assumes db: "db_ok (fs_db s)" and ok: "ordinals_ok (ji_JobID info) (fs_db s)"
    and f: "GetFolderNameByTenantID sha (ji_TenantID info) = Inr folder"
    and call: "finalizeResumableJob sha uuid5 marshal dflt c env tenv False self job info s = (Inr u, s')"
    and es: "es = listed_entries (ji_JobID info) (fs_db s)" and n: "job_names uuid5 folder job info"
    and out: "outs = out_lines marshal None folder (fs_files s) es" and err: "errs = err_lines marshal None folder (fs_files s) es"
  shows "list_all (\<lambda>e. entry_terminal (re_Status e)
        \<and> holds_object sha folder (re_ResultKey e) (re_ResultBytes e) (re_ResultSHA256 e) (fs_files s)) es
    \<and> (\<exists>r doc. find_item (bi_ID job) (fs_db s') = Some r \<and> row_status r = Some doc \<and> si_Status doc = BatchStatusCompleted
         \<and> si_RequestCounts doc = entry_counts es
         \<and> rc_Completed (si_RequestCounts doc) + rc_Failed (si_RequestCounts doc) = rc_Total (si_RequestCounts doc)
         \<and> (filter to_output es \<noteq> [] \<longrightarrow> si_OutputFileID doc = Some (stableFileID uuid5 (ji_JobID info) ''output''))
         \<and> (filter (\<lambda>e. \<not> to_output e) es \<noteq> [] \<longrightarrow> si_ErrorFileID doc = Some (stableFileID uuid5 (ji_JobID info) ''error'')))
    \<and> artifact_done sha (output_writer uuid5 folder (ji_JobID info)) (jobOutputStorageName (ji_JobID info)) (ji_TenantID info) outs
        (if outs = [] then [] else stableFileID uuid5 (ji_JobID info) ''output'') s'
    \<and> artifact_done sha (error_writer uuid5 folder (ji_JobID info)) (jobErrorStorageName (ji_JobID info)) (ji_TenantID info) errs
        (if errs = [] then [] else stableFileID uuid5 (ji_JobID info) ''error'') s'
    \<and> artifact_bytes (output_writer uuid5 folder (ji_JobID info)) outs (fs_files s) (fs_files s')
    \<and> artifact_bytes (error_writer uuid5 folder (ji_JobID info)) errs (fs_files s) (fs_files s')"
proof -
  let ?k = "ji_JobID info" and ?job = "job\<lparr>bi_ExpectedResumable := Some True\<rparr>"
  obtain r1 d where up: "UpdatePersistentStatus c (te_now tenv) ?job BatchStatusFinalizing None None (\<lambda>i. i) (fs_db s) = (r1, d)" by fastforce
  then obtain job' where job': "r1 = Inr job'" using call by (cases r1) (auto simp: finalizeResumableJob_def)
  have id': "bi_ID job' = bi_ID job" "bi_TenantID job' = bi_TenantID job"
    using up job' by (auto simp: UpdatePersistentStatus_def updatePersistentStatus_def split: sum.splits prod.splits)
  have d: "db_ok d" "batch_entries d = batch_entries (fs_db s)"
    using safeD(1) [OF safe_UpdatePersistentStatus db] entries_UpdatePersistentStatus up by (metis snd_conv)+
  note le = listed_entries_cong [OF d(2), of ?k]
  obtain r2 s1 where as: "assembleResumableArtifacts sha uuid5 marshal dflt env job' info None (s\<lparr>fs_db := d\<rparr>) = (r2, s1)" by fastforce
  with call up job' obtain counts a b where r2: "r2 = Inr (counts, a, b)" by (cases r2) (auto simp: finalizeResumableJob_def)
  note ex = assembly_sound [OF _ f as [unfolded r2], simplified, OF ok [folded le [THEN conjunct2]], simplified le [THEN conjunct1]]
  obtain r3 s2 where fin: "finalizeResumableStatus sha tenv self job' BatchStatusFinalizing BatchStatusCompleted counts a b s1 = (r3, s2)" by fastforce
  with call up job' as r2 have r3: "r3 = Inr ()" "s2 = s'" by (cases r3; auto simp: finalizeResumableJob_def Let_def)+
  have "db_ok (fs_db s1)" using ex d(1) by simp
  from finalizeResumableStatus_Ok [OF this fin [unfolded r3]] obtain r doc where
    doc: "find_item (bi_ID job) (fs_db s') = Some r" "row_status r = Some doc" "si_Status doc = BatchStatusCompleted" "si_RequestCounts doc = counts"
      "a \<noteq> [] \<longrightarrow> si_OutputFileID doc = Some a" "b \<noteq> [] \<longrightarrow> si_ErrorFileID doc = Some b" by (auto simp: id')
  have "list_all (\<lambda>e. entry_terminal (re_Status e)
        \<and> holds_object sha folder (re_ResultKey e) (re_ResultBytes e) (re_ResultSHA256 e) (fs_files s)) es"
    using ex by (auto simp: es list_all_iff renderable_def split: if_splits)
  moreover have "artifact_done sha (output_writer uuid5 folder ?k) (jobOutputStorageName ?k) (ji_TenantID info) outs a s'
      \<and> artifact_bytes (output_writer uuid5 folder ?k) outs (fs_files s) (fs_files s')"
    "artifact_done sha (error_writer uuid5 folder ?k) (jobErrorStorageName ?k) (ji_TenantID info) errs b s'
      \<and> artifact_bytes (error_writer uuid5 folder ?k) errs (fs_files s) (fs_files s')"
    using terminal_write_keeps_artifacts [OF f _ fin [unfolded r3]] n ex by (auto simp: job_names_def id' out err es)
  moreover have "(outs = [] \<longleftrightarrow> filter to_output es = []) \<and> (errs = [] \<longleftrightarrow> filter (\<lambda>e. \<not> to_output e) es = [])"
    by (simp add: out err out_lines_def err_lines_def)
  moreover have "a = (if outs = [] then [] else stableFileID uuid5 ?k ''output'')" "b = (if errs = [] then [] else stableFileID uuid5 ?k ''error'')"
    using ex by (auto simp: out err es artifact_done_def output_writer_def error_writer_def new_writer_def)
  moreover have "rc_Completed counts + rc_Failed counts = rc_Total counts" using ex by (simp add: entry_counts_def Let_def)
  ultimately show ?thesis
    using ex doc by (auto simp: es stableFileID_def)
qed

definition completed_run :: "unit res \<times> final_state" where
  "completed_run = finalizeResumableJob id id plain_line 0 ConnOk ok_finalize ok_terminal False ''p'' final_job final_info
     (final_sample ResumableEntryCompleted)"

lemma completed_run_ok: "fst completed_run = Inr ()"
  by code_simp

lemma final_sample_ok: "db_ok (fs_db (final_sample st))"
  by (simp add: final_sample_def done_entry_def db_ok_def row_ok_def entry_key_def active_defs)

theorem completed_batch_is_accounted_witness:
  "(\<exists>r doc. find_item ''b1'' (fs_db (snd completed_run)) = Some r \<and> row_status r = Some doc \<and> si_Status doc = BatchStatusCompleted
     \<and> si_RequestCounts doc = \<lparr>rc_Total = 3, rc_Completed = 2, rc_Failed = 1\<rparr>
     \<and> si_OutputFileID doc = Some (''file_b1'' @ [CHR 0x00] @ ''output''))
    \<and> object_at ''t-t'' (''file_b1'' @ [CHR 0x00] @ ''output.jsonl'') (fs_files (snd completed_run)) = Some ''onethree''"
proof -
  let ?s = "final_sample ResumableEntryCompleted" and ?ow = "output_writer id ''t-t'' ''b1''"
  have run: "finalizeResumableJob id id plain_line 0 ConnOk ok_finalize ok_terminal False ''p'' final_job final_info ?s = (Inr (), snd completed_run)"
    using completed_run_ok by (metis completed_run_def prod.collapse)
  have es: "entry_counts (listed_entries ''b1'' (fs_db ?s)) = \<lparr>rc_Total = 3, rc_Completed = 2, rc_Failed = 1\<rparr>"
    "filter to_output (listed_entries ''b1'' (fs_db ?s)) \<noteq> []" "object_at ''t-t'' (aw_key ?ow) (fs_files ?s) = None"
    "out_lines plain_line None ''t-t'' (fs_files ?s) (listed_entries ''b1'' (fs_db ?s)) = [''one'', ''three'']"
    by code_simp+
  have names: "job_names id ''t-t'' final_job final_info" by code_simp
  have w: "aw_folder ?ow = ''t-t''" "aw_key ?ow = ''file_b1'' @ [CHR 0x00] @ ''output.jsonl''" by code_simp+
  have "bi_ID final_job = ''b1''" by (simp add: final_job_def item_of_row_def active_row_def sample_row_def)
  with completed_batch_is_accounted [OF final_sample_ok _ _ run refl names refl refl] es sample_folder final_sample_ordinals w
  show ?thesis by (auto simp: stableFileID_def artifact_bytes_def)
qed

text \<open>
  A processor that lost its batch cannot finalize it. Once the batch is gone or was
  taken over at a higher epoch, neither way of finalizing changes the database of
  batches, whatever its statements report.
\<close>

theorem stale_finalizer_changes_nothing:
  assumes "db_ok (fs_db s)" and "superseded (bi_ID job) (bi_Epoch job) (fs_db s)" and "0 < bi_Epoch job"
  shows "fs_db (snd (finalizeResumableJob sha uuid5 marshal dflt c env tenv cancel self job info s)) = fs_db s
    \<and> fs_db (snd (finalizeResumableAs sha uuid5 marshal dflt env tenv self job info status code expected s)) = fs_db s"
proof
  let ?job = "job\<lparr>bi_ExpectedResumable := Some True\<rparr>"
  show "fs_db (snd (finalizeResumableJob sha uuid5 marshal dflt c env tenv cancel self job info s)) = fs_db s"
    using stale_UpdatePersistentStatus [of "fs_db s" ?job c "te_now tenv" BatchStatusFinalizing None None "\<lambda>i. i"] assms
    by (auto simp: finalizeResumableJob_def split: sum.split prod.split)
  obtain r s1 where as: "assembleResumableArtifacts sha uuid5 marshal dflt env ?job info (Some code) s = (r, s1)" by fastforce
  then have "fs_db s1 = fs_db s" using assemble_db by (metis snd_conv)
  with as show "fs_db (snd (finalizeResumableAs sha uuid5 marshal dflt env tenv self job info status code expected s)) = fs_db s"
    using stale_finalizeResumableStatus [of s1 ?job] assms by (cases r) (auto simp: finalizeResumableAs_def)
qed

definition stolen_sample :: final_state where
  "stolen_sample = (final_sample ResumableEntryCompleted)\<lparr>fs_db := active_db\<lparr>batch_items := [active_row\<lparr>row_epoch := 2\<rparr>]\<rparr>\<rparr>"

theorem stale_finalizer_changes_nothing_witness:
  "superseded ''b1'' 1 (fs_db stolen_sample)
   \<and> fs_db (snd (finalizeResumableJob id id plain_line 0 ConnOk ok_finalize ok_terminal False ''p'' final_job final_info stolen_sample))
     = fs_db stolen_sample"
proof -
  have "db_ok (fs_db stolen_sample)"
    by (simp add: stolen_sample_def db_ok_def row_ok_def entry_key_def active_defs)
  moreover have old: "superseded ''b1'' 1 (fs_db stolen_sample)"
    by (simp add: superseded_def stolen_sample_def find_item_def active_defs)
  moreover have "bi_ID final_job = ''b1''" "bi_Epoch final_job = 1"
    by (simp_all add: final_job_def item_of_row_def active_row_def sample_row_def)
  ultimately show ?thesis using stale_finalizer_changes_nothing [of stolen_sample final_job] by simp
qed

text \<open>
  C37: A stored error artifact of another length blocks finalization for good. When
  the entries that are to be reported as not executed would now be rendered to a
  different number of bytes, for instance because the batch was first expired and is
  now cancelled, every attempt fails, in every environment, and leaves the stored
  artifact and the database as they are, so the next attempt meets the same state.
\<close>

theorem mismatched_artifact_blocks:
  assumes "ordinals_ok (ji_JobID info) (fs_db s)" and "GetFolderNameByTenantID sha (ji_TenantID info) = Inr folder"
    and "object_at folder (aw_key (error_writer uuid5 folder (ji_JobID info))) (fs_files s) = Some d"
    and "bs = err_lines marshal code folder (fs_files s) (listed_entries (ji_JobID info) (fs_db s))"
    and "bs \<noteq> []" and "length d \<noteq> length (concat bs)"
    and "assembleResumableArtifacts sha uuid5 marshal dflt env job info code s = (r, s')"
  shows "\<not> is_ok r \<and> fs_db s' = fs_db s
    \<and> object_at folder (aw_key (error_writer uuid5 folder (ji_JobID info))) (fs_files s') = Some d"
proof -
  have kept: "object_at folder (aw_key (error_writer uuid5 folder (ji_JobID info))) (fs_files s') = Some d"
    using assemble_more [of s sha uuid5 marshal dflt env job info code] assms(3,7)
    by (auto simp: object_at_def more_files_def split: sum.splits)
  have "\<not> is_ok r"
  proof
    assume "is_ok r"
    then obtain counts a b where "r = Inr (counts, a, b)" by (auto simp: is_ok_iff)
    with assembly_sound [OF assms(1,2) assms(7) [unfolded this]] assms(5)
    have "holds_object sha folder (aw_key (error_writer uuid5 folder (ji_JobID info))) (int (length (concat bs))) (sha (concat bs)) (fs_files s')"
      by (simp add: artifact_done_def assms(4)) (simp add: error_writer_def new_writer_def)
    with kept assms(6) show False by (simp add: holds_object_def)
  qed
  with kept assemble_db [of sha uuid5 marshal dflt env job info code s] assms(7) show ?thesis by simp
qed

definition expired_state :: final_state where
  "expired_state = snd (assembleResumableArtifacts id id plain_line 0 ok_finalize final_job final_info (Some ErrCodeBatchExpired)
     (final_sample ResumableEntryPending))"

theorem mismatched_artifact_blocks_witness:
  "\<not> is_ok (fst (assembleResumableArtifacts id id plain_line 0 ok_finalize final_job final_info (Some ErrCodeBatchCancelled) expired_state))"
proof -
  have art: "object_at ''t-t'' (aw_key (error_writer id ''t-t'' ''b1'')) (fs_files expired_state) = Some (''twor3batch_expired'' @ [newline])"
    and bs: "err_lines plain_line (Some ErrCodeBatchCancelled) ''t-t'' (fs_files expired_state) (listed_entries ''b1'' (fs_db expired_state))
      = [''two'', ''r3batch_cancelled'' @ [newline]]" by code_simp+
  have "fs_db expired_state = fs_db (final_sample ResumableEntryPending)" by (simp add: expired_state_def assemble_db)
  then have ord: "ordinals_ok ''b1'' (fs_db expired_state)" using final_sample_ordinals by simp
  obtain r s' where run: "assembleResumableArtifacts id id plain_line 0 ok_finalize final_job final_info (Some ErrCodeBatchCancelled)
      expired_state = (r, s')" by fastforce
  have "\<not> is_ok r"
    by (rule mismatched_artifact_blocks [where bs = "[''two'', ''r3batch_cancelled'' @ [newline]]" and d = "''twor3batch_expired'' @ [newline]"
          and folder = "''t-t''", OF _ _ _ _ _ _ run, THEN conjunct1])
      (use art bs ord sample_folder in simp_all)
  with run show ?thesis by simp
qed

end
