(* ===== verification/Recovery.thy ===== *)
theory Recovery
  imports Finalizer
begin

text \<open>
  Recovery of interrupted batches (\<^verbatim>\<open>internal/processor/worker/recovery.go\<close>, the
  poller in \<^verbatim>\<open>poller.go\<close>): what a restarted processor does with the jobs it
  still owns, how the pickup of a requeued batch is routed, and how its durable
  state is read back and checked against the input file. Metrics and the local
  working directory are left out.
\<close>

section \<open>The poller\<close>

definition dequeueOne ::
  "conn \<Rightarrow> instant \<Rightarrow> string \<Rightarrow> duration \<Rightarrow> string list \<Rightarrow> db \<Rightarrow> BatchJobPriority option res \<times> db" where
  "dequeueOne c now pid lease locked s =
    (case PQDequeue c now pid lease 1 locked s of
       (Inl e, s') \<Rightarrow> (Inl e, s')
     | (Inr tasks, s') \<Rightarrow> (Inr (case tasks of [] \<Rightarrow> None | t # _ \<Rightarrow> Some t), s'))"

definition fetchJobItemByID :: "conn \<Rightarrow> instant \<Rightarrow> string \<Rightarrow> db \<Rightarrow> BatchItem option res" where
  "fetchJobItemByID c now jobID s =
    (case DBGet c now (no_query\<lparr>q_IDs := [jobID]\<rparr>) True 0 1 s of
       Inl e \<Rightarrow> Inl e
     | Inr (jobs, cursor, m) \<Rightarrow> Inr (case jobs of [] \<Rightarrow> None | j # _ \<Rightarrow> Some j))"

section \<open>Helpers\<close>

definition maxRecoveryAttempts :: int where "maxRecoveryAttempts = 3"

definition recoveryUnknownStatus :: BatchStatus where "recoveryUnknownStatus = BatchStatusOther ''unknown''"

definition getJobStatus :: "BatchItem \<Rightarrow> BatchStatus" where
  "getJobStatus dbItem = (case bi_Status dbItem of None \<Rightarrow> recoveryUnknownStatus | Some info \<Rightarrow> si_Status info)"

definition extractRequestCounts :: "BatchItem \<Rightarrow> BatchRequestCounts option" where
  "extractRequestCounts dbItem = (case bi_Status dbItem of
      None \<Rightarrow> None
    | Some info \<Rightarrow> if rc_Total (si_RequestCounts info) = 0 then None else Some (si_RequestCounts info))"

definition extractRecoverySLO :: "BatchItem \<Rightarrow> JobInfo \<Rightarrow> instant res" where
  "extractRecoverySLO dbItem jobInfo =
    (if bi_Priority dbItem > 0 then Inr (bi_Priority dbItem)
     else case si_ExpiresAt (ba_Info (ji_BatchJob jobInfo)) of
        Some t \<Rightarrow> Inr (secs t)
      | None \<Rightarrow> Inl (ErrOther ''missing recovery SLO''))"

text \<open>The zero \<^verbatim>\<open>time.Time\<close>, January 1 of year 1.\<close>

definition zero_time :: instant where "zero_time = secs (- 62135596800)"

definition buildRecoveryTask :: "BatchItem \<Rightarrow> instant \<Rightarrow> BatchStatus \<Rightarrow> BatchJobPriority res" where
  "buildRecoveryTask dbItem slo expectedStatus =
    (if slo = zero_time then Inl (ErrOther ''missing recovery SLO'')
     else Inr \<lparr>jp_ID = bi_ID dbItem, jp_SLO = Some slo, jp_Epoch = bi_Epoch dbItem, jp_ProcessorID = bi_ProcessorID dbItem,
               jp_ExpectedStatus = status_name expectedStatus, jp_RecoveryAttempts = 0, jp_Resumable = False\<rparr>)"

section \<open>Startup recovery of one job\<close>

text \<open>The connections of the statements of one recovery: the read, the first write, a second write and the fallback.\<close>

record recover_env =
  rv_get :: conn
  rv_put :: conn
  rv_put2 :: conn
  rv_fail :: conn
  rv_now :: instant

definition recoverWithFailed :: "recover_env \<Rightarrow> BatchItem \<Rightarrow> BatchRequestCounts option \<Rightarrow> db \<Rightarrow> unit res \<times> db" where
  "recoverWithFailed env dbItem counts s =
    (case UpdateFailedStatus (rv_fail env) (rv_now env) dbItem counts [] [] s of
       (Inl e, s') \<Rightarrow> (Inl e, s')
     | (Inr _, s') \<Rightarrow> (Inr (), s'))"

text \<open>The counts that survive an error, and the error.\<close>

definition recoverExpired :: "recover_env \<Rightarrow> BatchItem \<Rightarrow> db \<Rightarrow> (BatchRequestCounts option \<times> error option) \<times> db" where
  "recoverExpired env dbItem s =
    (let counts = extractRequestCounts dbItem
     in case UpdateExpiredStatus (rv_put env) (rv_now env) dbItem counts [] [] s of
          (Inl e, s') \<Rightarrow> ((counts, Some e), s')
        | (Inr _, s') \<Rightarrow> ((counts, None), s'))"

definition recoverReEnqueue ::
  "recover_env \<Rightarrow> BatchItem \<Rightarrow> JobInfo \<Rightarrow> bool \<Rightarrow> db \<Rightarrow> (BatchRequestCounts option \<times> error option) \<times> db" where
  "recoverReEnqueue env dbItem jobInfo resetToValidating s =
    (case extractRecoverySLO dbItem jobInfo of
       Inl e \<Rightarrow> ((None, Some e), s)
     | Inr slo \<Rightarrow>
         if slo < rv_now env then recoverExpired env dbItem s
         else (case (if resetToValidating
                     then UpdatePersistentStatus (rv_put env) (rv_now env) dbItem BatchStatusValidating None (Some slo) (\<lambda>i. i) s
                     else (Inr dbItem, s)) of
             (Inl e, s1) \<Rightarrow> ((None, Some e), s1)
           | (Inr item, s1) \<Rightarrow>
               (case buildRecoveryTask item slo BatchStatusValidating of
                  Inl e \<Rightarrow> ((None, Some e), s1)
                | Inr task \<Rightarrow>
                    (case PQEnqueue (rv_put2 env) task s1 of
                       (Inl e, s2) \<Rightarrow> ((None, Some e), s2)
                     | (Inr _, s2) \<Rightarrow> ((None, None), s2)))))"

definition recoverJobOnce :: "recover_env \<Rightarrow> string \<Rightarrow> db \<Rightarrow> unit res \<times> db" where
  "recoverJobOnce env jobID s =
    (case fetchJobItemByID (rv_get env) (rv_now env) jobID s of
       Inl e \<Rightarrow> (Inl e, s)
     | Inr None \<Rightarrow> (Inr (), s)
     | Inr (Some dbItem) \<Rightarrow>
         let jobInfo = FromDBItemToJobInfoObject dbItem;
             status = si_Status (ba_Info (ji_BatchJob jobInfo))
         in if status = BatchStatusValidating
            then (case recoverReEnqueue env dbItem jobInfo False s of
                ((counts, Some e), s') \<Rightarrow> recoverWithFailed env dbItem counts s'
              | ((counts, None), s') \<Rightarrow> (Inr (), s'))
            else if status = BatchStatusInProgress \<or> status = BatchStatusFinalizing \<or> status = BatchStatusCancelling
            then recoverWithFailed env dbItem None s
            else if IsTerminal status then (Inr (), s)
            else recoverWithFailed env dbItem None s)"

definition recoverJob :: "recover_env \<Rightarrow> recover_env \<Rightarrow> string \<Rightarrow> db \<Rightarrow> unit res \<times> db" where
  "recoverJob env env2 jobID s =
    (case recoverJobOnce env jobID s of
       (Inl e, s') \<Rightarrow> if e = ErrConflict then recoverJobOnce env2 jobID s' else (Inl e, s')
     | (Inr _, s') \<Rightarrow> (Inr (), s'))"

definition recoverExhausted :: "recover_env \<Rightarrow> string \<Rightarrow> db \<Rightarrow> unit res \<times> db" where
  "recoverExhausted env jobID s =
    (case fetchJobItemByID (rv_get env) (rv_now env) jobID s of
       Inl e \<Rightarrow> (Inl e, s)
     | Inr None \<Rightarrow> (Inr (), s)
     | Inr (Some dbItem) \<Rightarrow> recoverWithFailed env dbItem None s)"

definition recoverResumableOwned :: "recover_env \<Rightarrow> BatchJobPriority \<Rightarrow> db \<Rightarrow> unit res \<times> db" where
  "recoverResumableOwned env task s =
    (case fetchJobItemByID (rv_get env) (rv_now env) (jp_ID task) s of
       Inl e \<Rightarrow> (Inl e, s)
     | Inr None \<Rightarrow> (Inr (), s)
     | Inr (Some dbItem) \<Rightarrow>
         RequeueResumableOrphan (rv_put env) (rv_put2 env) (rv_now env) (jp_ID task) (bi_ProcessorID dbItem) (bi_Epoch dbItem) False False s)"

section \<open>Startup recovery\<close>

text \<open>
  The tasks of the error group: an error of a resumable task is returned, the others
  are logged. The jobs are distinct, so the tasks work on different rows.
\<close>

definition recover_task :: "recover_env \<Rightarrow> recover_env \<Rightarrow> BatchJobPriority \<Rightarrow> db \<Rightarrow> unit res \<times> db" where
  "recover_task env env2 task s =
    (if jp_Resumable task then recoverResumableOwned env task s
     else if jp_RecoveryAttempts task > maxRecoveryAttempts then (Inr (), snd (recoverExhausted env (jp_ID task) s))
     else (Inr (), snd (recoverJob env env2 (jp_ID task) s)))"

fun recover_tasks :: "(string \<Rightarrow> recover_env) \<Rightarrow> (string \<Rightarrow> recover_env) \<Rightarrow> BatchJobPriority list \<Rightarrow> db \<Rightarrow> unit res \<times> db" where
  "recover_tasks env env2 [] s = (Inr (), s)"
| "recover_tasks env env2 (t # ts) s =
    (case recover_task (env (jp_ID t)) (env2 (jp_ID t)) t s of
       (Inl e, s') \<Rightarrow> (Inl e, snd (recover_tasks env env2 ts s'))
     | (Inr _, s') \<Rightarrow> recover_tasks env env2 ts s')"

definition recoverOwnedJobs ::
  "conn \<Rightarrow> (string \<Rightarrow> recover_env) \<Rightarrow> (string \<Rightarrow> recover_env) \<Rightarrow> string \<Rightarrow> db \<Rightarrow> unit res \<times> db" where
  "recoverOwnedJobs c env env2 self s =
    (case PQClaimOwned c self s of
       (Inl e, s') \<Rightarrow> (Inl e, s')
     | (Inr tasks, s') \<Rightarrow> recover_tasks env env2 tasks s')"

section \<open>Pickup of a requeued batch\<close>

text \<open>The terminal status, the code of the requests that were not executed and the expected status, if the batch is not to resume.\<close>

definition pickup_route :: "instant \<Rightarrow> BatchJobPriority \<Rightarrow> BatchItem \<Rightarrow> (BatchStatus \<times> BatchErrorCode \<times> BatchStatus) option" where
  "pickup_route now task jobItem =
    (let expected = getJobStatus jobItem
     in if expected = BatchStatusCancelling then Some (BatchStatusCancelled, ErrCodeBatchCancelled, expected)
        else if IsJobExpired now task then Some (BatchStatusExpired, ErrCodeBatchExpired, expected)
        else if bi_RecoveryAttempts jobItem > maxRecoveryAttempts then Some (BatchStatusFailed, ErrCodeBatchFailed, expected)
        else None)"

text \<open>What surrounds one finalization of the processor.\<close>

record stores =
  ss_sha256hex :: "string \<Rightarrow> string"
  ss_uuid5 :: "string \<Rightarrow> string"
  ss_marshal :: "outputLine \<Rightarrow> string res"
  ss_expiration :: int
  ss_self :: string

definition finalizeResumableTerminal ::
  "stores \<Rightarrow> finalize_env \<Rightarrow> terminal_env \<Rightarrow> BatchItem \<Rightarrow> JobInfo \<Rightarrow> BatchStatus \<Rightarrow> BatchErrorCode \<Rightarrow> BatchStatus \<Rightarrow> final_state
    \<Rightarrow> unit res \<times> final_state" where
  "finalizeResumableTerminal p env tenv jobItem jobInfo status code expected s =
    finalizeResumableAs (ss_sha256hex p) (ss_uuid5 p) (ss_marshal p) (ss_expiration p) env tenv (ss_self p) jobItem jobInfo
      status code expected s"

definition routeResumedPickup ::
  "stores \<Rightarrow> finalize_env \<Rightarrow> terminal_env \<Rightarrow> BatchJobPriority \<Rightarrow> BatchItem \<Rightarrow> JobInfo \<Rightarrow> final_state \<Rightarrow> bool \<times> final_state" where
  "routeResumedPickup p env tenv task jobItem jobInfo s =
    (case pickup_route (te_now tenv) task jobItem of
       None \<Rightarrow> (False, s)
     | Some (status, code, expected) \<Rightarrow>
         (True, snd (finalizeResumableTerminal p env tenv jobItem jobInfo status code expected s)))"

section \<open>Reading the durable state back\<close>

definition entry_page :: "conn \<Rightarrow> string \<Rightarrow> db \<Rightarrow> int \<Rightarrow> (ResumableEntry list \<times> bool) res" where
  "entry_page c jobID s afterOrdinal =
    (case ListBatchEntries c jobID afterOrdinal resumableEntriesPageSize s of
       Inl e \<Rightarrow> Inl e
     | Inr entries \<Rightarrow> Inr (entries, \<not> int (length entries) < resumableEntriesPageSize))"

definition listResumableEntries :: "conn \<Rightarrow> string \<Rightarrow> db \<Rightarrow> ResumableEntry list res option" where
  "listResumableEntries c jobID s = key_loop (Suc (length (batch_entries s))) (entry_page c jobID s) re_Ordinal (- 1) []"

definition entry_rejected :: "ResumableEntry \<Rightarrow> bool" where
  "entry_rejected e = (re_Status e = ResumableEntryFailed \<and> re_Attempts e = 0)"

fun check_entries :: "(ResumableEntry \<times> manifestEntry) list \<Rightarrow> unit res" where
  "check_entries [] = Inr ()"
| "check_entries ((e, m) # rest) =
    (if re_RequestID e \<noteq> me_RequestID m \<or> re_Ordinal e \<noteq> me_Ordinal m \<or> re_CustomID e \<noteq> me_CustomID m
     then Inl (ErrOther ''entry identity mismatch'')
     else if entry_rejected e \<noteq> me_Rejected m then Inl (ErrOther ''rejected-set mismatch'')
     else check_entries rest)"

definition checkManifestIntegrity :: "requestManifest \<Rightarrow> ResumableEntry list \<Rightarrow> unit res" where
  "checkManifestIntegrity manifest entries =
    (if length entries \<noteq> length manifest then Inl (ErrOther ''entry set size differs'') else check_entries (zip entries manifest))"

definition seed_entry :: "ResumableEntry \<Rightarrow> ResumableResumeState \<Rightarrow> ResumableResumeState" where
  "seed_entry e seed = (case re_Status e of
      ResumableEntryCompleted \<Rightarrow> seed\<lparr>rs_Completed := rs_Completed seed + 1, rs_TerminalRequestIDs := rs_TerminalRequestIDs seed @ [re_RequestID e]\<rparr>
    | ResumableEntryFailed \<Rightarrow> seed\<lparr>rs_Failed := rs_Failed seed + 1, rs_TerminalRequestIDs := rs_TerminalRequestIDs seed @ [re_RequestID e]\<rparr>
    | ResumableEntryInFlight \<Rightarrow> seed\<lparr>rs_InFlight := rs_InFlight seed + 1,
        rs_InFlightSubmittedBy := (if re_SubmittedBy e = [] then rs_InFlightSubmittedBy seed
          else AList.update (re_RequestID e) (re_SubmittedBy e) (rs_InFlightSubmittedBy seed))\<rparr>
    | ResumableEntryPending \<Rightarrow> seed\<lparr>rs_Pending := rs_Pending seed + 1\<rparr>)"

definition resume_seed :: "ResumableEntry list \<Rightarrow> ResumableResumeState" where
  "resume_seed entries = fold seed_entry entries
     \<lparr>rs_Pending = 0, rs_InFlight = 0, rs_Completed = 0, rs_Failed = 0, rs_TerminalRequestIDs = [], rs_InFlightSubmittedBy = []\<rparr>"

definition recoverResumable ::
  "(string \<Rightarrow> string) \<Rightarrow> conn \<Rightarrow> string \<Rightarrow> BatchItem \<Rightarrow> JobInfo \<Rightarrow> requestManifest \<Rightarrow> db \<Rightarrow> (batchResultStore \<times> ResumableResumeState) res" where
  "recoverResumable sha256hex c self jobItem jobInfo manifest s =
    (case listResumableEntries c (bi_ID jobItem) s of
       None \<Rightarrow> Inl (ErrOther ''no result'')
     | Some (Inl e) \<Rightarrow> Inl e
     | Some (Inr entries) \<Rightarrow>
         (case checkManifestIntegrity manifest entries of
            Inl e \<Rightarrow> Inl e
          | Inr _ \<Rightarrow>
              (case newBatchResultStore sha256hex (bi_ID jobItem) (ji_TenantID jobInfo) self (bi_Epoch jobItem) of
                 Inl e \<Rightarrow> Inl e
               | Inr sink \<Rightarrow> Inr (sink, resume_seed entries))))"

text \<open>The requests whose stranded delivery is awaited, and the other processors whose routes are consumed for them.\<close>

fun plan_submitters :: "string \<Rightarrow> (string \<times> string) list \<Rightarrow> string list \<Rightarrow> string list \<times> string list" where
  "plan_submitters self [] submitters = ([], submitters)"
| "plan_submitters self ((requestID, submitter) # rest) submitters =
    (if submitter = [] then plan_submitters self rest submitters
     else let (recovering, subs) = plan_submitters self rest
                (if submitter = self \<or> submitter \<in> set submitters then submitters else submitters @ [submitter])
          in (requestID # recovering, subs))"

definition recoveryPlan :: "ResumableResumeState option \<Rightarrow> string \<Rightarrow> bool \<Rightarrow> string list \<times> string list" where
  "recoveryPlan seed self canRecoverResults = (case seed of
      None \<Rightarrow> ([], [])
    | Some st \<Rightarrow> if \<not> canRecoverResults \<or> rs_InFlightSubmittedBy st = [] then ([], [])
                 else plan_submitters self (rs_InFlightSubmittedBy st) [])"

text \<open>\<open>execErr\<close> is the error of the executor, if any.\<close>

definition classifyOutcome :: "cause \<Rightarrow> BatchRequestCounts \<Rightarrow> error option \<Rightarrow> error option" where
  "classifyOutcome c counts execErr = (case Cause c of
      Some ErrExpired \<Rightarrow> Some ErrExpired
    | Some ErrCancelled \<Rightarrow> Some ErrCancelled
    | Some ErrShutdown \<Rightarrow> if AllSucceeded counts then None else Some ErrShutdown
    | _ \<Rightarrow> execErr)"

section \<open>The entries are read completely\<close>

lemma entries_keyset:
  assumes ok: "ordinals_ok k s"
  shows "keyset_source (entry_page ConnOk k s) re_Ordinal (\<lambda>m e. m < re_Ordinal e) (listed_entries k s) 500
    (\<lambda>m. 500 \<le> length (filter (\<lambda>e. m < re_Ordinal e) (listed_entries k s))) (\<lambda>m. True)"
proof
  show "entry_page ConnOk k s m = Inr (take 500 (filter (\<lambda>e. m < re_Ordinal e) (listed_entries k s)),
      500 \<le> length (filter (\<lambda>e. m < re_Ordinal e) (listed_entries k s)))" for m
    by (auto simp: entry_page_def ListBatchEntries_def resumableEntriesPageSize_def listed_entries_def filter_map take_map o_def scanEntryRow_def)
  have "sorted_wrt (<) (map re_Ordinal (listed_entries k s))"
    using ok by (simp add: ordinals_ok_def strict_sorted_iff entries_of_def listed_entries_def o_def scanEntryRow_def)
  then show "filter (\<lambda>e. re_Ordinal y < re_Ordinal e) (listed_entries k s) = ys" if "listed_entries k s = xs @ y # ys" for xs y ys
    using that by (rule sorted_after)
qed auto

lemma listResumableEntries_all:
  assumes "ordinals_ok k s"
  shows "listResumableEntries ConnOk k s = Some (Inr (listed_entries k s))"
proof -
  have n: "length (listed_entries k s) \<le> length (batch_entries s)" by (simp add: listed_entries_def entries_of_def)
  have neg: "filter (\<lambda>e. - 1 < re_Ordinal e) (listed_entries k s) = listed_entries k s"
    using assms by (auto simp: ordinals_ok_def listed_entries_def scanEntryRow_def list_all_iff filter_id_conv)
  show ?thesis
    unfolding listResumableEntries_def
    using keyset_source.key_loop_from [OF entries_keyset [OF assms], of "- 1" 0 "Suc (length (batch_entries s))" "[]"] n neg by simp
qed

lemma listResumableEntries_fails: "c \<noteq> ConnOk \<Longrightarrow> listResumableEntries c k s = Some (Inl ErrDB)"
  by (simp add: listResumableEntries_def entry_page_def ListBatchEntries_def resumableEntriesPageSize_def)

section \<open>The resume seed\<close>

lemma fold_seed:
  "rs_Completed (fold seed_entry es st) = rs_Completed st + int (length (filter (\<lambda>e. re_Status e = ResumableEntryCompleted) es))"
  "rs_Failed (fold seed_entry es st) = rs_Failed st + int (length (filter (\<lambda>e. re_Status e = ResumableEntryFailed) es))"
  "rs_InFlight (fold seed_entry es st) = rs_InFlight st + int (length (filter (\<lambda>e. re_Status e = ResumableEntryInFlight) es))"
  "rs_Pending (fold seed_entry es st) = rs_Pending st + int (length (filter (\<lambda>e. re_Status e = ResumableEntryPending) es))"
  "rs_TerminalRequestIDs (fold seed_entry es st) = rs_TerminalRequestIDs st @ map re_RequestID (filter (\<lambda>e. entry_terminal (re_Status e)) es)"
  by (induction es arbitrary: st) (auto simp: seed_entry_def entry_terminal_iff split: ResumableEntryStatus.splits)

section \<open>The integrity check\<close>

text \<open>An entry of the manifest as the activation inserted it, and what may have become of it since.\<close>

definition entry_from :: "string \<Rightarrow> manifestEntry \<Rightarrow> entry_row \<Rightarrow> bool" where
  "entry_from k m en = (\<exists>t. entry_evolves (entry_of_activation t k (activationEntry m)) en)"

lemma check_entries_iff:
  "check_entries xs = Inr () \<longleftrightarrow> (\<forall>(e, m) \<in> set xs. re_RequestID e = me_RequestID m \<and> re_Ordinal e = me_Ordinal m
     \<and> re_CustomID e = me_CustomID m \<and> entry_rejected e = me_Rejected m)"
  by (induction xs rule: check_entries.induct) auto

text \<open>An accepted request whose entry failed without ever having been marked in flight.\<close>

definition undispatched_failure :: "manifestEntry \<times> entry_row \<Rightarrow> bool" where
  "undispatched_failure = (\<lambda>(m, en). \<not> me_Rejected m \<and> en_status en = ResumableEntryFailed \<and> en_attempts en = 0)"

lemma entry_from_checks:
  assumes "entry_from k m en"
  shows "re_RequestID (scanEntryRow en) = me_RequestID m \<and> re_Ordinal (scanEntryRow en) = me_Ordinal m
    \<and> re_CustomID (scanEntryRow en) = me_CustomID m
    \<and> (entry_rejected (scanEntryRow en) = me_Rejected m \<longleftrightarrow> \<not> undispatched_failure (m, en))"
proof -
  from assms obtain t where ev: "entry_evolves (entry_of_activation t k (activationEntry m)) en" by (auto simp: entry_from_def)
  then have "en_request en = me_RequestID m" "en_ordinal en = me_Ordinal m" "en_custom en = me_CustomID m"
    by (auto simp: entry_evolves_def entry_of_activation_def activationEntry_def entry_key_def)
  moreover have "me_Rejected m \<Longrightarrow> en_status en = ResumableEntryFailed \<and> en_attempts en = 0"
    using ev by (auto simp: entry_evolves_def entry_of_activation_def activationEntry_def entry_terminal_iff)
  ultimately show ?thesis by (auto simp: scanEntryRow_def entry_rejected_def undispatched_failure_def)
qed

lemma integrity_iff:
  assumes "list_all2 (entry_from k) manifest ents"
  shows "checkManifestIntegrity manifest (map scanEntryRow ents) = Inr () \<longleftrightarrow> \<not> list_ex undispatched_failure (zip manifest ents)"
proof -
  have zip: "zip (map scanEntryRow ents) manifest = map (\<lambda>(m, en). (scanEntryRow en, m)) (zip manifest ents)"
    by (subst zip_commute) (simp add: zip_map2 split_def o_def)
  have "\<forall>(m, en) \<in> set (zip manifest ents). entry_from k m en"
    using assms by (auto simp: list_all2_iff)
  then have "check_entries (zip (map scanEntryRow ents) manifest) = Inr () \<longleftrightarrow> (\<forall>x \<in> set (zip manifest ents). \<not> undispatched_failure x)"
    using entry_from_checks by (fastforce simp: zip check_entries_iff)
  then show ?thesis using list_all2_lengthD [OF assms] by (simp add: checkManifestIntegrity_def list_ex_iff)
qed

lemma entry_status_count:
  "length (filter (\<lambda>e. re_Status e = ResumableEntryCompleted) es) + length (filter (\<lambda>e. re_Status e = ResumableEntryFailed) es)
    + length (filter (\<lambda>e. re_Status e = ResumableEntryInFlight) es) + length (filter (\<lambda>e. re_Status e = ResumableEntryPending) es) = length es"
proof (induction es)
  case (Cons e es)
  then show ?case by (cases "re_Status e") auto
qed simp

section \<open>What recovery makes of a row\<close>

lemma fetch_by_id:
  assumes "db_ok s"
  shows "fetchJobItemByID ConnOk now k s = Inr (map_option (item_of_row True) (find_item k s))"
proof -
  have "filter (\<lambda>r. row_id r = k) (batch_items s) = (case find_item k s of Some r \<Rightarrow> [r] | None \<Rightarrow> [])"
    using assms filter_by_key [of row_id "batch_items s" k "\<lambda>r. True"] by (simp add: db_ok_def find_item_def split: option.splits)
  then show ?thesis
    by (auto simp: fetchJobItemByID_def DBGet_def no_query_def pg_get_def query_conditions_def select_rows_def order_by_id_def Let_def
        split: option.splits)
qed

text \<open>A row is settled when nobody owns it or its status is terminal.\<close>

definition settled :: "string \<Rightarrow> db \<Rightarrow> bool" where
  "settled k s = (case find_item k s of None \<Rightarrow> True | Some r \<Rightarrow> row_processor r = None \<or> \<not> nonTerminalCondition r)"

text \<open>An operation on the row \<open>k\<close> that leaves the other rows as they are.\<close>

definition only_row :: "string \<Rightarrow> db \<Rightarrow> db \<Rightarrow> bool" where
  "only_row k s s' = (db_ok s' \<and> (\<forall>k'. k' \<noteq> k \<longrightarrow> find_item k' s' = find_item k' s))"

lemma only_row_refl [simp]: "db_ok s \<Longrightarrow> only_row k s s"
  by (simp add: only_row_def)

lemma only_row_trans: "only_row k s s' \<Longrightarrow> only_row k s' s'' \<Longrightarrow> only_row k s s''"
  by (simp add: only_row_def)

lemma only_row_settled: "only_row k s s' \<Longrightarrow> k' \<noteq> k \<Longrightarrow> settled k' s' = settled k' s"
  by (simp add: only_row_def settled_def)

lemma status_only_row:
  assumes "db_ok s"
  shows "only_row (bi_ID job) s (snd (updatePersistentStatus c now job st counts slo expected m s))"
proof -
  have "find_item k' (snd (updatePersistentStatus c now job st counts slo expected m s)) = find_item k' s" if "k' \<noteq> bi_ID job" for k'
  proof (cases "BuildStatus now job st counts slo m")
    case (Inr doc)
    let ?item = "zero_item\<lparr>bi_ID := bi_ID job, bi_Status := Some doc, bi_Epoch := bi_Epoch job, bi_ExpectedResumable := bi_ExpectedResumable job\<rparr>"
    have "find_item k' (snd (DBUpdate c ?item expected s)) = find_item k' s"
      using that by (cases "find_item k' s") (auto simp: find_item_DBUpdate update_guard_def dest: find_item_id)
    then show ?thesis by (auto simp: updatePersistentStatus_def Inr split: prod.split sum.split)
  qed (simp add: updatePersistentStatus_def)
  then show ?thesis using safeD(1) [OF safe_updatePersistentStatus assms] by (simp add: only_row_def)
qed

lemma recoverWithFailed_spec:
  assumes s: "db_ok s" and r: "find_item k s = Some r" and env: "rv_fail env = ConnOk" and st: "row_status r = Some d"
  shows "fst (recoverWithFailed env (item_of_row True r) counts s) = Inr () \<and> only_row k s (snd (recoverWithFailed env (item_of_row True r) counts s))
    \<and> settled k (snd (recoverWithFailed env (item_of_row True r) counts s))"
proof -
  let ?item = "item_of_row True r"
  have k: "bi_ID ?item = k" "k \<noteq> []" using s r by (auto simp: item_of_row_fields find_item_id db_ok_def row_ok_def list_all_iff find_item_def dest!: by_key_SomeD)
  obtain doc where doc: "BuildStatus (rv_now env) ?item BatchStatusFailed counts None (withFileIDs [] []) = Inr doc"
    using BuildUpdatedStatusInfo_total [of BatchStatusFailed "rv_now env" d counts None] st
    by (auto simp: BuildStatus_def item_of_row_fields IsTerminal_cases)
  let ?u = "zero_item\<lparr>bi_ID := k, bi_Status := Some doc, bi_Epoch := bi_Epoch ?item, bi_ExpectedResumable := bi_ExpectedResumable ?item\<rparr>"
  have g: "update_guard ?u (Some d) r" using find_item_id [OF r] st by (simp add: update_guard_def update_epoch_cond_def item_of_row_def zero_item_def)
  have "fst (update_items (update_guard ?u (Some d)) (update_eff ?u) s) = 1"
    using update_items_count [OF s, of "update_guard ?u (Some d)" k "update_eff ?u"] r g by (simp add: update_guard_def)
  then have "DBUpdate ConnOk ?u (Some d) s = (Inr (), snd (DBUpdate ConnOk ?u (Some d) s))"
    using k by (simp add: DBUpdate_def)
  then have "recoverWithFailed env ?item counts s = (Inr (), snd (DBUpdate ConnOk ?u (Some d) s))"
    using find_item_id [OF r]
    by (auto simp: recoverWithFailed_def UpdateFailedStatus_def updatePersistentStatus_def doc env k item_of_row_fields st split: prod.split sum.split)
  moreover have "find_item k (snd (DBUpdate ConnOk ?u (Some d) s)) = Some (update_eff ?u r)"
    using k r st find_item_id [OF r] by (simp add: find_item_DBUpdate update_guard_def update_epoch_cond_def item_of_row_def zero_item_def)
  moreover have "si_Status doc = BatchStatusFailed" using doc by (rule BuildStatus_status) simp
  moreover have "only_row k s (snd (recoverWithFailed env ?item counts s))"
    using status_only_row [OF s, of ?item "rv_fail env" "rv_now env" BatchStatusFailed counts None "bi_Status ?item" "withFileIDs [] []"] k
    by (auto simp: recoverWithFailed_def UpdateFailedStatus_def split: prod.split sum.split)
  ultimately show ?thesis by (simp add: settled_def nonTerminal_iff update_eff_def IsTerminal_cases)
qed

definition recover_works :: "recover_env \<Rightarrow> bool" where
  "recover_works env = (rv_get env = ConnOk \<and> rv_put env = ConnOk \<and> rv_put2 env = ConnOk \<and> rv_fail env = ConnOk)"

text \<open>A row owned by \<open>pid\<close> that is not terminal.\<close>

definition owned_row :: "string \<Rightarrow> string \<Rightarrow> batch_row \<Rightarrow> db \<Rightarrow> bool" where
  "owned_row pid k r s = (db_ok s \<and> find_item k s = Some r \<and> row_processor r = Some pid \<and> pid \<noteq> [] \<and> nonTerminalCondition r)"

lemma owned_rowD:
  assumes "owned_row pid k r s"
  shows "db_ok s" "find_item k s = Some r" "row_processor r = Some pid" "pid \<noteq> []" "row_id r = k" "k \<noteq> []" "0 \<le> row_epoch r"
    "\<exists>d. row_status r = Some d \<and> \<not> IsTerminal (si_Status d)"
proof -
  show base: "db_ok s" "find_item k s = Some r" "row_processor r = Some pid" "pid \<noteq> []" using assms by (simp_all add: owned_row_def)
  show k: "row_id r = k" using base(2) by (rule find_item_id)
  have "r \<in> set (batch_items s)" using base(2) by (auto simp: find_item_def dest: by_key_SomeD)
  with base(1) have "row_ok r" by (simp add: db_ok_def list_all_iff)
  with k show "k \<noteq> []" "0 \<le> row_epoch r" by (auto simp: row_ok_def)
  show "\<exists>d. row_status r = Some d \<and> \<not> IsTerminal (si_Status d)" using assms by (simp add: owned_row_def nonTerminal_iff)
qed

lemma recoverExpired_spec:
  assumes own: "owned_row pid k r s" and env: "recover_works env" and run: "recoverExpired env (item_of_row True r) s = ((counts, e), s')"
  shows "e = None \<and> only_row k s s' \<and> settled k s'"
proof -
  note O = owned_rowD [OF own]
  let ?item = "item_of_row True r"
  obtain d where d: "row_status r = Some d" using O(8) by blast
  obtain doc where doc: "BuildStatus (rv_now env) ?item BatchStatusExpired (extractRequestCounts ?item) None (withFileIDs [] []) = Inr doc"
    using BuildUpdatedStatusInfo_total [of BatchStatusExpired "rv_now env" d "extractRequestCounts ?item" None] d
    by (auto simp: BuildStatus_def item_of_row_fields)
  let ?u = "zero_item\<lparr>bi_ID := k, bi_Status := Some doc, bi_Epoch := row_epoch r, bi_ExpectedResumable := bi_ExpectedResumable ?item\<rparr>"
  have g: "update_guard ?u None r" using O by (simp add: update_guard_def update_epoch_cond_def item_of_row_def zero_item_def)
  have upd: "DBUpdate ConnOk ?u None s = (Inr (), snd (DBUpdate ConnOk ?u None s))"
    using update_items_count [OF O(1), of "update_guard ?u None" k "update_eff ?u"] O(2,6) g
    by (auto simp: DBUpdate_def update_guard_def zero_item_def)
  have st: "si_Status doc = BatchStatusExpired" using doc by (rule BuildStatus_status) simp
  have res: "e = None \<and> s' = snd (DBUpdate ConnOk ?u None s)"
    using run env upd O(5) by (auto simp: recoverExpired_def UpdateExpiredStatus_def UpdatePersistentStatus_def updatePersistentStatus_def doc
        recover_works_def item_of_row_fields Let_def split: prod.splits sum.splits)
  have "find_item k s' = Some (update_eff ?u r)"
    using res O g by (simp add: find_item_DBUpdate)
  then have "settled k s'" using st by (simp add: settled_def nonTerminal_iff update_eff_def zero_item_def)
  moreover have "only_row k s s'"
    using status_only_row [OF O(1), of ?item ConnOk "rv_now env" BatchStatusExpired "extractRequestCounts ?item" None None "withFileIDs [] []"]
      O(5) res upd by (auto simp: updatePersistentStatus_def doc item_of_row_fields split: prod.splits sum.splits)
  ultimately show ?thesis using res by simp
qed

lemma enqueue_owned:
  assumes own: "owned_row pid k r s" and st: "row_state r = Some BatchStatusValidating" and res: "\<not> row_resumable r"
    and task: "jp_ID task = k" "jp_Epoch task = row_epoch r" "jp_ProcessorID task = pid" "jp_ExpectedStatus task = ''validating''"
  shows "fst (PQEnqueue ConnOk task s) = Inr () \<and> only_row k s (snd (PQEnqueue ConnOk task s)) \<and> settled k (snd (PQEnqueue ConnOk task s))"
proof -
  note O = owned_rowD [OF own]
  have g: "enqueue_guard task r" using O own st res task by (simp add: enqueue_guard_def owned_row_def)
  have "fst (update_items (enqueue_guard task) enqueue_eff s) = 1"
    using update_items_count [OF O(1), of "enqueue_guard task" k enqueue_eff] O(2) g task(1) by (simp add: enqueue_guard_def)
  then have "fst (PQEnqueue ConnOk task s) = Inr ()" using O task by (simp add: PQEnqueue_def)
  moreover have "find_item k' (snd (PQEnqueue ConnOk task s)) = (if k' = k then Some (enqueue_eff r) else find_item k' s)" for k'
  proof (cases "k' = k")
    case True
    with O(2-7) task g show ?thesis by (simp add: find_item_PQEnqueue)
  next
    case False
    have "\<not> enqueue_guard task r'" if "find_item k' s = Some r'" for r'
      using find_item_id [OF that] False task(1) by (simp add: enqueue_guard_def)
    with False show ?thesis by (cases "find_item k' s") (simp_all add: find_item_PQEnqueue)
  qed
  moreover have "db_ok (snd (PQEnqueue ConnOk task s))" using safeD(1) [OF safe_PQEnqueue O(1)] .
  ultimately show ?thesis by (simp add: only_row_def settled_def enqueue_eff_def)
qed

lemma recoverReEnqueue_spec:
  assumes own: "owned_row pid k r s" and res: "\<not> row_resumable r" and env: "recover_works env"
    and v: "row_state r = Some BatchStatusValidating"
    and re: "recoverReEnqueue env (item_of_row True r) info False s = ((counts, e), s')"
  shows "(e = None \<and> only_row k s s' \<and> settled k s') \<or> (e \<noteq> None \<and> s' = s)"
proof (cases "extractRecoverySLO (item_of_row True r) info")
  case (Inl er)
  with re show ?thesis by (auto simp: recoverReEnqueue_def)
next
  case slo: (Inr slo)
  note O = owned_rowD [OF own]
  show ?thesis
  proof (cases "slo < rv_now env")
    case True
    with re slo recoverExpired_spec [OF own env] show ?thesis by (auto simp: recoverReEnqueue_def)
  next
    case False
    show ?thesis
    proof (cases "buildRecoveryTask (item_of_row True r) slo BatchStatusValidating")
      case (Inl er)
      with re slo False show ?thesis by (auto simp: recoverReEnqueue_def)
    next
      case (Inr task)
      then have t: "jp_ID task = k" "jp_Epoch task = row_epoch r" "jp_ProcessorID task = pid" "jp_ExpectedStatus task = ''validating''"
        using O by (auto simp: buildRecoveryTask_def item_of_row_def split: if_splits)
      note enq = enqueue_owned [OF own v res t]
      then obtain s2 where "PQEnqueue (rv_put2 env) task s = (Inr (), s2)" using env by (auto simp: recover_works_def prod_eq_iff)
      with re slo False Inr enq env show ?thesis by (simp add: recoverReEnqueue_def recover_works_def)
    qed
  qed
qed

lemma recoverJobOnce_spec:
  assumes own: "owned_row pid k r s" and res: "\<not> row_resumable r" and env: "recover_works env"
  shows "fst (recoverJobOnce env k s) = Inr () \<and> only_row k s (snd (recoverJobOnce env k s)) \<and> settled k (snd (recoverJobOnce env k s))"
proof -
  note O = owned_rowD [OF own]
  let ?item = "item_of_row True r"
  obtain d where d: "row_status r = Some d" "\<not> IsTerminal (si_Status d)" using O(8) by blast
  have env': "rv_get env = ConnOk" "rv_fail env = ConnOk" using env by (simp_all add: recover_works_def)
  note fail = recoverWithFailed_spec [OF O(1,2) env'(2) d(1)]
  have fetch: "fetchJobItemByID (rv_get env) (rv_now env) k s = Inr (Some ?item)" using fetch_by_id [OF O(1)] O(2) env' by simp
  have status: "si_Status (ba_Info (ji_BatchJob (FromDBItemToJobInfoObject ?item))) = si_Status d"
    by (simp add: FromDBItemToJobInfoObject_def DBItemToBatch_def item_of_row_fields d Let_def)
  show ?thesis
  proof (cases "si_Status d = BatchStatusValidating")
    case True
    then have v: "row_state r = Some BatchStatusValidating" using d by (simp add: row_state_def)
    obtain counts e s' where re: "recoverReEnqueue env ?item (FromDBItemToJobInfoObject ?item) False s = ((counts, e), s')"
      by (metis surj_pair)
    from recoverReEnqueue_spec [OF own res env v re] re fetch status True fail [of counts] show ?thesis
      by (cases e) (simp_all add: recoverJobOnce_def)
  next
    case False
    with fetch status fail [of None] d(2) show ?thesis by (simp add: recoverJobOnce_def Let_def)
  qed
qed

lemma recover_task_spec:
  assumes own: "owned_row pid (jp_ID t) r s" and t: "jp_Resumable t = row_resumable r" and env: "recover_works env"
  shows "only_row (jp_ID t) s (snd (recover_task env env2 t s)) \<and> settled (jp_ID t) (snd (recover_task env env2 t s))"
proof -
  note O = owned_rowD [OF own]
  have env': "rv_get env = ConnOk" "rv_put env = ConnOk" "rv_put2 env = ConnOk" "rv_fail env = ConnOk" using env by (simp_all add: recover_works_def)
  have fetch: "fetchJobItemByID ConnOk (rv_now env) (jp_ID t) s = Inr (Some (item_of_row True r))" using fetch_by_id [OF O(1)] O(2) by simp
  consider (resumable) "row_resumable r" | (exhausted) "\<not> row_resumable r" "jp_RecoveryAttempts t > maxRecoveryAttempts"
    | (retry) "\<not> row_resumable r" "\<not> jp_RecoveryAttempts t > maxRecoveryAttempts" by blast
  then show ?thesis
  proof cases
    case resumable
    let ?q = "RequeueResumableOrphan ConnOk ConnOk (rv_now env) (jp_ID t) pid (row_epoch r) False False s"
    have eq: "snd (recover_task env env2 t s) = snd ?q"
      using resumable t env' fetch O(3) by (simp add: recover_task_def recoverResumableOwned_def item_of_row_def)
    have g: "requeue_guard (rv_now env) (jp_ID t) pid (row_epoch r) False r" using O own resumable by (simp add: requeue_guard_def owned_row_def)
    have "find_item k' (snd ?q) = find_item k' s" if "k' \<noteq> jp_ID t" for k'
      using that find_item_id [of k' s] by (cases "find_item k' s") (auto simp: find_item_Requeue requeue_guard_def)
    moreover have "db_ok (snd ?q)" using safeD(1) [OF safe_RequeueResumableOrphan O(1)] .
    moreover have "settled (jp_ID t) (snd ?q)" using O(2) g by (simp add: settled_def find_item_Requeue requeue_eff_def)
    ultimately show ?thesis by (simp add: only_row_def eq)
  next
    case exhausted
    obtain d where "row_status r = Some d" using O(8) by blast
    with exhausted t env' fetch recoverWithFailed_spec [OF O(1,2) env'(4), of d None] show ?thesis
      by (simp add: recover_task_def recoverExhausted_def)
  next
    case retry
    with t recoverJobOnce_spec [OF own _ env] show ?thesis by (auto simp: recover_task_def recoverJob_def split: prod.split)
  qed
qed

lemma recover_tasks_spec:
  assumes "db_ok s" and "\<forall>t \<in> set ts. \<exists>r. owned_row pid (jp_ID t) r s \<and> jp_Resumable t = row_resumable r" and "distinct (map jp_ID ts)"
    and env: "\<forall>k. recover_works (env k)"
  shows "db_ok (snd (recover_tasks env env2 ts s)) \<and> (\<forall>t \<in> set ts. settled (jp_ID t) (snd (recover_tasks env env2 ts s)))
    \<and> (\<forall>k. k \<notin> jp_ID ` set ts \<longrightarrow> find_item k (snd (recover_tasks env env2 ts s)) = find_item k s)"
  using assms(1-3)
proof (induction ts arbitrary: s)
  case (Cons t ts)
  from Cons.prems obtain r where r: "owned_row pid (jp_ID t) r s" "jp_Resumable t = row_resumable r" by auto
  let ?s = "snd (recover_task (env (jp_ID t)) (env2 (jp_ID t)) t s)"
  note step = recover_task_spec [OF r env [rule_format, of "jp_ID t"], of "env2 (jp_ID t)"]
  have next_s: "snd (recover_tasks env env2 (t # ts) s) = snd (recover_tasks env env2 ts ?s)" by (auto split: prod.split sum.split)
  have own: "\<forall>t' \<in> set ts. \<exists>r. owned_row pid (jp_ID t') r ?s \<and> jp_Resumable t' = row_resumable r"
  proof
    fix t' assume t': "t' \<in> set ts"
    with Cons.prems(2) obtain r' where r': "owned_row pid (jp_ID t') r' s" "jp_Resumable t' = row_resumable r'" by auto
    have "jp_ID t' \<noteq> jp_ID t" using Cons.prems(3) t' by (metis distinct.simps(2) image_eqI list.set_map list.simps(9))
    with step r'(1) have "owned_row pid (jp_ID t') r' ?s" by (simp add: owned_row_def only_row_def)
    with r'(2) show "\<exists>r. owned_row pid (jp_ID t') r ?s \<and> jp_Resumable t' = row_resumable r" by blast
  qed
  from Cons.IH [OF _ own] Cons.prems step have IH: "db_ok (snd (recover_tasks env env2 ts ?s))"
    "\<forall>t \<in> set ts. settled (jp_ID t) (snd (recover_tasks env env2 ts ?s))"
    "\<forall>k. k \<notin> jp_ID ` set ts \<longrightarrow> find_item k (snd (recover_tasks env env2 ts ?s)) = find_item k ?s" by (auto simp: only_row_def)
  have "settled (jp_ID t) (snd (recover_tasks env env2 ts ?s))"
    using step IH(3) Cons.prems(3) by (auto simp: settled_def)
  with IH step show ?case unfolding next_s by (auto simp: only_row_def)
qed simp

section \<open>Startup recovery settles every owned batch\<close>

lemma claim_find_item:
  "find_item k (snd (update_items (claim_guard pid) claim_eff s))
    = map_option (\<lambda>r. if claim_guard pid r then claim_eff r else r) (find_item k s)"
  by (rule find_item_update_items) (simp add: claim_eff_def)

lemma claim_owned_row:
  assumes "find_item k s = Some r" and "claim_guard pid r" and "pid \<noteq> []" and "db_ok (snd (update_items (claim_guard pid) claim_eff s))"
  shows "owned_row pid k (claim_eff r) (snd (update_items (claim_guard pid) claim_eff s))"
  using assms by (simp add: owned_row_def claim_find_item) (simp add: claim_guard_def claim_eff_def nonTerminal_iff)

lemma claimed_task_owned:
  assumes s: "db_ok s" and pid: "pid \<noteq> []" and t: "t \<in> set (map (claimed_job \<circ> claim_eff) (filter (claim_guard pid) (batch_items s)))"
  shows "\<exists>r. owned_row pid (jp_ID t) r (snd (update_items (claim_guard pid) claim_eff s)) \<and> jp_Resumable t = row_resumable r"
proof -
  from t obtain r where r: "r \<in> set (batch_items s)" "claim_guard pid r" "t = claimed_job (claim_eff r)" by auto
  have "db_ok (snd (update_items (claim_guard pid) claim_eff s))"
    using safeD(1) [OF safe_PQClaimOwned s, of ConnOk pid] pid by (simp add: PQClaimOwned_def)
  moreover have "find_item (row_id r) s = Some r" using s r(1) by (simp add: db_ok_def find_item_def by_key_Some_iff)
  ultimately have "owned_row pid (row_id r) (claim_eff r) (snd (update_items (claim_guard pid) claim_eff s))"
    using claim_owned_row r(2) pid by blast
  then show ?thesis using r(3) by (auto simp: claimed_job_def claim_eff_def)
qed

text \<open>
  C11: When the database works, startup recovery leaves no batch of the restarted
  processor behind: every batch it still owned, whatever its status and whether or not
  it is resumable, is afterwards terminal or back in the queue without an owner, and
  the batches of other processors are untouched.
\<close>

theorem startup_recovery_settles:
  assumes s: "db_ok s" and pid: "pid \<noteq> []" and env: "\<forall>k. recover_works (env k)" and r: "find_item k s = Some r"
  shows "(row_processor r = Some pid \<and> nonTerminalCondition r \<longrightarrow> settled k (snd (recoverOwnedJobs ConnOk env env2 pid s)))
    \<and> (row_processor r \<noteq> Some pid \<or> \<not> nonTerminalCondition r \<longrightarrow> find_item k (snd (recoverOwnedJobs ConnOk env env2 pid s)) = Some r)"
proof -
  let ?s = "snd (update_items (claim_guard pid) claim_eff s)"
  define tasks where "tasks = map (claimed_job \<circ> claim_eff) (filter (claim_guard pid) (batch_items s))"
  have run: "snd (recoverOwnedJobs ConnOk env env2 pid s) = snd (recover_tasks env env2 tasks ?s)"
    using pid by (simp add: recoverOwnedJobs_def PQClaimOwned_def tasks_def)
  have ids: "map jp_ID tasks = map row_id (filter (claim_guard pid) (batch_items s))"
    by (simp add: tasks_def claimed_job_def claim_eff_def)
  have "db_ok ?s" using safeD(1) [OF safe_PQClaimOwned s, of ConnOk pid] pid by (simp add: PQClaimOwned_def)
  moreover have "\<forall>t \<in> set tasks. \<exists>r. owned_row pid (jp_ID t) r ?s \<and> jp_Resumable t = row_resumable r"
    using claimed_task_owned [OF s pid] unfolding tasks_def by blast
  moreover have "distinct (map jp_ID tasks)" unfolding ids using s by (simp add: db_ok_def distinct_map_filter)
  ultimately have spec: "\<forall>t \<in> set tasks. settled (jp_ID t) (snd (recover_tasks env env2 tasks ?s))"
    "\<forall>k. k \<notin> jp_ID ` set tasks \<longrightarrow> find_item k (snd (recover_tasks env env2 tasks ?s)) = find_item k ?s"
    using recover_tasks_spec [OF _ _ _ env, of ?s tasks pid env2] by blast+
  have mem: "k \<in> jp_ID ` set tasks \<longleftrightarrow> claim_guard pid r"
  proof -
    have eq: "jp_ID ` set tasks = row_id ` set (filter (claim_guard pid) (batch_items s))" using ids by (metis list.set_map)
    have row: "r' \<in> set (batch_items s) \<and> row_id r' = k \<longleftrightarrow> r' = r" for r'
      using s r by (auto simp: db_ok_def find_item_def by_key_Some_iff dest: by_key_SomeD distinct_map [THEN iffD1, THEN conjunct2, THEN inj_onD])
    show ?thesis unfolding eq by (simp add: image_iff) (metis row)
  qed
  have g: "claim_guard pid r \<longleftrightarrow> row_processor r = Some pid \<and> nonTerminalCondition r"
    by (auto simp: claim_guard_def nonTerminal_iff)
  show ?thesis
  proof (cases "claim_guard pid r")
    case True
    with mem spec(1) g run show ?thesis by auto
  next
    case False
    with mem spec(2) g run r show ?thesis by (auto simp: claim_find_item)
  qed
qed

definition recover_sample :: recover_env where
  "recover_sample = \<lparr>rv_get = ConnOk, rv_put = ConnOk, rv_put2 = ConnOk, rv_fail = ConnOk, rv_now = 0\<rparr>"

text \<open>A resumable batch in progress and one that was still validating, both owned, and one in the queue.\<close>

definition owned_db :: db where
  "owned_db = \<lparr>batch_items = [active_row, (sample_row ''b2'' 10)\<lparr>row_processor := Some ''p''\<rparr>, sample_row ''b3'' 10], batch_entries = []\<rparr>"

theorem startup_recovery_settles_witness:
  "settled ''b1'' (snd (recoverOwnedJobs ConnOk (\<lambda>k. recover_sample) (\<lambda>k. recover_sample) ''p'' owned_db))
   \<and> settled ''b2'' (snd (recoverOwnedJobs ConnOk (\<lambda>k. recover_sample) (\<lambda>k. recover_sample) ''p'' owned_db))
   \<and> find_item ''b3'' (snd (recoverOwnedJobs ConnOk (\<lambda>k. recover_sample) (\<lambda>k. recover_sample) ''p'' owned_db)) = Some (sample_row ''b3'' 10)"
proof -
  have ok: "db_ok owned_db" by (simp add: owned_db_def db_ok_def row_ok_def active_defs)
  have env: "\<forall>k. recover_works recover_sample" by (simp add: recover_works_def recover_sample_def)
  note use = startup_recovery_settles [OF ok _ env, of "''p''"]
  show ?thesis
    using use [of "''b1''" active_row] use [of "''b2''" "(sample_row ''b2'' 10)\<lparr>row_processor := Some ''p''\<rparr>"] use [of "''b3''" "sample_row ''b3'' 10"]
    by (simp add: owned_db_def find_item_def nonTerminal_iff active_defs)
qed

section \<open>Resuming reads back what was checkpointed\<close>

text \<open>
  C22: A batch whose entries stem from the activation of its manifest is taken up again
  exactly if no accepted request failed before it was marked in flight. When it is taken
  up, the requests that are skipped are precisely those with a terminal entry, the counts
  cover the whole manifest and the results go out under the claimed epoch. The check
  reads a failed entry with no attempts as rejected at activation, so that one accepted
  request whose line could not be parsed keeps the whole batch from resuming.
\<close>

theorem resume_check_exact:
  assumes "ordinals_ok (bi_ID job) s" and from_manifest: "list_all2 (entry_from (bi_ID job)) manifest (entries_of (bi_ID job) s)"
    and folder: "GetFolderNameByTenantID sha (ji_TenantID info) = Inr folder"
  shows "(if list_ex undispatched_failure (zip manifest (entries_of (bi_ID job) s))
      then \<not> is_ok (recoverResumable sha ConnOk self job info manifest s)
      else \<exists>sink seed. recoverResumable sha ConnOk self job info manifest s = Inr (sink, seed)
        \<and> rs_TerminalRequestIDs seed = map en_request (filter (\<lambda>en. entry_terminal (en_status en)) (entries_of (bi_ID job) s))
        \<and> rs_Completed seed + rs_Failed seed + rs_InFlight seed + rs_Pending seed = int (length manifest)
        \<and> rst_epoch sink = bi_Epoch job \<and> rst_batchID sink = bi_ID job \<and> rst_processorID sink = self)"
proof -
  let ?es = "entries_of (bi_ID job) s"
  have listed: "listResumableEntries ConnOk (bi_ID job) s = Some (Inr (map scanEntryRow ?es))"
    using listResumableEntries_all [OF assms(1)] by (simp add: listed_entries_def)
  have "checkManifestIntegrity manifest (map scanEntryRow ?es) = Inr () \<longleftrightarrow> \<not> list_ex undispatched_failure (zip manifest ?es)"
    by (rule integrity_iff [OF from_manifest])
  moreover have "rs_TerminalRequestIDs (resume_seed (map scanEntryRow ?es)) = map en_request (filter (\<lambda>en. entry_terminal (en_status en)) ?es)"
    by (simp add: resume_seed_def fold_seed filter_map o_def scanEntryRow_def)
  moreover have "rs_Completed (resume_seed es) + rs_Failed (resume_seed es) + rs_InFlight (resume_seed es) + rs_Pending (resume_seed es)
      = int (length es)" for es
    using entry_status_count [of es] by (simp add: resume_seed_def fold_seed)
  moreover have "length ?es = length manifest" using list_all2_lengthD [OF from_manifest] by simp
  ultimately show ?thesis
    by (auto simp: recoverResumable_def listed newBatchResultStore_def folder is_ok_def split: sum.splits)
qed

definition resume_manifest :: requestManifest where
  "resume_manifest = map (\<lambda>(i, q). \<lparr>me_Ordinal = i, me_CustomID = q, me_RequestID = q, me_Rejected = False, me_ErrorCode = [],
     me_ResultKey = [], me_ResultBytes = 0, me_ResultSHA256 = [], me_ErrLine = []\<rparr>) [(0, ''r1''), (1, ''r2'')]"

definition resume_db :: "int \<Rightarrow> db" where
  "resume_db attempts = active_db\<lparr>batch_entries := [sample_entry ''r1'' 0 ResumableEntryFailed attempts, sample_entry ''r2'' 1 ResumableEntryInFlight 1]\<rparr>"

lemma resume_db_from:
  "0 \<le> attempts \<Longrightarrow> list_all2 (entry_from ''b1'') resume_manifest (entries_of ''b1'' (resume_db attempts))"
  by (simp add: resume_manifest_def resume_db_def entries_of_def active_defs entry_from_def entry_evolves_def entry_of_activation_def
      activationEntry_def entry_key_def entry_terminal_iff)

theorem resume_check_exact_witness:
  "(\<exists>sink seed. recoverResumable id ConnOk ''p'' final_job final_info resume_manifest (resume_db 1) = Inr (sink, seed)
      \<and> rs_TerminalRequestIDs seed = [''r1''])
   \<and> \<not> is_ok (recoverResumable id ConnOk ''p'' final_job final_info resume_manifest (resume_db 0))"
proof -
  have job: "bi_ID final_job = ''b1''" "ji_TenantID final_info = ''t''"
    by (simp_all add: final_job_def final_info_def item_of_row_def active_row_def sample_row_def FromDBItemToJobInfoObject_def)
  have ord: "ordinals_ok ''b1'' (resume_db n)" for n
    by (simp add: ordinals_ok_def resume_db_def entries_of_def active_defs)
  have und: "list_ex undispatched_failure (zip resume_manifest (entries_of ''b1'' (resume_db 0)))"
    "\<not> list_ex undispatched_failure (zip resume_manifest (entries_of ''b1'' (resume_db 1)))"
    "map en_request (filter (\<lambda>en. entry_terminal (en_status en)) (entries_of ''b1'' (resume_db 1))) = [''r1'']"
    by (simp_all add: resume_manifest_def resume_db_def entries_of_def active_defs undispatched_failure_def)
  show ?thesis
    using resume_check_exact [of final_job "resume_db 1" resume_manifest id final_info "''t-t''" "''p''"]
      resume_check_exact [of final_job "resume_db 0" resume_manifest id final_info "''t-t''" "''p''"]
      resume_db_from [of 0] resume_db_from [of 1] ord und job sample_folder by auto
qed

end
