(* ===== verification/Planner.thy ===== *)
theory Planner
  imports Result_Store File_Db "HOL-Library.Word" "HOL-Library.Multiset"
begin

text \<open>
  Ingestion of a batch (\<^verbatim>\<open>internal/processor/worker/planner.go\<close>, \<^verbatim>\<open>plan_reader.go\<close>,
  \<^verbatim>\<open>preprocessor.go\<close>) and the source that feeds the pipeline from it
  (\<^verbatim>\<open>source_planfile.go\<close>). The input file is split into lines, each line is validated
  and becomes an entry of the manifest and of the plan of its model: the offset and
  length of the line in the local copy, written as 16 bytes. The source reads the
  plans back, cuts the lines out of the local copy and emits one request for each.
  Integers have their width, because offsets and lengths are stored in it. The JSON
  decoder and the UUID function are parameters.
\<close>

unbundle bit_operations_syntax

section \<open>Plan entries\<close>

record planEntry =
  pe_Offset :: "64 word"
  pe_Length :: "32 word"
  pe_PrefixHash :: "32 word"

definition planEntrySize :: nat where "planEntrySize = 16"

text \<open>Little-endian encoding (\<^verbatim>\<open>encoding/binary\<close>): the lowest byte comes first.\<close>

fun put_le :: "nat \<Rightarrow> 'a::len word \<Rightarrow> 8 word list" where
  "put_le 0 v = []"
| "put_le (Suc n) v = ucast v # put_le n (drop_bit 8 v)"

fun get_le :: "8 word list \<Rightarrow> 'a::len word" where
  "get_le [] = 0"
| "get_le (b # bs) = ucast b OR push_bit 8 (get_le bs)"

definition marshalBinary :: "planEntry \<Rightarrow> 8 word list" where
  "marshalBinary e = put_le 8 (pe_Offset e) @ put_le 4 (pe_Length e) @ put_le 4 (pe_PrefixHash e)"

definition unmarshalPlanEntry :: "8 word list \<Rightarrow> planEntry" where
  "unmarshalPlanEntry buf =
    \<lparr>pe_Offset = get_le (take 8 buf), pe_Length = get_le (take 4 (drop 8 buf)), pe_PrefixHash = get_le (take 4 (drop 12 buf))\<rparr>"

text \<open>The loop of \<^verbatim>\<open>readPlanEntries\<close> on a file whose size was checked; a short read is an error.\<close>

fun read_entries :: "nat \<Rightarrow> 8 word list \<Rightarrow> planEntry list res" where
  "read_entries 0 bs = Inl (ErrOther ''no result'')"
| "read_entries (Suc f) bs =
    (if bs = [] then Inr []
     else if length bs < planEntrySize then Inl (ErrOther ''failed to read plan entry'')
     else case read_entries f (drop planEntrySize bs) of
        Inl e \<Rightarrow> Inl e
      | Inr es \<Rightarrow> Inr (unmarshalPlanEntry (take planEntrySize bs) # es))"

definition readPlanEntries :: "8 word list option \<Rightarrow> planEntry list res" where
  "readPlanEntries planFile = (case planFile of
      None \<Rightarrow> Inl (ErrOther ''failed to open plan file'')
    | Some bs \<Rightarrow>
        if length bs mod planEntrySize \<noteq> 0 then Inl (ErrOther ''plan file size is not a multiple of the entry size'')
        else read_entries (Suc (length bs)) bs)"

section \<open>File names of models\<close>

definition safe_char :: "char \<Rightarrow> bool" where
  "safe_char c = (let n = of_char c :: nat in (97 \<le> n \<and> n \<le> 122) \<or> (65 \<le> n \<and> n \<le> 90) \<or> (48 \<le> n \<and> n \<le> 57) \<or> c \<in> set ''._-'')"

text \<open>\<^verbatim>\<open>safeFileNameRegex.ReplaceAllString\<close>: every maximal run of other characters becomes one underscore.\<close>

fun sanitize :: "bool \<Rightarrow> string \<Rightarrow> string" where
  "sanitize run [] = []"
| "sanitize run (c # cs) =
    (if safe_char c then c # sanitize False cs else if run then sanitize True cs else CHR ''_'' # sanitize True cs)"

type_synonym used_names = "(string \<times> nat) list"

definition used_count :: "used_names \<Rightarrow> string \<Rightarrow> nat" where
  "used_count used k = (case map_of used k of None \<Rightarrow> 0 | Some n \<Rightarrow> n)"

definition candidate :: "string \<Rightarrow> nat \<Rightarrow> string" where
  "candidate base n = base @ CHR ''_'' # itoa n"

lemma used_count_update [simp]: "used_count (AList.update k n used) k' = (if k' = k then n else used_count used k')"
  by (auto simp: used_count_def update_conv')

lemma digits_val_append: "digits_val a (xs @ [c]) = digits_val a xs * 10 + digit_val c"
  by (induction xs arbitrary: a) simp_all

lemma itoa_rev_val: "n < f \<Longrightarrow> digits_val 0 (rev (itoa_rev f n)) = int n"
proof (induction f arbitrary: n)
  case (Suc f)
  have d: "digit_val (char_of (48 + n mod 10)) = int (n mod 10)"
  proof -
    have "(of_char (char_of (48 + n mod 10)) :: int) = int (of_char (char_of (48 + n mod 10)))" by (rule of_nat_of_char [symmetric])
    also have "\<dots> = int (48 + n mod 10)" by (simp only: of_char_of) simp
    finally show ?thesis by (simp add: digit_val_def)
  qed
  show ?case
  proof (cases "n < 10")
    case False
    then have "n div 10 < f" using Suc.prems by linarith
    with Suc.IH [OF this] False d show ?thesis by (simp add: digits_val_append zdiv_int zmod_int)
  qed (use d in simp)
qed simp

lemma itoa_val: "digits_val 0 (itoa n) = int n"
  by (simp only: itoa_def) (rule itoa_rev_val, simp)

lemma itoa_inject [simp]: "itoa m = itoa n \<longleftrightarrow> m = n"
  by (metis itoa_val of_nat_eq_iff)

lemma candidate_inject [simp]: "candidate base m = candidate base n \<longleftrightarrow> m = n"
  by (simp add: candidate_def)

lemma candidate_neq [simp]: "candidate base n \<noteq> base"
  by (simp add: candidate_def)

text \<open>
  The loop of \<^verbatim>\<open>internModelID\<close>: the counter of the base is raised until the name with
  that number is free. Every round passes over a name that is in use, so it ends.
\<close>

definition taken_above :: "string \<Rightarrow> used_names \<Rightarrow> nat set" where
  "taken_above base used = {m. used_count used base < m \<and> used_count used (candidate base m) \<noteq> 0}"

lemma finite_taken: "finite (taken_above base used)"
proof (rule finite_imageD)
  have "candidate base ` taken_above base used \<subseteq> set (map fst used)"
    by (force simp: taken_above_def used_count_def split: option.splits dest: map_of_SomeD)
  then show "finite (candidate base ` taken_above base used)" by (rule finite_subset) simp
qed (simp add: inj_on_def)

function intern_loop :: "string \<Rightarrow> used_names \<Rightarrow> string \<times> used_names" where
  "intern_loop base used =
    (let n = used_count used base + 1; used' = AList.update base n used
     in if used_count used' (candidate base n) = 0 then (candidate base n, AList.update (candidate base n) 1 used')
        else intern_loop base used')"
  by pat_completeness auto
termination
proof (relation "measure (\<lambda>(base, used). card (taken_above base used))")
  fix base used n used'
  assume n: "n = used_count used base + 1" and u: "used' = AList.update base n used" and taken: "used_count used' (candidate base n) \<noteq> 0"
  have "taken_above base used' = taken_above base used - {n}" by (auto simp: taken_above_def n u)
  moreover have "n \<in> taken_above base used" using taken by (simp add: taken_above_def n u)
  ultimately show "((base, used'), base, used) \<in> measure (\<lambda>(base, used). card (taken_above base used))"
    using card_Diff1_less [OF finite_taken, of n base used] by simp
qed simp

declare intern_loop.simps [simp del]

definition internModelID :: "string \<Rightarrow> used_names \<Rightarrow> string \<times> used_names" where
  "internModelID modelID used =
    (let s = sanitize False modelID; base = (if s = [] then ''unknown'' else s)
     in if used_count used base = 0 then (base, AList.update base 1 used) else intern_loop base used)"

lemma intern_loop_spec:
  assumes "intern_loop base used = (name, used')" and "used_count used base \<noteq> 0"
  shows "(\<exists>n. name = candidate base n) \<and> used_count used name = 0 \<and> used_count used' name \<noteq> 0
    \<and> (\<forall>k. used_count used k \<noteq> 0 \<longrightarrow> used_count used' k \<noteq> 0)"
  using assms
proof (induction base used rule: intern_loop.induct)
  case (1 base used)
  let ?n = "used_count used base + 1" let ?u = "AList.update base ?n used"
  show ?case
  proof (cases "used_count ?u (candidate base ?n) = 0")
    case True
    with "1.prems" show ?thesis by (auto simp: intern_loop.simps [of base used] Let_def)
  next
    case False
    with "1.prems" have "intern_loop base ?u = (name, used')" by (simp add: intern_loop.simps [of base used] Let_def)
    from "1.IH" [OF refl refl False this] show ?thesis by (auto split: if_splits)
  qed
qed

lemma sanitize_safe: "list_all safe_char (sanitize run s)"
  by (induction run s rule: sanitize.induct) (auto simp: safe_char_def)

lemma itoa_rev_safe: "list_all safe_char (itoa_rev f n)"
proof (induction f n rule: itoa_rev.induct)
  case (2 f n)
  have "(of_char (char_of (48 + n mod 10)) :: nat) = 48 + n mod 10" by (simp only: of_char_of) simp
  moreover have "n mod 10 \<le> 9" using mod_less_divisor [of 10 n] by linarith
  ultimately have "safe_char (char_of (48 + n mod 10))" by (simp add: safe_char_def)
  with 2 show ?case by simp
qed simp

lemma candidate_safe: "list_all safe_char base \<Longrightarrow> list_all safe_char (candidate base n)"
  using itoa_rev_safe [of "Suc n" n] by (simp add: candidate_def itoa_def list_all_rev safe_char_def [of "CHR ''_''"] del: itoa_rev.simps)

lemma internModelID_spec:
  assumes "internModelID modelID used = (name, used')"
  shows "used_count used name = 0" "used_count used' name \<noteq> 0" "used_count used k \<noteq> 0 \<Longrightarrow> used_count used' k \<noteq> 0"
    "name \<noteq> []" "list_all safe_char name"
proof -
  let ?s = "sanitize False modelID" let ?base = "if ?s = [] then ''unknown'' else ?s"
  have base: "list_all safe_char ?base" "?base \<noteq> []" using sanitize_safe by (simp_all add: safe_char_def)
  have "used_count used name = 0 \<and> used_count used' name \<noteq> 0 \<and> (\<forall>k. used_count used k \<noteq> 0 \<longrightarrow> used_count used' k \<noteq> 0)
    \<and> name \<noteq> [] \<and> list_all safe_char name"
  proof (cases "used_count used ?base = 0")
    case True
    with assms base show ?thesis by (auto simp: internModelID_def Let_def split: if_splits)
  next
    case False
    then have "intern_loop ?base used = (name, used')" using assms by (simp add: internModelID_def Let_def split: if_splits)
    from intern_loop_spec [OF this False] show ?thesis
      using candidate_safe [OF base(1)] by (auto simp: candidate_def)
  qed
  then show "used_count used name = 0" "used_count used' name \<noteq> 0" "used_count used k \<noteq> 0 \<Longrightarrow> used_count used' k \<noteq> 0"
    "name \<noteq> []" "list_all safe_char name" by auto
qed

section \<open>Lines of the input file\<close>

text \<open>\<^verbatim>\<open>readNormalizedLine\<close> on the rest of the input: the next line, ended by a newline, and what follows it.\<close>

definition readNormalizedLine :: "string \<Rightarrow> (string \<times> string) option" where
  "readNormalizedLine r =
    (if r = [] then None
     else Some (takeWhile (\<lambda>c. c \<noteq> newline) r @ [newline], tl (dropWhile (\<lambda>c. c \<noteq> newline) r)))"

record planRequestLine =
  pl_CustomID :: string
  pl_Method :: string
  pl_URL :: string
  pl_Model :: string
  pl_Stream :: "bool option"
  pl_Messages :: "(string \<times> string) list"

record Request =
  qr_CustomID :: string
  qr_Method :: string
  qr_URL :: string
  qr_Body :: string

text \<open>
  What the code takes from \<^verbatim>\<open>encoding/json\<close>: decoding a line for planning and for
  dispatch, a string, and the type and text of content parts; and encoding an output
  line.
\<close>

record json_lib =
  js_line :: "string \<Rightarrow> planRequestLine res"
  js_request :: "string \<Rightarrow> Request res"
  js_string :: "string \<Rightarrow> string res"
  js_parts :: "string \<Rightarrow> (string \<times> string) list res"
  js_output :: "outputLine \<Rightarrow> string res"

definition is_space :: "char \<Rightarrow> bool" where
  "is_space c = (c \<in> {CHR '' '', CHR 0x09, CHR 0x0A, CHR 0x0B, CHR 0x0C, CHR 0x0D})"

definition trim_space :: "string \<Rightarrow> string" where
  "trim_space s = rev (dropWhile is_space (rev (dropWhile is_space s)))"

definition trim_newline :: "string \<Rightarrow> string" where
  "trim_newline s = (if s \<noteq> [] \<and> last s = newline then butlast s else s)"

definition messageText :: "json_lib \<Rightarrow> string \<Rightarrow> string res" where
  "messageText js content0 =
    (let content = trim_space content0
     in if content = [] \<or> content = ''null'' then Inr []
        else if hd content = CHR 0x22 then js_string js content
        else if hd content = CHR ''['' then
          (case js_parts js content of
             Inl e \<Rightarrow> Inl e
           | Inr parts \<Rightarrow> Inr (concat (map snd (filter (\<lambda>(ty, text). ty = ''text'') parts))))
        else Inl (ErrOther ''must be a string or an array of content parts''))"

definition NoPrefixHash :: "32 word" where "NoPrefixHash = - 1"

text \<open>\<^verbatim>\<open>fnv.New32a\<close>.\<close>

definition fnv32a :: "string \<Rightarrow> 32 word" where
  "fnv32a s = foldl (\<lambda>h c. (h XOR of_char c) * 16777619) 2166136261 s"

fun prefix_hash :: "json_lib \<Rightarrow> (string \<times> string) list \<Rightarrow> 32 word res" where
  "prefix_hash js [] = Inr NoPrefixHash"
| "prefix_hash js ((role, content) # msgs) =
    (if role \<noteq> ''system'' then prefix_hash js msgs
     else case messageText js content of
        Inl e \<Rightarrow> Inl e
      | Inr text \<Rightarrow> if text \<noteq> [] then Inr (fnv32a text) else prefix_hash js msgs)"

record requestMeta =
  rm_CustomID :: string
  rm_ModelID :: string
  rm_PrefixHash :: "32 word"

definition has_substring :: "string \<Rightarrow> string \<Rightarrow> bool" where
  "has_substring s p = list_ex (\<lambda>i. has_prefix (drop i s) p) [0..<Suc (length s)]"

definition extractAndValidateLine :: "json_lib \<Rightarrow> EndpointAllowlist \<Rightarrow> string \<Rightarrow> string \<Rightarrow> requestMeta res" where
  "extractAndValidateLine js allowlist batchEndpoint line =
    (case js_line js (trim_newline line) of
       Inl e \<Rightarrow> Inl e
     | Inr req \<Rightarrow>
         if pl_CustomID req = [] then Inl (ErrInvalid ''custom_id is required'')
         else if pl_Method req = [] then Inl (ErrInvalid ''method is required'')
         else if pl_Method req \<noteq> ''POST'' then Inl (ErrInvalid ''invalid method'')
         else if pl_URL req = [] then Inl (ErrInvalid ''url is required'')
         else if \<not> has_prefix (pl_URL req) ''/'' \<or> has_prefix (pl_URL req) ''//'' \<or> has_substring (pl_URL req) ''://''
         then Inl (ErrInvalid ''url must be a relative path'')
         else if \<not> IsValid allowlist (pl_URL req) then Inl (ErrInvalid ''invalid endpoint'')
         else if pl_URL req \<noteq> batchEndpoint then Inl (ErrInvalid ''request endpoint does not match batch endpoint'')
         else if pl_Model req = [] then Inl (ErrInvalid ''model id is empty'')
         else if pl_Stream req = Some True then Inl (ErrInvalid ''streaming is not supported in batch requests'')
         else (case prefix_hash js (pl_Messages req) of
             Inl e \<Rightarrow> Inl e
           | Inr h \<Rightarrow> Inr \<lparr>rm_CustomID = pl_CustomID req, rm_ModelID = pl_Model req, rm_PrefixHash = h\<rparr>))"

section \<open>Request identifiers and routes\<close>

definition newBatchRequestID :: "string \<Rightarrow> string" where
  "newBatchRequestID requestID = ''batch_req_'' @ requestID"

definition stableBatchRequestID :: "(string \<Rightarrow> string) \<Rightarrow> string \<Rightarrow> string \<Rightarrow> string" where
  "stableBatchRequestID uuid5 batchID customID = newBatchRequestID (uuid5 (batchID @ CHR 0x00 # customID))"

datatype RouteKeyMethod = RouteKeyMethodBare | RouteKeyMethodTenant

definition routeKey :: "RouteKeyMethod \<Rightarrow> string \<Rightarrow> string \<Rightarrow> string" where
  "routeKey method tenantID modelID =
    (if method = RouteKeyMethodTenant \<and> tenantID \<noteq> [] then tenantID @ ''/'' @ modelID else modelID)"

text \<open>The registered keys of the resolver in use; a global gateway takes every model.\<close>

datatype gateways = GlobalGateway | ModelGateways "string list" | AsyncModels "string list"

definition lookupModel :: "gateways \<Rightarrow> RouteKeyMethod \<Rightarrow> string \<Rightarrow> string \<Rightarrow> bool" where
  "lookupModel gw method tenantID modelID = (case gw of
      GlobalGateway \<Rightarrow> True
    | ModelGateways keys \<Rightarrow> routeKey method tenantID modelID \<in> set keys
    | AsyncModels ids \<Rightarrow> modelID \<in> set ids)"

section \<open>The plan accumulator\<close>

record planAccumulator =
  pa_entries :: "(string \<times> planEntry list) list"
  pa_modelToSafe :: "(string \<times> string) list"
  pa_used :: used_names

definition acc_Append :: "string \<Rightarrow> planEntry \<Rightarrow> planAccumulator \<Rightarrow> planAccumulator" where
  "acc_Append safeModelID entry acc = acc\<lparr>pa_entries := AList.map_default safeModelID [entry] (\<lambda>es. es @ [entry]) (pa_entries acc)\<rparr>"

definition accumulatePlanEntry ::
  "string \<Rightarrow> 64 word \<Rightarrow> 32 word \<Rightarrow> 32 word \<Rightarrow> planAccumulator \<Rightarrow> planAccumulator \<times> 64 word" where
  "accumulatePlanEntry modelID offset len prefixHash acc =
    (let (safeModelID, acc') = (case map_of (pa_modelToSafe acc) modelID of
            Some name \<Rightarrow> (name, acc)
          | None \<Rightarrow> (let (name, used) = internModelID modelID (pa_used acc)
                     in (name, acc\<lparr>pa_modelToSafe := AList.update modelID name (pa_modelToSafe acc), pa_used := used\<rparr>)))
     in (acc_Append safeModelID \<lparr>pe_Offset = offset, pe_Length = len, pe_PrefixHash = prefixHash\<rparr> acc', offset + ucast len))"

text \<open>
  \<^verbatim>\<open>Finalize\<close>: one plan file per model, sorted by prefix hash. \<open>sortf\<close> is \<^verbatim>\<open>sort.Slice\<close>, which
  does not promise the order of equal elements; \<open>io\<close> tells whether the plan file of a
  name can be written.
\<close>

type_synonym plan_files = "(string \<times> 8 word list) list"

fun Finalize :: "(planEntry list \<Rightarrow> planEntry list) \<Rightarrow> (string \<Rightarrow> bool) \<Rightarrow> planAccumulator \<Rightarrow> string list \<Rightarrow> plan_files \<Rightarrow> plan_files res" where
  "Finalize sortf io acc [] plans = Inr plans"
| "Finalize sortf io acc (safeModelID # ids) plans =
    (case map_of (pa_entries acc) safeModelID of
       None \<Rightarrow> Finalize sortf io acc ids plans
     | Some entries \<Rightarrow>
         if entries = [] then Finalize sortf io acc ids plans
         else if \<not> io safeModelID then Inl (ErrOther ''write plan file'')
         else Finalize sortf io acc ids (AList.update safeModelID (concat (map marshalBinary (sortf entries))) plans))"

definition finalizePlanFiles ::
  "(planEntry list \<Rightarrow> planEntry list) \<Rightarrow> (string \<Rightarrow> bool) \<Rightarrow> planAccumulator \<Rightarrow> plan_files \<Rightarrow> plan_files res" where
  "finalizePlanFiles sortf io acc plans = Finalize sortf io acc (sort (map snd (pa_modelToSafe acc))) plans"

section \<open>Pre-processing\<close>

record modelMapFile =
  mm_ModelToSafe :: "(string \<times> string) list"
  mm_SafeToModel :: "(string \<times> string) list"
  mm_LineCount :: int
  mm_RejectedCount :: int

text \<open>The local directory of a job: its copy of the input, its plan files and its model map.\<close>

record job_dir =
  jd_input :: string
  jd_plans :: plan_files
  jd_map :: "modelMapFile option"

definition writeModelMappings :: "bool \<Rightarrow> planAccumulator \<Rightarrow> int \<Rightarrow> int \<Rightarrow> job_dir \<Rightarrow> job_dir res" where
  "writeModelMappings io acc lineCount rejectedCount d =
    (if io then Inr (d\<lparr>jd_map := Some
       \<lparr>mm_ModelToSafe = pa_modelToSafe acc, mm_SafeToModel = map (\<lambda>(m, name). (name, m)) (pa_modelToSafe acc),
        mm_LineCount = lineCount, mm_RejectedCount = rejectedCount\<rparr>\<rparr>)
     else Inl (ErrOther ''write model map''))"

definition readModelMap :: "job_dir \<Rightarrow> modelMapFile res" where
  "readModelMap d = (case jd_map d of None \<Rightarrow> Inl (ErrOther ''failed to read model map file'') | Some m \<Rightarrow> Inr m)"

record ingest_state =
  in_local :: string
  in_acc :: planAccumulator
  in_seen :: "string list"
  in_offset :: "64 word"
  in_lineCount :: int
  in_rejected :: int
  in_manifest :: requestManifest

definition ingest_start :: ingest_state where
  "ingest_start = \<lparr>in_local = [], in_acc = \<lparr>pa_entries = [], pa_modelToSafe = [], pa_used = []\<rparr>, in_seen = [], in_offset = 0,
     in_lineCount = 0, in_rejected = 0, in_manifest = []\<rparr>"

text \<open>What one ingestion is given: the libraries, the configuration and the job.\<close>

record ingest_params =
  ip_json :: json_lib
  ip_sha256hex :: "string \<Rightarrow> string"
  ip_uuid5 :: "string \<Rightarrow> string"
  ip_allowlist :: EndpointAllowlist
  ip_endpoint :: string
  ip_gateways :: gateways
  ip_method :: RouteKeyMethod
  ip_tenantID :: string
  ip_jobID :: string
  ip_isPrint :: "nat \<Rightarrow> bool"

text \<open>The message quotes the model with \<^verbatim>\<open>%q\<close>.\<close>

definition model_not_found_line :: "(nat \<Rightarrow> bool) \<Rightarrow> string \<Rightarrow> string \<Rightarrow> string \<Rightarrow> outputLine" where
  "model_not_found_line isPrint requestID customID modelID =
    \<lparr>ol_ID = requestID, ol_CustomID = customID, ol_Response = None,
     ol_Error = Some \<lparr>er_Code = ''model_not_found'', er_Message = ''model '' @ go_quote isPrint modelID @ '' is not configured in any gateway''\<rparr>\<rparr>"

definition ingest_line :: "ingest_params \<Rightarrow> bool \<Rightarrow> string \<Rightarrow> ingest_state \<Rightarrow> ingest_state res" where
  "ingest_line p wr line s0 =
    (let s = s0\<lparr>in_lineCount := in_lineCount s0 + 1, in_local := in_local s0 @ line\<rparr>;
         ordinal = in_lineCount s - 1
     in if \<not> wr then Inl (ErrOther ''write line to input file'')
        else case extractAndValidateLine (ip_json p) (ip_allowlist p) (ip_endpoint p) line of
          Inl e \<Rightarrow> Inl e
        | Inr m \<Rightarrow>
            let requestID = stableBatchRequestID (ip_uuid5 p) (ip_jobID p) (rm_CustomID m);
                s1 = s\<lparr>in_seen := in_seen s @ [rm_CustomID m]\<rparr>
            in if rm_CustomID m \<in> set (in_seen s) then Inl (ErrInvalid ''duplicate custom_id'')
               else if \<not> lookupModel (ip_gateways p) (ip_method p) (ip_tenantID p) (rm_ModelID m)
               then (case js_output (ip_json p) (model_not_found_line (ip_isPrint p) requestID (rm_CustomID m) (rm_ModelID m)) of
                   Inl e \<Rightarrow> Inl e
                 | Inr bytes \<Rightarrow> Inr (s1\<lparr>in_rejected := in_rejected s1 + 1, in_offset := in_offset s1 + of_nat (length line),
                     in_manifest := in_manifest s1 @ [rejectedEntry (ip_sha256hex p) (ip_jobID p) ordinal (rm_CustomID m) requestID
                        ''model_not_found'' (bytes @ [newline])]\<rparr>))
               else (let (acc, next) = accumulatePlanEntry (rm_ModelID m) (in_offset s1) (of_nat (length line)) (rm_PrefixHash m) (in_acc s1)
                     in Inr (s1\<lparr>in_acc := acc, in_offset := next,
                          in_manifest := in_manifest s1 @ [acceptedEntry ordinal (rm_CustomID m) requestID]\<rparr>)))"

text \<open>
  The streaming loop. \<open>cause\<close> gives what the context reports before each line, \<open>rd\<close> the
  error of reading it, if any, and \<open>wr\<close> whether it can be written, by the number of
  lines so far.
\<close>

function ingest_loop ::
  "ingest_params \<Rightarrow> (nat \<Rightarrow> cause) \<Rightarrow> (nat \<Rightarrow> error option) \<Rightarrow> (nat \<Rightarrow> bool) \<Rightarrow> nat \<Rightarrow> string \<Rightarrow> ingest_state \<Rightarrow> ingest_state res" where
  "ingest_loop p cause rd wr n r s =
    (case Cause (cause n) of
       Some e \<Rightarrow> Inl e
     | None \<Rightarrow>
         (case rd n of
            Some e \<Rightarrow> Inl e
          | None \<Rightarrow>
              (case readNormalizedLine r of
                 None \<Rightarrow> Inr s
               | Some (line, r') \<Rightarrow>
                   (case ingest_line p (wr n) line s of
                      Inl e \<Rightarrow> Inl e
                    | Inr s' \<Rightarrow> ingest_loop p cause rd wr (Suc n) r' s'))))"
  by pat_completeness auto
termination
proof (relation "measure (\<lambda>(p, cause, rd, wr, n, r, s). length r)")
  fix r r' line :: string and p cause rd wr n s s' x
  assume "readNormalizedLine r = Some x" "(line, r') = x"
  then have "r' = tl (dropWhile (\<lambda>c. c \<noteq> newline) r)" "r \<noteq> []" by (auto simp: readNormalizedLine_def split: if_splits)
  then have "length r' < length r"
    using length_dropWhile_le [of "\<lambda>c. c \<noteq> newline" r] by (cases "dropWhile (\<lambda>c. c \<noteq> newline) r") auto
  then show "((p, cause, rd, wr, Suc n, r', s'), p, cause, rd, wr, n, r, s) \<in> measure (\<lambda>(p, cause, rd, wr, n, r, s). length r)" by simp
qed simp

declare ingest_loop.simps [simp del]

definition openInputFileStream ::
  "(string \<Rightarrow> string) \<Rightarrow> conn \<Rightarrow> instant \<Rightarrow> bool \<Rightarrow> string \<Rightarrow> file_row list \<Rightarrow> files \<Rightarrow> string res" where
  "openInputFileStream sha256hex c now io inputFileID t fs =
    (case file_DBGet c now (no_file_query\<lparr>q_IDs := [inputFileID]\<rparr>) True 0 1 t of
       Inl e \<Rightarrow> Inl e
     | Inr (items, cursor, m) \<Rightarrow>
         (case items of
            [] \<Rightarrow> Inl (ErrOther ''input file not found in db'')
          | item # rest \<Rightarrow>
              (case DBItemToFile item of
                 Inl e \<Rightarrow> Inl e
               | Inr fileObj \<Rightarrow>
                   (case GetFolderNameByTenantID sha256hex (ft_TenantID item) of
                      Inl e \<Rightarrow> Inl e
                    | Inr folder \<Rightarrow>
                        (case Retrieve io (FileStorageName (ft_ID item) (fo_Filename fileObj)) folder fs of
                           Inl e \<Rightarrow> Inl e
                         | Inr (content, md) \<Rightarrow> Inr content)))))"

text \<open>
  The surroundings of one ingestion: the context, the local file system and the input
  stream. \<open>ig_sort\<close> is \<^verbatim>\<open>sort.Slice\<close> by prefix hash.
\<close>

record ingest_env =
  ig_cause :: "nat \<Rightarrow> cause"
  ig_read :: "nat \<Rightarrow> error option"
  ig_write :: "nat \<Rightarrow> bool"
  ig_dir :: bool
  ig_create :: bool
  ig_flush :: bool
  ig_plan :: "string \<Rightarrow> bool"
  ig_map :: bool
  ig_sort :: "planEntry list \<Rightarrow> planEntry list"
  ig_end :: cause

text \<open>An error that stems from the cancelled context is replaced by the reason of the cancellation.\<close>

definition reclassify :: "cause \<Rightarrow> 'a res \<Rightarrow> 'a res" where
  "reclassify c r = (case r of
      Inl ErrContext \<Rightarrow> Inl (case Cause c of Some e \<Rightarrow> e | None \<Rightarrow> ErrContext)
    | _ \<Rightarrow> r)"

definition preProcessJob ::
  "ingest_params \<Rightarrow> ingest_env \<Rightarrow> string \<Rightarrow> string res \<Rightarrow> job_dir \<Rightarrow> (requestManifest \<times> job_dir) res" where
  "preProcessJob p env inputFileID stream d = reclassify (ig_end env)
    (if inputFileID = [] then Inl (ErrInvalid ''input file ID is empty'')
     else case GetFolderNameByTenantID (ip_sha256hex p) (ip_tenantID p) of
       Inl e \<Rightarrow> Inl e
     | Inr _ \<Rightarrow>
         if \<not> ig_dir env then Inl (ErrOther ''create job root directory'')
         else (case stream of
             Inl e \<Rightarrow> Inl e
           | Inr content \<Rightarrow>
               if \<not> ig_create env then Inl (ErrOther ''create local input file'')
               else (case ingest_loop p (ig_cause env) (ig_read env) (ig_write env) 0 content ingest_start of
                   Inl e \<Rightarrow> Inl e
                 | Inr s \<Rightarrow>
                     if \<not> ig_flush env then Inl (ErrOther ''flush input file'')
                     else (case finalizePlanFiles (ig_sort env) (ig_plan env) (in_acc s) (jd_plans d) of
                         Inl e \<Rightarrow> Inl e
                       | Inr plans \<Rightarrow>
                           (case writeModelMappings (ig_map env) (in_acc s) (in_lineCount s) (in_rejected s)
                                   (d\<lparr>jd_input := in_local s, jd_plans := plans\<rparr>) of
                              Inl e \<Rightarrow> Inl e
                            | Inr d' \<Rightarrow> Inr (in_manifest s, d'))))))"

section \<open>The source\<close>

definition sloTTFTMSHeader :: string where "sloTTFTMSHeader = ''x-slo-ttft-ms''"
definition inferenceObjectiveHeader :: string where "inferenceObjectiveHeader = ''x-gateway-inference-objective''"
definition fairnessIDHeader :: string where "fairnessIDHeader = ''x-gateway-inference-fairness-id''"

text \<open>\<open>src_skip\<close> and \<open>src_recover\<close> are the finished and the recoverable requests of a resumed batch.\<close>

record PlanFileSource =
  src_dir :: job_dir
  src_json :: json_lib
  src_uuid5 :: "string \<Rightarrow> string"
  src_method :: RouteKeyMethod
  src_objective :: "string \<Rightarrow> string"
  src_fairness :: bool
  src_headers :: "(string \<times> string) list"
  src_deadline :: "instant option"
  src_tenantID :: string
  src_batchID :: string
  src_skip :: "string \<Rightarrow> bool"
  src_recover :: "string list"
  src_window :: duration

text \<open>The remaining time is cut to milliseconds towards zero, so that less than one past the deadline still is 0.\<close>

definition mergeHeaders :: "PlanFileSource \<Rightarrow> instant \<Rightarrow> string \<Rightarrow> (string \<times> string) list \<Rightarrow> (string \<times> string) list" where
  "mergeHeaders src now modelID headers =
    (let h1 = (case src_deadline src of
            None \<Rightarrow> headers
          | Some t \<Rightarrow> if t - now > - 1000 then AList.update sloTTFTMSHeader (itoa (nat ((t - now) div 1000))) headers else headers);
         h2 = (if src_objective src modelID \<noteq> [] then AList.update inferenceObjectiveHeader (src_objective src modelID) h1 else h1)
     in if src_fairness src \<and> src_tenantID src \<noteq> [] \<and> map_of h2 fairnessIDHeader = None
        then AList.update fairnessIDHeader (src_tenantID src) h2 else h2)"

text \<open>
  \<^verbatim>\<open>readEntry\<close>: the line is cut out of the local input; a line that does not parse
  becomes a request with a fresh identifier and the error.
\<close>

definition read_at :: "string \<Rightarrow> 64 word \<Rightarrow> 32 word \<Rightarrow> string res" where
  "read_at input off len =
    (if sint off < 0 \<or> nat (sint off) + unat len > length input then Inl ErrRequestInputRead
     else Inr (take (unat len) (drop (nat (sint off)) input)))"

definition readEntry :: "PlanFileSource \<Rightarrow> instant \<Rightarrow> string \<Rightarrow> planEntry \<Rightarrow> string \<Rightarrow> RequestItem res" where
  "readEntry src now uuid entry modelID =
    (case read_at (jd_input (src_dir src)) (pe_Offset entry) (pe_Length entry) of
       Inl e \<Rightarrow> Inl e
     | Inr buf \<Rightarrow>
         (case js_request (src_json src) (trim_newline buf) of
            Inl e \<Rightarrow>
              let q = newBatchRequestID uuid
              in Inr \<lparr>rq_RequestID = q, rq_CustomID = q, rq_ModelID = [], rq_Endpoint = [], rq_Body = [], rq_Headers = [],
                   rq_ParseError = Some \<lparr>er_Code = ''parse_error'', er_Message = ''failed to parse request line''\<rparr>, rq_SubmittedAt = None\<rparr>
          | Inr req \<Rightarrow>
              let key = routeKey (src_method src) (src_tenantID src) modelID;
                  q = (if src_batchID src = [] then newBatchRequestID uuid
                       else stableBatchRequestID (src_uuid5 src) (src_batchID src) (qr_CustomID req))
              in Inr \<lparr>rq_RequestID = q, rq_CustomID = qr_CustomID req, rq_ModelID = key, rq_Endpoint = qr_URL req, rq_Body = qr_Body req,
                   rq_Headers = mergeHeaders src now key (src_headers src), rq_ParseError = None, rq_SubmittedAt = None\<rparr>))"

text \<open>
  \<^verbatim>\<open>Produce\<close>: what was sent and what is held back for the recovery window. \<open>order\<close> is the
  order in which the map of models is ranged over, \<open>clock\<close> and \<open>fresh\<close> the time and the
  fresh identifier when an entry is read.
\<close>

fun produce_entries ::
  "PlanFileSource \<Rightarrow> (planEntry \<Rightarrow> instant) \<Rightarrow> (planEntry \<Rightarrow> string) \<Rightarrow> string \<Rightarrow> planEntry list \<Rightarrow> RequestItem list \<times> RequestItem list
    \<Rightarrow> error option \<times> RequestItem list \<times> RequestItem list" where
  "produce_entries src clock fresh modelID [] st = (None, st)"
| "produce_entries src clock fresh modelID (e # es) (sent, held) =
    (case readEntry src (clock e) (fresh e) e modelID of
       Inl er \<Rightarrow> (Some er, sent, held)
     | Inr item \<Rightarrow>
         if src_skip src (rq_RequestID item) then produce_entries src clock fresh modelID es (sent, held)
         else if rq_RequestID item \<in> set (src_recover src) then produce_entries src clock fresh modelID es (sent, held @ [item])
         else produce_entries src clock fresh modelID es (sent @ [item], held))"

fun produce_models ::
  "PlanFileSource \<Rightarrow> (planEntry \<Rightarrow> instant) \<Rightarrow> (planEntry \<Rightarrow> string) \<Rightarrow> (string \<times> string) list \<Rightarrow> RequestItem list \<times> RequestItem list
    \<Rightarrow> error option \<times> RequestItem list \<times> RequestItem list" where
  "produce_models src clock fresh [] st = (None, st)"
| "produce_models src clock fresh ((safeModelID, modelID) # ms) st =
    (case readPlanEntries (map_of (jd_plans (src_dir src)) safeModelID) of
       Inl e \<Rightarrow> (Some e, st)
     | Inr entries \<Rightarrow>
         (case produce_entries src clock fresh modelID entries st of
            (Some e, st') \<Rightarrow> (Some e, st')
          | (None, st') \<Rightarrow> produce_models src clock fresh ms st'))"

definition Produce ::
  "PlanFileSource \<Rightarrow> (planEntry \<Rightarrow> instant) \<Rightarrow> (planEntry \<Rightarrow> string) \<Rightarrow> (string \<times> string) list \<Rightarrow> error option \<times> RequestItem list" where
  "Produce src clock fresh order =
    (case produce_models src clock fresh order ([], []) of
       (Some e, sent, held) \<Rightarrow> (Some e, sent)
     | (None, sent, held) \<Rightarrow> (None, sent @ held))"

fun pre_store_entries ::
  "PlanFileSource \<Rightarrow> (planEntry \<Rightarrow> instant) \<Rightarrow> (planEntry \<Rightarrow> string) \<Rightarrow> string \<Rightarrow> planEntry list \<Rightarrow> PendingRequests \<Rightarrow> unit res \<times> PendingRequests" where
  "pre_store_entries src clock fresh modelID [] pend = (Inr (), pend)"
| "pre_store_entries src clock fresh modelID (e # es) pend =
    (case readEntry src (clock e) (fresh e) e modelID of
       Inl er \<Rightarrow> (Inl er, pend)
     | Inr item \<Rightarrow> pre_store_entries src clock fresh modelID es
         (if rq_RequestID item \<in> set (src_recover src) then pending_Store item pend else pend))"

fun pre_store_models ::
  "PlanFileSource \<Rightarrow> (planEntry \<Rightarrow> instant) \<Rightarrow> (planEntry \<Rightarrow> string) \<Rightarrow> (string \<times> string) list \<Rightarrow> PendingRequests \<Rightarrow> unit res \<times> PendingRequests" where
  "pre_store_models src clock fresh [] pend = (Inr (), pend)"
| "pre_store_models src clock fresh ((safeModelID, modelID) # ms) pend =
    (case readPlanEntries (map_of (jd_plans (src_dir src)) safeModelID) of
       Inl e \<Rightarrow> (Inl e, pend)
     | Inr entries \<Rightarrow>
         (case pre_store_entries src clock fresh modelID entries pend of
            (Inl e, pend') \<Rightarrow> (Inl e, pend')
          | (Inr _, pend') \<Rightarrow> pre_store_models src clock fresh ms pend'))"

definition PreStoreRecovering ::
  "PlanFileSource \<Rightarrow> (planEntry \<Rightarrow> instant) \<Rightarrow> (planEntry \<Rightarrow> string) \<Rightarrow> (string \<times> string) list \<Rightarrow> PendingRequests \<Rightarrow> unit res \<times> PendingRequests" where
  "PreStoreRecovering src clock fresh order pend =
    (if src_recover src = [] then (Inr (), pend) else pre_store_models src clock fresh order pend)"

text \<open>
  How long \<^verbatim>\<open>waitForRecoveryWindow\<close> waits at most, in nanoseconds; \<open>remaining\<close> is the
  time to the deadline, if there is one. The wait ends early when the context is done
  or all held requests are resolved.
\<close>

definition recovery_wait :: "duration \<Rightarrow> duration option \<Rightarrow> duration" where
  "recovery_wait window remaining = (case remaining of
      None \<Rightarrow> max 0 window
    | Some left \<Rightarrow> let budget = left - window
                   in if budget \<le> 0 then 0 else max 0 (min window budget))"

definition allResolved :: "(string \<Rightarrow> bool) option \<Rightarrow> RequestItem list \<Rightarrow> bool" where
  "allResolved stillPending held = (case stillPending of
      None \<Rightarrow> False
    | Some f \<Rightarrow> \<not> list_ex (\<lambda>item. f (rq_RequestID item)) held)"

lemma recovery_wait_reserve: "recovery_wait window (Some left) \<le> max 0 (left - window)"
  by (simp add: recovery_wait_def Let_def)

section \<open>Encoding and decoding plan files\<close>

lemma length_put_le [simp]: "length (put_le n v) = n"
  by (induction n arbitrary: v) simp_all

lemma get_put_le: "get_le (put_le n v) = take_bit (8 * n) v"
proof (induction n arbitrary: v)
  case (Suc n)
  show ?case
    by (rule bit_word_eqI) (auto simp: Suc bit_simps not_less algebra_simps)
qed simp

lemma length_marshalBinary [simp]: "length (marshalBinary e) = planEntrySize"
  by (simp add: marshalBinary_def planEntrySize_def)

lemma unmarshal_marshal [simp]: "unmarshalPlanEntry (marshalBinary e) = e"
proof -
  have "take_bit 64 w = w" for w :: "64 word" by (simp add: take_bit_word_eq_self)
  moreover have "take_bit 32 w = w" for w :: "32 word" by (simp add: take_bit_word_eq_self)
  ultimately show ?thesis
    by (simp add: unmarshalPlanEntry_def marshalBinary_def get_put_le numeral_eq_Suc del: put_le.simps get_le.simps)
qed

lemma read_entries_marshal:
  "length es < f \<Longrightarrow> read_entries f (concat (map marshalBinary es)) = Inr es"
proof (induction f arbitrary: es)
  case (Suc f)
  show ?case
  proof (cases es)
    case (Cons e es')
    have "marshalBinary e \<noteq> []" using length_marshalBinary [of e] by (metis list.size(3) planEntrySize_def zero_neq_numeral)
    with Suc Cons show ?thesis by (simp add: planEntrySize_def)
  qed simp
qed simp

lemma readPlanEntries_marshal: "readPlanEntries (Some (concat (map marshalBinary es))) = Inr es"
proof -
  have len: "length (concat (map marshalBinary es)) = planEntrySize * length es" by (induction es) simp_all
  then have "length es \<le> length (concat (map marshalBinary es))" by (simp add: planEntrySize_def)
  with len read_entries_marshal [of es "Suc (length (concat (map marshalBinary es)))"] show ?thesis
    by (simp add: readPlanEntries_def del: read_entries.simps length_concat)
qed

section \<open>What the accumulator holds\<close>

text \<open>A line that was accepted: its model, its place in the local input, the line, its custom identifier and prefix hash.\<close>

record accepted_line =
  al_model :: string
  al_off :: nat
  al_line :: string
  al_custom :: string
  al_hash :: "32 word"

definition entry_of_line :: "accepted_line \<Rightarrow> planEntry" where
  "entry_of_line g = \<lparr>pe_Offset = of_nat (al_off g), pe_Length = of_nat (length (al_line g)), pe_PrefixHash = al_hash g\<rparr>"

definition lines_of :: "string \<Rightarrow> accepted_line list \<Rightarrow> accepted_line list" where
  "lines_of m gs = filter (\<lambda>g. al_model g = m) gs"

definition acc_ok :: "planAccumulator \<Rightarrow> accepted_line list \<Rightarrow> bool" where
  "acc_ok acc gs =
    (distinct (map fst (pa_modelToSafe acc)) \<and> distinct (map snd (pa_modelToSafe acc))
     \<and> (\<forall>name \<in> snd ` set (pa_modelToSafe acc). used_count (pa_used acc) name \<noteq> 0 \<and> name \<noteq> [] \<and> list_all safe_char name)
     \<and> (\<forall>g \<in> set gs. al_model g \<in> fst ` set (pa_modelToSafe acc))
     \<and> (\<forall>(m, name) \<in> set (pa_modelToSafe acc). lines_of m gs \<noteq> []
          \<and> map_of (pa_entries acc) name = Some (map entry_of_line (lines_of m gs)))
     \<and> (\<forall>name. name \<notin> snd ` set (pa_modelToSafe acc) \<longrightarrow> map_of (pa_entries acc) name = None))"

lemma update_new: "k \<notin> fst ` set xs \<Longrightarrow> AList.update k v xs = xs @ [(k, v)]"
  by (induction xs) auto

lemma distinct_pair:
  "distinct (map fst xs) \<Longrightarrow> (a, m) \<in> set xs \<Longrightarrow> (a, n) \<in> set xs \<Longrightarrow> m = n"
  "distinct (map snd xs) \<Longrightarrow> (a, n) \<in> set xs \<Longrightarrow> (b, n) \<in> set xs \<Longrightarrow> a = b"
  by (induction xs) force+

lemma acc_ok_append:
  assumes ok: "acc_ok acc gs" and m: "map_of (pa_modelToSafe acc) (al_model g) = Some name"
  shows "acc_ok (acc_Append name (entry_of_line g) acc) (gs @ [g])"
proof -
  let ?mts = "pa_modelToSafe acc"
  have mem: "(al_model g, name) \<in> set ?mts" using m by (rule map_of_SomeD)
  have others: "name' \<noteq> name" if "(m', name') \<in> set ?mts" "m' \<noteq> al_model g" for m' name'
    using distinct_pair(2) [of ?mts m' name "al_model g"] ok that mem by (auto simp: acc_ok_def)
  have lines: "lines_of m' (gs @ [g]) = lines_of m' gs @ (if al_model g = m' then [g] else [])" for m' by (simp add: lines_of_def)
  have same: "m' = al_model g" if "(m', name) \<in> set ?mts" for m' using others [OF that] by blast
  have "lines_of m' (gs @ [g]) \<noteq> [] \<and> map_of (pa_entries (acc_Append name (entry_of_line g) acc)) name'
      = Some (map entry_of_line (lines_of m' (gs @ [g])))" if mn: "(m', name') \<in> set ?mts" for m' name'
  proof (cases "m' = al_model g")
    case True
    with distinct_pair(1) [of ?mts "al_model g" name' name] mn mem ok have "name' = name" by (simp add: acc_ok_def)
    moreover have "map_of (pa_entries acc) name = Some (map entry_of_line (lines_of (al_model g) gs))" using ok mem by (auto simp: acc_ok_def)
    ultimately show ?thesis using True by (simp add: lines acc_Append_def map_of_map_default)
  next
    case False
    with mn others ok show ?thesis by (auto simp: lines acc_Append_def map_of_map_default acc_ok_def)
  qed
  moreover have "map_of (pa_entries (acc_Append name (entry_of_line g) acc)) name' = None" if "name' \<notin> snd ` set ?mts" for name'
  proof -
    have "name' \<noteq> name" using that mem by force
    with that ok show ?thesis by (simp add: acc_Append_def map_of_map_default acc_ok_def)
  qed
  moreover have "al_model g \<in> fst ` set ?mts" using mem by force
  ultimately show ?thesis using ok by (auto simp: acc_ok_def acc_Append_def)
qed

lemma accumulate_ok:
  assumes ok: "acc_ok acc gs"
    and step: "accumulatePlanEntry (al_model g) (of_nat (al_off g)) (of_nat (length (al_line g))) (al_hash g) acc = (acc', nxt)"
  shows "acc_ok acc' (gs @ [g])"
proof (cases "map_of (pa_modelToSafe acc) (al_model g)")
  case (Some name)
  with step have "acc' = acc_Append name (entry_of_line g) acc" by (simp add: accumulatePlanEntry_def entry_of_line_def)
  with acc_ok_append [OF ok Some] show ?thesis by simp
next
  case None
  let ?mts = "pa_modelToSafe acc"
  obtain name used where i: "internModelID (al_model g) (pa_used acc) = (name, used)" by fastforce
  define acc1 where "acc1 = acc\<lparr>pa_modelToSafe := AList.update (al_model g) name ?mts, pa_used := used\<rparr>"
  from None i step have acc': "acc' = acc_Append name (entry_of_line g) acc1"
    by (simp add: accumulatePlanEntry_def entry_of_line_def acc1_def)
  have new: "al_model g \<notin> fst ` set ?mts" using None by (simp add: map_of_eq_None_iff)
  have upd: "AList.update (al_model g) name ?mts = ?mts @ [(al_model g, name)]" using new by (rule update_new)
  note spec = internModelID_spec [OF i]
  have fresh: "name \<notin> snd ` set ?mts" using ok spec(1) by (auto simp: acc_ok_def)
  have "al_model h \<noteq> al_model g" if "h \<in> set gs" for h using ok new that unfolding acc_ok_def by metis
  then have none: "map_of (pa_entries acc) name = None" "lines_of (al_model g) gs = []"
    using ok fresh by (simp_all add: acc_ok_def) (simp add: lines_of_def filter_empty_conv)
  have lines: "lines_of m' (gs @ [g]) = lines_of m' gs @ (if al_model g = m' then [g] else [])" for m' by (simp add: lines_of_def)
  have other: "lines_of m (gs @ [g]) \<noteq> [] \<and> map_of (pa_entries acc') n = Some (map entry_of_line (lines_of m (gs @ [g])))"
    if "(m, n) \<in> set ?mts" for m n
  proof -
    have "n \<noteq> name" "m \<noteq> al_model g" using that fresh new by force+
    with that ok show ?thesis by (auto simp: acc' acc_Append_def acc1_def map_of_map_default lines acc_ok_def)
  qed
  have "map_of (pa_entries acc') name = Some [entry_of_line g]" using none(1) by (simp add: acc' acc_Append_def acc1_def map_of_map_default)
  moreover have "map_of (pa_entries acc') n = None" if "n \<notin> snd ` set ?mts" "n \<noteq> name" for n
    using that ok by (simp add: acc' acc_Append_def acc1_def map_of_map_default acc_ok_def)
  moreover have "pa_modelToSafe acc' = ?mts @ [(al_model g, name)]" "pa_used acc' = used"
    by (simp_all add: acc' acc_Append_def acc1_def upd)
  ultimately show ?thesis
    using ok fresh new spec(2-5) other none(2) lines [of "al_model g"] unfolding acc_ok_def by auto
qed

section \<open>What ingestion establishes\<close>

definition good_slice :: "json_lib \<Rightarrow> string \<Rightarrow> accepted_line \<Rightarrow> bool" where
  "good_slice js input g = (al_off g + length (al_line g) \<le> length input
    \<and> take (length (al_line g)) (drop (al_off g) input) = al_line g \<and> length (al_line g) < 2 ^ 32
    \<and> (\<exists>req. js_line js (trim_newline (al_line g)) = Inr req \<and> pl_CustomID req = al_custom g))"

definition line_id :: "ingest_params \<Rightarrow> accepted_line \<Rightarrow> string \<times> string" where
  "line_id p g = (stableBatchRequestID (ip_uuid5 p) (ip_jobID p) (al_custom g), al_custom g)"

definition entry_id :: "manifestEntry \<Rightarrow> string \<times> string" where
  "entry_id m = (me_RequestID m, me_CustomID m)"

definition ingested :: "ingest_params \<Rightarrow> accepted_line list \<Rightarrow> ingest_state \<Rightarrow> bool" where
  "ingested p gs s =
    (in_offset s = of_nat (length (in_local s)) \<and> (\<forall>g \<in> set gs. good_slice (ip_json p) (in_local s) g) \<and> acc_ok (in_acc s) gs
     \<and> map entry_id (filter (\<lambda>m. \<not> me_Rejected m) (in_manifest s)) = map (line_id p) gs
     \<and> map me_Ordinal (in_manifest s) = map int [0..<length (in_manifest s)] \<and> in_lineCount s = int (length (in_manifest s))
     \<and> in_seen s = map me_CustomID (in_manifest s) \<and> distinct (in_seen s))"

lemma good_slice_append: "good_slice js input g \<Longrightarrow> good_slice js (input @ line) g"
  by (auto simp: good_slice_def)

lemma extract_custom:
  "extractAndValidateLine js al ep line = Inr m \<Longrightarrow>
    \<exists>req. js_line js (trim_newline line) = Inr req \<and> pl_CustomID req = rm_CustomID m"
  by (auto simp: extractAndValidateLine_def split: sum.splits if_splits)

lemma ingest_line_ok:
  assumes inv: "ingested p gs s" and len: "length line < 2 ^ 32" and step: "ingest_line p wr line s = Inr s'"
  shows "\<exists>gs'. ingested p gs' s' \<and> in_local s' = in_local s @ line"
proof -
  have wr: "wr" using step by (auto simp: ingest_line_def Let_def split: if_splits)
  obtain m where m: "extractAndValidateLine (ip_json p) (ip_allowlist p) (ip_endpoint p) line = Inr m"
    using step by (auto simp: ingest_line_def Let_def split: sum.splits if_splits)
  let ?q = "stableBatchRequestID (ip_uuid5 p) (ip_jobID p) (rm_CustomID m)"
  have new: "rm_CustomID m \<notin> set (in_seen s)" using step m by (auto simp: ingest_line_def Let_def split: if_splits)
  have slices: "\<forall>g \<in> set gs. good_slice (ip_json p) (in_local s @ line) g"
    using inv good_slice_append by (auto simp: ingested_def)
  have ord: "in_lineCount s = int (length (in_manifest s))" "map me_Ordinal (in_manifest s) = map int [0..<length (in_manifest s)]"
    "in_seen s = map me_CustomID (in_manifest s)" "distinct (in_seen s)" using inv unfolding ingested_def by blast+
  show ?thesis
  proof (cases "lookupModel (ip_gateways p) (ip_method p) (ip_tenantID p) (rm_ModelID m)")
    case False
    then obtain bytes where "js_output (ip_json p) (model_not_found_line (ip_isPrint p) ?q (rm_CustomID m) (rm_ModelID m)) = Inr bytes"
      using step wr m new by (auto simp: ingest_line_def Let_def split: sum.splits)
    with False step wr m new inv slices ord have "ingested p gs s' \<and> in_local s' = in_local s @ line"
      by (auto simp: ingest_line_def Let_def ingested_def rejectedEntry_def)
    then show ?thesis by blast
  next
    case True
    define g where "g = \<lparr>al_model = rm_ModelID m, al_off = length (in_local s), al_line = line, al_custom = rm_CustomID m, al_hash = rm_PrefixHash m\<rparr>"
    obtain acc nxt where acc: "accumulatePlanEntry (rm_ModelID m) (in_offset s) (of_nat (length line)) (rm_PrefixHash m) (in_acc s) = (acc, nxt)"
      by fastforce
    have "acc_ok acc (gs @ [g])"
      using accumulate_ok [of "in_acc s" gs g acc nxt] acc inv by (simp add: g_def ingested_def)
    moreover have "good_slice (ip_json p) (in_local s @ line) g"
      using len extract_custom [OF m] by (simp add: good_slice_def g_def)
    moreover have "nxt = of_nat (length (in_local s @ line))"
    proof -
      have "nxt = in_offset s + ucast (of_nat (length line) :: 32 word)"
        using acc by (auto simp: accumulatePlanEntry_def Let_def split: prod.splits option.splits)
      moreover have "(ucast (of_nat (length line) :: 32 word) :: 64 word) = of_nat (length line)"
        using len by (simp add: unsigned_of_nat take_bit_nat_eq_self)
      ultimately show ?thesis using inv by (simp add: ingested_def)
    qed
    moreover have "s' = s\<lparr>in_lineCount := in_lineCount s + 1, in_local := in_local s @ line, in_seen := in_seen s @ [rm_CustomID m],
        in_acc := acc, in_offset := nxt, in_manifest := in_manifest s @ [acceptedEntry (in_lineCount s) (rm_CustomID m) ?q]\<rparr>"
      using step wr m new True acc by (simp add: ingest_line_def Let_def)
    ultimately have "ingested p (gs @ [g]) s' \<and> in_local s' = in_local s @ line"
      using inv slices ord new by (auto simp: ingested_def acceptedEntry_def entry_id_def line_id_def g_def)
    then show ?thesis by blast
  qed
qed

lemma split_on_step:
  assumes "readNormalizedLine r = Some (line, r')"
  shows "line = hd (split_on newline r) @ [newline]" and "set (split_on newline r') \<subseteq> insert [] (set (split_on newline r))"
    and "length r' < length r" and "length line + length r' \<le> Suc (length r)"
    and "r' \<noteq> [] \<Longrightarrow> length line + length r' = length r"
proof -
  have r: "r \<noteq> []" "line = takeWhile (\<lambda>c. c \<noteq> newline) r @ [newline]" "r' = tl (dropWhile (\<lambda>c. c \<noteq> newline) r)"
    using assms by (auto simp: readNormalizedLine_def split: if_splits)
  have "takeWhile (\<lambda>c. c \<noteq> newline) r = hd (split_on newline r)
      \<and> set (split_on newline (tl (dropWhile (\<lambda>c. c \<noteq> newline) r))) \<subseteq> insert [] (set (tl (split_on newline r)))"
    by (induction r) (auto split: list.splits)
  moreover have "set (tl (split_on newline r)) \<subseteq> set (split_on newline r)" by (cases "split_on newline r") auto
  ultimately show "line = hd (split_on newline r) @ [newline]" "set (split_on newline r') \<subseteq> insert [] (set (split_on newline r))" using r by auto
  let ?d = "dropWhile (\<lambda>c. c \<noteq> newline) r"
  have len: "length r = length (takeWhile (\<lambda>c. c \<noteq> newline) r) + length ?d"
    by (metis length_append takeWhile_dropWhile_id)
  have ll: "length line = Suc (length (takeWhile (\<lambda>c. c \<noteq> newline) r))" "length r' = length ?d - 1" using r by simp_all
  have "0 < length r" using r(1) by simp
  then show "length r' < length r" using len ll(2) by linarith
  show "length line + length r' \<le> Suc (length r)" using len ll by linarith
  show "length line + length r' = length r" if "r' \<noteq> []"
  proof -
    from that have "0 < length r'" by simp
    then show ?thesis using len ll by linarith
  qed
qed

definition short_lines :: "string \<Rightarrow> bool" where
  "short_lines r = (\<forall>l \<in> set (split_on newline r). length l < 2 ^ 32 - 1)"

lemma ingest_loop_ok:
  assumes "ingest_loop p cause rd wr n r s = Inr s'" and "ingested p gs s" and "short_lines r"
  shows "\<exists>gs'. ingested p gs' s' \<and> length (in_local s') \<le> Suc (length (in_local s) + length r)"
  using assms
proof (induction p cause rd wr n r s arbitrary: gs rule: ingest_loop.induct)
  case (1 p cause rd wr n r s)
  have c: "Cause (cause n) = None" "rd n = None" using "1.prems"(1) by (auto simp: ingest_loop.simps [of p] split: option.splits)
  show ?case
  proof (cases "readNormalizedLine r")
    case None
    with "1.prems" c show ?thesis by (auto simp: ingest_loop.simps [of p])
  next
    case (Some lr)
    then obtain line r' where lr: "readNormalizedLine r = Some (line, r')" by (cases lr) simp
    note split = split_on_step [OF lr]
    obtain s1 where s1: "ingest_line p (wr n) line s = Inr s1" "ingest_loop p cause rd wr (Suc n) r' s1 = Inr s'"
      using "1.prems"(1) c lr by (auto simp: ingest_loop.simps [of p cause rd wr n r] split: sum.splits)
    have "hd (split_on newline r) \<in> set (split_on newline r)" by simp
    with "1.prems"(3) split(1) have "length line < 2 ^ 32" by (auto simp: short_lines_def)
    from ingest_line_ok [OF "1.prems"(2) this s1(1)] obtain gs1 where gs1: "ingested p gs1 s1" "in_local s1 = in_local s @ line" by blast
    have "short_lines r'" using "1.prems"(3) split(2) by (auto simp: short_lines_def)
    from "1.IH" [OF c lr refl s1(1) s1(2) gs1(1) this] obtain gs2 where
      "ingested p gs2 s'" "length (in_local s') \<le> Suc (length (in_local s1) + length r')" by blast
    moreover have "r' = [] \<Longrightarrow> s' = s1"
      using s1(2) by (auto simp: readNormalizedLine_def ingest_loop.simps [of p cause rd wr "Suc n" "[]"] split: option.splits)
    ultimately show ?thesis using gs1(2) split(4,5) by (cases "r' = []") auto
  qed
qed

lemma ingest_start_ok: "ingested p [] ingest_start"
  by (simp add: ingested_def ingest_start_def acc_ok_def)

section \<open>The plan files and the source\<close>

lemma Finalize_other:
  "Finalize sortf io acc ids plans = Inr plans' \<Longrightarrow> name \<notin> set ids \<Longrightarrow> map_of plans' name = map_of plans name"
proof (induction sortf io acc ids plans rule: Finalize.induct)
  case (2 sortf io acc x ids plans)
  then show ?case by (auto simp: update_conv' split: option.splits if_splits)
qed simp

lemma Finalize_result:
  assumes "Finalize sortf io acc ids plans = Inr plans'" and "name \<in> set ids" and "map_of (pa_entries acc) name = Some es" and "es \<noteq> []"
  shows "map_of plans' name = Some (concat (map marshalBinary (sortf es)))"
  using assms
proof (induction sortf io acc ids plans rule: Finalize.induct)
  case (2 sortf io acc x ids plans)
  show ?case
  proof (cases "name \<in> set ids")
    case True
    show ?thesis
    proof (cases "map_of (pa_entries acc) x")
      case None
      with 2(1) [OF None _ True] 2(4,6,7) show ?thesis by simp
    next
      case (Some es')
      with 2(2) [OF Some _ _ True] 2(3) [OF Some _ _ _ True] 2(4,6,7) show ?thesis by (simp split: if_splits)
    qed
  next
    case False
    with 2(5) have "name = x" by simp
    with 2(4,6,7) have "Finalize sortf io acc ids (AList.update x (concat (map marshalBinary (sortf es))) plans) = Inr plans'"
      by (simp split: if_splits)
    from Finalize_other [OF this False] \<open>name = x\<close> show ?thesis by (simp add: update_conv')
  qed
qed simp

text \<open>
  What the code relies on from \<^verbatim>\<open>sort.Slice\<close>, and from decoding the same line into two types that
  have the same field: the two values agree when both decodings succeed. A line that decodes for
  planning need not decode as a request, since a request keeps the whole body.
\<close>

definition plan_sort :: "(planEntry list \<Rightarrow> planEntry list) \<Rightarrow> bool" where
  "plan_sort sortf = (\<forall>es. mset (sortf es) = mset es \<and> sorted (map pe_PrefixHash (sortf es)))"

definition json_same_id :: "json_lib \<Rightarrow> bool" where
  "json_same_id js = (\<forall>l req q. js_line js l = Inr req \<longrightarrow> js_request js l = Inr q \<longrightarrow> qr_CustomID q = pl_CustomID req)"

definition item_id :: "RequestItem \<Rightarrow> string \<times> string" where
  "item_id i = (rq_RequestID i, rq_CustomID i)"

definition bare :: "RequestItem \<Rightarrow> RequestItem" where
  "bare i = i\<lparr>rq_Headers := []\<rparr>"

definition source_of :: "PlanFileSource \<Rightarrow> ingest_params \<Rightarrow> job_dir \<Rightarrow> bool" where
  "source_of src p d = (src_dir src = d \<and> src_json src = ip_json p \<and> src_uuid5 src = ip_uuid5 p \<and> src_batchID src = ip_jobID p \<and> ip_jobID p \<noteq> [])"

text \<open>
  The request that an accepted line stands for, without its headers: a line that decodes keeps
  its identifiers, its model, its path and its body, and another one becomes a parse error
  under a fresh identifier.
\<close>

definition decodes :: "ingest_params \<Rightarrow> accepted_line \<Rightarrow> bool" where
  "decodes p g = is_ok (js_request (ip_json p) (trim_newline (al_line g)))"

definition line_request :: "PlanFileSource \<Rightarrow> ingest_params \<Rightarrow> (planEntry \<Rightarrow> string) \<Rightarrow> accepted_line \<Rightarrow> RequestItem" where
  "line_request src p fresh g =
    (case js_request (ip_json p) (trim_newline (al_line g)) of
       Inl e \<Rightarrow> \<lparr>rq_RequestID = newBatchRequestID (fresh (entry_of_line g)), rq_CustomID = newBatchRequestID (fresh (entry_of_line g)),
         rq_ModelID = [], rq_Endpoint = [], rq_Body = [], rq_Headers = [],
         rq_ParseError = Some \<lparr>er_Code = ''parse_error'', er_Message = ''failed to parse request line''\<rparr>, rq_SubmittedAt = None\<rparr>
     | Inr r \<Rightarrow> \<lparr>rq_RequestID = fst (line_id p g), rq_CustomID = al_custom g, rq_ModelID = routeKey (src_method src) (src_tenantID src) (al_model g),
         rq_Endpoint = qr_URL r, rq_Body = qr_Body r, rq_Headers = [], rq_ParseError = None, rq_SubmittedAt = None\<rparr>)"

definition emitted :: "PlanFileSource \<Rightarrow> RequestItem \<Rightarrow> bool" where
  "emitted src i = (\<not> src_skip src (rq_RequestID i))"

lemma bare_simps [simp]: "rq_RequestID (bare i) = rq_RequestID i" "item_id (bare i) = item_id i" "rq_ParseError (bare i) = rq_ParseError i"
  "emitted src (bare i) = emitted src i"
  by (simp_all add: bare_def item_id_def emitted_def)

lemma line_request_decodes:
  "decodes p g \<Longrightarrow> item_id (line_request src p fresh g) = line_id p g \<and> rq_ParseError (line_request src p fresh g) = None"
  by (auto simp: decodes_def line_request_def item_id_def line_id_def split: sum.splits)

lemma readEntry_line:
  assumes src: "source_of src p d" and js: "json_same_id (ip_json p)" and g: "good_slice (ip_json p) (jd_input d) g"
    and len: "length (jd_input d) < 2 ^ 63"
  shows "\<exists>item. readEntry src now (fresh (entry_of_line g)) (entry_of_line g) (al_model g) = Inr item \<and> bare item = line_request src p fresh g"
proof -
  have off: "al_off g < 2 ^ 63" using g len by (simp add: good_slice_def)
  have "sint (of_nat (al_off g) :: 64 word) = int (al_off g)"
    using off by (simp add: signed_of_nat signed_take_bit_int_eq_self_iff)
  moreover have "unat (of_nat (length (al_line g)) :: 32 word) = length (al_line g)"
    using g by (simp add: good_slice_def unat_of_nat take_bit_nat_eq_self)
  ultimately have "read_at (jd_input d) (pe_Offset (entry_of_line g)) (pe_Length (entry_of_line g)) = Inr (al_line g)"
    using g by (simp add: read_at_def entry_of_line_def good_slice_def)
  moreover have "qr_CustomID q = al_custom g" if "js_request (ip_json p) (trim_newline (al_line g)) = Inr q" for q
    using g js that unfolding good_slice_def json_same_id_def by metis
  ultimately show ?thesis
    using src by (auto simp: readEntry_def source_of_def line_id_def line_request_def bare_def Let_def split: sum.split)
qed

lemma produce_entries_lines:
  assumes src: "source_of src p d" and js: "json_same_id (ip_json p)" and len: "length (jd_input d) < 2 ^ 63"
    and gs: "\<forall>g \<in> set gs. good_slice (ip_json p) (jd_input d) g \<and> al_model g = m"
  shows "\<exists>sent' held'. produce_entries src clock fresh m (map entry_of_line gs) (sent, held) = (None, sent', held')
    \<and> mset (map bare (sent' @ held')) = mset (map bare (sent @ held)) + mset (filter (emitted src) (map (line_request src p fresh) gs))"
  using gs
proof (induction gs arbitrary: sent held)
  case (Cons g gs)
  obtain item where item: "readEntry src (clock (entry_of_line g)) (fresh (entry_of_line g)) (entry_of_line g) m = Inr item"
      "bare item = line_request src p fresh g"
    using readEntry_line [OF src js _ len] Cons.prems by (metis list.set_intros(1))
  have q: "emitted src (line_request src p fresh g) = (\<not> src_skip src (rq_RequestID item))"
    unfolding item(2) [symmetric] by (simp add: emitted_def)
  have IH: "\<exists>sent' held'. produce_entries src clock fresh m (map entry_of_line gs) (a, b) = (None, sent', held')
      \<and> mset (map bare (sent' @ held')) = mset (map bare (a @ b)) + mset (filter (emitted src) (map (line_request src p fresh) gs))" for a b
    using Cons by simp
  show ?case
    using IH [of sent held] IH [of "sent @ [item]" held] IH [of sent "held @ [item]"] item q by auto
qed simp

lemma permuted_map:
  "mset zs = mset (map f xs) \<Longrightarrow> \<exists>ys. mset ys = mset xs \<and> zs = map f ys"
proof (induction zs arbitrary: xs)
  case (Cons z zs)
  then have "z \<in> set (map f xs)" by (metis list.set_intros(1) set_mset_mset)
  then obtain x where x: "x \<in> set xs" "z = f x" by auto
  then have xs: "mset xs = add_mset x (mset (remove1 x xs))" by simp
  have "add_mset z (mset zs) = image_mset f (mset xs)" using Cons.prems by simp
  then have "add_mset z (mset zs) = add_mset (f x) (image_mset f (mset (remove1 x xs)))" unfolding xs by simp
  with x(2) have "mset zs = mset (map f (remove1 x xs))" by simp
  from Cons.IH [OF this] obtain ys where "mset ys = mset (remove1 x xs)" "zs = map f ys" by blast
  with x xs have "mset (x # ys) = mset xs \<and> z # zs = map f (x # ys)" by (simp only: mset.simps list.map add_mset_remove_trivial simp_thms)
  then show ?case by (rule exI)
qed simp

definition planned :: "job_dir \<Rightarrow> (planEntry list \<Rightarrow> planEntry list) \<Rightarrow> accepted_line list \<Rightarrow> (string \<times> string) list \<Rightarrow> bool" where
  "planned d sortf gs order = (\<forall>(name, m) \<in> set order.
     map_of (jd_plans d) name = Some (concat (map marshalBinary (sortf (map entry_of_line (lines_of m gs))))))"

lemma produce_models_lines:
  assumes src: "source_of src p d" and js: "json_same_id (ip_json p)" and len: "length (jd_input d) < 2 ^ 63"
    and gs: "\<forall>g \<in> set gs. good_slice (ip_json p) (jd_input d) g" and sortf: "plan_sort sortf" and plans: "planned d sortf gs order"
  shows "\<exists>sent' held'. produce_models src clock fresh order (sent, held) = (None, sent', held')
    \<and> mset (map bare (sent' @ held')) = mset (map bare (sent @ held))
        + mset (filter (emitted src) (map (line_request src p fresh) (concat (map (\<lambda>(name, m). lines_of m gs) order))))"
  using plans
proof (induction order arbitrary: sent held)
  case (Cons nm order)
  obtain name m where nm: "nm = (name, m)" by fastforce
  have planfile: "map_of (jd_plans d) name = Some (concat (map marshalBinary (sortf (map entry_of_line (lines_of m gs)))))"
    using Cons.prems nm by (simp add: planned_def)
  obtain ys where ys: "mset ys = mset (lines_of m gs)" "sortf (map entry_of_line (lines_of m gs)) = map entry_of_line ys"
    using permuted_map [of "sortf (map entry_of_line (lines_of m gs))" entry_of_line "lines_of m gs"] sortf by (auto simp: plan_sort_def)
  have "set ys = set (lines_of m gs)" using arg_cong [OF ys(1), of set_mset] by simp
  then have good: "\<forall>g \<in> set ys. good_slice (ip_json p) (jd_input d) g \<and> al_model g = m" using gs by (auto simp: lines_of_def)
  have same: "mset (filter (emitted src) (map (line_request src p fresh) ys)) = mset (filter (emitted src) (map (line_request src p fresh) (lines_of m gs)))"
    using ys(1) by (metis mset_filter mset_map)
  obtain s1 h1 where one: "produce_entries src clock fresh m (map entry_of_line ys) (sent, held) = (None, s1, h1)"
    "mset (map bare (s1 @ h1)) = mset (map bare (sent @ held)) + mset (filter (emitted src) (map (line_request src p fresh) ys))"
    using produce_entries_lines [OF src js len good, of clock fresh sent held] by blast
  have "planned d sortf gs order" using Cons.prems by (simp add: planned_def)
  from Cons.IH [OF this, of s1 h1] obtain s2 h2 where two: "produce_models src clock fresh order (s1, h1) = (None, s2, h2)"
    "mset (map bare (s2 @ h2)) = mset (map bare (s1 @ h1))
        + mset (filter (emitted src) (map (line_request src p fresh) (concat (map (\<lambda>(name, m). lines_of m gs) order))))" by blast
  have "produce_models src clock fresh (nm # order) (sent, held) = (None, s2, h2)"
    using src planfile ys(2) one(1) two(1) readPlanEntries_marshal [of "map entry_of_line ys"] by (simp add: nm source_of_def)
  moreover have "mset (map bare (s2 @ h2)) = mset (map bare (sent @ held))
        + mset (filter (emitted src) (map (line_request src p fresh) (concat (map (\<lambda>(name, m). lines_of m gs) (nm # order)))))"
    unfolding two(2) one(2) same by (simp add: nm)
  ultimately show ?case by blast
qed simp

lemma lines_by_model:
  "distinct ms \<Longrightarrow> mset (concat (map (\<lambda>m. lines_of m gs) ms)) = mset (filter (\<lambda>g. al_model g \<in> set ms) gs)"
proof (induction ms)
  case (Cons m ms)
  have "mset (filter (\<lambda>g. al_model g \<in> set (m # ms)) gs) = mset (lines_of m gs) + mset (filter (\<lambda>g. al_model g \<in> set ms) gs)"
    using Cons.prems by (induction gs) (auto simp: lines_of_def)
  with Cons show ?case by simp
qed simp

lemma decoded_items:
  assumes emit: "mset (map bare items) = mset (filter (emitted src) (map (line_request src p fresh) gs))" and dec: "list_all (decodes p) gs"
  shows "list_all (\<lambda>i. rq_ParseError i = None) items
    \<and> mset (map item_id items) = mset (filter (\<lambda>x. \<not> src_skip src (fst x)) (map (line_id p) gs))"
proof -
  have one: "item_id (line_request src p fresh g) = line_id p g" "rq_ParseError (line_request src p fresh g) = None"
      "emitted src (line_request src p fresh g) = (\<not> src_skip src (fst (line_id p g)))" if "g \<in> set gs" for g
  proof -
    have "decodes p g" using that dec by (simp add: list_all_iff)
    note line_request_decodes [OF this, of src fresh]
    then show id: "item_id (line_request src p fresh g) = line_id p g" and "rq_ParseError (line_request src p fresh g) = None" by simp_all
    show "emitted src (line_request src p fresh g) = (\<not> src_skip src (fst (line_id p g)))"
      unfolding id [symmetric] by (simp add: emitted_def item_id_def)
  qed
  have sel: "filter (\<lambda>g. emitted src (line_request src p fresh g)) gs = filter (\<lambda>g. \<not> src_skip src (fst (line_id p g))) gs"
    by (rule filter_cong) (simp_all add: one(3))
  have ids: "map item_id (filter (emitted src) (map (line_request src p fresh) gs)) = filter (\<lambda>x. \<not> src_skip src (fst x)) (map (line_id p) gs)"
    unfolding filter_map o_def sel map_map by (rule map_cong) (simp_all add: one(1))
  have pe: "\<forall>i \<in> set (filter (emitted src) (map (line_request src p fresh) gs)). rq_ParseError i = None"
    using one(2) by auto
  let ?ls = "filter (emitted src) (map (line_request src p fresh) gs)"
  have "rq_ParseError i = None" if "i \<in> set items" for i
  proof -
    have "bare i \<in> set ?ls" using that arg_cong [OF emit, of set_mset] by (simp only: set_mset_mset set_map) blast
    then have "rq_ParseError (bare i) = None" using pe by blast
    then show ?thesis by simp
  qed
  moreover have "mset (map item_id items) = image_mset item_id (mset (map bare items))" by (simp add: image_mset.compositionality o_def)
  then have "mset (map item_id items) = mset (map item_id ?ls)" unfolding emit by (simp only: mset_map)
  ultimately show ?thesis unfolding ids by (simp add: list_all_iff)
qed

lemma preProcess_ingested:
  assumes pre: "preProcessJob p env fid (Inr content) d = Inr (manifest, d')" and short: "short_lines content"
  obtains s gs where "ingested p gs s" and "in_manifest s = manifest" and "jd_input d' = in_local s"
    and "length (in_local s) \<le> Suc (length content)"
    and "finalizePlanFiles (ig_sort env) (ig_plan env) (in_acc s) (jd_plans d) = Inr (jd_plans d')"
    and "jd_map d' = Some \<lparr>mm_ModelToSafe = pa_modelToSafe (in_acc s), mm_SafeToModel = map (\<lambda>(m, name). (name, m)) (pa_modelToSafe (in_acc s)),
        mm_LineCount = in_lineCount s, mm_RejectedCount = in_rejected s\<rparr>"
proof -
  have strip: "reclassify c r = Inr x \<Longrightarrow> r = Inr x" for c and r :: "'a res" and x
    by (cases r) (auto simp: reclassify_def split: error.splits)
  from pre obtain s plans where loop: "ingest_loop p (ig_cause env) (ig_read env) (ig_write env) 0 content ingest_start = Inr s"
    and fin: "finalizePlanFiles (ig_sort env) (ig_plan env) (in_acc s) (jd_plans d) = Inr plans"
    and wr: "writeModelMappings (ig_map env) (in_acc s) (in_lineCount s) (in_rejected s) (d\<lparr>jd_input := in_local s, jd_plans := plans\<rparr>) = Inr d'"
    and m: "in_manifest s = manifest"
    unfolding preProcessJob_def by (auto dest!: strip split: sum.splits if_splits)
  from ingest_loop_ok [OF loop ingest_start_ok short] obtain gs where gs: "ingested p gs s" "length (in_local s) \<le> Suc (length content)"
    by (auto simp: ingest_start_def)
  show ?thesis
    by (rule that [OF gs(1) m _ gs(2)]) (use fin wr in \<open>auto simp: writeModelMappings_def split: if_splits\<close>)
qed

lemma ingested_planned:
  assumes inv: "ingested p gs s" and fin: "finalizePlanFiles sortf io (in_acc s) plans = Inr plans'"
    and order: "mset order = mset (map (\<lambda>(m, name). (name, m)) (pa_modelToSafe (in_acc s)))" and d: "jd_plans d = plans'"
  shows "planned d sortf gs order" and "mset (concat (map (\<lambda>(name, m). lines_of m gs) order)) = mset gs"
proof -
  let ?mts = "pa_modelToSafe (in_acc s)"
  have ok: "acc_ok (in_acc s) gs" using inv by (simp add: ingested_def)
  have set: "set order = (\<lambda>(m, name). (name, m)) ` set ?mts" using arg_cong [OF order, of set_mset] by simp
  have plan: "map_of plans' name = Some (concat (map marshalBinary (sortf (map entry_of_line (lines_of m gs)))))" if "(m, name) \<in> set ?mts" for m name
  proof -
    have "map_of (pa_entries (in_acc s)) name = Some (map entry_of_line (lines_of m gs))" "lines_of m gs \<noteq> []"
      using ok that by (auto simp: acc_ok_def)
    moreover have "name \<in> set (sort (map snd ?mts))" using that by force
    ultimately show ?thesis using Finalize_result [OF fin [unfolded finalizePlanFiles_def], of name] by simp
  qed
  then show "planned d sortf gs order" using d by (auto simp: planned_def set)
  have ms: "mset (map snd order) = mset (map fst ?mts)"
    using arg_cong [OF order, of "image_mset snd"] by (simp add: image_mset.compositionality o_def split_def)
  then have dist: "distinct (map snd order)" using ok by (metis acc_ok_def mset_eq_imp_distinct_iff)
  have "al_model g \<in> set (map snd order)" if "g \<in> set gs" for g
    using that ok arg_cong [OF ms, of set_mset] by (auto simp: acc_ok_def)
  then have "filter (\<lambda>g. al_model g \<in> set (map snd order)) gs = gs" by (simp add: filter_id_conv)
  with lines_by_model [OF dist, of gs] have "mset (concat (map (\<lambda>m. lines_of m gs) (map snd order))) = mset gs" by (simp only:)
  then show "mset (concat (map (\<lambda>(name, m). lines_of m gs) order)) = mset gs" by (simp add: o_def split_def)
qed

section \<open>Properties\<close>

text \<open>
  C16: What is ingested is what is executed. When a batch was ingested, a source that works on
  its directory, in whatever order it ranges over the models, emits without an error exactly
  one request for every accepted line, unless its identifier is to be skipped, although the
  plans are sorted by prefix hash, split by model and stored as offsets and lengths of fixed
  width. The accepted lines are pieces of the local input and the accepted entries of the
  manifest, in order; a line that decodes as a request is emitted with the identifiers of
  its entry, its model, its path and its body, and one that decodes only for planning becomes
  a parse error under a fresh identifier. So when all lines decode, the requests are
  those of the accepted entries. The entries are numbered from zero without gaps and no custom
  identifier occurs twice. The lines of the input have to be shorter than four gigabytes.
\<close>

theorem ingest_produce_roundtrip:
  assumes pre: "preProcessJob p env fid (Inr content) d = Inr (manifest, d')"
    and size: "short_lines content" "length content < 2 ^ 63 - 1"
    and lib: "plan_sort (ig_sort env)" "json_same_id (ip_json p)"
    and src: "source_of src p d'" and order: "jd_map d' = Some mm" "mset order = mset (mm_SafeToModel mm)"
  shows "(\<exists>gs items. Produce src clock fresh order = (None, items)
      \<and> mset (map bare items) = mset (filter (emitted src) (map (line_request src p fresh) gs))
      \<and> map entry_id (filter (\<lambda>m. \<not> me_Rejected m) manifest) = map (line_id p) gs
      \<and> (\<forall>g \<in> set gs. good_slice (ip_json p) (jd_input d') g)
      \<and> (list_all (decodes p) gs \<longrightarrow> list_all (\<lambda>i. rq_ParseError i = None) items
           \<and> mset (map item_id items) = mset (map entry_id (filter (\<lambda>m. \<not> me_Rejected m \<and> \<not> src_skip src (me_RequestID m)) manifest))))
    \<and> map me_Ordinal manifest = map int [0..<length manifest] \<and> distinct (map me_CustomID manifest)"
proof (rule preProcess_ingested [OF pre size(1)])
  fix s gs
  assume inv: "ingested p gs s" and m: "in_manifest s = manifest" and inp: "jd_input d' = in_local s"
    and len: "length (in_local s) \<le> Suc (length content)"
    and fin: "finalizePlanFiles (ig_sort env) (ig_plan env) (in_acc s) (jd_plans d) = Inr (jd_plans d')"
    and map: "jd_map d' = Some \<lparr>mm_ModelToSafe = pa_modelToSafe (in_acc s), mm_SafeToModel = map (\<lambda>(m, name). (name, m)) (pa_modelToSafe (in_acc s)),
        mm_LineCount = in_lineCount s, mm_RejectedCount = in_rejected s\<rparr>"
  have ord: "mset order = mset (map (\<lambda>(m, name). (name, m)) (pa_modelToSafe (in_acc s)))" using order map by auto
  note plan = ingested_planned [OF inv fin ord refl]
  have good: "\<forall>g \<in> set gs. good_slice (ip_json p) (jd_input d') g" using inv inp by (simp add: ingested_def)
  have "length (jd_input d') < 2 ^ 63" using len size(2) inp by simp
  from produce_models_lines [OF src lib(2) this good lib(1) plan(1), of clock fresh "[]" "[]"] obtain sent held where
    run: "produce_models src clock fresh order ([], []) = (None, sent, held)"
    "mset (map bare (sent @ held)) = mset (filter (emitted src) (map (line_request src p fresh) (concat (map (\<lambda>(name, m). lines_of m gs) order))))"
    by auto
  have emit: "mset (map bare (sent @ held)) = mset (filter (emitted src) (map (line_request src p fresh) gs))"
    using run(2) unfolding mset_filter mset_map plan(2) .
  have ids: "map entry_id (filter (\<lambda>m. \<not> me_Rejected m) manifest) = map (line_id p) gs" using inv m by (simp add: ingested_def)
  have all: "list_all (\<lambda>i. rq_ParseError i = None) (sent @ held)
      \<and> mset (map item_id (sent @ held)) = mset (map entry_id (filter (\<lambda>m. \<not> me_Rejected m \<and> \<not> src_skip src (me_RequestID m)) manifest))"
    if dec: "list_all (decodes p) gs"
    using decoded_items [OF emit dec] unfolding ids [symmetric] by (simp add: filter_map o_def entry_id_def conj_commute)
  have "Produce src clock fresh order = (None, sent @ held)" by (simp add: Produce_def run(1))
  moreover have "map me_Ordinal manifest = map int [0..<length manifest] \<and> distinct (map me_CustomID manifest)"
    using inv m unfolding ingested_def by metis
  ultimately show ?thesis using emit ids good all by (intro conjI exI [of _ gs] exI [of _ "sent @ held"]) simp_all
qed

text \<open>
  C23: The model map of an ingested batch is well formed: every model has one plan file
  and no two models share one, the two directions of the map are inverse, every name is
  a non-empty string of letters, digits, dots, dashes and underscores, so that it stays
  inside the plan directory, and the recorded number of lines is the length of the
  manifest.
\<close>

theorem model_map_well_formed:
  assumes pre: "preProcessJob p env fid (Inr content) d = Inr (manifest, d')" and short: "short_lines content"
  shows "\<exists>mm. jd_map d' = Some mm \<and> distinct (map fst (mm_ModelToSafe mm)) \<and> distinct (map snd (mm_ModelToSafe mm))
    \<and> (\<forall>m name. map_of (mm_ModelToSafe mm) m = Some name \<longleftrightarrow> map_of (mm_SafeToModel mm) name = Some m)
    \<and> (\<forall>name \<in> snd ` set (mm_ModelToSafe mm). name \<noteq> [] \<and> list_all safe_char name)
    \<and> mm_LineCount mm = int (length manifest)"
proof (rule preProcess_ingested [OF pre short])
  fix s gs
  assume inv: "ingested p gs s" and m: "in_manifest s = manifest"
    and map: "jd_map d' = Some \<lparr>mm_ModelToSafe = pa_modelToSafe (in_acc s), mm_SafeToModel = map (\<lambda>(m, name). (name, m)) (pa_modelToSafe (in_acc s)),
        mm_LineCount = in_lineCount s, mm_RejectedCount = in_rejected s\<rparr>"
  let ?mts = "pa_modelToSafe (in_acc s)" let ?inv = "map (\<lambda>(m, name). (name, m)) ?mts"
  have ok: "acc_ok (in_acc s) gs" using inv by (simp add: ingested_def)
  then have dist: "distinct (map fst ?mts)" "distinct (map snd ?mts)" by (simp_all add: acc_ok_def)
  moreover have "map fst ?inv = map snd ?mts" by (simp add: o_def split_def)
  ultimately have "distinct (map fst ?inv)" by (simp only:)
  then have "map_of ?mts x = Some name \<longleftrightarrow> map_of ?inv name = Some x" for x name
    using dist(1) by (auto simp: map_of_eq_Some_iff)
  moreover have "in_lineCount s = int (length manifest)" using inv m by (simp add: ingested_def)
  ultimately show ?thesis using map dist ok by (simp add: acc_ok_def)
qed

text \<open>Three lines; the names of the first two models are sanitized to the same file name, the third model is not registered.\<close>

definition sample_json :: json_lib where
  "sample_json = \<lparr>js_line = (\<lambda>l. Inr \<lparr>pl_CustomID = l, pl_Method = ''POST'', pl_URL = ''/v1/embeddings'',
       pl_Model = (if l = ''a'' then ''m!'' else if l = ''b'' then ''m?'' else ''z''), pl_Stream = None, pl_Messages = []\<rparr>),
     js_request = (\<lambda>l. Inr \<lparr>qr_CustomID = l, qr_Method = ''POST'', qr_URL = ''/v1/embeddings'', qr_Body = []\<rparr>),
     js_string = Inr, js_parts = (\<lambda>s. Inr []), js_output = (\<lambda>l. Inr (ol_ID l))\<rparr>"

definition sample_ingest :: ingest_params where
  "sample_ingest = \<lparr>ip_json = sample_json, ip_sha256hex = id, ip_uuid5 = id, ip_allowlist = \<lparr>al_extra = []\<rparr>, ip_endpoint = ''/v1/embeddings'',
     ip_gateways = ModelGateways [''m!'', ''m?''], ip_method = RouteKeyMethodBare, ip_tenantID = ''t'', ip_jobID = ''j'', ip_isPrint = (\<lambda>c. False)\<rparr>"

definition sample_ingest_env :: ingest_env where
  "sample_ingest_env = \<lparr>ig_cause = (\<lambda>n. CauseNone), ig_read = (\<lambda>n. None), ig_write = (\<lambda>n. True), ig_dir = True, ig_create = True, ig_flush = True,
     ig_plan = (\<lambda>n. True), ig_map = True, ig_sort = sort_key pe_PrefixHash, ig_end = CauseNone\<rparr>"

definition sample_content :: string where
  "sample_content = ''a'' @ [newline] @ ''b'' @ [newline] @ ''c''"

definition empty_dir :: job_dir where
  "empty_dir = \<lparr>jd_input = [], jd_plans = [], jd_map = None\<rparr>"

definition sample_ingested :: "(requestManifest \<times> job_dir) res" where
  "sample_ingested = preProcessJob sample_ingest sample_ingest_env ''f'' (Inr sample_content) empty_dir"

definition sample_source :: PlanFileSource where
  "sample_source = \<lparr>src_dir = (case sample_ingested of Inl e \<Rightarrow> empty_dir | Inr (m, d) \<Rightarrow> d), src_json = sample_json, src_uuid5 = id,
     src_method = RouteKeyMethodBare, src_objective = (\<lambda>m. []), src_fairness = False, src_headers = [], src_deadline = None, src_tenantID = ''t'',
     src_batchID = ''j'', src_skip = (\<lambda>q. False), src_recover = [], src_window = 0\<rparr>"

definition sample_names :: "(string \<times> string) list" where
  "sample_names = [(''m_'', ''m!''), (''m__2'', ''m?'')]"

lemma sample_ingested_ok:
  "(case sample_ingested of Inl e \<Rightarrow> False | Inr (m, d) \<Rightarrow> map me_Rejected m = [False, False, True]
     \<and> map entry_id m = [(newBatchRequestID (''j'' @ CHR 0x00 # x), x). x \<leftarrow> [''a'', ''b'', ''c'']]
     \<and> (case jd_map d of None \<Rightarrow> False | Some mm \<Rightarrow> mm_SafeToModel mm = sample_names))"
  by code_simp

theorem ingest_produce_roundtrip_witness:
  "\<exists>items. Produce sample_source (\<lambda>e. 0) (\<lambda>e. []) sample_names = (None, items)
    \<and> mset (map item_id items) = {#(newBatchRequestID (''j'' @ CHR 0x00 # ''a''), ''a''), (newBatchRequestID (''j'' @ CHR 0x00 # ''b''), ''b'')#}"
proof -
  from sample_ingested_ok obtain m d mm where run: "sample_ingested = Inr (m, d)" "map me_Rejected m = [False, False, True]"
    "map entry_id m = [(newBatchRequestID (''j'' @ CHR 0x00 # x), x). x \<leftarrow> [''a'', ''b'', ''c'']]" "jd_map d = Some mm" "mm_SafeToModel mm = sample_names"
    by (auto split: sum.splits prod.splits option.splits)
  have pre: "preProcessJob sample_ingest sample_ingest_env ''f'' (Inr sample_content) empty_dir = Inr (m, d)"
    using run(1) by (simp add: sample_ingested_def)
  have size: "short_lines sample_content" "length sample_content < 2 ^ 63 - 1"
    by (simp_all add: short_lines_def sample_content_def newline_def)
  have lib: "plan_sort (ig_sort sample_ingest_env)" "json_same_id (ip_json sample_ingest)"
    by (simp_all add: plan_sort_def sample_ingest_env_def json_same_id_def sample_ingest_def sample_json_def)
  have src: "source_of sample_source sample_ingest d"
    by (simp add: source_of_def sample_source_def sample_ingest_def run(1))
  obtain a b c where m: "m = [a, b, c]" using run(3) by (auto simp: map_eq_Cons_conv)
  have dec: "list_all (decodes sample_ingest) gs" for gs by (simp add: list_all_iff decodes_def sample_ingest_def sample_json_def)
  have skip: "src_skip sample_source = (\<lambda>q. False)" by (simp add: sample_source_def)
  have "mset sample_names = mset (mm_SafeToModel mm)" using run(5) by simp
  from ingest_produce_roundtrip [OF pre size lib src run(4) this, of "\<lambda>e. 0" "\<lambda>e. []"] obtain items where
    "Produce sample_source (\<lambda>e. 0) (\<lambda>e. []) sample_names = (None, items)"
    "mset (map item_id items) = mset (map entry_id (filter (\<lambda>m. \<not> me_Rejected m \<and> \<not> src_skip sample_source (me_RequestID m)) m))"
    using dec by blast
  with run(2,3) show ?thesis by (simp add: m skip)
qed

theorem model_map_well_formed_witness:
  "\<exists>m d mm. sample_ingested = Inr (m, d) \<and> jd_map d = Some mm \<and> distinct (map snd (mm_ModelToSafe mm)) \<and> mm_LineCount mm = 3"
proof -
  from sample_ingested_ok obtain m d where run: "sample_ingested = Inr (m, d)" "map me_Rejected m = [False, False, True]"
    by (auto split: sum.splits prod.splits option.splits)
  have "short_lines sample_content" by (simp add: short_lines_def sample_content_def newline_def)
  from model_map_well_formed [OF run(1) [unfolded sample_ingested_def] this] arg_cong [OF run(2), of length] run(1)
  show ?thesis by auto
qed

end
