(* ===== verification/Job_Runner.thy ===== *)
theory Job_Runner
  imports Recovery Planner
begin

text \<open>
  The run of one job (\<^verbatim>\<open>internal/processor/worker/job_runner.go\<close>, \<^verbatim>\<open>cancel.go\<close>,
  \<^verbatim>\<open>execute_pipeline.go\<close>, \<^verbatim>\<open>internal/processor/pipeline/executor.go\<close>) and the polling loop
  that launches it (\<^verbatim>\<open>worker.go\<close>). The goroutines of the execution - source, fence,
  dispatcher, checkpointer, progress tracker, lease renewal - are interleaved by a
  schedule, in which the rest of the system takes part. A schedule that ends before the
  execution does is a processor that crashed there. Metrics, traces and the removal of
  the local directory are left out.
\<close>

section \<open>Execution\<close>

text \<open>The mode of the fence: taking requests, dropping them after a lost ownership, or answering them with the reason of the cancellation.\<close>

datatype fence_mode = Taking | Lost | Draining

record exec_state =
  ex_source :: "RequestItem list"
  ex_out :: "RequestItem list"
  ex_results :: "ResultItem list"
  ex_mode :: fence_mode
  ex_cause :: cause
  ex_drain :: "durable drain_state"

text \<open>
  The steps: the fence reads the next request, the dispatcher gets the answer to one of
  the submitted requests, the checkpointer takes the next result, the lease is renewed,
  the counts are pushed, the context is cancelled, the rest of the system acts.
\<close>

datatype exec_step =
    Submit mark_env instant
  | Answer nat bool "GenerateResponse option \<times> ClientError option" "cause option"
  | Collect sink_env
  | Renew conn instant
  | Push conn
  | Stop cause
  | System "db \<Rightarrow> db"

text \<open>What a processor is made of: the libraries, its identity and configuration.\<close>

record processor =
  pr_stores :: stores
  pr_isPrint :: "nat \<Rightarrow> bool"
  pr_parses :: "string \<Rightarrow> bool"
  pr_errText :: "error \<Rightarrow> string"
  pr_lease :: duration
  pr_json :: json_lib
  pr_method :: RouteKeyMethod
  pr_objective :: "string \<Rightarrow> string"
  pr_fairness :: bool
  pr_window :: duration

definition ex_db :: "exec_state \<Rightarrow> db" where
  "ex_db x = du_db (dr_store (ex_drain x))"

definition set_ex_db :: "db \<Rightarrow> exec_state \<Rightarrow> exec_state" where
  "set_ex_db d x = x\<lparr>ex_drain := (ex_drain x)\<lparr>dr_store := (dr_store (ex_drain x))\<lparr>du_db := d\<rparr>\<rparr>\<rparr>"

text \<open>A cancellation is recorded only once; a persistence failure of the checkpointer also ends the dispatch context.\<close>

definition stop_with :: "cause \<Rightarrow> exec_state \<Rightarrow> exec_state" where
  "stop_with c x = (if ex_cause x = CauseNone then x\<lparr>ex_cause := c\<rparr> else x)"

definition dispatch_done :: "exec_state \<Rightarrow> cause option" where
  "dispatch_done x = (if ex_cause x \<noteq> CauseNone then Some (ex_cause x) else if dr_aborted (ex_drain x) then Some CauseOther else None)"

definition fence_step :: "processor \<Rightarrow> BatchItem \<Rightarrow> mark_env \<Rightarrow> instant \<Rightarrow> exec_state \<Rightarrow> exec_state" where
  "fence_step p job env now x0 = (case ex_source x0 of
      [] \<Rightarrow> x0
    | msg # rest \<Rightarrow>
        let x = x0\<lparr>ex_source := rest\<rparr>; answer = (\<lambda>r. x\<lparr>ex_results := ex_results x @ [r]\<rparr>)
        in case ex_mode x of
             Lost \<Rightarrow> x
           | Draining \<Rightarrow> answer (cancel_result (case dispatch_done x of Some c \<Rightarrow> c | None \<Rightarrow> CauseOther) msg)
           | Taking \<Rightarrow>
               (case dispatch_done x of
                  Some c \<Rightarrow> (answer (cancel_result c msg))\<lparr>ex_mode := Draining\<rparr>
                | None \<Rightarrow>
                    (case rq_ParseError msg of
                       Some pe \<Rightarrow> answer (msg_Error (er_Code pe) (er_Message pe) msg)
                     | None \<Rightarrow>
                         (case markEntryInFlightHook (bi_ID job) (bi_Epoch job) (ss_self (pr_stores p)) env msg (ex_db x) of
                            (Inl e, d) \<Rightarrow>
                              if e = ErrConflict then (set_ex_db d x)\<lparr>ex_mode := Lost\<rparr>
                              else set_ex_db d (answer (msg_Error ''server_error'' (pr_errText p e) msg))
                          | (Inr submit, d) \<Rightarrow>
                              if submit then set_ex_db d (x\<lparr>ex_out := ex_out x @ [msg\<lparr>rq_SubmittedAt := Some now\<rparr>]\<rparr>)
                              else set_ex_db d x))))"

definition progress_push :: "conn \<Rightarrow> BatchItem \<Rightarrow> exec_state \<Rightarrow> exec_state" where
  "progress_push c job x =
    (case UpdateProgressCounts c (bi_ID job) (bi_Epoch job) (Some (Counts (dr_tracker (ex_drain x)))) (ex_db x) of
       (Inr _, d) \<Rightarrow> set_ex_db d x
     | (Inl e, d) \<Rightarrow> if e = ErrConflict then stop_with CauseOther (set_ex_db d x) else set_ex_db d x)"

definition renew_lease :: "processor \<Rightarrow> conn \<Rightarrow> instant \<Rightarrow> BatchItem \<Rightarrow> exec_state \<Rightarrow> exec_state" where
  "renew_lease p c now job x =
    (let (go_on, lost, d) = renew_tick c now (pr_lease p) (ss_self (pr_stores p)) job (ex_db x)
     in if lost then stop_with CauseOther (set_ex_db d x) else set_ex_db d x)"

definition collect_step :: "processor \<Rightarrow> batchResultStore \<Rightarrow> sink_env \<Rightarrow> exec_state \<Rightarrow> exec_state" where
  "collect_step p sink env x = (case ex_results x of
      [] \<Rightarrow> x
    | r # rest \<Rightarrow> x\<lparr>ex_results := rest, ex_drain := drain_one (ss_marshal (pr_stores p)) (ss_sha256hex (pr_stores p)) (sink_Checkpoint (ss_sha256hex (pr_stores p)) sink)
          \<lparr>de_pending = id, de_system = id, de_sink = env\<rparr> r (ex_drain x)\<rparr>)"

definition answer_step ::
  "processor \<Rightarrow> nat \<Rightarrow> bool \<Rightarrow> GenerateResponse option \<times> ClientError option \<Rightarrow> cause option \<Rightarrow> exec_state \<Rightarrow> exec_state" where
  "answer_step p i known answer ctx x =
    (if i < length (ex_out x)
     then x\<lparr>ex_out := take i (ex_out x) @ drop (Suc i) (ex_out x),
            ex_results := ex_results x @ [direct_result (pr_isPrint p) (pr_parses p) known answer ctx (ex_out x ! i)]\<rparr>
     else x)"

fun exec_one :: "processor \<Rightarrow> BatchItem \<Rightarrow> batchResultStore \<Rightarrow> exec_step \<Rightarrow> exec_state \<Rightarrow> exec_state" where
  "exec_one p job sink (Submit env now) x = fence_step p job env now x"
| "exec_one p job sink (Answer i known answer ctx) x = answer_step p i known answer ctx x"
| "exec_one p job sink (Collect env) x = collect_step p sink env x"
| "exec_one p job sink (Renew c now) x = renew_lease p c now job x"
| "exec_one p job sink (Push c) x = progress_push c job x"
| "exec_one p job sink (Stop c) x = stop_with c x"
| "exec_one p job sink (System f) x = set_ex_db (f (ex_db x)) x"

definition exec_run :: "processor \<Rightarrow> BatchItem \<Rightarrow> batchResultStore \<Rightarrow> exec_step list \<Rightarrow> exec_state \<Rightarrow> exec_state" where
  "exec_run p job sink sched x = fold (exec_one p job sink) sched x"

text \<open>Everything was read, answered and checkpointed.\<close>

definition exec_done :: "exec_state \<Rightarrow> bool" where
  "exec_done x = (ex_source x = [] \<and> ex_out x = [] \<and> ex_results x = [])"

text \<open>
  The error of \<^verbatim>\<open>Execute\<close>: the error group keeps the first one, \<open>srcFirst\<close> tells that it was
  the source's, and a cancellation gives way to the error of the checkpointer.
\<close>

definition execute_error :: "bool \<Rightarrow> error option \<Rightarrow> error option \<Rightarrow> error option" where
  "execute_error srcFirst srcErr collectorErr =
    (let first = (if srcErr \<noteq> None \<and> (srcFirst \<or> collectorErr = None) then srcErr else collectorErr)
     in if first = Some ErrContext \<and> collectorErr \<noteq> None then collectorErr else first)"

record execute_env =
  xe_open :: bool
  xe_order :: "(string \<times> string) list"
  xe_clock :: "planEntry \<Rightarrow> instant"
  xe_fresh :: "planEntry \<Rightarrow> string"
  xe_dispatcher :: bool
  xe_sched :: "exec_step list"
  xe_srcFirst :: bool

definition seeded_tracker :: "modelMapFile \<Rightarrow> ResumableResumeState option \<Rightarrow> ProgressTracker" where
  "seeded_tracker mm seed = (let pt = NewProgressTracker (mm_LineCount mm) in case seed of
      Some st \<Rightarrow> AddFailed (rs_Failed st) (AddCompleted (rs_Completed st) pt)
    | None \<Rightarrow> AddFailed (mm_RejectedCount mm) pt)"

definition job_source :: "processor \<Rightarrow> BatchJobPriority \<Rightarrow> JobInfo \<Rightarrow> ResumableResumeState option \<Rightarrow> job_dir \<Rightarrow> PlanFileSource" where
  "job_source p task info seed d =
    \<lparr>src_dir = d, src_json = pr_json p, src_uuid5 = ss_uuid5 (pr_stores p), src_method = pr_method p, src_objective = pr_objective p,
     src_fairness = pr_fairness p, src_headers = ji_PassThroughHeaders info, src_deadline = jp_SLO task, src_tenantID = ji_TenantID info,
     src_batchID = ji_JobID info,
     src_skip = (\<lambda>q. case seed of None \<Rightarrow> False | Some st \<Rightarrow> q \<in> set (rs_TerminalRequestIDs st)),
     src_recover = [], src_window = pr_window p\<rparr>"

definition exec_start :: "RequestItem list \<Rightarrow> ProgressTracker \<Rightarrow> durable \<Rightarrow> exec_state" where
  "exec_start items pt s = \<lparr>ex_source = items, ex_out = [], ex_results = [], ex_mode = Taking, ex_cause = CauseNone,
     ex_drain = \<lparr>dr_pending = NewPendingRequests, dr_tracker = pt, dr_store = s, dr_firstErr = None, dr_conflictErr = None,
       dr_aborted = False, dr_acked = []\<rparr>\<rparr>"

definition durable_of :: "final_state \<Rightarrow> durable" where
  "durable_of s = \<lparr>du_db = fs_db s, du_files = fs_files s\<rparr>"

definition put_durable :: "durable \<Rightarrow> final_state \<Rightarrow> final_state" where
  "put_durable u s = s\<lparr>fs_db := du_db u, fs_files := du_files u\<rparr>"

text \<open>
  \<^verbatim>\<open>executeJob\<close> with the direct dispatcher: the counts, the terminal error and the cause of
  the context, or \<open>None\<close> when the schedule ends before the execution.
\<close>

definition executeJob ::
  "processor \<Rightarrow> execute_env \<Rightarrow> BatchJobPriority \<Rightarrow> BatchItem \<Rightarrow> JobInfo \<Rightarrow> ResumableResumeState option \<Rightarrow> batchResultStore \<Rightarrow> job_dir
    \<Rightarrow> final_state \<Rightarrow> (BatchRequestCounts option \<times> error option \<times> cause) option \<times> final_state" where
  "executeJob p env task job info seed sink d s =
    (case readModelMap d of
       Inl e \<Rightarrow> (Some (None, Some e, CauseNone), s)
     | Inr mm \<Rightarrow>
         if \<not> xe_open env then (Some (None, Some (ErrOther ''open input file''), CauseNone), s)
         else if \<not> xe_dispatcher env then (Some (None, Some (ErrOther ''build dispatcher''), CauseNone), s)
         else let (srcErr, items) = Produce (job_source p task info seed d) (xe_clock env) (xe_fresh env) (xe_order env);
                  x = exec_run p job sink (xe_sched env) (exec_start items (seeded_tracker mm seed) (durable_of s));
                  dr = ex_drain x; counts = Counts (dr_tracker dr); s' = put_durable (dr_store dr) s;
                  collectorErr = (if dr_conflictErr dr \<noteq> None then dr_conflictErr dr else dr_firstErr dr)
              in if \<not> exec_done x then (None, s')
                 else (Some (Some counts, classifyOutcome (ex_cause x) counts (execute_error (xe_srcFirst env) srcErr collectorErr), ex_cause x), s'))"

section \<open>Outcomes of a run\<close>

text \<open>
  The surroundings of a run, in the order in which they are used. Between two phases of
  the run the rest of the system acts and, once the batch is leased, the goroutine
  that renews the lease ticks.
\<close>

datatype between = Others "db \<Rightarrow> db" | Tick conn instant

record run_env =
  ru_between :: "nat \<Rightarrow> between list"
  ru_now :: instant
  ru_pickup :: finalize_env
  ru_pickup_end :: terminal_env
  ru_watch :: bool
  ru_back :: conn
  ru_back2 :: conn
  ru_ingest :: "(requestManifest \<times> job_dir) res"
  ru_list :: conn
  ru_activate :: activation_env
  ru_fetch :: conn
  ru_execute :: execute_env
  ru_write :: conn
  ru_write2 :: conn
  ru_begin :: conn
  ru_final :: finalize_env
  ru_final_end :: terminal_env

definition on_db :: "(db \<Rightarrow> 'a \<times> db) \<Rightarrow> final_state \<Rightarrow> 'a \<times> final_state" where
  "on_db f s = (let (r, d) = f (fs_db s) in (r, s\<lparr>fs_db := d\<rparr>))"

fun between_step :: "processor \<Rightarrow> BatchItem \<Rightarrow> bool \<Rightarrow> between \<Rightarrow> db \<Rightarrow> db" where
  "between_step p job leased (Others f) d = f d"
| "between_step p job leased (Tick c now) d =
    (if leased then snd (snd (renew_tick c now (pr_lease p) (ss_self (pr_stores p)) job d)) else d)"

definition pass_time :: "processor \<Rightarrow> run_env \<Rightarrow> BatchItem \<Rightarrow> bool \<Rightarrow> nat \<Rightarrow> final_state \<Rightarrow> final_state" where
  "pass_time p env job leased i s = s\<lparr>fs_db := fold (between_step p job leased) (ru_between env i) (fs_db s)\<rparr>"

definition handleFailed :: "run_env \<Rightarrow> BatchItem \<Rightarrow> BatchRequestCounts option \<Rightarrow> final_state \<Rightarrow> unit res \<times> final_state" where
  "handleFailed env job counts s =
    (case on_db (UpdateFailedStatus (ru_write env) (ru_now env) job counts [] []) s of
       (Inl e, s') \<Rightarrow> (Inl e, s')
     | (Inr _, s') \<Rightarrow> (Inr (), s'))"

definition handleExpired :: "run_env \<Rightarrow> BatchItem \<Rightarrow> BatchRequestCounts option \<Rightarrow> final_state \<Rightarrow> unit res \<times> final_state" where
  "handleExpired env job counts s =
    (case on_db (UpdateExpiredStatus (ru_write env) (ru_now env) job counts [] []) s of
       (Inl e, s') \<Rightarrow> (Inl e, s')
     | (Inr _, s') \<Rightarrow> (Inr (), s'))"

definition handleCancelled :: "run_env \<Rightarrow> BatchItem \<Rightarrow> BatchRequestCounts option \<Rightarrow> final_state \<Rightarrow> unit res \<times> final_state" where
  "handleCancelled env job counts s =
    (case on_db (UpdateCancelledStatus (ru_write env) (ru_now env) job counts [] []) s of
       (Inl e, s1) \<Rightarrow>
         (case on_db (UpdateFailedStatus (ru_write2 env) (ru_now env) job counts [] []) s1 of
            (Inl e2, s2) \<Rightarrow> (Inl e, s2)
          | (Inr _, s2) \<Rightarrow> (Inl ErrFinalizeFailedOver, s2))
     | (Inr _, s1) \<Rightarrow> (Inr (), s1))"

text \<open>\<open>durable\<close>: the batch was activated here or resumed, so that its entries carry the results.\<close>

definition handleJobError ::
  "processor \<Rightarrow> run_env \<Rightarrow> bool \<Rightarrow> BatchItem \<Rightarrow> JobInfo \<Rightarrow> BatchRequestCounts option \<Rightarrow> error \<Rightarrow> final_state \<Rightarrow> final_state" where
  "handleJobError p env durable job info counts err s =
    (let finalize = (\<lambda>status code expected. snd (finalizeResumableTerminal (pr_stores p) (ru_final env) (ru_final_end env) job info status code expected s))
     in if durable then
          (if err = ErrCancelled then finalize BatchStatusCancelled ErrCodeBatchCancelled BatchStatusCancelling
           else if err = ErrExpired then finalize BatchStatusExpired ErrCodeBatchExpired BatchStatusInProgress
           else if err = ErrShutdown then s
           else finalize BatchStatusFailed ErrCodeBatchFailed BatchStatusInProgress)
        else if err = ErrCancelled then snd (handleCancelled env job counts s)
        else if err = ErrExpired then snd (handleExpired env job counts s)
        else if err = ErrShutdown then s
        else snd (handleFailed env job counts s))"

text \<open>The row is left as it is when the batch is durable; otherwise it is failed.\<close>

definition handlePanicRecovery :: "run_env \<Rightarrow> bool \<Rightarrow> BatchItem \<Rightarrow> BatchRequestCounts option \<Rightarrow> final_state \<Rightarrow> final_state" where
  "handlePanicRecovery env durable job counts s = (if durable then s else snd (handleFailed env job counts s))"

text \<open>When the cancel events cannot be watched the job is handed back.\<close>

definition hand_back :: "run_env \<Rightarrow> BatchJobPriority \<Rightarrow> BatchItem \<Rightarrow> final_state \<Rightarrow> final_state" where
  "hand_back env task job s =
    (if jp_Resumable task
     then snd (on_db (RequeueResumableOrphan (ru_back env) (ru_back2 env) (ru_now env) (jp_ID task) (bi_ProcessorID job) (bi_Epoch job) False True) s)
     else (case on_db (PQEnqueue (ru_back env) task) s of
         (Inl e, s') \<Rightarrow> snd (handleFailed env job None s')
       | (Inr _, s') \<Rightarrow> s'))"

section \<open>The run\<close>

text \<open>Taking up the batch: a requeued one is read back, a fresh one activated.\<close>

definition take_up ::
  "processor \<Rightarrow> run_env \<Rightarrow> BatchJobPriority \<Rightarrow> BatchItem \<Rightarrow> JobInfo \<Rightarrow> requestManifest \<Rightarrow> final_state
    \<Rightarrow> (batchResultStore \<times> ResumableResumeState option) res \<times> final_state" where
  "take_up p env task job info manifest s =
    (let sha = ss_sha256hex (pr_stores p); self = ss_self (pr_stores p)
     in if jp_Resumable task
        then ((case recoverResumable sha (ru_list env) self job info manifest (fs_db s) of
            Inl e \<Rightarrow> Inl e
          | Inr (sink, seed) \<Rightarrow> Inr (sink, Some seed)), s)
        else (case activateResumable sha (ru_activate env) self job info manifest (durable_of s) of
            (Inl e, u) \<Rightarrow> (Inl e, put_durable u s)
          | (Inr sink, u) \<Rightarrow> (Inr (sink, None), put_durable u s)))"

definition refreshed_item :: "run_env \<Rightarrow> BatchItem \<Rightarrow> db \<Rightarrow> BatchItem" where
  "refreshed_item env job d = (case fetchJobItemByID (ru_fetch env) (ru_now env) (bi_ID job) d of
      Inr (Some fresh) \<Rightarrow> job\<lparr>bi_Status := bi_Status fresh\<rparr>
    | _ \<Rightarrow> job)"

text \<open>From the end of the execution to the end of the run.\<close>

definition conclude ::
  "processor \<Rightarrow> run_env \<Rightarrow> BatchItem \<Rightarrow> JobInfo \<Rightarrow> BatchRequestCounts option \<times> error option \<times> cause \<Rightarrow> final_state \<Rightarrow> final_state" where
  "conclude p env job info outcome s =
    (let (counts, execErr, c) = outcome; st = pr_stores p
     in if (c \<noteq> CauseNone \<and> Cause c = None) \<or> execErr = Some ErrConflict then s
        else case execErr of
            Some e \<Rightarrow> handleJobError p env True job info counts e s
          | None \<Rightarrow> snd (finalizeResumableJob (ss_sha256hex st) (ss_uuid5 st) (ss_marshal st) (ss_expiration st) (ru_begin env)
              (ru_final env) (ru_final_end env) (c = CauseCancelled) (ss_self st) job info s))"

definition runJob :: "processor \<Rightarrow> run_env \<Rightarrow> BatchJobPriority \<Rightarrow> BatchItem \<Rightarrow> JobInfo \<Rightarrow> final_state \<Rightarrow> final_state" where
  "runJob p env task job info s0 =
    (let s1 = pass_time p env job (jp_Resumable task) 0 s0;
         (routed, s2) = (if jp_Resumable task then routeResumedPickup (pr_stores p) (ru_pickup env) (ru_pickup_end env) task job info s1
                         else (False, s1));
         s3 = pass_time p env job (jp_Resumable task) 1 s2
     in if routed then s2
        else if \<not> ru_watch env then hand_back env task job s3
        else case ru_ingest env of
            Inl e \<Rightarrow> handleJobError p env (jp_Resumable task) job info None e s3
          | Inr (manifest, d) \<Rightarrow>
              (case take_up p env task job info manifest s3 of
                 (Inl e, s4) \<Rightarrow>
                   let s5 = pass_time p env job (jp_Resumable task) 2 s4
                   in if e = ErrConflict then s4
                      else if jp_Resumable task
                      then snd (finalizeResumableAs (ss_sha256hex (pr_stores p)) (ss_uuid5 (pr_stores p)) (ss_marshal (pr_stores p))
                             (ss_expiration (pr_stores p)) (ru_final env) (ru_final_end env) (ss_self (pr_stores p)) job info
                             BatchStatusFailed ErrCodeBatchFailed (getJobStatus job) s5)
                      else snd (handleFailed env job None s5)
               | (Inr (sink, seed), s4) \<Rightarrow>
                   let s5 = pass_time p env job True 2 s4; job' = refreshed_item env job (fs_db s5)
                   in (case executeJob p (ru_execute env) task job' info seed sink d s5 of
                         (None, s6) \<Rightarrow> s6
                       | (Some outcome, s6) \<Rightarrow> conclude p env job' info outcome (pass_time p env job' True 3 s6))))"

section \<open>The polling loop\<close>

record poll_env =
  po_conn :: conn
  po_locked :: "string list"
  po_sys :: "db \<Rightarrow> db"
  po_fetch :: conn
  po_write :: conn
  po_write2 :: conn
  po_back :: conn
  po_back2 :: conn
  po_now :: instant
  po_stopped :: bool

text \<open>
  What one round of the loop leads to: a job to launch, the next round, or the end.
  \<open>po_sys\<close> is what the rest of the system does between the claim of the job and the read
  of its row.
\<close>

datatype poll_result = Launch BatchJobPriority BatchItem JobInfo | NextRound | EndLoop

definition poll_once :: "string \<Rightarrow> duration \<Rightarrow> poll_env \<Rightarrow> db \<Rightarrow> poll_result \<times> db" where
  "poll_once self lease env s =
    (case dequeueOne (po_conn env) (po_now env) self lease (po_locked env) s of
       (Inl e, s1) \<Rightarrow> (NextRound, s1)
     | (Inr None, s1) \<Rightarrow> (NextRound, s1)
     | (Inr (Some task), s0) \<Rightarrow>
         let s1 = po_sys env s0 in
         (case fetchJobItemByID (po_fetch env) (po_now env) (jp_ID task) s1 of
            Inl e \<Rightarrow> (NextRound, snd (PQEnqueue (po_back env) task s1))
          | Inr None \<Rightarrow> (NextRound, s1)
          | Inr (Some item) \<Rightarrow>
              let info = FromDBItemToJobInfoObject item; status = si_Status (ba_Info (ji_BatchJob info))
              in if \<not> jp_Resumable task \<and> IsJobExpired (po_now env) task
                 then (NextRound, snd (UpdatePersistentStatus (po_write env) (po_now env) item BatchStatusExpired None None (\<lambda>i. i) s1))
                 else if \<not> jp_Resumable task \<and> \<not> IsJobRunnable (ji_BatchJob info) \<and> status = BatchStatusCancelling
                 then (NextRound, snd (UpdateCancelledStatus (po_write env) (po_now env) item None [] [] s1))
                 else if \<not> jp_Resumable task \<and> \<not> IsJobRunnable (ji_BatchJob info) then (NextRound, s1)
                 else if po_stopped env
                 then (EndLoop,
                   if jp_Resumable task
                   then snd (RequeueResumableOrphan (po_back env) (po_back2 env) (po_now env) (jp_ID task) self (jp_Epoch task) False True s1)
                   else (case PQEnqueue (po_back env) task s1 of
                       (Inl e, s2) \<Rightarrow> snd (UpdateFailedStatus (po_write2 env) (po_now env) item None [] [] s2)
                     | (Inr _, s2) \<Rightarrow> s2))
                 else (Launch task item info, s1)))"

section \<open>Fenced operations\<close>

text \<open>An operation of the owner of batch \<open>k\<close> at epoch \<open>e\<close> that does nothing once the owner is superseded.\<close>

definition fenced_op :: "string \<Rightarrow> int \<Rightarrow> (db \<Rightarrow> 'a \<times> db) \<Rightarrow> bool" where
  "fenced_op k e f = (\<forall>s. db_ok s \<and> superseded k e s \<longrightarrow> snd (f s) = s)"

lemma fenced_opD: "fenced_op k e f \<Longrightarrow> db_ok s \<Longrightarrow> superseded k e s \<Longrightarrow> snd (f s) = s"
  by (simp add: fenced_op_def)

lemma superseded_guard:
  assumes "db_ok s" and "superseded k e s" and "\<And>r. guard r \<Longrightarrow> row_id r = k \<and> row_epoch r = e"
  shows "update_items guard eff s = (0, s)"
  by (rule update_items_noop [OF assms(1), of _ k])
    (use assms(2,3) in \<open>auto simp: superseded_def split: option.splits\<close>)

lemma superseded_stmt:
  assumes "db_ok s" and "superseded k e s" and "\<And>r. guard r \<Longrightarrow> row_id r = k \<and> row_epoch r = e"
  shows "exec_stmt c (update_items guard eff) s = (case c of ConnOk \<Rightarrow> Inr 0 | _ \<Rightarrow> Inl ErrDB, s)"
  using superseded_guard [OF assms, of guard eff] by (cases c) simp_all

lemma fenced_UpdateProgressCounts: "fenced_op k e (UpdateProgressCounts c k e counts)"
proof -
  have "exec_stmt c (update_items (progress_guard k e) (progress_eff rc)) s = (case c of ConnOk \<Rightarrow> Inr 0 | _ \<Rightarrow> Inl ErrDB, s)"
    if "db_ok s" "superseded k e s" for s rc by (rule superseded_stmt [OF that]) (simp add: progress_guard_def)
  then show ?thesis by (cases c) (simp_all add: fenced_op_def UpdateProgressCounts_def DBUpdateProgress_def split: option.split)
qed

lemma fenced_Renew: "fenced_op k e (RenewResumableBatchLease c now k pid e ttl)"
proof -
  have "exec_stmt c (update_items (renew_guard now k pid e) eff) s = (case c of ConnOk \<Rightarrow> Inr 0 | _ \<Rightarrow> Inl ErrDB, s)"
    if "db_ok s" "superseded k e s" for s eff by (rule superseded_stmt [OF that]) (simp add: renew_guard_def)
  then show ?thesis by (cases c) (simp_all add: fenced_op_def RenewResumableBatchLease_def)
qed

lemma fenced_Requeue: "fenced_op k e (RequeueResumableOrphan c c2 now k pid e a b)"
proof -
  have "exec_stmt c (update_items (requeue_guard now k pid e a) eff) s = (case c of ConnOk \<Rightarrow> Inr 0 | _ \<Rightarrow> Inl ErrDB, s)"
    if "db_ok s" "superseded k e s" for s eff by (rule superseded_stmt [OF that]) (simp add: requeue_guard_def)
  then show ?thesis by (cases c) (simp_all add: fenced_op_def RequeueResumableOrphan_def)
qed

lemma fenced_PQEnqueue: "fenced_op (jp_ID task) (jp_Epoch task) (PQEnqueue c task)"
proof -
  have "exec_stmt c (update_items (enqueue_guard task) eff) s = (case c of ConnOk \<Rightarrow> Inr 0 | _ \<Rightarrow> Inl ErrDB, s)"
    if "db_ok s" "superseded (jp_ID task) (jp_Epoch task) s" for s eff by (rule superseded_stmt [OF that]) (simp add: enqueue_guard_def)
  then show ?thesis by (cases c) (simp_all add: fenced_op_def PQEnqueue_def)
qed

lemma fenced_updatePersistentStatus:
  assumes "0 < bi_Epoch job"
  shows "fenced_op (bi_ID job) (bi_Epoch job) (updatePersistentStatus c now job st counts slo expected m)"
proof (cases "BuildStatus now job st counts slo m")
  case (Inr doc)
  let ?u = "zero_item\<lparr>bi_ID := bi_ID job, bi_Status := Some doc, bi_Epoch := bi_Epoch job, bi_ExpectedResumable := bi_ExpectedResumable job\<rparr>"
  have "exec_stmt c (update_items (update_guard ?u expected) eff) s = (case c of ConnOk \<Rightarrow> Inr 0 | _ \<Rightarrow> Inl ErrDB, s)"
    if "db_ok s" "superseded (bi_ID job) (bi_Epoch job) s" for s eff
    by (rule superseded_stmt [OF that]) (use assms in \<open>simp add: update_guard_def update_epoch_cond_def\<close>)
  then show ?thesis using Inr by (cases c) (simp_all add: fenced_op_def updatePersistentStatus_def DBUpdate_def)
qed (simp add: fenced_op_def updatePersistentStatus_def)

lemma fenced_status_updates:
  assumes "0 < bi_Epoch job"
  shows "fenced_op (bi_ID job) (bi_Epoch job) (UpdateFailedStatus c now job counts out err)"
    "fenced_op (bi_ID job) (bi_Epoch job) (UpdateExpiredStatus c now job counts out err)"
    "fenced_op (bi_ID job) (bi_Epoch job) (UpdateCancelledStatus c now job counts out err)"
  using fenced_updatePersistentStatus [OF assms]
  by (simp_all add: fenced_op_def UpdateFailedStatus_def UpdateExpiredStatus_def UpdateCancelledStatus_def UpdatePersistentStatus_def)

lemma fenced_entry_write: "fenced_op k e (entry_write c c2 now k q pid e eff)"
proof -
  have "entry_stmt now k q pid e eff s = (0, s)" if "db_ok s" "superseded k e s" for s
    using superseded_no_lock [OF that] by (simp add: entry_stmt_def update_entries_def sql_count_def sql_update_def)
  then show ?thesis by (cases c) (auto simp: fenced_op_def entry_write_def split: sum.split)
qed

lemma fenced_Checkpoint: "fenced_op k e (CheckpointEntryResult c c2 now k q pid e res)"
  using fenced_entry_write by (auto simp: fenced_op_def CheckpointEntryResult_def)

lemma fenced_Mark: "fenced_op k e (MarkEntryInFlight c c2 now k q pid e)"
  using fenced_entry_write by (simp add: fenced_op_def MarkEntryInFlight_def)

lemma fenced_Activate: "fenced_op (ac_BatchID a) (ac_Epoch a) (ActivateResumableBatch c now a)"
proof -
  have "activate_stmt now a s = (Some 0, s)" if "db_ok s" "superseded (ac_BatchID a) (ac_Epoch a) s" for s
  proof -
    have "\<not> activate_candidate a s r" if r: "r \<in> set (batch_items s)" for r
    proof
      assume c: "activate_candidate a s r"
      have "find_item (row_id r) s = Some r" using \<open>db_ok s\<close> r by (simp add: db_ok_def find_item_def by_key_Some_iff)
      with c \<open>superseded (ac_BatchID a) (ac_Epoch a) s\<close> show False by (simp add: activate_candidate_def superseded_def)
    qed
    then show ?thesis by (simp add: activate_stmt_def sql_count_0_iff)
  qed
  then show ?thesis by (cases c) (auto simp: fenced_op_def ActivateResumableBatch_def split: sum.split prod.split option.split)
qed

section \<open>A superseded run\<close>

text \<open>What a set of operations of the rest of the system makes of the database.\<close>

definition acts :: "(db \<Rightarrow> db) set \<Rightarrow> (db \<times> db) set" where
  "acts F = {(d, f d) | d f. f \<in> F}"

definition evolving :: "(db \<Rightarrow> db) \<Rightarrow> bool" where
  "evolving f = (\<forall>s. db_ok s \<longrightarrow> db_ok (f s) \<and> db_evolves s (f s))"

definition stale :: "string \<Rightarrow> int \<Rightarrow> db \<Rightarrow> bool" where
  "stale k e d = (db_ok d \<and> superseded k e d)"

lemma stale_step: "evolving f \<Longrightarrow> stale k e d \<Longrightarrow> stale k e (f d)"
  using superseded_stable by (auto simp: stale_def evolving_def)

lemma stale_acts:
  assumes "(d, d') \<in> (acts F)\<^sup>*" and "\<forall>f \<in> F. evolving f" and "stale k e d"
  shows "stale k e d'"
  using assms(1,3) by (induction rule: rtrancl_induct) (use assms(2) stale_step in \<open>auto simp: acts_def\<close>)

lemma acts_step: "f \<in> F \<Longrightarrow> (d, d') \<in> (acts F)\<^sup>* \<Longrightarrow> (d, f d') \<in> (acts F)\<^sup>*"
  by (rule rtrancl_into_rtrancl) (auto simp: acts_def)

lemma fenced_stale: "fenced_op k e f \<Longrightarrow> stale k e d \<Longrightarrow> f d = (r, d') \<Longrightarrow> d' = d"
  by (metis fenced_opD snd_conv stale_def)

lemma ex_db_set [simp]: "ex_db (set_ex_db d x) = d" "ex_db (x\<lparr>ex_mode := m\<rparr>) = ex_db x" "ex_db (x\<lparr>ex_results := rs\<rparr>) = ex_db x"
  "ex_db (x\<lparr>ex_out := os\<rparr>) = ex_db x" "ex_db (x\<lparr>ex_source := ss\<rparr>) = ex_db x" "ex_db (x\<lparr>ex_cause := c\<rparr>) = ex_db x"
  by (simp_all add: ex_db_def set_ex_db_def)

lemma stop_with_db [simp]: "ex_db (stop_with c x) = ex_db x"
  by (simp add: stop_with_def)

lemma sink_stale:
  assumes "stale (rst_batchID st) (rst_epoch st) (du_db s)"
  shows "du_db (snd (sink_Checkpoint sha st env msg line dg sz s)) = du_db s"
proof -
  have "CheckpointEntryResult c c2 now (rst_batchID st) q pid (rst_epoch st) res (du_db s) = (r, d) \<Longrightarrow> d = du_db s" for c c2 now q pid res r d
    using fenced_stale [OF fenced_Checkpoint assms] by blast
  then show ?thesis by (auto simp: sink_Checkpoint_def split: sum.split prod.split)
qed

lemma drain_stale:
  assumes "stale (rst_batchID st) (rst_epoch st) (du_db (dr_store d))"
  shows "du_db (dr_store (drain_one marshal sha (sink_Checkpoint sha st) \<lparr>de_pending = id, de_system = id, de_sink = env\<rparr> msg d)) = du_db (dr_store d)"
  using drain_one_cases [of marshal sha "sink_Checkpoint sha st" "\<lparr>de_pending = id, de_system = id, de_sink = env\<rparr>" msg d]
proof cases
  case (called msg' line r s')
  have "du_db (snd (sink_Checkpoint sha st env msg' line (sha line) (int (length line)) (dr_store d))) = du_db (dr_store d)"
    by (rule sink_stale [OF assms])
  with called show ?thesis by simp
qed simp

lemma fence_step_stale:
  assumes "stale (bi_ID job) (bi_Epoch job) (ex_db x)"
  shows "ex_db (fence_step p job env now x) = ex_db x"
proof -
  have hook: "markEntryInFlightHook (bi_ID job) (bi_Epoch job) self env msg (ex_db x) = (r, d) \<Longrightarrow> d = ex_db x" for self msg r d
    using fenced_stale [OF fenced_Mark assms] by (simp add: markEntryInFlightHook_def)
  show ?thesis
    by (auto simp: fence_step_def Let_def split: list.split fence_mode.split option.split prod.split sum.split dest!: hook)
qed

lemma exec_one_stale:
  assumes st: "stale (bi_ID job) (bi_Epoch job) (ex_db x)" and sink: "rst_batchID sink = bi_ID job" "rst_epoch sink = bi_Epoch job"
  shows "ex_db (exec_one p job sink step x) = (case step of System f \<Rightarrow> f (ex_db x) | _ \<Rightarrow> ex_db x)"
proof (cases step)
  case (Collect env)
  with drain_stale [of sink "ex_drain x" "ss_marshal (pr_stores p)" "ss_sha256hex (pr_stores p)" env] st sink show ?thesis
    by (auto simp: collect_step_def ex_db_def split: list.split)
next
  case (Renew c now)
  have "RenewResumableBatchLease c now (bi_ID job) self (bi_Epoch job) ttl (ex_db x) = (r, d) \<Longrightarrow> d = ex_db x" for self ttl r d
    using fenced_stale [OF fenced_Renew st] by blast
  with Renew show ?thesis by (auto simp: renew_lease_def renew_tick_def Let_def split: prod.split sum.split)
next
  case (Push c)
  have "UpdateProgressCounts c (bi_ID job) (bi_Epoch job) counts (ex_db x) = (r, d) \<Longrightarrow> d = ex_db x" for counts r d
    using fenced_stale [OF fenced_UpdateProgressCounts st] by blast
  with Push show ?thesis by (auto simp: progress_push_def split: prod.split sum.split)
qed (use fence_step_stale [OF st] in \<open>simp_all add: answer_step_def\<close>)

definition sched_acts :: "exec_step list \<Rightarrow> (db \<Rightarrow> db) set" where
  "sched_acts sched = {f. System f \<in> set sched}"

lemma exec_run_stale:
  assumes "stale (bi_ID job) (bi_Epoch job) (ex_db x)" and sink: "rst_batchID sink = bi_ID job" "rst_epoch sink = bi_Epoch job"
    and "sched_acts sched \<subseteq> F" and F: "\<forall>f \<in> F. evolving f"
  shows "(ex_db x, ex_db (exec_run p job sink sched x)) \<in> (acts F)\<^sup>*"
  using assms(1,4)
proof (induction sched arbitrary: x)
  case (Cons step sched)
  let ?x = "exec_one p job sink step x"
  have one: "(ex_db x, ex_db ?x) \<in> (acts F)\<^sup>*"
  proof (cases step)
    case (System f)
    then have "f \<in> F" using Cons.prems(2) by (auto simp: sched_acts_def)
    then show ?thesis using exec_one_stale [OF Cons.prems(1) sink] System by (simp add: acts_step)
  qed (use exec_one_stale [OF Cons.prems(1) sink, of p step] in simp_all)
  have "stale (bi_ID job) (bi_Epoch job) (ex_db ?x)" by (rule stale_acts [OF one F Cons.prems(1)])
  moreover have "sched_acts sched \<subseteq> F" using Cons.prems(2) by (auto simp: sched_acts_def)
  ultimately have "(ex_db ?x, ex_db (exec_run p job sink sched ?x)) \<in> (acts F)\<^sup>*" by (rule Cons.IH)
  with one show ?case by (simp add: exec_run_def)
qed (simp add: exec_run_def)

text \<open>The phases of the run around the execution leave the database of a superseded owner alone.\<close>

lemma on_db_stale: "fenced_op k e f \<Longrightarrow> stale k e (fs_db s) \<Longrightarrow> on_db f s = (r, s') \<Longrightarrow> fs_db s' = fs_db s"
  using fenced_stale by (fastforce simp: on_db_def split: prod.splits)

lemma handlers_stale:
  assumes "stale (bi_ID job) (bi_Epoch job) (fs_db s)" and e: "0 < bi_Epoch job"
  shows "fs_db (snd (handleFailed env job counts s)) = fs_db s"
    and "fs_db (snd (handleExpired env job counts s)) = fs_db s"
    and "fs_db (snd (handleCancelled env job counts s)) = fs_db s"
proof -
  note w = on_db_stale [OF fenced_status_updates(1) [OF e]] on_db_stale [OF fenced_status_updates(2) [OF e]]
    on_db_stale [OF fenced_status_updates(3) [OF e]]
  show "fs_db (snd (handleFailed env job counts s)) = fs_db s" "fs_db (snd (handleExpired env job counts s)) = fs_db s"
    using assms(1) by (auto simp: handleFailed_def handleExpired_def split: prod.split sum.split dest: w)
  obtain r s1 where c: "on_db (UpdateCancelledStatus (ru_write env) (ru_now env) job counts [] []) s = (r, s1)" by fastforce
  obtain r2 s2 where f: "on_db (UpdateFailedStatus (ru_write2 env) (ru_now env) job counts [] []) s1 = (r2, s2)" by fastforce
  have "fs_db s1 = fs_db s" by (rule w(3) [OF assms(1) c])
  moreover from this have "fs_db s2 = fs_db s1" using w(1) [OF _ f] assms(1) by simp
  ultimately show "fs_db (snd (handleCancelled env job counts s)) = fs_db s"
    using c f by (auto simp: handleCancelled_def split: sum.split)
qed

lemma finalize_stale:
  assumes "stale (bi_ID job) (bi_Epoch job) (fs_db s)" and "0 < bi_Epoch job"
  shows "fs_db (snd (finalizeResumableJob sha uuid5 marshal dflt c env tenv cancel self job info s)) = fs_db s"
    and "fs_db (snd (finalizeResumableAs sha uuid5 marshal dflt env tenv self job info status code expected s)) = fs_db s"
    and "fs_db (snd (finalizeResumableTerminal st env tenv job info status code expected s)) = fs_db s"
    and "fs_db (snd (routeResumedPickup st env tenv task job info s)) = fs_db s"
  using assms stale_finalizer_changes_nothing [of s job]
  by (auto simp: stale_def finalizeResumableTerminal_def routeResumedPickup_def split: option.split)

lemma job_error_stale:
  assumes "stale (bi_ID job) (bi_Epoch job) (fs_db s)" and "0 < bi_Epoch job"
  shows "fs_db (handleJobError p env dur job info counts err s) = fs_db s"
    and "fs_db (handlePanicRecovery env dur job counts s) = fs_db s"
    and "fs_db (conclude p env job info outcome s) = fs_db s"
  using handlers_stale [OF assms] finalize_stale [OF assms]
  by (auto simp: handleJobError_def handlePanicRecovery_def conclude_def Let_def split: prod.split option.split)

lemma hand_back_stale:
  assumes st: "stale (bi_ID job) (bi_Epoch job) (fs_db s)" and e: "0 < bi_Epoch job"
    and task: "jp_ID task = bi_ID job" "jp_Epoch task = bi_Epoch job"
  shows "fs_db (hand_back env task job s) = fs_db s"
proof (cases "jp_Resumable task")
  case True
  obtain r s' where "on_db (RequeueResumableOrphan (ru_back env) (ru_back2 env) (ru_now env) (bi_ID job) (bi_ProcessorID job) (bi_Epoch job) False True) s = (r, s')"
    by fastforce
  with True st task on_db_stale [OF fenced_Requeue st] show ?thesis by (simp add: hand_back_def)
next
  case False
  obtain r s' where q: "on_db (PQEnqueue (ru_back env) task) s = (r, s')" by fastforce
  have "fs_db s' = fs_db s" using on_db_stale [OF fenced_PQEnqueue _ q] st task by simp
  with q False show ?thesis using handlers_stale(1) [of job s'] st e by (auto simp: hand_back_def split: sum.split)
qed

lemma newBatchResultStore_fields:
  "newBatchResultStore sha k tenant self e = Inr sink \<Longrightarrow> rst_batchID sink = k \<and> rst_epoch sink = e"
  by (auto simp: newBatchResultStore_def split: sum.splits)

lemma take_up_stale:
  assumes st: "stale (bi_ID job) (bi_Epoch job) (fs_db s)" and run: "take_up p env task job info manifest s = (r, s')"
  shows "fs_db s' = fs_db s" and "r = Inr (sink, seed) \<Longrightarrow> rst_batchID sink = bi_ID job \<and> rst_epoch sink = bi_Epoch job"
proof -
  have activate: "ActivateResumableBatch c now
      \<lparr>ac_BatchID = bi_ID job, ac_ProcessorID = pid, ac_Epoch = bi_Epoch job, ac_LeaseTTL = ttl, ac_Entries = es\<rparr> (fs_db s) = (r, d)
      \<Longrightarrow> d = fs_db s" for c now pid ttl es r d
    using fenced_stale [OF fenced_Activate, of "\<lparr>ac_BatchID = bi_ID job, ac_ProcessorID = pid, ac_Epoch = bi_Epoch job, ac_LeaseTTL = ttl, ac_Entries = es\<rparr>"] st
    by simp
  show "fs_db s' = fs_db s"
    using run by (auto simp: take_up_def Let_def activateResumable_def durable_of_def put_durable_def
        split: if_splits sum.splits prod.splits dest: activate)
  show "rst_batchID sink = bi_ID job \<and> rst_epoch sink = bi_Epoch job" if "r = Inr (sink, seed)"
    using run that by (auto simp: take_up_def Let_def activateResumable_def recoverResumable_def
        split: if_splits sum.splits prod.splits option.splits dest!: newBatchResultStore_fields)
qed

lemma refreshed_item_fields [simp]: "bi_ID (refreshed_item env job d) = bi_ID job" "bi_Epoch (refreshed_item env job d) = bi_Epoch job"
  by (simp_all add: refreshed_item_def split: sum.split option.split)

lemma exec_start_db [simp]: "ex_db (exec_start items pt s) = du_db s"
  by (simp add: exec_start_def ex_db_def)

lemma executeJob_stale:
  assumes st: "stale (bi_ID job) (bi_Epoch job) (fs_db s)" and sink: "rst_batchID sink = bi_ID job" "rst_epoch sink = bi_Epoch job"
    and F: "sched_acts (xe_sched env) \<subseteq> F" "\<forall>f \<in> F. evolving f"
    and run: "executeJob p env task job info seed sink d s = (r, s')"
  shows "(fs_db s, fs_db s') \<in> (acts F)\<^sup>*"
proof -
  have "(fs_db s, ex_db (exec_run p job sink (xe_sched env) (exec_start items pt (durable_of s)))) \<in> (acts F)\<^sup>*" for items pt
    using exec_run_stale [of job "exec_start items pt (durable_of s)" sink "xe_sched env" F p] st sink F by (simp add: durable_of_def)
  then show ?thesis
    using run by (auto simp: executeJob_def Let_def put_durable_def ex_db_def split: sum.splits if_splits prod.splits)
qed

text \<open>Everything the rest of the system does to the database during the run.\<close>

definition others :: "run_env \<Rightarrow> (db \<Rightarrow> db) set" where
  "others env = {f. \<exists>i. Others f \<in> set (ru_between env i)} \<union> sched_acts (xe_sched (ru_execute env))"

lemma renew_tick_stale:
  "stale (bi_ID job) (bi_Epoch job) d \<Longrightarrow> snd (snd (renew_tick c now ttl self job d)) = d"
  using fenced_stale [OF fenced_Renew, of "bi_ID job" "bi_Epoch job" d c now self ttl]
  by (auto simp: renew_tick_def split: prod.split sum.split)

lemma between_stale:
  assumes "set bs \<subseteq> {b. \<forall>f. b = Others f \<longrightarrow> f \<in> F}" and F: "\<forall>f \<in> F. evolving f" and "stale (bi_ID job) (bi_Epoch job) d"
  shows "(d, fold (between_step p job leased) bs d) \<in> (acts F)\<^sup>*"
  using assms(1,3)
proof (induction bs arbitrary: d)
  case (Cons b bs)
  let ?d = "between_step p job leased b d"
  have one: "(d, ?d) \<in> (acts F)\<^sup>*"
    using Cons.prems acts_step [of _ F d d] by (cases b) (auto simp: renew_tick_stale)
  have "stale (bi_ID job) (bi_Epoch job) ?d" by (rule stale_acts [OF one F Cons.prems(2)])
  with Cons.IH [of ?d] Cons.prems(1) one show ?case by simp
qed simp

lemma pass_time_step:
  assumes "(d, fs_db s) \<in> (acts (others env))\<^sup>*" and "\<forall>f \<in> others env. evolving f" and "stale (bi_ID job) (bi_Epoch job) d"
  shows "(d, fs_db (pass_time p env job leased i s)) \<in> (acts (others env))\<^sup>*"
proof -
  have "(fs_db s, fs_db (pass_time p env job leased i s)) \<in> (acts (others env))\<^sup>*"
    unfolding pass_time_def
    by (simp, rule between_stale [OF _ assms(2) stale_acts [OF assms]]) (auto simp: others_def)
  with assms(1) show ?thesis by simp
qed

text \<open>The run from the end of the ingestion on.\<close>

lemma run_tail_stale:
  assumes st: "stale (bi_ID job) (bi_Epoch job) (fs_db s4)" and e: "0 < bi_Epoch job" and F: "\<forall>f \<in> others env. evolving f"
    and sink: "rst_batchID sink = bi_ID job" "rst_epoch sink = bi_Epoch job"
  shows "(fs_db s4, fs_db (let s5 = pass_time p env job True 2 s4; job' = refreshed_item env job (fs_db s5)
                   in (case executeJob p (ru_execute env) task job' info seed sink d s5 of
                         (None, s6) \<Rightarrow> s6
                       | (Some outcome, s6) \<Rightarrow> conclude p env job' info outcome (pass_time p env job' True 3 s6)))) \<in> (acts (others env))\<^sup>*"
proof -
  let ?s5 = "pass_time p env job True 2 s4" and ?A = "(acts (others env))\<^sup>*"
  let ?job = "refreshed_item env job (fs_db ?s5)"
  have five: "(fs_db s4, fs_db ?s5) \<in> ?A" by (rule pass_time_step [OF rtrancl.rtrancl_refl F st])
  note st5 = stale_acts [OF five F st]
  obtain r s6 where ex: "executeJob p (ru_execute env) task ?job info seed sink d ?s5 = (r, s6)" by fastforce
  have "(fs_db ?s5, fs_db s6) \<in> ?A"
    by (rule executeJob_stale [OF _ _ _ _ F ex]) (use st5 sink in \<open>simp_all add: others_def\<close>)
  with five have six: "(fs_db s4, fs_db s6) \<in> ?A" by simp
  have seven: "(fs_db s4, fs_db (pass_time p env ?job True 3 s6)) \<in> ?A" by (rule pass_time_step [OF six F]) (use st in simp)
  have "fs_db (conclude p env ?job info outcome (pass_time p env ?job True 3 s6)) = fs_db (pass_time p env ?job True 3 s6)" for outcome
    by (rule job_error_stale(3)) (use stale_acts [OF seven F st] e in simp_all)
  with ex six seven show ?thesis by (cases r) (simp_all add: Let_def)
qed

lemma runJob_stale:
  assumes st: "stale (bi_ID job) (bi_Epoch job) (fs_db s)" and e: "0 < bi_Epoch job" and F: "\<forall>f \<in> others env. evolving f"
    and task: "jp_ID task = bi_ID job" "jp_Epoch task = bi_Epoch job"
  shows "(fs_db s, fs_db (runJob p env task job info s)) \<in> (acts (others env))\<^sup>*"
proof -
  let ?A = "(acts (others env))\<^sup>*" and ?s1 = "pass_time p env job (jp_Resumable task) 0 s"
  have one: "(fs_db s, fs_db ?s1) \<in> ?A" by (rule pass_time_step [OF rtrancl.rtrancl_refl F st])
  obtain routed s2 where two: "(if jp_Resumable task then routeResumedPickup (pr_stores p) (ru_pickup env) (ru_pickup_end env) task job info ?s1
      else (False, ?s1)) = (routed, s2)" by fastforce
  have "fs_db s2 = fs_db ?s1" using two finalize_stale(4) [OF stale_acts [OF one F st] e] by (metis snd_conv)
  with one have to2: "(fs_db s, fs_db s2) \<in> ?A" by simp
  let ?s3 = "pass_time p env job (jp_Resumable task) 1 s2"
  note to3 = pass_time_step [OF to2 F st, of p "jp_Resumable task" 1]
  note st3 = stale_acts [OF to3 F st]
  show ?thesis
  proof (cases "routed \<or> \<not> ru_watch env")
    case True
    with two to2 to3 hand_back_stale [OF st3 e task] show ?thesis by (auto simp: runJob_def Let_def)
  next
    case go: False
    show ?thesis
    proof (cases "ru_ingest env")
      case (Inl err)
      with two go to3 job_error_stale(1) [OF st3 e] show ?thesis by (simp add: runJob_def Let_def)
    next
      case (Inr md)
      then obtain manifest d where ing: "ru_ingest env = Inr (manifest, d)" by (cases md) simp
      obtain r s4 where up: "take_up p env task job info manifest ?s3 = (r, s4)" by fastforce
      from take_up_stale(1) [OF st3 up] to3 have to4: "(fs_db s, fs_db s4) \<in> ?A" by simp
      note to5 = pass_time_step [OF to4 F st, of p "jp_Resumable task" 2]
      note st5 = stale_acts [OF to5 F st]
      show ?thesis
      proof (cases r)
        case (Inl err)
        with two go ing up to4 to5 finalize_stale(2) [OF st5 e] handlers_stale(1) [OF st5 e] show ?thesis
          by (cases "jp_Resumable task") (simp_all add: runJob_def Let_def)
      next
        case (Inr ss)
        then obtain sink seed where ss: "r = Inr (sink, seed)" by (cases ss) simp
        note tail = run_tail_stale [OF stale_acts [OF to4 F st] e F, where sink = sink and p = p and task = task and info = info and seed = seed and d = d]
        have "rst_batchID sink = bi_ID job" "rst_epoch sink = bi_Epoch job" using take_up_stale(2) [OF st3 up ss] by simp_all
        from rtrancl_trans [OF to4 tail [OF this]] two go ing up ss show ?thesis by (simp add: runJob_def Let_def)
      qed
    qed
  qed
qed

section \<open>Nothing is lost in the execution\<close>

definition in_pipe :: "string \<Rightarrow> exec_state \<Rightarrow> bool" where
  "in_pipe q x = (q \<in> rq_RequestID ` (set (ex_source x) \<union> set (ex_out x)) \<union> ri_RequestID ` set (ex_results x))"

definition broken :: "exec_state \<Rightarrow> bool" where
  "broken x = (ex_mode x = Lost \<or> dr_firstErr (ex_drain x) \<noteq> None \<or> dr_conflictErr (ex_drain x) \<noteq> None)"

definition custom_named :: "exec_state \<Rightarrow> bool" where
  "custom_named x = ((\<forall>m \<in> set (ex_source x) \<union> set (ex_out x). rq_CustomID m \<noteq> []) \<and> (\<forall>r \<in> set (ex_results x). ri_CustomID r \<noteq> []))"

abbreviation store_of :: "exec_state \<Rightarrow> durable" where
  "store_of x \<equiv> dr_store (ex_drain x)"

abbreviation sink_ok :: "processor \<Rightarrow> batchResultStore \<Rightarrow> durable \<Rightarrow> bool" where
  "sink_ok p st \<equiv> durable_ok (ss_sha256hex (pr_stores p)) (rst_folder st) (rst_batchID st)"

text \<open>One step loses no request: it stays in the pipeline, or it is accounted for, or the execution is broken.\<close>

definition advances :: "processor \<Rightarrow> batchResultStore \<Rightarrow> exec_state \<Rightarrow> exec_state \<Rightarrow> bool" where
  "advances p st x x' =
    (sink_ok p st (store_of x') \<and> custom_named x' \<and> (broken x \<longrightarrow> broken x')
     \<and> (\<forall>q. accounted (rst_batchID st) q (store_of x) \<longrightarrow> accounted (rst_batchID st) q (store_of x'))
     \<and> (\<forall>q. in_pipe q x \<longrightarrow> in_pipe q x' \<or> accounted (rst_batchID st) q (store_of x') \<or> broken x'))"

abbreviation running :: "processor \<Rightarrow> batchResultStore \<Rightarrow> exec_state \<Rightarrow> bool" where
  "running p st x \<equiv> sink_ok p st (store_of x) \<and> custom_named x"

abbreviation db_calm :: "processor \<Rightarrow> batchResultStore \<Rightarrow> (db \<Rightarrow> db) \<Rightarrow> bool" where
  "db_calm p st f \<equiv> calm (ss_sha256hex (pr_stores p)) (rst_folder st) (rst_batchID st) (\<lambda>s. s\<lparr>du_db := f (du_db s)\<rparr>)"

lemma set_ex_db_fields [simp]:
  "ex_source (set_ex_db d x) = ex_source x" "ex_out (set_ex_db d x) = ex_out x" "ex_results (set_ex_db d x) = ex_results x"
  "ex_mode (set_ex_db d x) = ex_mode x" "dr_firstErr (ex_drain (set_ex_db d x)) = dr_firstErr (ex_drain x)"
  "dr_conflictErr (ex_drain (set_ex_db d x)) = dr_conflictErr (ex_drain x)" "store_of (set_ex_db d x) = (store_of x)\<lparr>du_db := d\<rparr>"
  by (simp_all add: set_ex_db_def)

lemma stop_with_fields [simp]:
  "ex_source (stop_with c x) = ex_source x" "ex_out (stop_with c x) = ex_out x" "ex_results (stop_with c x) = ex_results x"
  "ex_mode (stop_with c x) = ex_mode x" "ex_drain (stop_with c x) = ex_drain x"
  by (simp_all add: stop_with_def)

lemma same_advances:
  assumes "running p st x" and "ex_source x' = ex_source x" "ex_out x' = ex_out x" "ex_results x' = ex_results x"
    and "ex_mode x' = ex_mode x" "dr_firstErr (ex_drain x') = dr_firstErr (ex_drain x)" "dr_conflictErr (ex_drain x') = dr_conflictErr (ex_drain x)"
    and "db_calm p st f" and "store_of x' = (store_of x)\<lparr>du_db := f (du_db (store_of x))\<rparr>"
  shows "advances p st x x'"
  using assms batch_sink.calm_good [OF assms(8)] batch_sink.calm_keeps [OF assms(8)]
  by (simp add: advances_def custom_named_def broken_def in_pipe_def)

text \<open>An operation of the batch tables that leaves the entries alone is calm.\<close>

lemma items_calm:
  assumes "safe g" and "\<And>s. batch_entries (snd (g s)) = batch_entries s"
  shows "calm sha folder k (\<lambda>s. s\<lparr>du_db := snd (g (du_db s))\<rparr>)"
  using safeD [OF assms(1)] assms(2)
  by (auto simp: calm_def durable_ok_def objects_ok_def find_entry_def db_evolves_batch)

lemma entries_Renew: "batch_entries (snd (RenewResumableBatchLease c now k pid e ttl s)) = batch_entries s"
  by (cases c) (auto simp: RenewResumableBatchLease_def update_items_def)

lemma entries_Progress: "batch_entries (snd (UpdateProgressCounts c k e counts s)) = batch_entries s"
  by (cases c) (auto simp: UpdateProgressCounts_def DBUpdateProgress_def update_items_def split: option.split)

lemma mark_calm:
  "calm sha folder k (\<lambda>s. s\<lparr>du_db := snd (MarkEntryInFlight c c2 now k q pid e (du_db s))\<rparr>)"
  unfolding calm_def
proof (intro allI impI)
  fix s
  assume "durable_ok sha folder k s"
  then have db: "db_ok (du_db s)" and obj: "objects_ok sha folder k s" by (simp_all add: durable_ok_def)
  obtain r d where mk: "MarkEntryInFlight c c2 now k q pid e (du_db s) = (r, d)" by fastforce
  have "objects_ok sha folder k (s\<lparr>du_db := d\<rparr>)"
    using db mk unfolding MarkEntryInFlight_def
  proof (cases rule: entry_write_split)
    case same
    with obj show ?thesis by simp
  next
    case (written en)
    have "find_entry (k, q') (put_entry (k, q) (mark_eff pid) (du_db s))
        = (if q' = q then map_option (mark_eff pid) (find_entry (k, q') (du_db s)) else find_entry (k, q') (du_db s))" for q'
      by (subst find_entry_put) (auto simp: mark_eff_def entry_key_def)
    with obj written(3) show ?thesis by (auto simp: objects_ok_def mark_eff_def entry_terminal_iff split: if_splits)
  qed
  moreover have "db_ok d \<and> db_evolves (du_db s) d" using safeD [OF safe_MarkEntryInFlight db, of c c2 now k q pid e] mk by simp
  ultimately show "durable_ok sha folder k (s\<lparr>du_db := snd (MarkEntryInFlight c c2 now k q pid e (du_db s))\<rparr>)
      \<and> batch_evolves k (du_db s) (du_db (s\<lparr>du_db := snd (MarkEntryInFlight c c2 now k q pid e (du_db s))\<rparr>))"
    using mk by (simp add: durable_ok_def db_evolves_batch)
qed

lemma mark_refused:
  assumes "db_ok (du_db s)" and "MarkEntryInFlight c c2 now k q pid e (du_db s) = (Inr False, d)"
  shows "accounted k q (s\<lparr>du_db := d\<rparr>)"
  using assms unfolding MarkEntryInFlight_def
  by (cases rule: entry_write_split) (auto simp: accounted_def)

lemma take_advances:
  assumes run: "running p st x" and src: "ex_source x = msg # rest" "ex_source x' = rest"
    and grow: "set (ex_out x) \<subseteq> set (ex_out x')" "set (ex_results x) \<subseteq> set (ex_results x')" "custom_named x'" "broken x \<longrightarrow> broken x'"
    and calm: "db_calm p st f" "store_of x' = (store_of x)\<lparr>du_db := f (du_db (store_of x))\<rparr>"
    and moved: "in_pipe (rq_RequestID msg) x' \<or> accounted (rst_batchID st) (rq_RequestID msg) (store_of x') \<or> broken x'"
  shows "advances p st x x'"
proof -
  have "in_pipe q x' \<or> accounted (rst_batchID st) q (store_of x') \<or> broken x'" if "in_pipe q x" for q
    using that src grow(1,2) moved by (auto simp: in_pipe_def)
  with grow(3,4) calm(2) show ?thesis
    using batch_sink.calm_good [OF calm(1)] batch_sink.calm_keeps [OF calm(1)] run by (simp add: advances_def)
qed

lemma id_calm: "db_calm p st (\<lambda>d. d)"
  by (simp add: calm_def db_evolves_batch)

lemma answers_named:
  "ri_RequestID (cancel_result c msg) = rq_RequestID msg" "ri_CustomID (cancel_result c msg) = rq_CustomID msg"
  "ri_RequestID (msg_Error a b msg) = rq_RequestID msg" "ri_CustomID (msg_Error a b msg) = rq_CustomID msg"
  by (simp_all add: cancel_result_def msg_Error_def)

text \<open>The four things the fence does with a request: drop it, answer it, submit it, pass over it.\<close>

lemma fence_advances:
  assumes run: "running p st x" and sink: "rst_batchID st = bi_ID job"
  shows "advances p st x (fence_step p job env now x)"
proof (cases "ex_source x")
  case Nil
  then show ?thesis using run by (simp add: fence_step_def advances_def)
next
  case (Cons msg rest)
  let ?x = "x\<lparr>ex_source := rest\<rparr>" and ?q = "rq_RequestID msg" and ?k = "rst_batchID st"
  let ?mark = "MarkEntryInFlight (mk_conn env) (mk_verify env) (mk_now env) ?k ?q (ss_self (pr_stores p)) (bi_Epoch job)"
  obtain r d where mk: "?mark (ex_db x) = (r, d)" by fastforce
  then have hook: "markEntryInFlightHook (bi_ID job) (bi_Epoch job) (ss_self (pr_stores p)) env msg (ex_db ?x) = (r, d)"
    by (simp add: markEntryInFlightHook_def sink)
  have d: "set_ex_db d y = set_ex_db (snd (?mark (du_db (store_of x)))) y" for y using mk by (simp add: ex_db_def)
  note by_id = take_advances [OF run Cons _ _ _ _ _ id_calm]
    and by_mark = take_advances [OF run Cons _ _ _ _ _ mark_calm [of _ _ _ "mk_conn env" "mk_verify env" "mk_now env" ?q
        "ss_self (pr_stores p)" "bi_Epoch job"]]
  have drop: "advances p st x (?x\<lparr>ex_mode := Lost\<rparr>)" "advances p st x ((set_ex_db d ?x)\<lparr>ex_mode := Lost\<rparr>)"
    by (rule by_id; use run Cons in \<open>simp add: custom_named_def broken_def\<close>)
      (unfold d, rule by_mark; use run Cons in \<open>simp add: custom_named_def broken_def\<close>)
  have answer: "advances p st x y" "advances p st x (set_ex_db d y)"
    if "ri_RequestID a = ?q" "ri_CustomID a = rq_CustomID msg" "ex_results y = ex_results x @ [a]" "ex_source y = rest" "ex_out y = ex_out x"
      "ex_drain y = ex_drain x" "ex_mode x = Lost \<longrightarrow> ex_mode y = Lost" for a y
    by (rule by_id; use run Cons that in \<open>auto simp: custom_named_def broken_def in_pipe_def\<close>)
      (unfold d, rule by_mark; use run Cons that in \<open>auto simp: custom_named_def broken_def in_pipe_def\<close>)
  have submit: "advances p st x (set_ex_db d (?x\<lparr>ex_out := ex_out x @ [msg\<lparr>rq_SubmittedAt := Some now\<rparr>]\<rparr>))"
    by (unfold d, rule by_mark; use run Cons in \<open>auto simp: custom_named_def broken_def in_pipe_def\<close>)
  have pass: "advances p st x (set_ex_db d ?x)" if "r = Inr False"
    by (unfold d, rule by_mark)
      (use run Cons that mark_refused [of "store_of x"] mk in \<open>auto simp: custom_named_def broken_def durable_ok_def ex_db_def\<close>)
  show ?thesis
  proof (cases "ex_mode x")
    case Lost
    then have "fence_step p job env now x = ?x\<lparr>ex_mode := Lost\<rparr>" by (simp add: fence_step_def Cons)
    then show ?thesis using drop(1) by simp
  next
    case Draining
    show ?thesis
      by (rule answer(1) [of "cancel_result (case dispatch_done ?x of Some c \<Rightarrow> c | None \<Rightarrow> CauseOther) msg"])
        (simp_all add: fence_step_def Cons Let_def answers_named Draining)
  next
    case Taking
    have late: "advances p st x (?x\<lparr>ex_results := ex_results x @ [cancel_result c msg], ex_mode := Draining\<rparr>)" for c
      by (rule answer(1) [of "cancel_result c msg"]) (simp_all add: answers_named Taking)
    have failed: "advances p st x (?x\<lparr>ex_results := ex_results x @ [msg_Error a b msg]\<rparr>)"
        "advances p st x (set_ex_db d (?x\<lparr>ex_results := ex_results x @ [msg_Error a b msg]\<rparr>))" for a b
      by (rule answer [of "msg_Error a b msg"]; simp add: answers_named)+
    show ?thesis
      using late failed submit pass drop(2) hook Taking
      by (auto simp: fence_step_def Cons Let_def split: option.split sum.split)
  qed
qed

lemma direct_result_custom: "ri_CustomID (direct_result isPrint parses known answer ctx msg) = rq_CustomID msg"
  by (auto simp: direct_result_def ModelNotFound_def msg_Error_def buildResult_def base_result_def bare_result_def
      handleClientError_def handleSuccess_def Let_def split: option.split)

lemma answer_advances:
  assumes run: "running p st x"
  shows "advances p st x (answer_step p i known answer ctx x)"
proof (cases "i < length (ex_out x)")
  case True
  let ?rest = "take i (ex_out x) @ drop (Suc i) (ex_out x)" and ?m = "ex_out x ! i"
  have "ex_out x = take i (ex_out x) @ ?m # drop (Suc i) (ex_out x)" using True by (rule id_take_nth_drop)
  then have set: "set (ex_out x) = insert ?m (set ?rest)" by (metis Un_insert_right list.simps(15) set_append)
  have "answer_step p i known answer ctx x
      = x\<lparr>ex_out := ?rest, ex_results := ex_results x @ [direct_result (pr_isPrint p) (pr_parses p) known answer ctx ?m]\<rparr>"
    using True by (simp add: answer_step_def)
  with run set show ?thesis
    unfolding advances_def custom_named_def in_pipe_def broken_def
    by (auto simp: direct_result_id direct_result_custom)
qed (use run in \<open>simp add: answer_step_def advances_def\<close>)

text \<open>Taking one result: its request is accounted for unless the checkpointer reports an error.\<close>

lemma drain_one_errors:
  "dr_firstErr d \<noteq> None \<Longrightarrow> dr_firstErr (drain_one marshal sha sink env msg d) \<noteq> None"
  "dr_conflictErr d \<noteq> None \<Longrightarrow> dr_conflictErr (drain_one marshal sha sink env msg d) \<noteq> None"
  by (simp_all add: drain_one_def Let_def split: prod.split)

lemma drain_one_clean:
  assumes "ri_CustomID msg \<noteq> []"
    and "dr_firstErr (drain_one marshal sha sink env msg d) = None" "dr_conflictErr (drain_one marshal sha sink env msg d) = None"
  obtains line b where "line \<noteq> []"
    "sink (de_sink env) msg line (sha line) (int (length line)) (de_system env (dr_store d))
      = (Inr b, dr_store (drain_one marshal sha sink env msg d))"
proof -
  have e: "pending_Enrich msg pd = (True, msg)" for pd using assms(1) by (simp add: pending_Enrich_def)
  have clean: "dr_firstErr d = None" "dr_conflictErr d = None" using assms(2,3) drain_one_errors by metis+
  show thesis
  proof (cases "MarshalResultLine marshal sha msg")
    case (Inl err)
    with assms(2,3) clean e show ?thesis by (simp add: drain_one_def checkpoint_def Let_def split: if_splits)
  next
    case (Inr l)
    then obtain line where l: "l = (line, sha line, int (length line))" "line \<noteq> []"
      by (auto simp: MarshalResultLine_def Let_def split: sum.splits)
    obtain r s' where call: "sink (de_sink env) msg line (sha line) (int (length line)) (de_system env (dr_store d)) = (r, s')"
      by fastforce
    show ?thesis
    proof (cases r)
      case (Inl err)
      with assms(2,3) clean e Inr l call show ?thesis by (simp add: drain_one_def checkpoint_def Let_def split: if_splits)
    next
      case ok: (Inr b)
      show ?thesis
        by (rule that [OF l(2), of b])
          (use clean e Inr l call ok in \<open>simp add: drain_one_def checkpoint_def Let_def split: option.split\<close>)
    qed
  qed
qed

lemma collect_advances:
  assumes run: "running p st x"
  shows "advances p st x (collect_step p st env x)"
proof (cases "ex_results x")
  case (Cons r rest)
  let ?sha = "ss_sha256hex (pr_stores p)" and ?env = "\<lparr>de_pending = id, de_system = id, de_sink = env\<rparr>"
  let ?d = "drain_one (ss_marshal (pr_stores p)) ?sha (sink_Checkpoint ?sha st) ?env r (ex_drain x)"
  have ok: "sink_ok p st (dr_store (ex_drain x))" using run by simp
  have x': "collect_step p st env x = x\<lparr>ex_results := rest, ex_drain := ?d\<rparr>" using Cons by (simp add: collect_step_def)
  have named: "ri_CustomID r \<noteq> []" "custom_named (x\<lparr>ex_results := rest, ex_drain := ?d\<rparr>)"
    using run Cons by (auto simp: custom_named_def)
  have keeps: "sink_ok p st (dr_store ?d) \<and> (\<forall>q. accounted (rst_batchID st) q (store_of x) \<longrightarrow> accounted (rst_batchID st) q (dr_store ?d))"
    using drain_one_cases [of "ss_marshal (pr_stores p)" ?sha "sink_Checkpoint ?sha st" ?env r "ex_drain x"]
  proof cases
    case (called msg' line ans s')
    with batch_sink.sink_good [OF ok called(2), of env msg'] batch_sink.sink_keeps [OF ok called(2), of _ env msg'] show ?thesis by simp
  qed (use ok in simp)
  have done_r: "accounted (rst_batchID st) (ri_RequestID r) (dr_store ?d)" if "dr_firstErr ?d = None" "dr_conflictErr ?d = None"
    using drain_one_clean [OF named(1) that] batch_sink.sink_accounts [OF ok] by (metis drain_env.select_convs(2,3) id_apply)
  have "in_pipe q x \<Longrightarrow> in_pipe q (x\<lparr>ex_results := rest, ex_drain := ?d\<rparr>) \<or> accounted (rst_batchID st) q (dr_store ?d)
      \<or> broken (x\<lparr>ex_results := rest, ex_drain := ?d\<rparr>)" for q
    using done_r Cons by (auto simp: in_pipe_def broken_def)
  moreover have "broken x \<Longrightarrow> broken (x\<lparr>ex_results := rest, ex_drain := ?d\<rparr>)"
    using drain_one_errors [of "ex_drain x"] by (simp add: broken_def) blast
  ultimately show ?thesis using keeps named(2) by (simp add: x' advances_def)
qed (use run in \<open>simp add: collect_step_def advances_def\<close>)

lemma exec_one_advances:
  assumes run: "running p st x" and sink: "rst_batchID st = bi_ID job" and sys: "\<And>f. step = System f \<Longrightarrow> db_calm p st f"
  shows "advances p st x (exec_one p job st step x)"
proof (cases step)
  case (Renew c now)
  have "db_calm p st (\<lambda>d. snd (RenewResumableBatchLease c now (bi_ID job) (ss_self (pr_stores p)) (bi_Epoch job) (pr_lease p) d))"
    by (rule items_calm [OF safe_RenewResumableBatchLease entries_Renew])
  then show ?thesis unfolding Renew
    by (rule same_advances [OF run, rotated 6]) (auto simp: renew_lease_def renew_tick_def ex_db_def Let_def split: prod.split sum.split)
next
  case (Push c)
  have "db_calm p st (\<lambda>d. snd (UpdateProgressCounts c (bi_ID job) (bi_Epoch job) (Some (Counts (dr_tracker (ex_drain x)))) d))"
    by (rule items_calm [OF _ entries_Progress]) (auto intro: keeps)
  then show ?thesis unfolding Push
    by (rule same_advances [OF run, rotated 6]) (auto simp: progress_push_def ex_db_def split: prod.split sum.split)
next
  case (Stop c)
  from same_advances [OF run _ _ _ _ _ _ id_calm, of "stop_with c x"] Stop show ?thesis by simp
next
  case (System f)
  from same_advances [OF run _ _ _ _ _ _ sys [OF System], of "set_ex_db (f (ex_db x)) x"] System show ?thesis by (simp add: ex_db_def)
qed (use fence_advances [OF run sink] answer_advances [OF run] collect_advances [OF run] in simp_all)

lemma exec_run_advances:
  assumes "running p st x" and sink: "rst_batchID st = bi_ID job" and "\<forall>f \<in> sched_acts sched. db_calm p st f"
  shows "advances p st x (exec_run p job st sched x)"
  using assms(1,3)
proof (induction sched arbitrary: x)
  case (Cons step sched)
  have one: "advances p st x (exec_one p job st step x)"
    by (rule exec_one_advances [OF Cons.prems(1) sink]) (use Cons.prems(2) in \<open>simp add: sched_acts_def\<close>)
  have "advances p st (exec_one p job st step x) (exec_run p job st sched (exec_one p job st step x))"
    by (rule Cons.IH) (use one Cons.prems(2) in \<open>simp_all add: advances_def sched_acts_def\<close>)
  with one show ?case unfolding exec_run_def advances_def by auto
qed (simp add: exec_run_def advances_def)

section \<open>Properties of a run\<close>

text \<open>The claim behind a launched job.\<close>

lemma dequeueOne_claims:
  assumes "db_ok s" and "dequeueOne c now pid lease locked s = (Inr (Some task), s')"
  obtains r where "db_ok s'" "find_item (jp_ID task) s' = Some r" "row_processor r = Some pid" "row_epoch r = jp_Epoch task" "0 < jp_Epoch task"
proof -
  obtain jobs where jobs: "PQDequeue c now pid lease 1 locked s = (Inr jobs, s')" "task \<in> set jobs"
    using assms(2) by (auto simp: dequeueOne_def split: prod.splits sum.splits list.splits)
  then have c: "c = ConnOk" by (cases c) (auto simp: PQDequeue_def split: if_splits)
  have s': "db_ok s'" using safeD(1) [OF safe_PQDequeue assms(1), of c now pid lease 1 locked] jobs(1) by simp
  from jobs(1) c assms(1) jobs(2) obtain r where r: "find_item (jp_ID task) s = Some r"
      "find_item (jp_ID task) s' = Some (dequeue_eff now pid (dur_secs lease) r)"
      "task = job_of_row pid (dequeue_eff now pid (dur_secs lease) r)"
    by (metis dequeue_jobD)
  have "0 \<le> row_epoch r" using assms(1) r(1) db_ok_by_key [OF assms(1)] by (auto simp: db_ok_def row_ok_def list_all_iff)
  with r that [OF s' r(2)] show ?thesis by (simp add: dequeue_eff_def job_of_row_def)
qed

text \<open>
  C17: A processor launches only jobs it has claimed. The row it launches has the
  identifier of the claim, an epoch at least the claimed one and, if it is the claimed
  one, the processor as its owner, whatever the rest of the system did since the claim.
  A job that was activated before is launched as it is; a fresh one only if its status
  allows a run and its deadline has not passed. The read and the checks change nothing.
\<close>

theorem launched_job_is_claimed:
  assumes s: "db_ok s" and sys: "evolving (po_sys env)"
    and launch: "poll_once self lease env s = (Launch task item info, s')"
  shows "db_ok s' \<and> 0 < jp_Epoch task \<and> info = FromDBItemToJobInfoObject item
    \<and> (\<exists>r. find_item (jp_ID task) s' = Some r \<and> item = item_of_row True r \<and> bi_ID item = jp_ID task
         \<and> jp_Epoch task \<le> bi_Epoch item \<and> (bi_Epoch item = jp_Epoch task \<longrightarrow> row_processor r = Some self))
    \<and> (jp_Resumable task \<or> IsJobRunnable (ji_BatchJob info) \<and> \<not> IsJobExpired (po_now env) task)"
proof -
  obtain s0 where deq: "dequeueOne (po_conn env) (po_now env) self lease (po_locked env) s = (Inr (Some task), s0)"
    and s': "s' = po_sys env s0" and fetch: "fetchJobItemByID (po_fetch env) (po_now env) (jp_ID task) s' = Inr (Some item)"
    and info: "info = FromDBItemToJobInfoObject item"
    and runs: "jp_Resumable task \<or> IsJobRunnable (ji_BatchJob info) \<and> \<not> IsJobExpired (po_now env) task"
    using launch by (auto simp: poll_once_def Let_def split: prod.splits sum.splits option.splits if_splits)
  from s deq obtain r0 where r0: "db_ok s0" "find_item (jp_ID task) s0 = Some r0" "row_processor r0 = Some self"
      "row_epoch r0 = jp_Epoch task" "0 < jp_Epoch task"
    by (rule dequeueOne_claims)
  have ok: "db_ok s'" and ev: "db_evolves s0 s'" using sys r0(1) s' by (simp_all add: evolving_def)
  have "po_fetch env = ConnOk" using fetch by (cases "po_fetch env") (auto simp: fetchJobItemByID_def DBGet_def query_conditions_def no_query_def Let_def split: prod.splits)
  with fetch obtain r where r: "find_item (jp_ID task) s' = Some r" "item = item_of_row True r"
    by (auto simp: fetch_by_id [OF ok])
  have "row_evolves r0 r" using ev r(1) r0(2) unfolding db_evolves_def by (metis option.inject)
  moreover have "row_id r = jp_ID task" using r(1) by (rule find_item_id)
  ultimately show ?thesis using r0 r ok info runs by (auto simp: row_evolves_def item_of_row_def)
qed

definition calm_poll :: poll_env where
  "calm_poll = \<lparr>po_conn = ConnOk, po_locked = [], po_sys = id, po_fetch = ConnOk, po_write = ConnOk, po_write2 = ConnOk, po_back = ConnOk,
     po_back2 = ConnOk, po_now = 5, po_stopped = False\<rparr>"

lemma sample_poll:
  "\<exists>task item info s'. poll_once ''p'' 0 calm_poll sample_db = (Launch task item info, s') \<and> jp_ID task = ''b2'' \<and> jp_Epoch task = 1
     \<and> \<not> jp_Resumable task"
proof -
  obtain s1 j where deq: "PQDequeue ConnOk 5 ''p'' 0 1 [] sample_db = (Inr [j], s1)" "jp_ID j = ''b2''" "\<not> jp_Resumable j"
    using sample_dequeue by blast
  then have "db_ok s1" using safeD(1) [OF safe_PQDequeue sample_db_ok, of ConnOk 5 "''p''" 0 1 "[]"] by simp
  moreover obtain r where r: "find_item ''b2'' sample_db = Some r"
      "find_item ''b2'' s1 = Some (dequeue_eff 5 ''p'' (dur_secs 0) r)" "j = job_of_row ''p'' (dequeue_eff 5 ''p'' (dur_secs 0) r)"
    using dequeue_jobD [OF sample_db_ok deq(1), of j] deq(2) by (metis list.set_intros(1))
  moreover have r': "r = sample_row ''b2'' 10" using r(1) by (simp add: find_item_def sample_db_def sample_row_def)
  then have "jp_Epoch j = 1" "\<not> IsJobExpired 5 j"
    by (simp_all add: r(3) job_of_row_def dequeue_eff_def sample_row_def IsJobExpired_def)
  moreover have "IsJobRunnable (ji_BatchJob (FromDBItemToJobInfoObject (item_of_row True (dequeue_eff 5 ''p'' (dur_secs 0) r))))"
    by (simp add: r' IsJobRunnable_def FromDBItemToJobInfoObject_def DBItemToBatch_def item_of_row_def dequeue_eff_def sample_defs)
  ultimately show ?thesis
    using deq by (simp add: poll_once_def calm_poll_def dequeueOne_def fetch_by_id Let_def)
qed

theorem launched_job_is_claimed_witness:
  "\<exists>task item info s'. poll_once ''p'' 0 calm_poll sample_db = (Launch task item info, s') \<and> db_ok s' \<and> bi_ID item = ''b2''
     \<and> IsJobRunnable (ji_BatchJob info)"
proof -
  obtain task item info s' where run: "poll_once ''p'' 0 calm_poll sample_db = (Launch task item info, s')" "jp_ID task = ''b2''"
      "\<not> jp_Resumable task"
    using sample_poll by blast
  have "evolving (po_sys calm_poll)" by (simp add: evolving_def calm_poll_def)
  from launched_job_is_claimed [OF sample_db_ok this run(1)] run show ?thesis by auto
qed

text \<open>
  The epoch of the claim is not compared with that of the row: when the job was taken
  over between the two statements, here handed back and claimed by \<open>q\<close>, the run is
  launched with the epoch of the other processor.
\<close>

definition taken_over :: "db \<Rightarrow> db" where
  "taken_over s = snd (PQDequeue ConnOk 6 ''q'' 0 1 []
     (snd (PQEnqueue ConnOk (job_of_row ''p'' (dequeue_eff 5 ''p'' 0 (sample_row ''b2'' 10))) s)))"

lemma late_fetch_adopts_epoch:
  "case poll_once ''p'' 0 (calm_poll\<lparr>po_sys := taken_over\<rparr>) sample_db of
     (Launch task item info, s') \<Rightarrow> jp_Epoch task = 1 \<and> bi_Epoch item = 3 \<and> bi_ProcessorID item = ''q''
   | _ \<Rightarrow> False"
  by code_simp


definition sample_processor :: processor where
  "sample_processor = \<lparr>pr_stores = \<lparr>ss_sha256hex = id, ss_uuid5 = id, ss_marshal = plain_line, ss_expiration = 0, ss_self = ''p''\<rparr>,
     pr_isPrint = (\<lambda>c. False), pr_parses = (\<lambda>b. True), pr_errText = (\<lambda>e. ''error''), pr_lease = 60000000000, pr_json = sample_json, pr_method = RouteKeyMethodBare,
     pr_objective = (\<lambda>m. []), pr_fairness = False, pr_window = 0\<rparr>"

definition sample_mark :: mark_env where
  "sample_mark = \<lparr>mk_conn = ConnOk, mk_verify = ConnOk, mk_now = 50\<rparr>"

text \<open>One request is submitted, answered and checkpointed while another processor renews its lease.\<close>

definition sample_sched :: "exec_step list" where
  "sample_sched = [Submit sample_mark 50, System (\<lambda>d. snd (RenewResumableBatchLease ConnOk 50 ''b1'' ''q'' 2 60 d)),
     Answer 0 True (Some (sample_answer\<lparr>gr_RequestID := ''r1''\<rparr>), None) None, Push ConnOk, Renew ConnOk 51, Collect sample_sink_env]"

definition sample_run :: run_env where
  "sample_run = \<lparr>ru_between = (\<lambda>i. [Tick ConnOk 50]), ru_now = 50, ru_pickup = ok_finalize, ru_pickup_end = ok_terminal, ru_watch = True, ru_back = ConnOk,
     ru_back2 = ConnOk, ru_ingest = sample_ingested, ru_list = ConnOk,
     ru_activate = \<lparr>av_conn = ConnOk, av_now = 50, av_put = (\<lambda>k. True), av_read = (\<lambda>k. True), av_lease = 60000000000\<rparr>, ru_fetch = ConnOk,
     ru_execute = \<lparr>xe_open = True, xe_order = sample_names, xe_clock = (\<lambda>e. 50), xe_fresh = (\<lambda>e. ''u''), xe_dispatcher = True,
       xe_sched = sample_sched, xe_srcFirst = True\<rparr>,
     ru_write = ConnOk, ru_write2 = ConnOk, ru_begin = ConnOk, ru_final = ok_finalize, ru_final_end = ok_terminal\<rparr>"

definition sample_task :: BatchJobPriority where
  "sample_task = job_of_row ''p'' (active_row\<lparr>row_resumable := False\<rparr>)"

lemma sample_sched_acts: "sched_acts sample_sched = {\<lambda>d. snd (RenewResumableBatchLease ConnOk 50 ''b1'' ''q'' 2 60 d)}"
  by (auto simp: sched_acts_def sample_sched_def)


text \<open>
  C2: No request is lost in an execution. However the source, the fence, the dispatcher,
  the checkpointer, the progress tracker and the lease renewal are interleaved, whatever
  statement, object store call or inference call fails, whenever the run is cancelled and
  whatever the rest of the system does meanwhile: when everything has been read and
  drained, the result of every request of the source is durable, or the checkpointer
  reports an error, or the fence found the ownership lost.
\<close>

theorem finished_execution_loses_nothing:
  assumes "durable_ok (ss_sha256hex (pr_stores p)) (rst_folder sink) (rst_batchID sink) s"
    and "rst_batchID sink = bi_ID job" and "\<forall>m \<in> set items. rq_CustomID m \<noteq> []"
    and "\<forall>f. System f \<in> set sched \<longrightarrow> calm (ss_sha256hex (pr_stores p)) (rst_folder sink) (rst_batchID sink) (\<lambda>s. s\<lparr>du_db := f (du_db s)\<rparr>)"
    and "x = exec_run p job sink sched (exec_start items pt s)" and "exec_done x"
  shows "durable_ok (ss_sha256hex (pr_stores p)) (rst_folder sink) (rst_batchID sink) (dr_store (ex_drain x))
    \<and> (ex_mode x = Lost \<or> dr_conflictErr (ex_drain x) \<noteq> None \<or> dr_firstErr (ex_drain x) \<noteq> None
       \<or> (\<forall>m \<in> set items. accounted (bi_ID job) (rq_RequestID m) (dr_store (ex_drain x))))"
proof -
  let ?x = "exec_start items pt s"
  have "running p sink ?x" using assms(1,3) by (simp add: exec_start_def custom_named_def)
  then have "advances p sink ?x x"
    unfolding assms(5) by (rule exec_run_advances [OF _ assms(2)]) (use assms(4) in \<open>simp add: sched_acts_def\<close>)
  moreover have "in_pipe (rq_RequestID m) ?x" if "m \<in> set items" for m using that by (simp add: in_pipe_def exec_start_def)
  moreover have "\<not> in_pipe q x" for q using assms(6) by (simp add: exec_done_def in_pipe_def)
  ultimately show ?thesis using assms(2) unfolding advances_def broken_def by metis
qed

definition sample_exec :: exec_state where
  "sample_exec = exec_run sample_processor final_job sample_store sample_sched
     (exec_start [sample_request_item\<lparr>rq_RequestID := ''r1'', rq_CustomID := ''r1''\<rparr>] (NewProgressTracker 2) sample_durable)"

lemma sample_exec_done:
  "exec_done sample_exec" "ex_mode sample_exec = Taking" "dr_conflictErr (ex_drain sample_exec) = None" "dr_firstErr (ex_drain sample_exec) = None"
  by code_simp+

theorem finished_execution_loses_nothing_witness:
  "exec_done sample_exec \<and> accounted ''b1'' ''r1'' (dr_store (ex_drain sample_exec))"
proof -
  have "\<forall>f. System f \<in> set sample_sched \<longrightarrow> calm id ''f'' ''b1'' (\<lambda>s. s\<lparr>du_db := f (du_db s)\<rparr>)"
    using items_calm [OF safe_RenewResumableBatchLease entries_Renew] by (simp add: sample_sched_def)
  moreover have "bi_ID final_job = ''b1''" by (simp add: final_job_def item_of_row_def active_row_def sample_row_def)
  ultimately show ?thesis
    using finished_execution_loses_nothing [of sample_processor sample_store sample_durable final_job
        "[sample_request_item\<lparr>rq_RequestID := ''r1'', rq_CustomID := ''r1''\<rparr>]" sample_sched sample_exec "NewProgressTracker 2"]
      sample_durable_ok sample_exec_done
    by (simp add: sample_exec_def sample_store_def sample_processor_def)
qed

end
