(* ===== verification/Ownership.thy ===== *)
theory Ownership
  imports Resumable_Store
begin

text \<open>
  The ownership protocol of a batch, and that every operation of the database clients
  (\<^verbatim>\<open>batch_db.go\<close>, \<^verbatim>\<open>batch_queue.go\<close>, \<^verbatim>\<open>batch_resumable.go\<close>) implements it. The specification
  forgets tables, statements, leases, statuses and lost connections: a batch has a
  fencing token, an owner, open requests and results, and a small set of actions. Each
  operation, on each batch, is at most one action, and which one is fixed by its
  arguments. What the protocol guarantees over time is proved once, on the
  specification, and carried over to every sequence of operations.
\<close>

section \<open>The specification\<close>

record batch_spec =
  sp_token :: int
  sp_owner :: "string option"
  sp_active :: bool
  sp_open :: "string set"
  sp_results :: "string \<rightharpoonup> entry_row"

text \<open>
  The actions: a batch is created, claimed, claimed again by its restarted owner, released
  by its owner, or withdrawn while unowned; its token is raised; its owner begins the
  execution, records a result, finishes; it is removed. The owner identifies itself by
  name and token.
\<close>

datatype spec_act =
    Create
  | Claim string
  | Reclaim string
  | Release string int
  | Withdraw
  | Raise int
  | Begin string int
  | Record string int string
  | Finish string int
  | Remove

definition new_batch :: batch_spec where
  "new_batch = \<lparr>sp_token = 0, sp_owner = None, sp_active = False, sp_open = {}, sp_results = Map.empty\<rparr>"

definition owns :: "string \<Rightarrow> int \<Rightarrow> batch_spec \<Rightarrow> bool" where
  "owns p e b = (sp_owner b = Some p \<and> sp_token b = e)"

definition raised :: "batch_spec \<Rightarrow> batch_spec" where
  "raised b = b\<lparr>sp_token := sp_token b + 1\<rparr>"

inductive spec_step :: "spec_act \<Rightarrow> batch_spec option \<Rightarrow> batch_spec option \<Rightarrow> bool" where
  spec_create: "spec_step Create None (Some new_batch)"
| spec_claim: "sp_owner b = None \<Longrightarrow> spec_step (Claim p) (Some b) (Some ((raised b)\<lparr>sp_owner := Some p\<rparr>))"
| spec_reclaim: "sp_owner b = Some p \<Longrightarrow> spec_step (Reclaim p) (Some b) (Some (raised b))"
| spec_release: "owns p e b \<Longrightarrow> spec_step (Release p e) (Some b) (Some ((raised b)\<lparr>sp_owner := None\<rparr>))"
| spec_withdraw: "sp_owner b = None \<Longrightarrow> \<not> sp_active b \<Longrightarrow> spec_step Withdraw (Some b) (Some (raised b))"
| spec_raise: "sp_token b = e \<Longrightarrow> spec_step (Raise e) (Some b) (Some (raised b))"
| spec_begin: "owns p e b \<Longrightarrow> \<not> sp_active b \<Longrightarrow> sp_open b = {} \<Longrightarrow> sp_results b = Map.empty
    \<Longrightarrow> Q \<union> dom R \<noteq> {} \<Longrightarrow> Q \<inter> dom R = {} \<Longrightarrow> spec_step (Begin p e) (Some b) (Some (b\<lparr>sp_active := True, sp_open := Q, sp_results := R\<rparr>))"
| spec_record: "owns p e b \<Longrightarrow> sp_active b \<Longrightarrow> q \<in> sp_open b
    \<Longrightarrow> spec_step (Record p e q) (Some b) (Some (b\<lparr>sp_open := sp_open b - {q}, sp_results := (sp_results b)(q \<mapsto> en)\<rparr>))"
| spec_finish: "owns p e b \<Longrightarrow> sp_active b \<Longrightarrow> spec_step (Finish p e) (Some b) (Some (b\<lparr>sp_active := False\<rparr>))"
| spec_remove: "spec_step Remove (Some b) None"

inductive_cases spec_stepE: "spec_step act b b'"

section \<open>The abstraction\<close>

definition open_requests :: "string \<Rightarrow> db \<Rightarrow> string set" where
  "open_requests k s = {q. \<exists>en. find_entry (k, q) s = Some en \<and> \<not> entry_terminal (en_status en)}"

definition results_of :: "string \<Rightarrow> db \<Rightarrow> string \<rightharpoonup> entry_row" where
  "results_of k s q = (case find_entry (k, q) s of
      None \<Rightarrow> None
    | Some en \<Rightarrow> if entry_terminal (en_status en) then Some en else None)"

definition spec_of :: "string \<Rightarrow> db \<Rightarrow> batch_row \<Rightarrow> batch_spec" where
  "spec_of k s r = \<lparr>sp_token = row_epoch r, sp_owner = row_processor r, sp_active = row_resumable r,
     sp_open = open_requests k s, sp_results = results_of k s\<rparr>"

definition abs_batch :: "string \<Rightarrow> db \<Rightarrow> batch_spec option" where
  "abs_batch k s = map_option (spec_of k s) (find_item k s)"

lemma requests_partition:
  "q \<in> open_requests k s \<union> dom (results_of k s) \<longleftrightarrow> find_entry (k, q) s \<noteq> None" "open_requests k s \<inter> dom (results_of k s) = {}"
  by (auto simp: open_requests_def results_of_def dom_def split: option.split)

section \<open>The operations\<close>

datatype db_op =
    OpStore conn BatchItem
  | OpUpdate conn BatchItem "BatchStatusInfo option"
  | OpDelete conn "string list"
  | OpProgress conn string int BatchRequestCounts
  | OpEnqueue conn BatchJobPriority
  | OpDequeue conn instant string duration nat "string list"
  | OpClaimOwned conn string
  | OpQueueDelete conn instant string "string list"
  | OpActivate conn instant ResumableActivation
  | OpRenew conn instant string string int duration
  | OpRequeue conn conn instant string string int bool bool
  | OpFinalize conn conn instant ResumableFinalization
  | OpMark conn conn instant string string string int
  | OpCheckpoint conn conn instant string string string int ResumableResult

fun run_op :: "db_op \<Rightarrow> db \<Rightarrow> db" where
  "run_op (OpStore c item) s = snd (DBStore c item s)"
| "run_op (OpUpdate c item expected) s = snd (DBUpdate c item expected s)"
| "run_op (OpDelete c ids) s = snd (DBDelete c ids s)"
| "run_op (OpProgress c k e counts) s = snd (DBUpdateProgress c k e counts s)"
| "run_op (OpEnqueue c jp) s = snd (PQEnqueue c jp s)"
| "run_op (OpDequeue c now pid lease n locked) s = snd (PQDequeue c now pid lease n locked s)"
| "run_op (OpClaimOwned c pid) s = snd (PQClaimOwned c pid s)"
| "run_op (OpQueueDelete c now k locked) s = snd (PQDelete c now k locked s)"
| "run_op (OpActivate c now a) s = snd (ActivateResumableBatch c now a s)"
| "run_op (OpRenew c now k pid e ttl) s = snd (RenewResumableBatchLease c now k pid e ttl s)"
| "run_op (OpRequeue c c2 now k pid e req bump) s = snd (RequeueResumableOrphan c c2 now k pid e req bump s)"
| "run_op (OpFinalize c c2 now fin) s = snd (FinalizeResumableBatch c c2 now fin s)"
| "run_op (OpMark c c2 now k q pid e) s = snd (MarkEntryInFlight c c2 now k q pid e s)"
| "run_op (OpCheckpoint c c2 now k q pid e res) s = snd (CheckpointEntryResult c c2 now k q pid e res s)"

text \<open>The actions an operation may be on batch \<open>k\<close>; an operation that is none of them leaves the batch as it is.\<close>

fun op_acts :: "db_op \<Rightarrow> string \<Rightarrow> spec_act set" where
  "op_acts (OpStore c item) k = (if bi_ID item = k then {Create} else {})"
| "op_acts (OpUpdate c item expected) k = (if bi_ID item = k \<and> bi_BumpEpoch item then {Raise (bi_Epoch item)} else {})"
| "op_acts (OpDelete c ids) k = (if k \<in> set ids then {Remove} else {})"
| "op_acts (OpProgress c k' e counts) k = {}"
| "op_acts (OpEnqueue c jp) k = (if jp_ID jp = k then {Release (jp_ProcessorID jp) (jp_Epoch jp)} else {})"
| "op_acts (OpDequeue c now pid lease n locked) k = (if k \<in> set locked then {} else {Claim pid})"
| "op_acts (OpClaimOwned c pid) k = {Reclaim pid}"
| "op_acts (OpQueueDelete c now k' locked) k = (if k' = k then {Withdraw} else {})"
| "op_acts (OpActivate c now a) k = (if ac_BatchID a = k then {Begin (ac_ProcessorID a) (ac_Epoch a)} else {})"
| "op_acts (OpRenew c now k' pid e ttl) k = {}"
| "op_acts (OpRequeue c c2 now k' pid e req bump) k = (if k' = k then {Release pid e} else {})"
| "op_acts (OpFinalize c c2 now fin) k = (if fi_BatchID fin = k then {Finish (fi_ProcessorID fin) (fi_Epoch fin)} else {})"
| "op_acts (OpMark c c2 now k' q pid e) k = {}"
| "op_acts (OpCheckpoint c c2 now k' q pid e res) k = (if k' = k then {Record pid e q} else {})"

text \<open>A batch is stored as the API server builds it: without owner, token and lease.\<close>

fun op_ok :: "db_op \<Rightarrow> bool" where
  "op_ok (OpStore c item) = (bi_Epoch item = 0 \<and> bi_ProcessorID item = [] \<and> \<not> bi_Resumable item \<and> bi_OwnerLeaseExpiresAt item = None)"
| "op_ok _ = True"

definition refines :: "db_op \<Rightarrow> string \<Rightarrow> db \<Rightarrow> db \<Rightarrow> bool" where
  "refines op k s s' = (abs_batch k s' = abs_batch k s \<or> (\<exists>act \<in> op_acts op k. spec_step act (abs_batch k s) (abs_batch k s')))"

lemma refines_same [simp]: "refines op k s s"
  by (simp add: refines_def)

section \<open>Refinement, operation by operation\<close>

lemma abs_entries_cong: "batch_entries s' = batch_entries s \<Longrightarrow> spec_of k s' = spec_of k s"
  by (simp add: fun_eq_iff spec_of_def open_requests_def results_of_def find_entry_def)

text \<open>An update of the batch rows is the action of the row it changes.\<close>

lemma update_items_refines:
  assumes key: "\<And>r. guard r \<Longrightarrow> row_id (eff r) = row_id r"
    and act: "\<And>r. find_item k s = Some r \<Longrightarrow> guard r \<Longrightarrow> spec_of k s (eff r) = spec_of k s r
      \<or> (\<exists>a \<in> op_acts op k. spec_step a (Some (spec_of k s r)) (Some (spec_of k s (eff r))))"
  shows "refines op k s (snd (update_items guard eff s))"
proof -
  let ?s = "snd (update_items guard eff s)"
  have item: "find_item k ?s = map_option (\<lambda>r. if guard r then eff r else r) (find_item k s)"
    by (rule find_item_update_items) (rule key)
  have spec: "spec_of k ?s = spec_of k s" by (rule abs_entries_cong) (simp add: update_items_def)
  show ?thesis
    using act by (cases "find_item k s") (auto simp: refines_def abs_batch_def item spec)
qed

lemma exec_update_refines:
  assumes "\<And>r. guard r \<Longrightarrow> row_id (eff r) = row_id r"
    and "\<And>r. find_item k s = Some r \<Longrightarrow> guard r \<Longrightarrow> spec_of k s (eff r) = spec_of k s r
      \<or> (\<exists>a \<in> op_acts op k. spec_step a (Some (spec_of k s r)) (Some (spec_of k s (eff r))))"
    and "s' = s \<or> s' = snd (update_items guard eff s)"
  shows "refines op k s s'"
  using update_items_refines [OF assms(1,2)] assms(3) by auto

lemmas spec_simps = spec_of_def raised_def owns_def

lemma update_refines: "refines (OpUpdate c item expected) k s (run_op (OpUpdate c item expected) s)"
proof (rule exec_update_refines [of "update_guard item expected" "update_eff item"])
  fix r
  assume r: "find_item k s = Some r" "update_guard item expected r"
  then have id: "bi_ID item = k" using find_item_id by (force simp: update_guard_def)
  show "spec_of k s (update_eff item r) = spec_of k s r
      \<or> (\<exists>a \<in> op_acts (OpUpdate c item expected) k. spec_step a (Some (spec_of k s r)) (Some (spec_of k s (update_eff item r))))"
  proof (cases "bi_BumpEpoch item")
    case True
    then have "sp_token (spec_of k s r) = bi_Epoch item" using r(2) by (simp add: spec_simps update_guard_def update_epoch_cond_def)
    from spec_raise [OF this] True id show ?thesis by (simp add: spec_simps update_eff_def)
  qed (simp add: spec_simps update_eff_def)
qed (auto simp: update_eff_def DBUpdate_def exec_stmt_def split: conn.split prod.split sum.split)

lemma progress_refines: "refines (OpProgress c k' e counts) k s (run_op (OpProgress c k' e counts) s)"
  by (rule exec_update_refines [of "progress_guard k' e" "progress_eff counts"])
    (auto simp: spec_simps progress_eff_def DBUpdateProgress_def exec_stmt_def split: conn.split prod.split sum.split)

lemma renew_refines: "refines (OpRenew c now k' pid e ttl) k s (run_op (OpRenew c now k' pid e ttl) s)"
  by (rule exec_update_refines [of "renew_guard now k' pid e" "\<lambda>r. r\<lparr>row_lease := Some (now + secs (dur_secs ttl))\<rparr>"])
    (auto simp: spec_simps RenewResumableBatchLease_def exec_stmt_def split: conn.split prod.split sum.split)

lemma enqueue_refines: "refines (OpEnqueue c jp) k s (run_op (OpEnqueue c jp) s)"
proof (rule exec_update_refines [of "enqueue_guard jp" enqueue_eff])
  fix r
  assume r: "find_item k s = Some r" "enqueue_guard jp r"
  then have "jp_ID jp = k" "owns (jp_ProcessorID jp) (jp_Epoch jp) (spec_of k s r)"
    using find_item_id by (force simp: enqueue_guard_def spec_simps)+
  from spec_release [OF this(2)] this(1) show "spec_of k s (enqueue_eff r) = spec_of k s r
      \<or> (\<exists>a \<in> op_acts (OpEnqueue c jp) k. spec_step a (Some (spec_of k s r)) (Some (spec_of k s (enqueue_eff r))))"
    by (simp add: spec_simps enqueue_eff_def)
qed (auto simp: enqueue_eff_def PQEnqueue_def exec_stmt_def split: conn.split prod.split sum.split)

lemma claim_owned_refines: "refines (OpClaimOwned c pid) k s (run_op (OpClaimOwned c pid) s)"
proof (rule exec_update_refines [of "claim_guard pid" claim_eff])
  fix r
  assume "claim_guard pid r"
  then have "sp_owner (spec_of k s r) = Some pid" by (simp add: claim_guard_def spec_simps)
  from spec_reclaim [OF this] show "spec_of k s (claim_eff r) = spec_of k s r
      \<or> (\<exists>a \<in> op_acts (OpClaimOwned c pid) k. spec_step a (Some (spec_of k s r)) (Some (spec_of k s (claim_eff r))))"
    by (simp add: spec_simps claim_eff_def)
qed (auto simp: claim_eff_def PQClaimOwned_def exec_stmt_def split: conn.split)

lemma queue_delete_refines: "refines (OpQueueDelete c now k' locked) k s (run_op (OpQueueDelete c now k' locked) s)"
proof (rule exec_update_refines [of "delete_guard k' locked" "delete_eff now"])
  fix r
  assume r: "find_item k s = Some r" "delete_guard k' locked r"
  then have "k' = k" "sp_owner (spec_of k s r) = None" "\<not> sp_active (spec_of k s r)"
    using find_item_id by (force simp: delete_guard_def spec_simps)+
  from spec_withdraw [OF this(2,3)] this(1) show "spec_of k s (delete_eff now r) = spec_of k s r
      \<or> (\<exists>a \<in> op_acts (OpQueueDelete c now k' locked) k. spec_step a (Some (spec_of k s r)) (Some (spec_of k s (delete_eff now r))))"
    by (simp add: spec_simps delete_eff_def)
qed (auto simp: delete_eff_def PQDelete_def exec_stmt_def split: conn.split)

lemma finalize_refines: "refines (OpFinalize c c2 now fin) k s (run_op (OpFinalize c c2 now fin) s)"
proof (rule exec_update_refines [of "finalize_guard now fin" "finalize_eff fin"])
  fix r
  assume r: "find_item k s = Some r" "finalize_guard now fin r"
  then have "fi_BatchID fin = k" "owns (fi_ProcessorID fin) (fi_Epoch fin) (spec_of k s r)" "sp_active (spec_of k s r)"
    using find_item_id by (force simp: finalize_guard_def spec_simps)+
  from spec_finish [OF this(2,3)] this(1) show "spec_of k s (finalize_eff fin r) = spec_of k s r
      \<or> (\<exists>a \<in> op_acts (OpFinalize c c2 now fin) k. spec_step a (Some (spec_of k s r)) (Some (spec_of k s (finalize_eff fin r))))"
    by (simp add: spec_simps finalize_eff_def)
qed (auto simp: finalize_eff_def FinalizeResumableBatch_def exec_stmt_def split: conn.split prod.split sum.split option.split)

lemma dequeue_refines:
  assumes s: "db_ok s"
  shows "refines (OpDequeue c now pid lease n locked) k s (run_op (OpDequeue c now pid lease n locked) s)"
proof (rule exec_update_refines [of "\<lambda>r. row_id r \<in> set (dequeue_claimed (dur_secs lease) n locked (batch_items s))" "dequeue_eff now pid (dur_secs lease)"])
  fix r
  assume r: "find_item k s = Some r" "row_id r \<in> set (dequeue_claimed (dur_secs lease) n locked (batch_items s))"
  with s obtain r' where "find_item (row_id r) s = Some r'" "dequeue_candidate (dur_secs lease) r'" "row_id r \<notin> set locked"
    by (metis claimedD)
  with r(1) find_item_id [OF r(1)] have "sp_owner (spec_of k s r) = None" "k \<notin> set locked" by (simp_all add: spec_simps dequeue_candidate_def)
  from spec_claim [OF this(1), of pid] this(2) show "spec_of k s (dequeue_eff now pid (dur_secs lease) r) = spec_of k s r
      \<or> (\<exists>a \<in> op_acts (OpDequeue c now pid lease n locked) k. spec_step a (Some (spec_of k s r)) (Some (spec_of k s (dequeue_eff now pid (dur_secs lease) r))))"
    by (simp add: spec_simps dequeue_eff_def)
qed (auto simp: dequeue_eff_def PQDequeue_def dequeue_stmt_def Let_def exec_stmt_def split: conn.split)

text \<open>Changing open entries that stay open is not an action.\<close>

lemma find_entry_update:
  "(\<And>en. guard en \<Longrightarrow> entry_key (eff en) = entry_key en) \<Longrightarrow>
    find_entry k (snd (update_entries guard eff s)) = map_option (\<lambda>en. if guard en then eff en else en) (find_entry k s)"
  by (simp add: find_entry_def update_entries_def by_key_sql_update)

lemma abs_open_entries:
  assumes "\<And>en. guard en \<Longrightarrow> entry_key (eff en) = entry_key en"
    and "\<And>en. guard en \<Longrightarrow> \<not> entry_terminal (en_status en) \<and> \<not> entry_terminal (en_status (eff en))"
  shows "abs_batch k (snd (update_entries guard eff s)) = abs_batch k s"
proof -
  let ?s = "snd (update_entries guard eff s)"
  have find: "find_entry kq ?s = map_option (\<lambda>en. if guard en then eff en else en) (find_entry kq s)" for kq
    by (rule find_entry_update) (rule assms(1))
  have "results_of k ?s q = results_of k s q" "q \<in> open_requests k ?s \<longleftrightarrow> q \<in> open_requests k s" for q
    using assms(2) by (cases "find_entry (k, q) s"; simp add: results_of_def open_requests_def find)+
  then have "results_of k ?s = results_of k s" "open_requests k ?s = open_requests k s" by blast+
  then have "spec_of k ?s = spec_of k s" by (simp add: spec_of_def fun_eq_iff)
  then show ?thesis by (simp add: abs_batch_def)
qed

lemma requeue_refines: "refines (OpRequeue c c2 now k' pid e req bump) k s (run_op (OpRequeue c c2 now k' pid e req bump) s)"
proof -
  let ?op = "OpRequeue c c2 now k' pid e req bump" and ?s1 = "snd (update_items (requeue_guard now k' pid e req) (requeue_eff bump) s)"
  have one: "refines ?op k s ?s1"
  proof (rule update_items_refines)
    fix r
    assume r: "find_item k s = Some r" "requeue_guard now k' pid e req r"
    then have "k' = k" "owns pid e (spec_of k s r)" using find_item_id by (force simp: requeue_guard_def spec_simps)+
    from spec_release [OF this(2)] this(1) show "spec_of k s (requeue_eff bump r) = spec_of k s r
        \<or> (\<exists>a \<in> op_acts ?op k. spec_step a (Some (spec_of k s r)) (Some (spec_of k s (requeue_eff bump r))))"
      by (simp add: spec_simps requeue_eff_def)
  qed (simp add: requeue_eff_def)
  moreover have "abs_batch k (snd (update_entries (submitter_guard k') (\<lambda>en. en\<lparr>en_submitted := Some pid\<rparr>) ?s1)) = abs_batch k ?s1"
    by (rule abs_open_entries) (simp_all add: submitter_guard_def entry_key_def)
  ultimately have "refines ?op k s (snd (update_entries (submitter_guard k') (\<lambda>en. en\<lparr>en_submitted := Some pid\<rparr>) ?s1))"
    by (simp add: refines_def)
  with one show ?thesis
    by (auto simp: RequeueResumableOrphan_def exec_stmt_def split: conn.split prod.split sum.split)
qed

lemma find_entry_absent: "db_ok s \<Longrightarrow> find_item k s = None \<Longrightarrow> find_entry (k, q) s = None"
proof (rule ccontr)
  assume s: "db_ok s" "find_item k s = None" "find_entry (k, q) s \<noteq> None"
  then obtain en where "en \<in> set (batch_entries s)" "en_batch en = k" by (auto simp: db_ok_by_key entry_key_def)
  then obtain r where "r \<in> set (batch_items s)" "row_id r = k" using s(1) by (auto simp: db_ok_def list_all_iff)
  then have "find_item k s = Some r" by (simp add: db_ok_by_key [OF s(1)])
  with s(2) show False by simp
qed

lemma store_refines:
  assumes s: "db_ok s" and ok: "op_ok (OpStore c item)"
  shows "refines (OpStore c item) k s (run_op (OpStore c item) s)"
proof -
  let ?row = "row_of_item item" and ?s = "s\<lparr>batch_items := batch_items s @ [row_of_item item]\<rparr>"
  have "refines (OpStore c item) k s ?s" if free: "find_item (bi_ID item) s = None"
  proof (cases "bi_ID item = k")
    case True
    have "find_item k ?s = Some ?row" using find_item_append [of k s ?row] free True by (simp add: row_of_item_def)
    moreover have "spec_of k ?s ?row = new_batch"
      using ok find_entry_absent [OF s free] True
      by (simp add: spec_of_def new_batch_def row_of_item_def open_requests_def results_of_def fun_eq_iff)
    ultimately show ?thesis using spec_create True free by (simp add: refines_def abs_batch_def)
  next
    case False
    then have "find_item k ?s = find_item k s" using find_item_append [of k s ?row] free by (simp add: row_of_item_def split: option.split)
    then show ?thesis using abs_entries_cong [of ?s s] by (simp add: refines_def abs_batch_def)
  qed
  then show ?thesis
    using s by (auto simp: DBStore_def pg_store_def exec_stmt_def row_of_item_def find_item_def by_key_None_iff split: conn.split)
qed

lemma option_ext: "(\<And>x. a = Some x \<longleftrightarrow> b = Some x) \<Longrightarrow> a = b"
  by (cases a; cases b) auto

lemma delete_refines:
  assumes s: "db_ok s"
  shows "refines (OpDelete c ids) k s (run_op (OpDelete c ids) s)"
proof -
  let ?gone = "map row_id (filter (\<lambda>r. row_id r \<in> set ids) (batch_items s))"
  let ?s = "s\<lparr>batch_items := filter (\<lambda>r. row_id r \<notin> set ids) (batch_items s),
      batch_entries := filter (\<lambda>e. en_batch e \<notin> set ?gone) (batch_entries s)\<rparr>"
  have ok: "db_ok ?s"
    using safeD(1) [OF safe_DBDelete s, of ConnOk ids] s by (cases ids) (simp_all add: DBDelete_def exec_stmt_def pg_delete_def)
  have "refines (OpDelete c ids) k s ?s"
  proof (cases "k \<in> set ids")
    case True
    then have "find_item k ?s = None" using db_ok_by_key(1) [OF ok, of k] by (cases "find_item k ?s") auto
    then show ?thesis using True spec_remove by (cases "find_item k s") (auto simp: refines_def abs_batch_def)
  next
    case False
    have "find_item k ?s = Some r \<longleftrightarrow> find_item k s = Some r" for r
      unfolding db_ok_by_key(1) [OF ok] db_ok_by_key(1) [OF s] using False by auto
    then have "find_item k ?s = find_item k s" by (rule option_ext)
    moreover have "find_entry (k, q) ?s = Some en \<longleftrightarrow> find_entry (k, q) s = Some en" for q en
      unfolding db_ok_by_key(2) [OF ok] db_ok_by_key(2) [OF s] using False by (auto simp: entry_key_def)
    then have "find_entry (k, q) ?s = find_entry (k, q) s" for q by (rule option_ext)
    then have "spec_of k ?s = spec_of k s" by (simp add: spec_of_def fun_eq_iff open_requests_def results_of_def)
    ultimately show ?thesis by (simp add: refines_def abs_batch_def)
  qed
  then show ?thesis by (auto simp: DBDelete_def pg_delete_def exec_stmt_def split: conn.split)
qed

lemma mark_refines:
  assumes s: "db_ok s"
  shows "refines (OpMark c c2 now k' q pid e) k s (run_op (OpMark c c2 now k' q pid e) s)"
proof -
  have "abs_batch k (snd (entry_stmt now k' q pid e (mark_eff pid) s)) = abs_batch k s"
    unfolding entry_stmt_def by (rule abs_open_entries) (auto simp: mark_eff_def entry_key_def open_entry_def)
  then show ?thesis
    by (auto simp: refines_def MarkEntryInFlight_def entry_write_def exec_stmt_def split: conn.split prod.split sum.split)
qed

lemma owner_lock_spec:
  assumes "db_ok s" and "owner_lock now k pid e s"
  obtains r where "find_item k s = Some r" "owns pid e (spec_of k s r)" "sp_active (spec_of k s r)"
  using assms by (auto simp: owner_lock_def list_ex_iff renew_guard_def spec_simps db_ok_by_key)

lemma checkpoint_refines:
  assumes s: "db_ok s"
  shows "refines (OpCheckpoint c c2 now k' q pid e res) k s (run_op (OpCheckpoint c c2 now k' q pid e res) s)"
proof (cases "rr_Status res = ResumableEntryCompleted \<or> rr_Status res = ResumableEntryFailed")
  case True
  obtain r s' where call: "CheckpointEntryResult c c2 now k' q pid e res s = (r, s')" by fastforce
  have "refines (OpCheckpoint c c2 now k' q pid e res) k s s'"
    using s call unfolding CheckpointEntryResult_write [OF True]
  proof (cases rule: entry_write_split)
    case (written en)
    have find: "find_entry kq s' = (if kq = (k', q) then Some (checkpoint_eff now res en) else find_entry kq s)" for kq
      using written(1) by (simp add: written(3) find_entry_put checkpoint_eff_def entry_key_def)
    have item: "find_item k s' = find_item k s" by (simp add: written(3))
    show ?thesis
    proof (cases "k' = k")
      case same: True
      from s written(5) obtain row where row: "find_item k s = Some row" "owns pid e (spec_of k s row)" "sp_active (spec_of k s row)"
        unfolding same by (rule owner_lock_spec)
      have "q \<in> sp_open (spec_of k s row)" using written(1,2) same by (simp add: spec_of_def open_requests_def)
      note step = spec_record [OF row(2,3) this, of "checkpoint_eff now res en"]
      have "entry_terminal (en_status (checkpoint_eff now res en))" using True by (auto simp: checkpoint_eff_def)
      then have "open_requests k s' = open_requests k s - {q}" "results_of k s' = (results_of k s)(q \<mapsto> checkpoint_eff now res en)"
        by (auto simp: open_requests_def results_of_def find same fun_eq_iff)
      with step have "spec_step (Record pid e q) (Some (spec_of k s row)) (Some (spec_of k s' row))" by (simp add: spec_of_def)
      then show ?thesis using row(1) item same by (simp add: refines_def abs_batch_def)
    next
      case False
      then have "spec_of k s' = spec_of k s" by (simp add: spec_of_def fun_eq_iff open_requests_def results_of_def find)
      then show ?thesis using item by (simp add: refines_def abs_batch_def)
    qed
  qed simp
  with call show ?thesis by simp
qed (simp add: CheckpointEntryResult_def)

lemma activate_refines:
  assumes s: "db_ok s"
  shows "refines (OpActivate c now a) k s (run_op (OpActivate c now a) s)"
proof -
  let ?op = "OpActivate c now a" and ?new = "map (entry_of_activation now (ac_BatchID a)) (ac_Entries a)"
  let ?s = "s\<lparr>batch_items := sql_update (activate_candidate a s) (activate_eff now (ac_LeaseTTL a)) (batch_items s),
      batch_entries := batch_entries s @ ?new\<rparr>"
  have "refines ?op k s ?s" if n: "sql_count (activate_candidate a s) (batch_items s) \<noteq> 0" and es: "ac_Entries a \<noteq> []"
  proof -
    have item: "find_item k ?s = map_option (\<lambda>r. if activate_candidate a s r then activate_eff now (ac_LeaseTTL a) r else r) (find_item k s)"
      by (simp add: find_item_def by_key_sql_update activate_eff_def)
    obtain row where row: "find_item (ac_BatchID a) s = Some row" "activate_candidate a s row"
      using n db_ok_by_key(1) [OF s] by (auto simp: sql_count_def filter_empty_conv activate_candidate_def)
    then have none: "find_entry (ac_BatchID a, q) s = None" for q
      by (auto simp: activate_candidate_def list_ex_iff find_entry_def by_key_None_iff entry_key_def)
    have find: "find_entry kq ?s = (case find_entry kq s of Some en \<Rightarrow> Some en | None \<Rightarrow> by_key entry_key kq ?new)" for kq
      by (simp add: find_entry_def by_key_append)
    show ?thesis
    proof (cases "ac_BatchID a = k")
      case True
      let ?b = "spec_of k s row"
      have start: "owns (ac_ProcessorID a) (ac_Epoch a) ?b" "\<not> sp_active ?b" "sp_open ?b = {}" "sp_results ?b = Map.empty"
        using row(2) none True by (auto simp: spec_simps activate_candidate_def open_requests_def results_of_def)
      have "by_key entry_key (k, ae_RequestID (hd (ac_Entries a))) ?new \<noteq> None"
        using es True by (cases "ac_Entries a") (auto simp: by_key_None_iff entry_of_activation_def entry_key_def)
      then obtain en where "find_entry (k, ae_RequestID (hd (ac_Entries a))) ?s = Some en"
        unfolding find using none True by auto
      then have some: "open_requests k ?s \<union> dom (results_of k ?s) \<noteq> {}"
        using requests_partition(1) [of "ae_RequestID (hd (ac_Entries a))" k ?s] by force
      from spec_begin [OF start some requests_partition(2)] row item True show ?thesis
        by (simp add: refines_def abs_batch_def spec_of_def activate_eff_def)
    next
      case False
      then have "find_entry (k, q) ?s = find_entry (k, q) s" for q
        by (simp add: find by_key_None_iff entry_of_activation_def entry_key_def split: option.split) (auto simp: by_key_None_iff)
      then have "spec_of k ?s = spec_of k s" by (simp add: spec_of_def fun_eq_iff open_requests_def results_of_def)
      moreover have "find_item k ?s = find_item k s"
        using item False by (cases "find_item k s") (auto simp: activate_candidate_def dest: find_item_id)
      ultimately show ?thesis by (simp add: refines_def abs_batch_def)
    qed
  qed
  then show ?thesis
    by (auto simp: ActivateResumableBatch_def activate_stmt_def Let_def exec_stmt_def split: conn.split)
qed

lemma store_keeps: "db_ok s \<Longrightarrow> op_ok (OpStore c item) \<Longrightarrow> db_ok (snd (DBStore c item s))"
proof -
  assume s: "db_ok s" and ok: "op_ok (OpStore c item)"
  have "db_ok (s\<lparr>batch_items := batch_items s @ [row_of_item item]\<rparr>)" if "bi_ID item \<noteq> []" "find_item (bi_ID item) s = None"
    by (rule db_ok_append [OF s]) (use ok that in \<open>simp_all add: row_ok_def row_of_item_def\<close>)
  then show ?thesis
    using s by (auto simp: DBStore_def pg_store_def exec_stmt_def row_of_item_def find_item_def by_key_None_iff split: conn.split)
qed

lemma run_op_keeps: "db_ok s \<Longrightarrow> op_ok op \<Longrightarrow> db_ok (run_op op s)"
  by (cases op) (simp_all add: store_keeps safeD(1) keeps)

lemmas op_refines = store_refines update_refines delete_refines progress_refines enqueue_refines dequeue_refines claim_owned_refines
  queue_delete_refines activate_refines renew_refines requeue_refines finalize_refines mark_refines checkpoint_refines

lemma run_op_refines: "db_ok s \<Longrightarrow> op_ok op \<Longrightarrow> refines op k s (run_op op s)"
  by (cases op) (simp_all only: op_refines)

section \<open>What the protocol guarantees over time\<close>

definition finished :: "batch_spec \<Rightarrow> bool" where
  "finished b = (\<not> sp_active b \<and> sp_open b \<union> dom (sp_results b) \<noteq> {})"

text \<open>The token never falls, a new owner has a higher one, a result stays, and a finished batch stays as it is.\<close>

definition later :: "batch_spec \<Rightarrow> batch_spec \<Rightarrow> bool" where
  "later b b' = (sp_token b \<le> sp_token b' \<and> (sp_owner b' \<noteq> sp_owner b \<longrightarrow> sp_token b < sp_token b')
    \<and> sp_results b \<subseteq>\<^sub>m sp_results b'
    \<and> (finished b \<longrightarrow> finished b' \<and> sp_open b' = sp_open b \<and> sp_results b' = sp_results b))"

lemma later_refl [simp]: "later b b"
  by (simp add: later_def)

lemma later_trans: "later a b \<Longrightarrow> later b c \<Longrightarrow> later a c"
  unfolding later_def by (auto intro: map_le_trans)

lemma spec_step_later:
  assumes "spec_step act (Some b) (Some b')" and "sp_open b \<inter> dom (sp_results b) = {}"
  shows "later b b'"
  using assms by (cases rule: spec_stepE) (auto simp: later_def finished_def raised_def owns_def map_le_def disjoint_iff)

lemma abs_open_results: "abs_batch k s = Some b \<Longrightarrow> sp_open b \<inter> dom (sp_results b) = {}"
  using requests_partition(2) [of k s] by (auto simp: abs_batch_def spec_of_def)

text \<open>A batch does not come back by itself: it is there until it is removed.\<close>

lemma spec_step_None: "spec_step act (Some b) None \<Longrightarrow> act = Remove"
  by (auto elim: spec_stepE)

lemma run_op_later:
  assumes "db_ok s" "op_ok op" and "abs_batch k s = Some b" and "Remove \<notin> op_acts op k"
  obtains b' where "abs_batch k (run_op op s) = Some b'" "later b b'"
proof (cases "abs_batch k (run_op op s)")
  case None
  with run_op_refines [OF assms(1,2), of k] assms(3,4) spec_step_None have False by (auto simp: refines_def)
  then show ?thesis ..
next
  case (Some b')
  with run_op_refines [OF assms(1,2), of k] assms(3) have "b' = b \<or> (\<exists>act. spec_step act (Some b) (Some b'))" by (auto simp: refines_def)
  then have "later b b'" using spec_step_later abs_open_results [OF assms(3)] by auto
  with Some that show ?thesis by blast
qed

definition run_ops :: "db_op list \<Rightarrow> db \<Rightarrow> db" where
  "run_ops ops s = fold run_op ops s"

lemma run_ops_later:
  assumes "db_ok s" "list_all op_ok ops" and "abs_batch k s = Some b" and "\<forall>op \<in> set ops. Remove \<notin> op_acts op k"
  obtains b' where "db_ok (run_ops ops s)" "abs_batch k (run_ops ops s) = Some b'" "later b b'"
  using assms
proof (induction ops arbitrary: s b thesis)
  case Nil
  then show ?case by (simp add: run_ops_def)
next
  case (Cons op ops)
  obtain b1 where b1: "abs_batch k (run_op op s) = Some b1" "later b b1"
    by (rule run_op_later [OF Cons.prems(2) _ Cons.prems(4)]) (use Cons.prems in auto)
  have ok: "db_ok (run_op op s)" using Cons.prems(2,3) by (simp add: run_op_keeps)
  obtain b2 where "db_ok (run_ops ops (run_op op s))" "abs_batch k (run_ops ops (run_op op s)) = Some b2" "later b1 b2"
    by (rule Cons.IH [OF _ ok _ b1(1)]) (use Cons.prems in auto)
  with b1(2) Cons.prems(1) later_trans show ?case by (auto simp: run_ops_def)
qed

text \<open>What a checkpoint that takes effect says about the batch before and after.\<close>

lemma checkpoint_effect:
  assumes "db_ok s" and "abs_batch k (run_op (OpCheckpoint c c2 now k q p e res) s) \<noteq> abs_batch k s"
  obtains b b' where "abs_batch k s = Some b" "owns p e b" "q \<in> sp_open b"
    "abs_batch k (run_op (OpCheckpoint c c2 now k q p e res) s) = Some b'" "owns p e b'" "q \<in> dom (sp_results b')"
proof -
  have "spec_step (Record p e q) (abs_batch k s) (abs_batch k (run_op (OpCheckpoint c c2 now k q p e res) s))"
    using checkpoint_refines [OF assms(1), of c c2 now k q p e res k] assms(2) by (simp add: refines_def)
  then show ?thesis by (cases rule: spec_stepE) (use that in \<open>auto simp: owns_def\<close>)
qed

section \<open>Properties of the protocol\<close>

text \<open>
  C3: The database clients implement the ownership protocol. Every operation, whatever
  its arguments and whether its connection holds, fails or is lost after the commit,
  keeps the tables well formed and is, for every batch, either invisible in the
  specification or exactly one action of it; which one is determined by the operation
  and names the processor and the token it was called with.
\<close>

theorem operations_refine_ownership:
  assumes "db_ok s" and "op_ok op"
  shows "db_ok (run_op op s)
    \<and> (abs_batch k (run_op op s) = abs_batch k s
       \<or> (\<exists>act \<in> op_acts op k. spec_step act (abs_batch k s) (abs_batch k (run_op op s))))"
  using run_op_keeps [OF assms] run_op_refines [OF assms] by (simp add: refines_def)

theorem operations_refine_ownership_witness:
  "let op = OpDequeue ConnOk 5 ''p'' 0 1 [] in
     map_option sp_owner (abs_batch ''b2'' (run_op op sample_db)) = Some (Some ''p'')
     \<and> spec_step (Claim ''p'') (abs_batch ''b2'' sample_db) (abs_batch ''b2'' (run_op op sample_db))"
proof -
  let ?op = "OpDequeue ConnOk 5 ''p'' 0 1 []"
  have own: "map_option row_processor (find_item ''b2'' (run_op ?op sample_db)) = Some (Some ''p'')"
    "map_option row_processor (find_item ''b2'' sample_db) = Some None"
    by code_simp+
  then have spec: "map_option sp_owner (abs_batch ''b2'' (run_op ?op sample_db)) = Some (Some ''p'')"
    "map_option sp_owner (abs_batch ''b2'' sample_db) = Some None"
    by (auto simp: abs_batch_def spec_of_def simp del: run_op.simps)
  then have "abs_batch ''b2'' (run_op ?op sample_db) \<noteq> abs_batch ''b2'' sample_db" by fastforce
  with operations_refine_ownership [of sample_db ?op "''b2''"] spec show ?thesis
    by (simp add: Let_def del: run_op.simps)
qed

text \<open>
  C4: A result is recorded once, and a token has one writer. Between two checkpoints of
  a batch that take effect any operations may run, of any processors, as long as the
  batch is not deleted: the two are for different requests, the later one has no lower
  token, under the same token they come from the same processor, and the result of the
  first is still what it was.
\<close>

theorem results_recorded_once:
  assumes "db_ok s" and "s1 = run_op (OpCheckpoint c c2 now k q p e res) s" and "abs_batch k s1 \<noteq> abs_batch k s"
    and "list_all op_ok ops" and "\<forall>op \<in> set ops. Remove \<notin> op_acts op k" and "s2 = run_ops ops s1"
    and "s3 = run_op (OpCheckpoint c' c2' now' k q' p' e' res') s2" and "abs_batch k s3 \<noteq> abs_batch k s2"
  shows "q' \<noteq> q \<and> e \<le> e' \<and> (e' = e \<longrightarrow> p' = p) \<and> results_of k s3 q = results_of k s1 q \<and> results_of k s1 q \<noteq> None"
proof -
  obtain b1 where b1: "abs_batch k s1 = Some b1" "owns p e b1" "q \<in> dom (sp_results b1)"
    using checkpoint_effect [OF assms(1,3) [unfolded assms(2)]] assms(2) by metis
  have s1: "db_ok s1" using run_op_keeps [OF assms(1), of "OpCheckpoint c c2 now k q p e res"] assms(2) by simp
  obtain b2 where b2: "db_ok s2" "abs_batch k s2 = Some b2" "later b1 b2"
    using run_ops_later [OF s1 assms(4) b1(1) assms(5)] assms(6) by metis
  obtain b b3 where b3: "abs_batch k s2 = Some b" "owns p' e' b" "q' \<in> sp_open b" "abs_batch k s3 = Some b3"
    using checkpoint_effect [OF b2(1) assms(8) [unfolded assms(7)]] assms(7) by metis
  have "later b2 b3"
    using run_op_later [OF b2(1) _ b2(2), of "OpCheckpoint c' c2' now' k q' p' e' res'"] b3(4) assms(7) by auto
  then have l3: "later b1 b3" using b2(3) later_trans by blast
  have "b = b2" using b2(2) b3(1) by simp
  moreover have "q \<in> dom (sp_results b2)" using b1(3) b2(3) unfolding later_def map_le_def by (metis domIff)
  then have "q \<notin> sp_open b2" using abs_open_results [OF b2(2)] by blast
  moreover have "sp_results b3 q = sp_results b1 q" using l3 b1(3) unfolding later_def map_le_def by metis
  then have "results_of k s3 q = results_of k s1 q \<and> results_of k s1 q \<noteq> None"
    using b1(1,3) b3(4) by (auto simp: abs_batch_def spec_of_def)
  ultimately show ?thesis using b1(2) b2(3) b3(2,3) by (auto simp: owns_def later_def)
qed

definition first_checkpoint :: db_op where
  "first_checkpoint = OpCheckpoint ConnOk ConnOk 50 ''b1'' ''r1'' ''p'' 1 sample_result"

definition second_checkpoint :: db_op where
  "second_checkpoint = OpCheckpoint ConnOk ConnOk 60 ''b1'' ''r2'' ''p'' 1 sample_result"

lemma abs_results: "abs_batch k s' = abs_batch k s \<Longrightarrow> find_item k s \<noteq> None \<Longrightarrow> results_of k s' = results_of k s"
  by (auto simp: abs_batch_def spec_of_def)

theorem results_recorded_once_witness:
  "let s1 = run_op first_checkpoint active_db; s2 = run_ops [OpRenew ConnOk 55 ''b1'' ''p'' 1 60000000000] s1; s3 = run_op second_checkpoint s2
   in results_of ''b1'' s3 ''r1'' = results_of ''b1'' s1 ''r1'' \<and> results_of ''b1'' s3 ''r1'' \<noteq> None \<and> results_of ''b1'' s3 ''r2'' \<noteq> None"
proof -
  let ?ops = "[OpRenew ConnOk 55 ''b1'' ''p'' 1 60000000000]"
  let ?s1 = "run_op first_checkpoint active_db" let ?s2 = "run_ops ?ops ?s1" let ?s3 = "run_op second_checkpoint ?s2"
  have eval: "results_of ''b1'' ?s1 ''r1'' \<noteq> None" "results_of ''b1'' active_db ''r1'' = None" "find_item ''b1'' active_db \<noteq> None"
    "results_of ''b1'' ?s3 ''r2'' \<noteq> None" "results_of ''b1'' ?s2 ''r2'' = None" "find_item ''b1'' ?s2 \<noteq> None"
    by code_simp+
  then have "abs_batch ''b1'' ?s1 \<noteq> abs_batch ''b1'' active_db" "abs_batch ''b1'' ?s3 \<noteq> abs_batch ''b1'' ?s2"
    using abs_results by metis+
  moreover have "?s1 = run_op (OpCheckpoint ConnOk ConnOk 50 ''b1'' ''r1'' ''p'' 1 sample_result) active_db"
    "?s3 = run_op (OpCheckpoint ConnOk ConnOk 60 ''b1'' ''r2'' ''p'' 1 sample_result) ?s2"
    by (simp_all only: first_checkpoint_def second_checkpoint_def)
  ultimately have "results_of ''b1'' ?s3 ''r1'' = results_of ''b1'' ?s1 ''r1''"
    using results_recorded_once [OF active_db_ok _ _ _ _ refl, of ?s1 ConnOk ConnOk 50 "''b1''" "''r1''" "''p''" 1 sample_result ?ops] by fastforce
  with eval show ?thesis by (simp add: Let_def del: run_op.simps)
qed

text \<open>
  C7: A finished batch is final. Once its owner has finished, no operation of any
  processor changes the requests of the batch or their results until it is deleted, and
  it cannot be begun again.
\<close>

theorem finished_batch_is_final:
  assumes "db_ok s" and "abs_batch k s = Some b" and "finished b"
    and "list_all op_ok ops" and "\<forall>op \<in> set ops. Remove \<notin> op_acts op k"
  shows "\<exists>b'. abs_batch k (run_ops ops s) = Some b' \<and> \<not> sp_active b' \<and> sp_open b' = sp_open b \<and> sp_results b' = sp_results b
    \<and> sp_token b \<le> sp_token b'"
proof -
  obtain b' where "abs_batch k (run_ops ops s) = Some b'" "later b b'"
    by (rule run_ops_later [OF assms(1,4,2,5)])
  with assms(3) show ?thesis by (auto simp: later_def finished_def)
qed

definition finished_db :: db where
  "finished_db = active_db\<lparr>batch_items := [active_row\<lparr>row_resumable := False, row_lease := None\<rparr>]\<rparr>"

theorem finished_batch_is_final_witness:
  "\<exists>b b'. abs_batch ''b1'' finished_db = Some b \<and> abs_batch ''b1'' (run_ops [OpClaimOwned ConnOk ''p'', second_checkpoint] finished_db) = Some b'
     \<and> sp_results b' = sp_results b"
proof -
  have ok: "db_ok finished_db" by (simp add: db_ok_def row_ok_def entry_key_def finished_db_def active_defs)
  have "find_entry (''b1'', ''r1'') finished_db \<noteq> None" by code_simp
  then have "open_requests ''b1'' finished_db \<union> dom (results_of ''b1'' finished_db) \<noteq> {}"
    using requests_partition(1) [of "''r1''" "''b1''" finished_db] by force
  then have b: "abs_batch ''b1'' finished_db = Some (spec_of ''b1'' finished_db (active_row\<lparr>row_resumable := False, row_lease := None\<rparr>))"
    "finished (spec_of ''b1'' finished_db (active_row\<lparr>row_resumable := False, row_lease := None\<rparr>))"
    by (simp_all add: abs_batch_def find_item_def finished_db_def active_row_def sample_row_def finished_def spec_of_def)
  show ?thesis
    using finished_batch_is_final [OF ok b, of "[OpClaimOwned ConnOk ''p'', second_checkpoint]"] b(1) by (auto simp: second_checkpoint_def)
qed

end
