(* ===== verification/Processor_Config.thy ===== *)
theory Processor_Config
  imports Planner Semaphores Batch_Request "HOL-Library.Signed_Division"
begin

text \<open>
  The configuration of the processor (\<^verbatim>\<open>internal/processor/config/config.go\<close>): its
  defaults, its validation, the number of workers the work directory has room for, and
  the gateways it resolves to. A Go map is the list of its pairs in the order an
  iteration visits them. Integers are 64 bits wide. The file system, the mounted
  secrets and the quantity parser of Kubernetes are parameters.
\<close>

section \<open>The configuration\<close>

text \<open>
  A floating-point number of the configuration file: a YAML document may also say
  \<^verbatim>\<open>.nan\<close> and \<^verbatim>\<open>.inf\<close>. \<open>Finite m k\<close> is \<open>m / 2 ^ k\<close>. A comparison with NaN is false.
\<close>

datatype go_float = NaN | Infinite bool | Finite int nat

definition float_le :: "go_float \<Rightarrow> int \<Rightarrow> bool" where
  "float_le f n = (case f of NaN \<Rightarrow> False | Infinite neg \<Rightarrow> neg | Finite m k \<Rightarrow> m \<le> n * 2 ^ k)"

definition float_ge :: "go_float \<Rightarrow> int \<Rightarrow> bool" where
  "float_ge f n = (case f of NaN \<Rightarrow> False | Infinite neg \<Rightarrow> \<not> neg | Finite m k \<Rightarrow> n * 2 ^ k \<le> m)"

record ConfigAIMD =
  ca_Enabled :: bool
  ca_Min :: int
  ca_BackoffFactor :: go_float
  ca_AdditiveIncrease :: int

record ConcurrencyConfig =
  cc_Global :: int
  cc_PerEndpoint :: int
  cc_Recovery :: int
  cc_AIMD :: ConfigAIMD

definition DispatchModeSync :: string where "DispatchModeSync = ''sync''"
definition DispatchModeAsync :: string where "DispatchModeAsync = ''async''"
definition DefaultWorkDirSizeLimit :: string where "DefaultWorkDirSizeLimit = ''10Gi''"
definition DefaultInputFileDiskBudgetPercent :: int where "DefaultInputFileDiskBudgetPercent = 10"
definition DefaultNumWorkers :: int where "DefaultNumWorkers = 5"
definition DefaultMaxInputFileSizeBytes :: int where "DefaultMaxInputFileSizeBytes = 200 * 2 ^ 20"

record AsyncModelConfig =
  am_InferencePoolName :: string
  am_InferenceObjective :: string
  am_RequestQueueName :: string
  am_ResultQueueName :: string

record AsyncDispatchConfig =
  ad_Transport :: string
  ad_ResultPollTimeout :: duration
  ad_PollInterval :: duration
  ad_MaxConnections :: int
  ad_Models :: "(string \<times> AsyncModelConfig) list"

record ResumableConfig =
  rc_LeaseDuration :: duration
  rc_FinalizeConcurrency :: int
  rc_FinalizeTimeout :: duration
  rc_RecoveryWindow :: duration

record ModelGatewayConfig =
  mg_URL :: string
  mg_APIKeyName :: string
  mg_APIKeyFile :: string
  mg_InferenceObjective :: string
  mg_RequestTimeout :: "duration option"
  mg_MaxRetries :: "int option"
  mg_InitialBackoff :: "duration option"
  mg_MaxBackoff :: "duration option"
  mg_TLSInsecureSkipVerify :: bool
  mg_TLSCACertFile :: string
  mg_TLSClientCertFile :: string
  mg_TLSClientKeyFile :: string

record BucketConfig =
  bk_Start :: go_float
  bk_Factor :: go_float
  bk_Count :: int

record RetryConfig =
  re_MaxRetries :: int
  re_InitialBackoff :: duration
  re_MaxBackoff :: duration

text \<open>
  The settings that validation, construction or a run read; those of the database and
  file clients, of tracing and of profiling are handed to other packages as they are.
\<close>

record ProcessorConfig =
  pc_ExtraEndpoints :: "string list"
  pc_TaskWaitTime :: duration
  pc_NumWorkers :: int
  pc_WorkDirSizeLimit :: string
  pc_InputFileDiskBudgetPercent :: int
  pc_MaxInputFileSizeBytes :: int
  pc_Concurrency :: ConcurrencyConfig
  pc_PollInterval :: duration
  pc_QueueTimeBucket :: BucketConfig
  pc_ProcessTimeBucket :: BucketConfig
  pc_E2ELatencyBucket :: BucketConfig
  pc_Addr :: string
  pc_ShutdownTimeout :: duration
  pc_WorkDir :: string
  pc_GlobalInferenceGateway :: "ModelGatewayConfig option"
  pc_ModelGateways :: "(string \<times> ModelGatewayConfig) list"
  pc_RouteKeyMethod :: string
  pc_DefaultOutputExpirationSeconds :: int
  pc_ProgressUpdateInterval :: duration
  pc_SendFairnessHeader :: bool
  pc_FileRetry :: RetryConfig
  pc_DispatchMode :: string
  pc_AsyncDispatch :: AsyncDispatchConfig
  pc_Resumable :: ResumableConfig

definition IsAsync :: "ProcessorConfig \<Rightarrow> bool" where
  "IsAsync c = (pc_DispatchMode c = DispatchModeAsync)"

definition InferenceObjectiveFor :: "ProcessorConfig \<Rightarrow> string \<Rightarrow> string" where
  "InferenceObjectiveFor c modelID =
    (if IsAsync c
     then (case map_of (ad_Models (pc_AsyncDispatch c)) modelID of Some m \<Rightarrow> am_InferenceObjective m | None \<Rightarrow> [])
     else (case pc_GlobalInferenceGateway c of
         Some gw \<Rightarrow> mg_InferenceObjective gw
       | None \<Rightarrow> (case map_of (pc_ModelGateways c) modelID of Some gw \<Rightarrow> mg_InferenceObjective gw | None \<Rightarrow> [])))"

text \<open>A duration is a number of nanoseconds; the bucket start 0.1 is the nearest binary fraction.\<close>

definition second :: duration where "second = 1000000000"

definition tenth :: go_float where "tenth = Finite 3602879701896397 55"

definition AsyncTransportRedisSortedSet :: string where "AsyncTransportRedisSortedSet = ''redis-sortedset''"
definition AsyncTransportSQL :: string where "AsyncTransportSQL = ''sql''"
definition DefaultSQLMaxConns :: int where "DefaultSQLMaxConns = 8"

definition NewConfig :: ProcessorConfig where
  "NewConfig =
    \<lparr>pc_ExtraEndpoints = [], pc_TaskWaitTime = second, pc_NumWorkers = DefaultNumWorkers,
     pc_WorkDirSizeLimit = DefaultWorkDirSizeLimit, pc_InputFileDiskBudgetPercent = DefaultInputFileDiskBudgetPercent,
     pc_MaxInputFileSizeBytes = DefaultMaxInputFileSizeBytes,
     pc_Concurrency = \<lparr>cc_Global = 100, cc_PerEndpoint = 10, cc_Recovery = 5,
       cc_AIMD = \<lparr>ca_Enabled = True, ca_Min = 5, ca_BackoffFactor = Finite 1 1, ca_AdditiveIncrease = 1\<rparr>\<rparr>,
     pc_PollInterval = 5 * second,
     pc_QueueTimeBucket = \<lparr>bk_Start = tenth, bk_Factor = Finite 2 0, bk_Count = 10\<rparr>,
     pc_ProcessTimeBucket = \<lparr>bk_Start = tenth, bk_Factor = Finite 2 0, bk_Count = 15\<rparr>,
     pc_E2ELatencyBucket = \<lparr>bk_Start = Finite 1 0, bk_Factor = Finite 3 0, bk_Count = 12\<rparr>,
     pc_Addr = '':9090'', pc_ShutdownTimeout = 30 * second, pc_WorkDir = ''/var/lib/batch-gateway/processor'',
     pc_GlobalInferenceGateway = None, pc_ModelGateways = [], pc_RouteKeyMethod = [],
     pc_DefaultOutputExpirationSeconds = 90 * 24 * 60 * 60, pc_ProgressUpdateInterval = 15 * second, pc_SendFairnessHeader = False,
     pc_FileRetry = \<lparr>re_MaxRetries = 3, re_InitialBackoff = second, re_MaxBackoff = 10 * second\<rparr>,
     pc_DispatchMode = DispatchModeSync,
     pc_AsyncDispatch = \<lparr>ad_Transport = AsyncTransportRedisSortedSet, ad_ResultPollTimeout = 5 * second, ad_PollInterval = second,
       ad_MaxConnections = DefaultSQLMaxConns, ad_Models = []\<rparr>,
     pc_Resumable = \<lparr>rc_LeaseDuration = 300 * second, rc_FinalizeConcurrency = 16, rc_FinalizeTimeout = 1800 * second,
       rc_RecoveryWindow = 300 * second\<rparr>\<rparr>"

section \<open>Validation\<close>

text \<open>
  What the process finds around it: whether a path can be examined, the contents of a
  file, the contents of a mounted secret (\<open>None\<close> if there is none), and the value of a
  Kubernetes quantity.
\<close>

record host =
  ho_Stat :: "string \<Rightarrow> unit res"
  ho_ReadFile :: "string \<Rightarrow> string res"
  ho_Secret :: "string \<Rightarrow> string option res"
  ho_ParseQuantity :: "string \<Rightarrow> int res"

text \<open>
  A validation is a sequence of checks that ends with the first error. The checks have
  no effect, so that it does not matter that the later ones are written down as values.
\<close>

definition refuse :: "bool \<Rightarrow> string \<Rightarrow> unit res" where
  "refuse bad name = (if bad then Inl (ErrInvalid name) else Inr ())"

definition only_error :: "'a res \<Rightarrow> unit res" where
  "only_error r = (case r of Inl e \<Rightarrow> Inl e | Inr _ \<Rightarrow> Inr ())"

fun first_error :: "unit res list \<Rightarrow> unit res" where
  "first_error [] = Inr ()"
| "first_error (Inl e # rs) = Inl e"
| "first_error (Inr _ # rs) = first_error rs"

lemma checks_pass [simp]:
  "refuse bad name = Inr () \<longleftrightarrow> \<not> bad" "only_error r = Inr () \<longleftrightarrow> is_ok r"
  by (simp_all add: refuse_def only_error_def is_ok_def split: sum.split)

lemma first_error_pass [simp]: "first_error rs = Inr () \<longleftrightarrow> (\<forall>r \<in> set rs. r = Inr ())"
  by (induction rs rule: first_error.induct) auto

definition retry_Validate :: "RetryConfig \<Rightarrow> unit res" where
  "retry_Validate c =
    (if re_MaxRetries c < 0 then Inl (ErrInvalid ''max_retries'')
     else if re_MaxRetries c > 0 then first_error
       [refuse (re_InitialBackoff c \<le> 0) ''initial_backoff'', refuse (re_MaxBackoff c \<le> 0) ''max_backoff'',
        refuse (re_MaxBackoff c < re_InitialBackoff c) ''max_backoff'']
     else Inr ())"

definition w64 :: "int \<Rightarrow> int" where
  "w64 = signed_take_bit 63"

definition input_budget :: "int \<Rightarrow> int \<Rightarrow> int" where
  "input_budget workDirBytes percent =
    w64 (w64 ((workDirBytes sdiv 100) * percent) + w64 ((workDirBytes smod 100) * percent) sdiv 100)"

definition EffectiveNumWorkers :: "host \<Rightarrow> ProcessorConfig \<Rightarrow> int res" where
  "EffectiveNumWorkers h c =
    (if pc_NumWorkers c \<le> 0 then Inl (ErrInvalid ''num_workers'')
     else if pc_InputFileDiskBudgetPercent c \<le> 0 \<or> pc_InputFileDiskBudgetPercent c > 100 then Inl (ErrInvalid ''input_file_disk_budget_percent'')
     else if pc_MaxInputFileSizeBytes c \<le> 0 then Inl (ErrInvalid ''input_file_max_size_bytes'')
     else if pc_WorkDirSizeLimit c = [] then Inl (ErrInvalid ''work_dir_size_limit'')
     else (case ho_ParseQuantity h (pc_WorkDirSizeLimit c) of
         Inl e \<Rightarrow> Inl e
       | Inr workDirBytes \<Rightarrow>
           if workDirBytes \<le> 0 then Inl (ErrInvalid ''work_dir_size_limit'')
           else let maxWorkersByDisk = input_budget workDirBytes (pc_InputFileDiskBudgetPercent c) sdiv pc_MaxInputFileSizeBytes c
                in if maxWorkersByDisk < 1 then Inl (ErrInvalid ''input file disk budget'')
                   else if pc_NumWorkers c \<le> maxWorkersByDisk then Inr (pc_NumWorkers c)
                   else Inr maxWorkersByDisk))"

definition concurrency_validate :: "ConcurrencyConfig \<Rightarrow> unit res" where
  "concurrency_validate cc = first_error
    ([refuse (cc_Global cc \<le> 0) ''concurrency.global'',
      refuse (cc_PerEndpoint cc \<le> 0) ''concurrency.per_endpoint'',
      refuse (cc_PerEndpoint cc > cc_Global cc) ''concurrency.per_endpoint'',
      refuse (cc_Recovery cc \<le> 0) ''concurrency.recovery''] @
     (let aimd = cc_AIMD cc in
      if ca_Enabled aimd then
        [refuse (ca_Min aimd \<le> 0) ''concurrency.aimd.min'',
         refuse (float_le (ca_BackoffFactor aimd) 0 \<or> float_ge (ca_BackoffFactor aimd) 1) ''concurrency.aimd.backoff_factor'',
         refuse (ca_AdditiveIncrease aimd \<le> 0) ''concurrency.aimd.additive_increase'',
         refuse (ca_Min aimd > cc_PerEndpoint cc) ''concurrency.aimd.min'']
      else []))"

definition bucket_bad :: "BucketConfig \<Rightarrow> bool" where
  "bucket_bad b = (float_le (bk_Start b) 0 \<or> float_le (bk_Factor b) 1 \<or> bk_Count b \<le> 0)"

text \<open>A duration or count that must be set and not negative.\<close>

definition required :: "string \<Rightarrow> int option \<Rightarrow> unit res" where
  "required name v = (case v of None \<Rightarrow> Inl (ErrInvalid name) | Some n \<Rightarrow> if n < 0 then Inl (ErrInvalid name) else Inr ())"

definition examined :: "host \<Rightarrow> string \<Rightarrow> unit res" where
  "examined h path = (if path \<noteq> [] then ho_Stat h path else Inr ())"

definition validateGatewayConfig :: "host \<Rightarrow> ModelGatewayConfig \<Rightarrow> unit res" where
  "validateGatewayConfig h gw = first_error
    ([refuse (mg_URL gw = []) ''url'',
      required ''request_timeout'' (mg_RequestTimeout gw),
      required ''max_retries'' (mg_MaxRetries gw),
      required ''initial_backoff'' (mg_InitialBackoff gw),
      required ''max_backoff'' (mg_MaxBackoff gw),
      refuse (the (mg_MaxBackoff gw) < the (mg_InitialBackoff gw)) ''max_backoff'',
      refuse (mg_APIKeyName gw \<noteq> [] \<and> mg_APIKeyFile gw \<noteq> []) ''api_key_name'',
      examined h (mg_APIKeyFile gw),
      refuse ((mg_TLSClientCertFile gw = []) \<noteq> (mg_TLSClientKeyFile gw = [])) ''tls_client_cert_file'',
      examined h (mg_TLSCACertFile gw)] @
     (if mg_TLSClientCertFile gw \<noteq> [] then [ho_Stat h (mg_TLSClientCertFile gw), ho_Stat h (mg_TLSClientKeyFile gw)] else []))"

definition validateSyncDispatchConfig :: "host \<Rightarrow> ProcessorConfig \<Rightarrow> unit res" where
  "validateSyncDispatchConfig h c = first_error
    ((case pc_GlobalInferenceGateway c of None \<Rightarrow> [] | Some gw \<Rightarrow> [validateGatewayConfig h gw])
     @ map (\<lambda>(model, gw). validateGatewayConfig h gw) (pc_ModelGateways c))"

definition NormalizeAsyncTransport :: "string \<Rightarrow> string res" where
  "NormalizeAsyncTransport transport =
    (if transport = [] then Inr AsyncTransportRedisSortedSet
     else if transport = AsyncTransportRedisSortedSet \<or> transport = AsyncTransportSQL then Inr transport
     else Inl (ErrInvalid ''async transport''))"

definition async_model_check :: "AsyncModelConfig \<Rightarrow> unit res" where
  "async_model_check m = first_error
    [refuse (am_InferencePoolName m = []) ''inference_pool_name'',
     refuse ((am_RequestQueueName m = []) \<noteq> (am_ResultQueueName m = [])) ''request_queue_name'']"

definition validateAsyncDispatchConfig :: "ProcessorConfig \<Rightarrow> unit res" where
  "validateAsyncDispatchConfig c =
    (let ad = pc_AsyncDispatch c in
     case NormalizeAsyncTransport (ad_Transport ad) of
       Inl e \<Rightarrow> Inl e
     | Inr transport \<Rightarrow> first_error
         ([refuse (transport = AsyncTransportSQL \<and> ad_MaxConnections ad \<le> 0) ''max_connections'',
           refuse (ad_ResultPollTimeout ad \<le> 0) ''result_poll_timeout'',
           refuse (ad_PollInterval ad \<le> 0) ''poll_interval'',
           refuse (pc_GlobalInferenceGateway c \<noteq> None) ''global_inference_gateway'',
           refuse (ad_Models ad = []) ''async_dispatch.models'']
          @ map (\<lambda>(model, m). async_model_check m) (ad_Models ad)))"

text \<open>The empty dispatch mode is replaced by its default, in the configuration itself.\<close>

definition validateGateways :: "host \<Rightarrow> ProcessorConfig \<Rightarrow> unit res \<times> ProcessorConfig" where
  "validateGateways h c0 =
    (if pc_DispatchMode c0 = DispatchModeSync \<or> pc_DispatchMode c0 = [] then
       (let c = c0\<lparr>pc_DispatchMode := DispatchModeSync\<rparr> in
        if pc_GlobalInferenceGateway c = None \<and> pc_ModelGateways c = [] then (Inl (ErrInvalid ''global_inference_gateway''), c)
        else if pc_GlobalInferenceGateway c \<noteq> None \<and> pc_ModelGateways c \<noteq> [] then (Inl (ErrInvalid ''model_gateways''), c)
        else (validateSyncDispatchConfig h c, c))
     else if pc_DispatchMode c0 = DispatchModeAsync then (validateAsyncDispatchConfig c0, c0)
     else (Inl (ErrInvalid ''dispatch_mode''), c0))"

definition settings_check :: "host \<Rightarrow> ProcessorConfig \<Rightarrow> unit res" where
  "settings_check h c = first_error
    [refuse (pc_PollInterval c \<le> 0) ''poll_interval'',
     refuse (pc_TaskWaitTime c \<le> 0) ''task_wait_time'',
     refuse (pc_TaskWaitTime c \<ge> pc_PollInterval c) ''task_wait_time'',
     refuse (pc_NumWorkers c \<le> 0) ''num_workers'',
     only_error (EffectiveNumWorkers h c),
     concurrency_validate (pc_Concurrency c),
     refuse (pc_ShutdownTimeout c \<le> 0) ''shutdown_timeout'',
     refuse (pc_Addr c = []) ''addr'',
     refuse (pc_WorkDir c = []) ''work_dir'',
     refuse (bucket_bad (pc_QueueTimeBucket c)) ''queue_time_bucket'',
     refuse (bucket_bad (pc_ProcessTimeBucket c)) ''process_time_bucket'',
     refuse (bucket_bad (pc_E2ELatencyBucket c)) ''e2e_latency_bucket'',
     retry_Validate (pc_FileRetry c),
     only_error (NewEndpointAllowlist (pc_ExtraEndpoints c)),
     refuse (rc_LeaseDuration (pc_Resumable c) < second \<or> rc_LeaseDuration (pc_Resumable c) mod second \<noteq> 0) ''resumable.lease_duration'',
     refuse (rc_FinalizeConcurrency (pc_Resumable c) \<le> 0) ''resumable.finalize_concurrency'',
     refuse (rc_FinalizeTimeout (pc_Resumable c) \<le> 0) ''resumable.finalize_timeout'',
     refuse (rc_RecoveryWindow (pc_Resumable c) \<le> 0) ''resumable.recovery_window'',
     refuse (pc_RouteKeyMethod c \<noteq> [] \<and> pc_RouteKeyMethod c \<noteq> ''tenant'') ''route_key_method'']"

definition Validate :: "host \<Rightarrow> ProcessorConfig \<Rightarrow> unit res \<times> ProcessorConfig" where
  "Validate h c = (case settings_check h c of Inl e \<Rightarrow> (Inl e, c) | Inr _ \<Rightarrow> validateGateways h c)"

section \<open>Resolution of the gateways\<close>

definition ReadSecretFile :: "host \<Rightarrow> string \<Rightarrow> string res" where
  "ReadSecretFile h name = (case ho_Secret h name of
      Inl e \<Rightarrow> Inl e
    | Inr None \<Rightarrow> Inr []
    | Inr (Some content) \<Rightarrow> Inr (trim_space content))"

definition SecretKeyInferenceAPI :: string where "SecretKeyInferenceAPI = ''inference-api-key''"

definition resolveGatewayAPIKey :: "host \<Rightarrow> ModelGatewayConfig \<Rightarrow> string res" where
  "resolveGatewayAPIKey h gw =
    (if mg_APIKeyFile gw \<noteq> [] then (case ho_ReadFile h (mg_APIKeyFile gw) of Inl e \<Rightarrow> Inl e | Inr content \<Rightarrow> Inr (trim_space content))
     else if mg_APIKeyName gw \<noteq> [] then ReadSecretFile h (mg_APIKeyName gw)
     else Inr [])"

record GatewayClientConfig =
  gc_URL :: string
  gc_APIKey :: string
  gc_Timeout :: duration
  gc_MaxRetries :: int
  gc_InitialBackoff :: duration
  gc_MaxBackoff :: duration
  gc_TLSInsecureSkipVerify :: bool
  gc_TLSCACertFile :: string
  gc_TLSClientCertFile :: string
  gc_TLSClientKeyFile :: string

definition Deref :: "int option \<Rightarrow> int" where
  "Deref p = (case p of Some v \<Rightarrow> v | None \<Rightarrow> 0)"

definition toGatewayClientConfig :: "ModelGatewayConfig \<Rightarrow> string \<Rightarrow> GatewayClientConfig" where
  "toGatewayClientConfig gw apiKey =
    \<lparr>gc_URL = mg_URL gw, gc_APIKey = apiKey, gc_Timeout = Deref (mg_RequestTimeout gw), gc_MaxRetries = Deref (mg_MaxRetries gw),
     gc_InitialBackoff = Deref (mg_InitialBackoff gw), gc_MaxBackoff = Deref (mg_MaxBackoff gw),
     gc_TLSInsecureSkipVerify = mg_TLSInsecureSkipVerify gw, gc_TLSCACertFile = mg_TLSCACertFile gw,
     gc_TLSClientCertFile = mg_TLSClientCertFile gw, gc_TLSClientKeyFile = mg_TLSClientKeyFile gw\<rparr>"

record AsyncModelPoolConfig =
  ap_PoolName :: string
  ap_RequestQueueName :: string
  ap_ResultQueueName :: string

text \<open>The connection URLs and the consumer identity are filled in by the command that builds the clients.\<close>

record AsyncClientConfig =
  ax_Transport :: string
  ax_RedisURL :: string
  ax_SQLURL :: string
  ax_ConsumerID :: string
  ax_MaxConnections :: int
  ax_Models :: "(string \<times> AsyncModelPoolConfig) list"
  ax_ResultPollTimeout :: duration
  ax_PollInterval :: duration

record ResolvedGateways =
  rg_Global :: "GatewayClientConfig option"
  rg_PerModel :: "(string \<times> GatewayClientConfig) list"
  rg_Async :: "AsyncClientConfig option"

definition async_client_config :: "AsyncDispatchConfig \<Rightarrow> AsyncClientConfig" where
  "async_client_config ad =
    \<lparr>ax_Transport = ad_Transport ad, ax_RedisURL = [], ax_SQLURL = [], ax_ConsumerID = [], ax_MaxConnections = ad_MaxConnections ad,
     ax_Models = map (\<lambda>(model, m). (model, \<lparr>ap_PoolName = am_InferencePoolName m, ap_RequestQueueName = am_RequestQueueName m,
        ap_ResultQueueName = am_ResultQueueName m\<rparr>)) (ad_Models ad),
     ax_ResultPollTimeout = ad_ResultPollTimeout ad, ax_PollInterval = ad_PollInterval ad\<rparr>"

definition resolve_global :: "host \<Rightarrow> ModelGatewayConfig \<Rightarrow> GatewayClientConfig res" where
  "resolve_global h gw = (case resolveGatewayAPIKey h gw of
      Inl e \<Rightarrow> Inl e
    | Inr apiKey \<Rightarrow> Inr (toGatewayClientConfig gw
        (if apiKey = [] then (case ReadSecretFile h SecretKeyInferenceAPI of Inr key \<Rightarrow> key | Inl _ \<Rightarrow> apiKey) else apiKey)))"

fun resolve_each :: "host \<Rightarrow> (string \<times> ModelGatewayConfig) list \<Rightarrow> (string \<times> GatewayClientConfig) list res" where
  "resolve_each h [] = Inr []"
| "resolve_each h ((model, gw) # ms) = (case resolveGatewayAPIKey h gw of
      Inl e \<Rightarrow> Inl e
    | Inr apiKey \<Rightarrow> (case resolve_each h ms of
        Inl e \<Rightarrow> Inl e
      | Inr rs \<Rightarrow> Inr ((model, toGatewayClientConfig gw apiKey) # rs)))"

definition ResolveModelGateways :: "host \<Rightarrow> ProcessorConfig \<Rightarrow> ResolvedGateways res" where
  "ResolveModelGateways h c =
    (if IsAsync c then Inr \<lparr>rg_Global = None, rg_PerModel = [], rg_Async = Some (async_client_config (pc_AsyncDispatch c))\<rparr>
     else case (case pc_GlobalInferenceGateway c of None \<Rightarrow> Inr None | Some gw \<Rightarrow> map_sum id Some (resolve_global h gw)) of
       Inl e \<Rightarrow> Inl e
     | Inr g \<Rightarrow> (case resolve_each h (pc_ModelGateways c) of
         Inl e \<Rightarrow> Inl e
       | Inr rs \<Rightarrow> Inr \<lparr>rg_Global = g, rg_PerModel = rs, rg_Async = None\<rparr>))"

section \<open>The number of workers\<close>

lemma w64_id: "- (2 ^ 63) \<le> x \<Longrightarrow> x < 2 ^ 63 \<Longrightarrow> w64 x = x"
  unfolding w64_def by (rule signed_take_bit_int_eq_self) simp_all

text \<open>The budget is the exact share of the work directory, rounded down; no intermediate value leaves 64 bits.\<close>

lemma input_budget_exact:
  assumes "0 < w" and "w < 2 ^ 63" and "0 < p" and "p \<le> 100"
  shows "input_budget w p = w * p div 100"
proof -
  define a where "a = w div 100"
  define b where "b = w mod 100"
  have w: "w = a * 100 + b" by (simp add: a_def b_def)
  have ab: "0 \<le> a" "0 \<le> b" "b \<le> 99" using assms(1) by (simp_all add: a_def b_def pos_imp_zdiv_nonneg_iff)
  have ap: "0 \<le> a * p" "a * p \<le> a * 100" using assms(3,4) ab by (simp_all add: mult_left_mono)
  have bp: "0 \<le> b * p" "b * p \<le> 99 * 100" using ab assms(3,4) mult_mono [of b 99 p 100] by simp_all
  have "a * p < 2 ^ 63" using ap ab assms(2) w by linarith
  moreover have "b * p < 2 ^ 63" using bp by simp
  ultimately have small: "w64 (a * p) = a * p" "w64 (b * p) = b * p" using ap(1) bp(1) by (simp_all add: w64_id)
  have "w * p = (a * p) * 100 + b * p" by (simp add: w algebra_simps)
  then have sum: "w * p div 100 = a * p + b * p div 100" by simp
  have "w * p div 100 \<le> w" using zdiv_mono1 [of "w * p" "w * 100" 100] assms by (simp add: mult_left_mono)
  moreover have "0 \<le> b * p div 100" using bp(1) by (simp add: pos_imp_zdiv_nonneg_iff)
  ultimately have all: "w64 (a * p + b * p div 100) = w * p div 100"
    unfolding sum by (intro w64_id) (use ap assms(2) in linarith)+
  have "w sdiv 100 = a" "w smod 100 = b" "(b * p) sdiv 100 = b * p div 100"
    using assms(1) bp(1) by (simp_all add: signed_divide_int_def signed_modulo_int_def a_def b_def sgn_if)
  then show ?thesis by (simp add: input_budget_def small all)
qed

lemma budget_workers:
  fixes w :: int
  assumes "0 < m" and "0 \<le> w * p div 100"
  shows "1 \<le> w * p div 100 div m \<longleftrightarrow> m \<le> w * p div 100"
  using assms pos_imp_zdiv_pos_iff [of m "w * p div 100"] by linarith

text \<open>The value of a quantity is a 64-bit integer.\<close>

definition quantity64 :: "host \<Rightarrow> bool" where
  "quantity64 h = (\<forall>s w. ho_ParseQuantity h s = Inr w \<longrightarrow> w < 2 ^ 63)"

lemma EffectiveNumWorkers_eq:
  assumes "quantity64 h"
  shows "EffectiveNumWorkers h c = Inr n \<longleftrightarrow>
      0 < pc_NumWorkers c \<and> 1 \<le> pc_InputFileDiskBudgetPercent c \<and> pc_InputFileDiskBudgetPercent c \<le> 100
      \<and> 0 < pc_MaxInputFileSizeBytes c \<and> pc_WorkDirSizeLimit c \<noteq> []
      \<and> (\<exists>w. ho_ParseQuantity h (pc_WorkDirSizeLimit c) = Inr w \<and> 0 < w
           \<and> pc_MaxInputFileSizeBytes c \<le> w * pc_InputFileDiskBudgetPercent c div 100
           \<and> n = min (pc_NumWorkers c) (w * pc_InputFileDiskBudgetPercent c div 100 div pc_MaxInputFileSizeBytes c))"
proof (cases "ho_ParseQuantity h (pc_WorkDirSizeLimit c)")
  case (Inr w)
  let ?p = "pc_InputFileDiskBudgetPercent c" and ?m = "pc_MaxInputFileSizeBytes c"
  show ?thesis
  proof (cases "0 < pc_NumWorkers c \<and> 0 < ?p \<and> ?p \<le> 100 \<and> 0 < ?m \<and> pc_WorkDirSizeLimit c \<noteq> [] \<and> 0 < w")
    case True
    then have nn: "0 \<le> w * ?p div 100" by (simp add: pos_imp_zdiv_nonneg_iff)
    have "input_budget w ?p sdiv ?m = w * ?p div 100 div ?m"
      using True nn assms Inr by (simp add: input_budget_exact quantity64_def signed_divide_int_def sgn_if)
    with True Inr budget_workers [of ?m w ?p] nn show ?thesis
      by (auto simp: EffectiveNumWorkers_def Let_def min_def)
  qed (use Inr in \<open>auto simp: EffectiveNumWorkers_def\<close>)
qed (auto simp: EffectiveNumWorkers_def)

text \<open>
  The number of workers is exactly what the disk budget allows. With a quantity
  parser that returns 64-bit values, it is the configured number or, if that is smaller,
  the number of largest input files that fit into the configured share of the work
  directory, for every setting that is in range and without any overflow on the way;
  a budget without room for one file is refused. The files all workers stage at once
  then fit into the share.
\<close>

theorem effective_workers_exact:
  assumes "quantity64 h"
  shows "(EffectiveNumWorkers h c = Inr n \<longleftrightarrow>
      0 < pc_NumWorkers c \<and> 1 \<le> pc_InputFileDiskBudgetPercent c \<and> pc_InputFileDiskBudgetPercent c \<le> 100
      \<and> 0 < pc_MaxInputFileSizeBytes c \<and> pc_WorkDirSizeLimit c \<noteq> []
      \<and> (\<exists>w. ho_ParseQuantity h (pc_WorkDirSizeLimit c) = Inr w \<and> 0 < w
           \<and> pc_MaxInputFileSizeBytes c \<le> w * pc_InputFileDiskBudgetPercent c div 100
           \<and> n = min (pc_NumWorkers c) (w * pc_InputFileDiskBudgetPercent c div 100 div pc_MaxInputFileSizeBytes c)))
    \<and> (EffectiveNumWorkers h c = Inr n \<longrightarrow> 1 \<le> n \<and> n \<le> pc_NumWorkers c
       \<and> (\<exists>w. ho_ParseQuantity h (pc_WorkDirSizeLimit c) = Inr w
            \<and> 100 * (n * pc_MaxInputFileSizeBytes c) \<le> w * pc_InputFileDiskBudgetPercent c))"
proof (intro conjI impI EffectiveNumWorkers_eq [OF assms])
  let ?m = "pc_MaxInputFileSizeBytes c"
  assume "EffectiveNumWorkers h c = Inr n"
  then obtain w where w: "0 < pc_NumWorkers c" "0 < ?m" "ho_ParseQuantity h (pc_WorkDirSizeLimit c) = Inr w"
      "?m \<le> w * pc_InputFileDiskBudgetPercent c div 100"
      "n = min (pc_NumWorkers c) (w * pc_InputFileDiskBudgetPercent c div 100 div ?m)"
    using EffectiveNumWorkers_eq [OF assms] by blast
  let ?b = "w * pc_InputFileDiskBudgetPercent c div 100"
  have one: "1 \<le> ?b div ?m" using w(2,4) budget_workers [of ?m w "pc_InputFileDiskBudgetPercent c"] by linarith
  then show "1 \<le> n" "n \<le> pc_NumWorkers c" using w by simp_all
  have "n * ?m \<le> (?b div ?m) * ?m" using w(2,5) by (intro mult_right_mono) auto
  also have "\<dots> \<le> ?b" using w(2) by (metis div_mult_mod_eq le_add_same_cancel1 pos_mod_sign)
  finally have "100 * (n * ?m) \<le> 100 * ?b" by simp
  also have "\<dots> \<le> w * pc_InputFileDiskBudgetPercent c"
    by (metis div_mult_mod_eq le_add_same_cancel1 mult.commute pos_mod_sign zero_less_numeral)
  finally show "\<exists>w. ho_ParseQuantity h (pc_WorkDirSizeLimit c) = Inr w \<and> 100 * (n * ?m) \<le> w * pc_InputFileDiskBudgetPercent c"
    using w(3) by blast
qed

definition sample_host :: host where
  "sample_host = \<lparr>ho_Stat = (\<lambda>p. Inr ()), ho_ReadFile = (\<lambda>p. Inr ''key''), ho_Secret = (\<lambda>n. Inr None),
     ho_ParseQuantity = (\<lambda>s. if s = ''10Gi'' then Inr (10 * 2 ^ 30) else Inl (ErrInvalid s))\<rparr>"

lemma sample_quantity: "quantity64 sample_host"
  by (simp add: quantity64_def sample_host_def)

theorem effective_workers_exact_witness:
  "EffectiveNumWorkers sample_host NewConfig = Inr 5
   \<and> EffectiveNumWorkers sample_host (NewConfig\<lparr>pc_NumWorkers := 64, pc_InputFileDiskBudgetPercent := 50\<rparr>) = Inr 25"
proof -
  show ?thesis
    using effective_workers_exact [OF sample_quantity, of NewConfig 5]
      effective_workers_exact [OF sample_quantity, of "NewConfig\<lparr>pc_NumWorkers := 64, pc_InputFileDiskBudgetPercent := 50\<rparr>" 25]
    by (simp add: NewConfig_def sample_host_def DefaultNumWorkers_def DefaultWorkDirSizeLimit_def
        DefaultInputFileDiskBudgetPercent_def DefaultMaxInputFileSizeBytes_def)
qed

section \<open>What a validated configuration has\<close>

lemma settings_checked:
  assumes "settings_check h c = Inr ()"
  shows "is_ok (EffectiveNumWorkers h c)" "concurrency_validate (pc_Concurrency c) = Inr ()"
    "is_ok (NewEndpointAllowlist (pc_ExtraEndpoints c))" "0 < pc_NumWorkers c"
    "second \<le> rc_LeaseDuration (pc_Resumable c)" "rc_LeaseDuration (pc_Resumable c) mod second = 0"
    "0 < pc_TaskWaitTime c" "pc_TaskWaitTime c < pc_PollInterval c" "0 < rc_RecoveryWindow (pc_Resumable c)"
  using assms unfolding settings_check_def by simp_all

lemma concurrency_checked:
  assumes "concurrency_validate cc = Inr ()"
  shows "0 < cc_PerEndpoint cc" "cc_PerEndpoint cc \<le> cc_Global cc" "0 < cc_Recovery cc"
    "ca_Enabled (cc_AIMD cc) \<Longrightarrow> 0 < ca_Min (cc_AIMD cc) \<and> ca_Min (cc_AIMD cc) \<le> cc_PerEndpoint cc \<and> 0 < ca_AdditiveIncrease (cc_AIMD cc)
       \<and> \<not> float_le (ca_BackoffFactor (cc_AIMD cc)) 0 \<and> \<not> float_ge (ca_BackoffFactor (cc_AIMD cc)) 1"
  using assms unfolding concurrency_validate_def by (simp_all add: Let_def)

lemma validate_gateways_settings:
  "validateGateways h c = (r, c') \<Longrightarrow> c' = c \<or> c' = c\<lparr>pc_DispatchMode := DispatchModeSync\<rparr>"
  unfolding validateGateways_def Let_def by (auto split: if_splits)

lemma EffectiveNumWorkers_mode [simp]: "EffectiveNumWorkers h (c\<lparr>pc_DispatchMode := m\<rparr>) = EffectiveNumWorkers h c"
  by (simp add: EffectiveNumWorkers_def Let_def split: sum.split)

lemma settings_check_mode [simp]: "settings_check h (c\<lparr>pc_DispatchMode := m\<rparr>) = settings_check h c"
  by (simp add: settings_check_def)

lemma Validate_settings:
  assumes "Validate h c = (Inr (), c')"
  shows "settings_check h c' = Inr ()"
  using assms validate_gateways_settings [of h c "Inr ()" c'] unfolding Validate_def
  by (auto simp: settings_check_mode split: sum.splits)

end
