(* ===== verification/Inference_Routing.thy ===== *)
theory Inference_Routing
  imports Processor_Config Pipeline
begin

text \<open>
  From the configuration to the inference clients of a processor: the resolver of the
  direct mode and its pool of clients
  (\<^verbatim>\<open>pkg/clients/inference/inference_client_resolver.go\<close>), the semaphores and controllers
  made for them (\<^verbatim>\<open>initConcurrencyControls\<close> in \<^verbatim>\<open>worker.go\<close>), what a job looks up
  (\<^verbatim>\<open>buildAIMDModels\<close> in \<^verbatim>\<open>execute_pipeline.go\<close>), and the resolver of the queue mode with
  the routes its results travel on
  (\<^verbatim>\<open>async_inference_client_resolver.go\<close>). A client is its number in the order of creation;
  whether one can be created (certificates, keys) is a parameter.
\<close>

section \<open>The resolver of the direct mode\<close>

record GatewayResolver =
  gr_globalClient :: "nat option"
  gr_modelClients :: "(string \<times> nat) list"
  gr_clientURLs :: "(nat \<times> string) list"

definition NewGlobalResolver :: "(GatewayClientConfig \<Rightarrow> unit res) \<Rightarrow> GatewayClientConfig \<Rightarrow> GatewayResolver res" where
  "NewGlobalResolver newClient config = (case newClient config of
      Inl e \<Rightarrow> Inl e
    | Inr _ \<Rightarrow> Inr \<lparr>gr_globalClient = Some 0, gr_modelClients = [], gr_clientURLs = [(0, gc_URL config)]\<rparr>)"

text \<open>The loop of the constructor; \<open>pool\<close> holds the configurations that have a client.\<close>

fun per_model_loop ::
  "(GatewayClientConfig \<Rightarrow> unit res) \<Rightarrow> (GatewayClientConfig \<times> nat) list \<Rightarrow> GatewayResolver \<Rightarrow> (string \<times> GatewayClientConfig) list \<Rightarrow> GatewayResolver res" where
  "per_model_loop newClient pool r [] = Inr r"
| "per_model_loop newClient pool r ((model, gw) # configs) =
    (case map_of pool gw of
       Some c \<Rightarrow> per_model_loop newClient pool (r\<lparr>gr_modelClients := gr_modelClients r @ [(model, c)]\<rparr>) configs
     | None \<Rightarrow>
         (case newClient gw of
            Inl e \<Rightarrow> Inl e
          | Inr _ \<Rightarrow>
              let c = length pool in
              per_model_loop newClient (pool @ [(gw, c)])
                (r\<lparr>gr_modelClients := gr_modelClients r @ [(model, c)], gr_clientURLs := gr_clientURLs r @ [(c, gc_URL gw)]\<rparr>) configs))"

definition NewPerModelResolver :: "(GatewayClientConfig \<Rightarrow> unit res) \<Rightarrow> (string \<times> GatewayClientConfig) list \<Rightarrow> GatewayResolver res" where
  "NewPerModelResolver newClient configs =
    per_model_loop newClient [] \<lparr>gr_globalClient = None, gr_modelClients = [], gr_clientURLs = []\<rparr> configs"

definition IsGlobal :: "GatewayResolver \<Rightarrow> bool" where
  "IsGlobal r = (gr_globalClient r \<noteq> None)"

definition ClientFor :: "GatewayResolver \<Rightarrow> string \<Rightarrow> nat option" where
  "ClientFor r modelID = (case gr_globalClient r of Some c \<Rightarrow> Some c | None \<Rightarrow> map_of (gr_modelClients r) modelID)"

fun unseen :: "nat list \<Rightarrow> nat list \<Rightarrow> nat list" where
  "unseen seen [] = []"
| "unseen seen (c # cs) = (if c \<in> set seen then unseen seen cs else c # unseen (c # seen) cs)"

definition Clients :: "GatewayResolver \<Rightarrow> nat list" where
  "Clients r = (case gr_globalClient r of Some c \<Rightarrow> [c] | None \<Rightarrow> unseen [] (map snd (gr_modelClients r)))"

definition ClientLabel :: "GatewayResolver \<Rightarrow> nat \<Rightarrow> string" where
  "ClientLabel r c = (case map_of (gr_clientURLs r) c of Some url \<Rightarrow> url | None \<Rightarrow> ''unknown'')"

text \<open>The choice between the resolvers of the direct mode when the clients are built (\<^verbatim>\<open>clientset.go\<close>).\<close>

definition direct_resolver :: "(GatewayClientConfig \<Rightarrow> unit res) \<Rightarrow> ResolvedGateways \<Rightarrow> GatewayResolver option res" where
  "direct_resolver newClient g = (case rg_Global g of
      Some config \<Rightarrow> map_sum id Some (NewGlobalResolver newClient config)
    | None \<Rightarrow> if rg_PerModel g \<noteq> [] then map_sum id Some (NewPerModelResolver newClient (rg_PerModel g)) else Inr None)"

section \<open>Concurrency controls\<close>

record endpointLimit =
  el_sem :: AdaptiveSemaphore
  el_aimd :: "AIMDController option"
  el_label :: string

text \<open>
  The factor of the controller. A factor that is not a number turns the product with the
  limit into one too, and its conversion to an integer is zero or the least integer, as
  the architecture has it; the limit then falls to its minimum, as it does with factor
  zero.
\<close>

definition controller_factor :: "go_float \<Rightarrow> float64" where
  "controller_factor f = (case f of Finite m k \<Rightarrow> \<lparr>fl_mant = nat m, fl_exp = k\<rparr> | _ \<Rightarrow> \<lparr>fl_mant = 0, fl_exp = 0\<rparr>)"

definition controller_config :: "ConcurrencyConfig \<Rightarrow> AIMDConfig" where
  "controller_config cc =
    \<lparr>MinLimit = ca_Min (cc_AIMD cc), MaxLimit = cc_PerEndpoint cc, BackoffFactor = controller_factor (ca_BackoffFactor (cc_AIMD cc)),
     AdditiveIncrease = ca_AdditiveIncrease (cc_AIMD cc)\<rparr>"

definition new_endpoint :: "ConcurrencyConfig \<Rightarrow> string \<Rightarrow> endpointLimit res" where
  "new_endpoint cc label = (case NewAdaptive (cc_PerEndpoint cc) True of
      Inl e \<Rightarrow> Inl e
    | Inr sem \<Rightarrow>
        if ca_Enabled (cc_AIMD cc) then
          (let (ctl, call) = NewAIMDController (controller_config cc) (cc_PerEndpoint cc)
           in Inr \<lparr>el_sem = (case call of None \<Rightarrow> sem | Some n \<Rightarrow> as_SetLimit n sem), el_aimd = Some ctl, el_label = label\<rparr>)
        else Inr \<lparr>el_sem = sem, el_aimd = None, el_label = label\<rparr>)"

fun new_endpoints :: "ConcurrencyConfig \<Rightarrow> GatewayResolver \<Rightarrow> nat list \<Rightarrow> (nat \<times> endpointLimit) list res" where
  "new_endpoints cc r [] = Inr []"
| "new_endpoints cc r (c # cs) = (case new_endpoint cc (ClientLabel r c) of
      Inl e \<Rightarrow> Inl e
    | Inr ep \<Rightarrow> (case new_endpoints cc r cs of Inl e \<Rightarrow> Inl e | Inr eps \<Rightarrow> Inr ((c, ep) # eps)))"

text \<open>
  What the controls of a running processor are: the worker tokens, and in direct mode
  the global semaphore and a limit for each client.
\<close>

record controls =
  ct_tokens :: semaphore
  ct_globalSem :: "semaphore option"
  ct_endpointLimits :: "(nat \<times> endpointLimit) list"

definition initConcurrencyControls :: "host \<Rightarrow> ProcessorConfig \<Rightarrow> GatewayResolver option \<Rightarrow> controls res" where
  "initConcurrencyControls h cfg inference = (case EffectiveNumWorkers h cfg of
      Inl e \<Rightarrow> Inl e
    | Inr effectiveWorkers \<Rightarrow>
        (case sem_New effectiveWorkers True of
           Inl e \<Rightarrow> Inl e
         | Inr tokens \<Rightarrow>
             (case inference of
                None \<Rightarrow> Inr \<lparr>ct_tokens = tokens, ct_globalSem = None, ct_endpointLimits = []\<rparr>
              | Some r \<Rightarrow>
                  (case sem_New (cc_Global (pc_Concurrency cfg)) True of
                     Inl e \<Rightarrow> Inl e
                   | Inr g \<Rightarrow>
                       (case new_endpoints (pc_Concurrency cfg) r (Clients r) of
                          Inl e \<Rightarrow> Inl e
                        | Inr eps \<Rightarrow> Inr \<lparr>ct_tokens = tokens, ct_globalSem = Some g, ct_endpointLimits = eps\<rparr>)))))"

definition route_method :: "ProcessorConfig \<Rightarrow> RouteKeyMethod" where
  "route_method cfg = (if pc_RouteKeyMethod cfg = ''tenant'' then RouteKeyMethodTenant else RouteKeyMethodBare)"

text \<open>
  The endpoint of each route key of a job, by the number of its client: the pointers of
  \<^verbatim>\<open>EndpointAIMD\<close> are those of the shared limit.
\<close>

fun buildAIMDModels ::
  "GatewayResolver \<Rightarrow> (nat \<times> endpointLimit) list \<Rightarrow> RouteKeyMethod \<Rightarrow> string \<Rightarrow> string list \<Rightarrow> string \<Rightarrow> nat option" where
  "buildAIMDModels r limits method tenantID [] = Map.empty"
| "buildAIMDModels r limits method tenantID (modelID # ms) =
    (let key = routeKey method tenantID modelID; rest = buildAIMDModels r limits method tenantID ms in
     case ClientFor r key of
       None \<Rightarrow> rest
     | Some client \<Rightarrow> if map_of limits client = None then rest else rest(key \<mapsto> client))"

text \<open>The dispatcher of one job has a global semaphore of its own.\<close>

definition NewAIMDDispatcher :: "int \<Rightarrow> semaphore res" where
  "NewAIMDDispatcher globalLimit = sem_New globalLimit False"

section \<open>Clients and endpoints of the direct mode\<close>

text \<open>What the constructor keeps: one client for each configuration, numbered in order, with its URL as label.\<close>

definition pool_ok :: "(GatewayClientConfig \<times> nat) list \<Rightarrow> GatewayResolver \<Rightarrow> bool" where
  "pool_ok pool r = (distinct (map fst pool) \<and> map snd pool = [0..<length pool] \<and> gr_globalClient r = None
    \<and> gr_clientURLs r = map (\<lambda>(gw, c). (c, gc_URL gw)) pool)"

lemma map_of_None_fst: "map_of xs k = None \<longleftrightarrow> k \<notin> set (map fst xs)"
  by (simp add: map_of_eq_None_iff)

lemma pool_ok_add:
  assumes "pool_ok pool r" and "map_of pool gw = None"
  shows "pool_ok (pool @ [(gw, length pool)]) (r\<lparr>gr_modelClients := ms, gr_clientURLs := gr_clientURLs r @ [(length pool, gc_URL gw)]\<rparr>)"
  using assms by (simp add: pool_ok_def map_of_None_fst)

lemma per_model_loop_ok:
  assumes "per_model_loop newClient pool r configs = Inr r'" and "pool_ok pool r"
  shows "\<exists>pool'. pool_ok pool' r' \<and> map_of pool \<subseteq>\<^sub>m map_of pool'
    \<and> gr_modelClients r' = gr_modelClients r @ map (\<lambda>(m, gw). (m, the (map_of pool' gw))) configs
    \<and> (\<forall>(m, gw) \<in> set configs. map_of pool' gw \<noteq> None)"
  using assms
proof (induction newClient pool r configs rule: per_model_loop.induct)
  case (1 newClient pool r)
  then show ?case by auto
next
  case (2 newClient pool r model gw configs)
  show ?case
  proof (cases "map_of pool gw")
    case (Some c)
    have "pool_ok pool (r\<lparr>gr_modelClients := ms\<rparr>)" for ms using 2(4) by (simp add: pool_ok_def)
    with 2(2) [OF Some] 2(3) Some obtain pool' where pool': "pool_ok pool' r'" "map_of pool \<subseteq>\<^sub>m map_of pool'"
        "gr_modelClients r' = gr_modelClients r @ (model, c) # map (\<lambda>(m, gw). (m, the (map_of pool' gw))) configs"
        "\<forall>(m, gw) \<in> set configs. map_of pool' gw \<noteq> None"
      by auto
    have "map_of pool' gw = Some c" using pool'(2) Some by (metis domI map_le_def)
    with pool' show ?thesis by (intro exI [of _ pool']) auto
  next
    case None
    let ?pool = "pool @ [(gw, length pool)]"
    from 2(3) None obtain u where u: "newClient gw = Inr u" by (auto split: sum.splits)
    from 2(1) [OF None u refl] 2(3) None u pool_ok_add [OF 2(4) None] obtain pool' where pool': "pool_ok pool' r'" "map_of ?pool \<subseteq>\<^sub>m map_of pool'"
        "gr_modelClients r' = gr_modelClients r @ (model, length pool) # map (\<lambda>(m, gw). (m, the (map_of pool' gw))) configs"
        "\<forall>(m, gw) \<in> set configs. map_of pool' gw \<noteq> None"
      by (auto simp: Let_def)
    have "map_of ?pool gw = Some (length pool)" using None by (simp add: map_add_def)
    then have "map_of pool' gw = Some (length pool)" using pool'(2) by (metis domI map_le_def)
    moreover have "map_of pool \<subseteq>\<^sub>m map_of ?pool" using None by (auto simp: map_le_def map_add_def split: option.split)
    then have "map_of pool \<subseteq>\<^sub>m map_of pool'" using pool'(2) map_le_trans by blast
    ultimately show ?thesis using pool' by (intro exI [of _ pool']) auto
  qed
qed

lemma pool_client_unique:
  assumes "pool_ok pool r" and "map_of pool g1 = Some c" and "map_of pool g2 = Some c"
  shows "g1 = g2"
proof -
  have "distinct (map snd pool)" using assms(1) by (simp add: pool_ok_def)
  with assms(2,3) show ?thesis by (metis eq_key_imp_eq_value map_of_SomeD distinct_map inj_on_def prod.inject snd_conv)
qed

lemma pool_label:
  assumes "pool_ok pool r" and "map_of pool gw = Some c"
  shows "ClientLabel r c = gc_URL gw"
proof -
  have "distinct (map fst (gr_clientURLs r))" "(c, gc_URL gw) \<in> set (gr_clientURLs r)"
    using assms map_of_SomeD [OF assms(2)] by (force simp: pool_ok_def comp_def case_prod_beta)+
  then have "map_of (gr_clientURLs r) c = Some (gc_URL gw)" by simp
  then show ?thesis by (simp add: ClientLabel_def)
qed

text \<open>The configuration behind a route key, and what the resolver of the configuration makes of it.\<close>

definition resolved :: "ResolvedGateways \<Rightarrow> string \<Rightarrow> GatewayClientConfig option" where
  "resolved g key = (case rg_Global g of Some c \<Rightarrow> Some c | None \<Rightarrow> map_of (rg_PerModel g) key)"

lemma map_of_second: "map_of (map (\<lambda>(k, v). (k, f v)) xs) k = map_option f (map_of xs k)"
  by (induction xs) auto

lemma direct_resolver_routes:
  assumes "direct_resolver newClient g = Inr (Some r)"
  shows "ClientFor r k = None \<longleftrightarrow> resolved g k = None"
    and "resolved g k = Some gw \<Longrightarrow> ClientFor r k = Some c \<Longrightarrow> ClientLabel r c = gc_URL gw"
    and "ClientFor r k \<noteq> None \<Longrightarrow> ClientFor r k' = ClientFor r k \<longleftrightarrow> resolved g k' = resolved g k"
proof -
  have "(ClientFor r k = None \<longleftrightarrow> resolved g k = None)
      \<and> (resolved g k = Some gw \<longrightarrow> ClientFor r k = Some c \<longrightarrow> ClientLabel r c = gc_URL gw)
      \<and> (ClientFor r k \<noteq> None \<longrightarrow> (ClientFor r k' = ClientFor r k \<longleftrightarrow> resolved g k' = resolved g k))"
  proof (cases "rg_Global g")
    case (Some config)
    with assms show ?thesis
      by (auto simp: direct_resolver_def NewGlobalResolver_def resolved_def ClientFor_def ClientLabel_def split: sum.splits)
  next
    case None
    with assms have "per_model_loop newClient [] \<lparr>gr_globalClient = None, gr_modelClients = [], gr_clientURLs = []\<rparr> (rg_PerModel g) = Inr r"
      by (cases "NewPerModelResolver newClient (rg_PerModel g)") (auto simp: direct_resolver_def NewPerModelResolver_def split: if_splits)
    from per_model_loop_ok [OF this] obtain pool where pool: "pool_ok pool r"
        "gr_modelClients r = map (\<lambda>(m, gw). (m, the (map_of pool gw))) (rg_PerModel g)" "\<forall>(m, gw) \<in> set (rg_PerModel g). map_of pool gw \<noteq> None"
      by (auto simp: pool_ok_def)
    have client: "ClientFor r k = map_option (\<lambda>gw. the (map_of pool gw)) (map_of (rg_PerModel g) k)" for k
      using pool(1) by (simp add: ClientFor_def pool_ok_def pool(2) map_of_second)
    have known: "\<exists>c. map_of pool gw = Some c" if "map_of (rg_PerModel g) k = Some gw" for k gw
      using pool(3) map_of_SomeD [OF that] by auto
    have label: "ClientLabel r (the (map_of pool gw)) = gc_URL gw" if "map_of (rg_PerModel g) k = Some gw" for k gw
      using known [OF that] pool_label [OF pool(1)] by auto
    have same: "the (map_of pool gw') = the (map_of pool gw) \<longleftrightarrow> gw' = gw"
      if "map_of (rg_PerModel g) k' = Some gw'" "map_of (rg_PerModel g) k = Some gw" for k k' gw gw'
      using known [OF that(1)] known [OF that(2)] pool_client_unique [OF pool(1)] by auto
    show ?thesis
      using label same by (cases "map_of (rg_PerModel g) k"; cases "map_of (rg_PerModel g) k'") (auto simp: client resolved_def None)
  qed
  then show "ClientFor r k = None \<longleftrightarrow> resolved g k = None"
    and "resolved g k = Some gw \<Longrightarrow> ClientFor r k = Some c \<Longrightarrow> ClientLabel r c = gc_URL gw"
    and "ClientFor r k \<noteq> None \<Longrightarrow> ClientFor r k' = ClientFor r k \<longleftrightarrow> resolved g k' = resolved g k"
    by blast+
qed

definition gateway_for :: "ProcessorConfig \<Rightarrow> string \<Rightarrow> ModelGatewayConfig option" where
  "gateway_for c key = (case pc_GlobalInferenceGateway c of Some gw \<Rightarrow> Some gw | None \<Rightarrow> map_of (pc_ModelGateways c) key)"

lemma toGatewayClientConfig_URL [simp]: "gc_URL (toGatewayClientConfig gw key) = mg_URL gw"
  by (simp add: toGatewayClientConfig_def)

lemma resolve_each_URL:
  "resolve_each h ms = Inr rs \<Longrightarrow> map_option gc_URL (map_of rs k) = map_option mg_URL (map_of ms k)"
  by (induction h ms arbitrary: rs rule: resolve_each.induct) (auto split: sum.splits)

lemma resolved_URL:
  assumes "ResolveModelGateways h c = Inr g" and "\<not> IsAsync c"
  shows "map_option gc_URL (resolved g k) = map_option mg_URL (gateway_for c k)"
  using assms resolve_each_URL [of h "pc_ModelGateways c"] unfolding ResolveModelGateways_def
  by (auto simp: resolved_def gateway_for_def resolve_global_def split: option.splits sum.splits)

lemma set_unseen: "set (unseen seen cs) = set cs - set seen"
  by (induction seen cs rule: unseen.induct) auto

lemma ClientFor_Clients: "ClientFor r k = Some c \<Longrightarrow> c \<in> set (Clients r)"
  by (auto simp: ClientFor_def Clients_def set_unseen dest: map_of_SomeD split: option.splits) (metis map_of_SomeD image_eqI snd_conv)

lemma new_endpoints_lookup:
  "new_endpoints cc r cs = Inr eps \<Longrightarrow> c \<in> set cs \<Longrightarrow> \<exists>ep. map_of eps c = Some ep \<and> new_endpoint cc (ClientLabel r c) = Inr ep"
  by (induction cs arbitrary: eps) (auto split: sum.splits)

lemma new_endpoints_all:
  "new_endpoints cc r cs = Inr eps \<Longrightarrow> (c, ep) \<in> set eps \<Longrightarrow> new_endpoint cc (ClientLabel r c) = Inr ep"
  by (induction cs arbitrary: eps) (auto split: sum.splits)

text \<open>The endpoint of a validated configuration starts at the configured limit; its controller agrees.\<close>

lemma new_endpoint_ok:
  assumes "concurrency_validate cc = Inr ()"
  shows "\<exists>ep. new_endpoint cc label = Inr ep \<and> el_label ep = label
    \<and> el_sem ep = \<lparr>as_limit = cc_PerEndpoint cc, as_count = 0, as_guard = True, as_fired = 0\<rparr>
    \<and> el_aimd ep = (if ca_Enabled (cc_AIMD cc)
        then Some \<lparr>ctl_cfg = controller_config cc, ctl_limit = cc_PerEndpoint cc, ctl_successCount = 0\<rparr> else None)"
  using concurrency_checked [OF assms]
  by (auto simp: new_endpoint_def NewAdaptive_def NewAIMDController_def controller_config_def clamp_def Let_def)

lemma new_endpoints_ok: "concurrency_validate cc = Inr () \<Longrightarrow> \<exists>eps. new_endpoints cc r cs = Inr eps"
  using new_endpoint_ok by (induction cs) (auto split: sum.split, metis sum.distinct(1))

lemma buildAIMDModels_key:
  assumes "modelID \<in> set ms" and "ClientFor r (routeKey method t modelID) = Some c" and "map_of limits c \<noteq> None"
  shows "buildAIMDModels r limits method t ms (routeKey method t modelID) = Some c"
  using assms by (induction ms) (auto simp: Let_def split: option.splits)

text \<open>What ingestion asks the resolver (\<^verbatim>\<open>preprocessor.go\<close>): nothing in global mode, else whether the key has a client.\<close>

definition registered :: "GatewayResolver \<Rightarrow> gateways" where
  "registered r = (if IsGlobal r then GlobalGateway else ModelGateways (map fst (gr_modelClients r)))"

lemma lookup_iff_client: "lookupModel (registered r) method t m \<longleftrightarrow> ClientFor r (routeKey method t m) \<noteq> None"
  by (cases "gr_globalClient r") (simp_all add: lookupModel_def registered_def IsGlobal_def ClientFor_def map_of_eq_None_iff del: not_None_eq)

text \<open>
  C25: A model that ingestion accepts is routed and limited as configured. For a
  validated configuration of the direct mode, the resolver built from it and the limits
  made for its clients: a model is accepted exactly if a gateway is configured for its
  route key; its requests then go to a client of that gateway, whose endpoint limit
  starts at the configured concurrency, and the job finds that limit under the route key
  of the request. Two keys share a client, and with it a limit, exactly if their resolved
  settings are equal.
\<close>

theorem accepted_model_is_routed:
  assumes "Validate h cfg0 = (Inr (), cfg)" and "\<not> IsAsync cfg" and "ResolveModelGateways h cfg = Inr g"
    and "direct_resolver newClient g = Inr (Some r)" and "initConcurrencyControls h cfg (Some r) = Inr ct"
    and "modelID \<in> set models" and "key = routeKey (route_method cfg) t modelID"
  shows "(lookupModel (registered r) (route_method cfg) t modelID \<longleftrightarrow> gateway_for cfg key \<noteq> None)
    \<and> (lookupModel (registered r) (route_method cfg) t modelID \<longrightarrow>
        (\<exists>c gw ep. ClientFor r key = Some c \<and> gateway_for cfg key = Some gw \<and> ClientLabel r c = mg_URL gw
           \<and> map_of (ct_endpointLimits ct) c = Some ep \<and> el_label ep = mg_URL gw \<and> as_limit (el_sem ep) = cc_PerEndpoint (pc_Concurrency cfg)
           \<and> buildAIMDModels r (ct_endpointLimits ct) (route_method cfg) t models key = Some c
           \<and> (\<forall>key'. ClientFor r key' = Some c \<longleftrightarrow> resolved g key' = resolved g key)))"
proof (intro conjI impI)
  note url = resolved_URL [OF assms(3,2), of key] and routes = direct_resolver_routes [OF assms(4)]
  show iff: "lookupModel (registered r) (route_method cfg) t modelID \<longleftrightarrow> gateway_for cfg key \<noteq> None"
    using url routes(1) [of key] assms(7) unfolding lookup_iff_client by (metis option.map_disc_iff)
  assume acc: "lookupModel (registered r) (route_method cfg) t modelID"
  then obtain c where c: "ClientFor r key = Some c" using assms(7) by (auto simp: lookup_iff_client)
  obtain gw gc where gw: "gateway_for cfg key = Some gw" "resolved g key = Some gc" "gc_URL gc = mg_URL gw"
    using acc iff url by (cases "resolved g key") auto
  then have label: "ClientLabel r c = mg_URL gw" using routes(2) c by simp
  have eps: "new_endpoints (pc_Concurrency cfg) r (Clients r) = Inr (ct_endpointLimits ct)"
    using assms(5) by (auto simp: initConcurrencyControls_def split: sum.splits)
  then obtain ep where ep: "map_of (ct_endpointLimits ct) c = Some ep" "new_endpoint (pc_Concurrency cfg) (mg_URL gw) = Inr ep"
    using new_endpoints_lookup [OF eps ClientFor_Clients [OF c]] label by auto
  have "concurrency_validate (pc_Concurrency cfg) = Inr ()" by (rule settings_checked(2) [OF Validate_settings [OF assms(1)]])
  from new_endpoint_ok [OF this, of "mg_URL gw"] ep(2) have "el_label ep = mg_URL gw" "as_limit (el_sem ep) = cc_PerEndpoint (pc_Concurrency cfg)"
    by auto
  moreover have "buildAIMDModels r (ct_endpointLimits ct) (route_method cfg) t models key = Some c"
    using buildAIMDModels_key [OF assms(6), of r] c ep(1) assms(7) by simp
  moreover have "ClientFor r key' = Some c \<longleftrightarrow> resolved g key' = resolved g key" for key' using routes(3) [of key key'] c by simp
  ultimately show "\<exists>c gw ep. ClientFor r key = Some c \<and> gateway_for cfg key = Some gw \<and> ClientLabel r c = mg_URL gw
       \<and> map_of (ct_endpointLimits ct) c = Some ep \<and> el_label ep = mg_URL gw \<and> as_limit (el_sem ep) = cc_PerEndpoint (pc_Concurrency cfg)
       \<and> buildAIMDModels r (ct_endpointLimits ct) (route_method cfg) t models key = Some c
       \<and> (\<forall>key'. ClientFor r key' = Some c \<longleftrightarrow> resolved g key' = resolved g key)"
    using c gw(1) label ep(1) by blast
qed

definition sample_gateway :: "string \<Rightarrow> ModelGatewayConfig" where
  "sample_gateway url = \<lparr>mg_URL = url, mg_APIKeyName = [], mg_APIKeyFile = [], mg_InferenceObjective = [], mg_RequestTimeout = Some (60 * second),
     mg_MaxRetries = Some 2, mg_InitialBackoff = Some second, mg_MaxBackoff = Some (8 * second), mg_TLSInsecureSkipVerify = False,
     mg_TLSCACertFile = [], mg_TLSClientCertFile = [], mg_TLSClientKeyFile = []\<rparr>"

definition sample_config :: ProcessorConfig where
  "sample_config = NewConfig\<lparr>pc_ModelGateways := [(''m1'', sample_gateway ''http://a''), (''m2'', sample_gateway ''http://b''),
     (''m3'', sample_gateway ''http://a'')]\<rparr>"

definition sample_gateways :: ResolvedGateways where
  "sample_gateways = (case ResolveModelGateways sample_host sample_config of Inr g \<Rightarrow> g)"

definition sample_resolver :: GatewayResolver where
  "sample_resolver = \<lparr>gr_globalClient = None, gr_modelClients = [(''m1'', 0), (''m2'', 1), (''m3'', 0)],
     gr_clientURLs = [(0, ''http://a''), (1, ''http://b'')]\<rparr>"

definition sample_controls :: controls where
  "sample_controls = (case initConcurrencyControls sample_host sample_config (Some sample_resolver) of Inr ct \<Rightarrow> ct)"

lemma sample_valid: "Validate sample_host sample_config = (Inr (), sample_config)"
  by code_simp

lemma sample_resolved:
  "ResolveModelGateways sample_host sample_config = Inr sample_gateways" "\<not> IsAsync sample_config"
  "direct_resolver (\<lambda>c. Inr ()) sample_gateways = Inr (Some sample_resolver)"
  "initConcurrencyControls sample_host sample_config (Some sample_resolver) = Inr sample_controls"
  by code_simp+

theorem accepted_model_is_routed_witness:
  "lookupModel (registered sample_resolver) RouteKeyMethodBare ''t'' ''m3''
   \<and> (\<exists>c ep. ClientFor sample_resolver ''m3'' = Some c \<and> ClientFor sample_resolver ''m1'' = Some c \<and> ClientFor sample_resolver ''m2'' \<noteq> Some c
        \<and> map_of (ct_endpointLimits sample_controls) c = Some ep \<and> el_label ep = ''http://a'' \<and> as_limit (el_sem ep) = 10)"
proof -
  have eval: "route_method sample_config = RouteKeyMethodBare" "routeKey RouteKeyMethodBare ''t'' ''m3'' = ''m3''"
    "lookupModel (registered sample_resolver) RouteKeyMethodBare ''t'' ''m3''" "gateway_for sample_config ''m3'' = Some (sample_gateway ''http://a'')"
    "resolved sample_gateways ''m1'' = resolved sample_gateways ''m3''" "resolved sample_gateways ''m2'' \<noteq> resolved sample_gateways ''m3''"
    "cc_PerEndpoint (pc_Concurrency sample_config) = 10" "mg_URL (sample_gateway ''http://a'') = ''http://a''"
    by code_simp+
  then show ?thesis
    using accepted_model_is_routed [OF sample_valid sample_resolved(2,1,3,4), of "''m3''" "[''m3'']" "''m3''" "''t''"] by auto
qed

text \<open>
  An endpoint as the adaptive limit needs it: the semaphore starts at the configured
  limit, within the global one, the controller agrees with it, and meets the precondition
  of the controller's bounds if the factor is a number and the bounds leave room in 53
  and 64 bits.
\<close>

definition sound_endpoint :: "ConcurrencyConfig \<Rightarrow> endpointLimit \<Rightarrow> bool" where
  "sound_endpoint cc ep = (as_limit (el_sem ep) = cc_PerEndpoint cc \<and> as_limit (el_sem ep) \<le> cc_Global cc
    \<and> (\<forall>ctl. el_aimd ep = Some ctl \<longrightarrow> ctl_limit ctl = as_limit (el_sem ep)
         \<and> (\<forall>m k. ca_BackoffFactor (cc_AIMD cc) = Finite m k \<and> m < 2 ^ 53 \<and> MaxLimit (ctl_cfg ctl) < 2 ^ 53
              \<and> MaxLimit (ctl_cfg ctl) + AdditiveIncrease (ctl_cfg ctl) < 2 ^ 63 \<longrightarrow> aimd_ok (ctl_cfg ctl))))"

lemma new_endpoint_sound:
  assumes "concurrency_validate cc = Inr ()" and "new_endpoint cc label = Inr ep"
  shows "sound_endpoint cc ep"
proof -
  have ep: "as_limit (el_sem ep) = cc_PerEndpoint cc" "el_aimd ep = (if ca_Enabled (cc_AIMD cc)
      then Some \<lparr>ctl_cfg = controller_config cc, ctl_limit = cc_PerEndpoint cc, ctl_successCount = 0\<rparr> else None)"
    using new_endpoint_ok [OF assms(1), of label] assms(2) by auto
  have "aimd_ok (controller_config cc)" if "ca_Enabled (cc_AIMD cc)" "ca_BackoffFactor (cc_AIMD cc) = Finite m k" "m < 2 ^ 53"
    "cc_PerEndpoint cc < 2 ^ 53" "cc_PerEndpoint cc + ca_AdditiveIncrease (cc_AIMD cc) < 2 ^ 63" for m k
    using concurrency_checked(4) [OF assms(1) that(1)] that(2-)
    by (simp add: controller_config_def controller_factor_def aimd_ok_def unit_float_def float_le_def float_ge_def nat_less_iff)
  then show ?thesis
    using ep concurrency_checked(2) [OF assms(1)] by (auto simp: sound_endpoint_def controller_config_def)
qed

lemma init_endpoints:
  assumes "initConcurrencyControls h cfg inference = Inr ct" and "(c, ep) \<in> set (ct_endpointLimits ct)"
  shows "\<exists>label. new_endpoint (pc_Concurrency cfg) label = Inr ep"
proof (cases inference)
  case (Some r)
  with assms(1) have "new_endpoints (pc_Concurrency cfg) r (Clients r) = Inr (ct_endpointLimits ct)"
    unfolding initConcurrencyControls_def by (simp split: sum.splits) auto
  from new_endpoints_all [OF this assms(2)] show ?thesis by blast
qed (use assms in \<open>simp add: initConcurrencyControls_def split: sum.splits; force\<close>)

lemma init_tokens:
  assumes "EffectiveNumWorkers h cfg = Inr n" and "1 \<le> n" and "concurrency_validate (pc_Concurrency cfg) = Inr ()"
  shows "\<exists>ct. initConcurrencyControls h cfg inference = Inr ct \<and> sem_cap (ct_tokens ct) = nat n"
proof -
  have g: "0 < cc_Global (pc_Concurrency cfg)" using concurrency_checked(1,2) [OF assms(3)] by linarith
  obtain eps where "inference = Some r \<Longrightarrow> new_endpoints (pc_Concurrency cfg) r (Clients r) = Inr eps" for r
    using new_endpoints_ok [OF assms(3), of "the inference" "Clients (the inference)"] by fastforce
  with g assms(1,2) show ?thesis by (cases inference) (simp_all add: initConcurrencyControls_def sem_New_def)
qed

text \<open>
  C24: A validated configuration starts. The allowlist and the concurrency controls can be
  built from it whatever the resolver; there is at least one worker and no more than
  configured; each endpoint begins with the configured limit, which is within the global
  one, and its controller meets the preconditions of the adaptive limit as long as the
  factor is a number and the bounds leave room in 53 and 64 bits; and the lease is
  stored without loss in the whole seconds the database keeps.
\<close>

theorem validated_config_starts:
  assumes "Validate h cfg0 = (Inr (), cfg)"
  shows "(\<exists>a. NewEndpointAllowlist (pc_ExtraEndpoints cfg) = Inr a)
    \<and> (\<exists>ct. initConcurrencyControls h cfg inference = Inr ct
        \<and> 1 \<le> sem_cap (ct_tokens ct) \<and> int (sem_cap (ct_tokens ct)) \<le> pc_NumWorkers cfg
        \<and> (\<forall>(c, ep) \<in> set (ct_endpointLimits ct). sound_endpoint (pc_Concurrency cfg) ep))
    \<and> 1 \<le> dur_secs (rc_LeaseDuration (pc_Resumable cfg))
    \<and> second * dur_secs (rc_LeaseDuration (pc_Resumable cfg)) = rc_LeaseDuration (pc_Resumable cfg)"
proof (intro conjI)
  note ok = settings_checked [OF Validate_settings [OF assms]]
  show "\<exists>a. NewEndpointAllowlist (pc_ExtraEndpoints cfg) = Inr a" using ok(3) by (auto simp: is_ok_def split: sum.splits)
  show "1 \<le> dur_secs (rc_LeaseDuration (pc_Resumable cfg))" "second * dur_secs (rc_LeaseDuration (pc_Resumable cfg)) = rc_LeaseDuration (pc_Resumable cfg)"
    using ok(5,6) by (auto simp: dur_secs_def second_def)
  obtain n where n: "EffectiveNumWorkers h cfg = Inr n" using ok(1) by (auto simp: is_ok_def split: sum.splits)
  then have range: "1 \<le> n" "n \<le> pc_NumWorkers cfg" by (auto simp: EffectiveNumWorkers_def Let_def split: if_splits sum.splits)
  obtain ct where ct: "initConcurrencyControls h cfg inference = Inr ct" "sem_cap (ct_tokens ct) = nat n"
    using init_tokens [OF n range(1) ok(2)] by blast
  moreover have "sound_endpoint (pc_Concurrency cfg) ep" if "(c, ep) \<in> set (ct_endpointLimits ct)" for c ep
    using init_endpoints [OF ct(1) that] new_endpoint_sound [OF ok(2)] by blast
  ultimately show "\<exists>ct. initConcurrencyControls h cfg inference = Inr ct
      \<and> 1 \<le> sem_cap (ct_tokens ct) \<and> int (sem_cap (ct_tokens ct)) \<le> pc_NumWorkers cfg
      \<and> (\<forall>(c, ep) \<in> set (ct_endpointLimits ct). sound_endpoint (pc_Concurrency cfg) ep)"
    using range by (intro exI [of _ ct]) auto
qed

theorem validated_config_starts_witness:
  "\<exists>ct. initConcurrencyControls sample_host sample_config (Some sample_resolver) = Inr ct \<and> sem_cap (ct_tokens ct) \<le> 5
     \<and> second * dur_secs (300 * second) = 300 * second"
  using validated_config_starts [OF sample_valid, of "Some sample_resolver"]
  by (auto simp: sample_config_def NewConfig_def DefaultNumWorkers_def)

section \<open>The global limit\<close>

text \<open>
  A dispatcher takes up its requests one by one as long as the endpoint and its own
  global semaphore have slots.
\<close>

definition job_start :: "semaphore \<Rightarrow> AdaptiveSemaphore list \<Rightarrow> nat list \<Rightarrow> RequestItem list \<Rightarrow> aimd_run" where
  "job_start g eps foreign msgs = \<lparr>ad_todo = msgs, ad_slot = None, ad_inner = [], ad_back = [], ad_out = [], ad_stopped = False,
     ad_global = g, ad_eps = eps, ad_foreign = foreign\<rparr>"

lemma dispatch_all:
  assumes "\<forall>m \<in> set (ad_todo d). ep (rq_ModelID m) = Some i" and "i < length (ad_eps d)" and "ad_slot d = None" and "\<not> ad_stopped d"
    and "as_count (ad_eps d ! i) + int (length (ad_todo d)) \<le> as_limit (ad_eps d ! i)"
    and "sem_tokens (ad_global d) + length (ad_todo d) \<le> sem_cap (ad_global d)"
  shows "\<exists>d'. (aimd_run_step ep)\<^sup>*\<^sup>* d d' \<and> ad_inner d' = ad_inner d @ ad_todo d \<and> ad_foreign d' = ad_foreign d
    \<and> ad_eps d' = (ad_eps d)[i := (ad_eps d ! i)\<lparr>as_count := as_count (ad_eps d ! i) + int (length (ad_todo d))\<rparr>]"
  using assms
proof (induction "ad_todo d" arbitrary: d)
  case Nil
  then show ?case by (intro exI [of _ d]) simp
next
  case (Cons m ms)
  let ?sem = "(ad_eps d ! i)\<lparr>as_count := as_count (ad_eps d ! i) + 1\<rparr>"
  let ?d1 = "d\<lparr>ad_todo := ms, ad_slot := Some m, ad_eps := (ad_eps d)[i := ?sem]\<rparr>"
  let ?g = "(ad_global d)\<lparr>sem_tokens := sem_tokens (ad_global d) + 1\<rparr>"
  let ?d2 = "?d1\<lparr>ad_slot := None, ad_global := ?g, ad_inner := ad_inner d @ [m]\<rparr>"
  have todo: "ad_todo d = m # ms" using Cons(2) by simp
  then have ep: "ep (rq_ModelID m) = Some i" using Cons(3) by simp
  have free: "as_count (ad_eps d ! i) < as_limit (ad_eps d ! i)" "sem_tokens (ad_global d) < sem_cap (ad_global d)"
    using Cons(7,8) todo by auto
  have "aimd_run_step ep d ?d1"
    using aimd_run_step.own [OF take_endpoint [OF todo Cons(5,6), of ep None "(ad_eps d)[i := ?sem]"]] free(1)
    by (simp add: ep endpoint_Acquire_def as_Acquire_def as_TryAcquire_def)
  moreover have "aimd_run_step ep ?d1 ?d2"
    using aimd_run_step.own [OF take_global [of ?d1 m True None ?g ep]] free(2) by (simp add: sem_Acquire_def)
  ultimately have two: "(aimd_run_step ep)\<^sup>*\<^sup>* d ?d2" by (meson converse_rtranclp_into_rtranclp rtranclp.rtrancl_refl)
  have "\<exists>d'. (aimd_run_step ep)\<^sup>*\<^sup>* ?d2 d' \<and> ad_inner d' = ad_inner ?d2 @ ad_todo ?d2 \<and> ad_foreign d' = ad_foreign ?d2
    \<and> ad_eps d' = (ad_eps ?d2)[i := (ad_eps ?d2 ! i)\<lparr>as_count := as_count (ad_eps ?d2 ! i) + int (length (ad_todo ?d2))\<rparr>]"
    by (rule Cons(1)) (use Cons(3-) todo in auto)
  with two todo Cons(4) show ?case by (auto simp: algebra_simps intro: rtranclp_trans)
qed

text \<open>
  C39: The global limit holds for each job alone. With limits that validation accepts and
  two endpoints, two jobs that run at the same time, each with a dispatcher of its own,
  can together have twice the per-endpoint limit of requests in flight; where that limit
  equals the global one, this is twice the number the configuration allows for all
  workers. The endpoint limits are shared between the jobs, so that the second one starts
  with what the first one left; the semaphore for all workers, which the processor
  creates, is no part of either dispatcher.
\<close>

theorem global_limit_is_per_job:
  assumes "concurrency_validate cc = Inr ()" and "cc_PerEndpoint cc = cc_Global cc"
    and "new_endpoint cc u1 = Inr e1" and "new_endpoint cc u2 = Inr e2" and "NewAIMDDispatcher (cc_Global cc) = Inr g"
    and "\<forall>m \<in> set msgs1. ep (rq_ModelID m) = Some 0" and "\<forall>m \<in> set msgs2. ep (rq_ModelID m) = Some 1"
    and "int (length msgs1) = cc_Global cc" and "int (length msgs2) = cc_Global cc"
  shows "\<exists>d1 d2. (aimd_run_step ep)\<^sup>*\<^sup>* (job_start g [el_sem e1, el_sem e2] [0, 0] msgs1) d1
    \<and> (aimd_run_step ep)\<^sup>*\<^sup>* (job_start g (ad_eps d1) [length msgs1, 0] msgs2) d2
    \<and> int (length (ad_inner d1) + length (ad_inner d2)) = 2 * cc_Global cc
    \<and> cc_Global cc < int (length (ad_inner d1) + length (ad_inner d2))"
proof -
  have pos: "0 < cc_Global cc" using concurrency_checked(1,2) [OF assms(1)] by linarith
  have sem: "el_sem e1 = \<lparr>as_limit = cc_Global cc, as_count = 0, as_guard = True, as_fired = 0\<rparr>"
    "el_sem e2 = \<lparr>as_limit = cc_Global cc, as_count = 0, as_guard = True, as_fired = 0\<rparr>"
    using new_endpoint_ok [OF assms(1), of u1] new_endpoint_ok [OF assms(1), of u2] assms(2-4) by auto
  have "sem_cap g = nat (cc_Global cc)" "sem_tokens g = 0" using assms(5) pos by (auto simp: NewAIMDDispatcher_def sem_New_def)
  then have g: "sem_cap g = length msgs1" "sem_cap g = length msgs2" "sem_tokens g = 0" using assms(8,9) by linarith+
  have "\<exists>d1. (aimd_run_step ep)\<^sup>*\<^sup>* (job_start g [el_sem e1, el_sem e2] [0, 0] msgs1) d1 \<and> ad_inner d1 = msgs1
      \<and> ad_eps d1 = [(el_sem e1)\<lparr>as_count := cc_Global cc\<rparr>, el_sem e2]"
    using dispatch_all [of "job_start g [el_sem e1, el_sem e2] [0, 0] msgs1" ep 0] assms(6,8) sem g(1,3) by (auto simp: job_start_def)
  then obtain d1 where d1: "(aimd_run_step ep)\<^sup>*\<^sup>* (job_start g [el_sem e1, el_sem e2] [0, 0] msgs1) d1" "ad_inner d1 = msgs1"
      "ad_eps d1 = [(el_sem e1)\<lparr>as_count := cc_Global cc\<rparr>, el_sem e2]"
    by blast
  have "\<exists>d2. (aimd_run_step ep)\<^sup>*\<^sup>* (job_start g (ad_eps d1) [length msgs1, 0] msgs2) d2 \<and> ad_inner d2 = msgs2"
    using dispatch_all [of "job_start g (ad_eps d1) [length msgs1, 0] msgs2" ep 1] assms(7,9) sem g(2,3) d1(3) by (auto simp: job_start_def)
  with d1(1,2) assms(8,9) pos show ?thesis by (metis mult_2 of_nat_add less_add_same_cancel2)
qed

definition small_limits :: ConcurrencyConfig where
  "small_limits = \<lparr>cc_Global = 1, cc_PerEndpoint = 1, cc_Recovery = 1,
     cc_AIMD = \<lparr>ca_Enabled = False, ca_Min = 0, ca_BackoffFactor = NaN, ca_AdditiveIncrease = 0\<rparr>\<rparr>"

definition request_for :: "string \<Rightarrow> RequestItem" where
  "request_for model = \<lparr>rq_RequestID = model, rq_CustomID = [], rq_ModelID = model, rq_Endpoint = [], rq_Body = [], rq_Headers = [],
     rq_ParseError = None, rq_SubmittedAt = None\<rparr>"

theorem global_limit_is_per_job_witness:
  "\<exists>g eps d1 d2. (aimd_run_step (map_of [(''m1'', 0), (''m2'', 1)]))\<^sup>*\<^sup>* (job_start g eps [0, 0] [request_for ''m1'']) d1
     \<and> (aimd_run_step (map_of [(''m1'', 0), (''m2'', 1)]))\<^sup>*\<^sup>* (job_start g (ad_eps d1) [1, 0] [request_for ''m2'']) d2
     \<and> cc_Global small_limits < int (length (ad_inner d1) + length (ad_inner d2))"
proof -
  have ok: "concurrency_validate small_limits = Inr ()" "cc_PerEndpoint small_limits = cc_Global small_limits" "cc_Global small_limits = 1"
    by code_simp+
  obtain e1 where e: "new_endpoint small_limits [] = Inr e1" using new_endpoint_ok [OF ok(1)] by blast
  obtain g where g: "NewAIMDDispatcher (cc_Global small_limits) = Inr g" by (simp add: NewAIMDDispatcher_def sem_New_def ok(3))
  show ?thesis
    using global_limit_is_per_job [OF ok(1,2) e e g, of "[request_for ''m1'']" "map_of [(''m1'', 0), (''m2'', 1)]" "[request_for ''m2'']"]
    by (auto simp: request_for_def ok(3))
qed

end
