(* ===== verification/Async_Routing.thy ===== *)
theory Async_Routing
  imports Inference_Routing "HOL-Library.Multiset"
begin

text \<open>
  The queue mode: the resolver with a request queue and a result route for each model
  (\<^verbatim>\<open>pkg/clients/inference/async_inference_client_resolver.go\<close>), and the registry of the
  broadcasters that read those routes (\<^verbatim>\<open>internal/processor/worker/broadcasters.go\<close>). A
  processor reads its own route of each model, and, while it recovers a batch, the route
  of the processor that submitted the requests. The queue libraries are parameters: what
  they are asked to open, and whether they can.
\<close>

section \<open>The resolver of the queue mode\<close>

datatype resource = RedisClient | SQLStore | QueueProducer string

record async_env =
  ae_ParseURL :: "string \<Rightarrow> unit res"
  ae_OpenStore :: "string \<Rightarrow> int \<Rightarrow> unit res"
  ae_NewProducer :: "string \<Rightarrow> string \<Rightarrow> string \<Rightarrow> unit res"

record asyncPool =
  po_RequestQueue :: string
  po_ResultQueue :: string
  po_pollTimeout :: duration

record AsyncGatewayResolver =
  ar_pools :: "(string \<times> asyncPool) list"
  ar_routeBases :: "(string \<times> string) list"
  ar_transport :: string
  ar_rdb :: bool
  ar_resultPollTimeout :: duration
  ar_closers :: "resource list"

definition asyncQueuePrefix :: string where "asyncQueuePrefix = ''llm-d-async:''"

definition request_queue :: "AsyncModelPoolConfig \<Rightarrow> string" where
  "request_queue m = (if ap_RequestQueueName m = [] then asyncQueuePrefix @ ''requests:'' @ ap_PoolName m else ap_RequestQueueName m)"

definition result_base :: "AsyncModelPoolConfig \<Rightarrow> string" where
  "result_base m = (if ap_ResultQueueName m = [] then asyncQueuePrefix @ ''results:'' @ ap_PoolName m else ap_ResultQueueName m)"

definition result_route :: "string \<Rightarrow> string \<Rightarrow> string" where
  "result_route base consumerID = base @ '':'' @ consumerID"

text \<open>Each pool has a single consumer: \<open>seen\<close> are the pools of the models before.\<close>

fun check_pools :: "string list \<Rightarrow> (string \<times> AsyncModelPoolConfig) list \<Rightarrow> unit res" where
  "check_pools seen [] = Inr ()"
| "check_pools seen ((model, m) # ms) =
    (if ap_PoolName m \<in> set seen then Inl (ErrInvalid ''pool'') else check_pools (ap_PoolName m # seen) ms)"

text \<open>
  The loop over the models, with what has been opened so far: it returns the pools and
  route bases in order, and every resource that is then open. On an error it closes the
  resources it keeps in \<^verbatim>\<open>closers\<close> and the Redis client.
\<close>

definition closeResources :: "bool \<Rightarrow> resource list \<Rightarrow> resource list \<Rightarrow> resource list" where
  "closeResources rdb closers opened = filter (\<lambda>x. x \<notin> set closers \<and> \<not> (rdb \<and> x = RedisClient)) opened"

fun pools_loop ::
  "async_env \<Rightarrow> string \<Rightarrow> bool \<Rightarrow> string \<Rightarrow> duration \<Rightarrow> resource list \<Rightarrow> resource list \<Rightarrow> (string \<times> AsyncModelPoolConfig) list
    \<Rightarrow> ((string \<times> asyncPool) list \<times> (string \<times> string) list \<times> resource list) res \<times> resource list" where
  "pools_loop env transport rdb consumerID timeout closers opened [] = (Inr ([], [], closers), opened)"
| "pools_loop env transport rdb consumerID timeout closers opened ((model, m) # ms) =
    (let route = result_route (result_base m) consumerID in
     case ae_NewProducer env transport (request_queue m) route of
       Inl e \<Rightarrow> (Inl e, closeResources rdb closers opened)
     | Inr _ \<Rightarrow>
         (case pools_loop env transport rdb consumerID timeout (closers @ [QueueProducer route]) (opened @ [QueueProducer route]) ms of
            (Inl e, open') \<Rightarrow> (Inl e, open')
          | (Inr (pools, bases, closers'), open') \<Rightarrow>
              (Inr ((model, \<lparr>po_RequestQueue = request_queue m, po_ResultQueue = route, po_pollTimeout = timeout\<rparr>) # pools,
                    (model, result_base m) # bases, closers'), open')))"

text \<open>The constructor; with its result, the resources that are open when it returns.\<close>

definition build_resolver ::
  "async_env \<Rightarrow> AsyncClientConfig \<Rightarrow> string \<Rightarrow> bool \<Rightarrow> resource list \<Rightarrow> resource list \<Rightarrow> AsyncGatewayResolver res \<times> resource list" where
  "build_resolver env config transport rdb closers opened =
    (case pools_loop env transport rdb (ax_ConsumerID config) (ax_ResultPollTimeout config) closers opened (ax_Models config) of
       (Inl e, open') \<Rightarrow> (Inl e, open')
     | (Inr (pools, bases, closers'), open') \<Rightarrow>
         (Inr \<lparr>ar_pools = pools, ar_routeBases = bases, ar_transport = transport, ar_rdb = rdb,
            ar_resultPollTimeout = ax_ResultPollTimeout config, ar_closers = closers' @ (if rdb then [RedisClient] else [])\<rparr>, open'))"

definition NewAsyncResolver :: "async_env \<Rightarrow> AsyncClientConfig \<Rightarrow> AsyncGatewayResolver res \<times> resource list" where
  "NewAsyncResolver env config =
    (if ax_ConsumerID config = [] then (Inl (ErrInvalid ''consumerID''), [])
     else case NormalizeAsyncTransport (ax_Transport config) of
       Inl e \<Rightarrow> (Inl e, [])
     | Inr transport \<Rightarrow>
         let rdb = (transport = AsyncTransportRedisSortedSet); opened = (if rdb then [RedisClient] else []) in
         case (if rdb then ae_ParseURL env (ax_RedisURL config) else refuse (ax_SQLURL config = []) ''SQLURL'') of
           Inl e \<Rightarrow> (Inl e, [])
         | Inr _ \<Rightarrow>
             (case check_pools [] (ax_Models config) of
                Inl e \<Rightarrow> (Inl e, closeResources rdb [] opened)
              | Inr _ \<Rightarrow>
                  if ax_ResultPollTimeout config \<le> 0 then (Inl (ErrInvalid ''resultPollTimeout''), closeResources rdb [] opened)
                  else if transport = AsyncTransportSQL \<and> ax_Models config \<noteq> [] then
                    (case ae_OpenStore env (ax_SQLURL config) (if ax_MaxConnections config \<le> 0 then DefaultSQLMaxConns else ax_MaxConnections config) of
                       Inl e \<Rightarrow> (Inl e, opened)
                     | Inr _ \<Rightarrow> build_resolver env config transport rdb [SQLStore] (opened @ [SQLStore]))
                  else build_resolver env config transport rdb [] opened))"

definition Models :: "AsyncGatewayResolver \<Rightarrow> string list" where
  "Models r = map fst (ar_pools r)"

definition SupportsResultRecovery :: "AsyncGatewayResolver \<Rightarrow> bool" where
  "SupportsResultRecovery r = (ar_transport r = AsyncTransportRedisSortedSet)"

text \<open>
  Shared clients are created on first use and kept in a map under a lock; a client is its
  number. \<open>LoadOrStore\<close> keeps the first of two clients created at the same time.
\<close>

definition LoadOrStore :: "string \<Rightarrow> nat \<Rightarrow> (string \<times> nat) list \<Rightarrow> nat \<times> (string \<times> nat) list" where
  "LoadOrStore k v m = (case map_of m k of Some actual \<Rightarrow> (actual, m) | None \<Rightarrow> (v, m @ [(k, v)]))"

definition SharedClientFor :: "AsyncGatewayResolver \<Rightarrow> nat \<Rightarrow> string \<Rightarrow> (string \<times> nat) list \<Rightarrow> nat option \<times> (string \<times> nat) list" where
  "SharedClientFor r fresh modelID shared = (case map_of shared modelID of
      Some c \<Rightarrow> (Some c, shared)
    | None \<Rightarrow> (case map_of (ar_pools r) modelID of
        None \<Rightarrow> (None, shared)
      | Some pool \<Rightarrow> (case LoadOrStore modelID fresh shared of (actual, shared') \<Rightarrow> (Some actual, shared'))))"

text \<open>The route a recovery client reads. SQL reads are destructive and are not recovered.\<close>

definition RecoveryClientFor :: "(string \<Rightarrow> unit res) \<Rightarrow> AsyncGatewayResolver \<Rightarrow> string \<Rightarrow> string \<Rightarrow> string res" where
  "RecoveryClientFor newProducer r modelID consumerID = (case map_of (ar_routeBases r) modelID of
      None \<Rightarrow> Inl (ErrOther ''recovery route'')
    | Some base \<Rightarrow>
        if ar_transport r = AsyncTransportRedisSortedSet then
          (if \<not> ar_rdb r then Inl (ErrOther ''redis recovery route'')
           else map_sum id (\<lambda>_. result_route base consumerID) (newProducer (result_route base consumerID)))
        else Inl (ErrOther ''transport''))"

section \<open>The routes\<close>

definition pool_of :: "string \<Rightarrow> duration \<Rightarrow> AsyncModelPoolConfig \<Rightarrow> asyncPool" where
  "pool_of consumerID timeout m =
    \<lparr>po_RequestQueue = request_queue m, po_ResultQueue = result_route (result_base m) consumerID, po_pollTimeout = timeout\<rparr>"

lemma pools_loop_ok:
  assumes "pools_loop env transport rdb consumerID timeout closers opened ms = (Inr (pools, bases, closers'), open')"
  shows "pools = map (\<lambda>(k, m). (k, pool_of consumerID timeout m)) ms" "bases = map (\<lambda>(k, m). (k, result_base m)) ms"
    and "\<exists>new. closers' = closers @ new \<and> open' = opened @ new"
proof -
  have "pools = map (\<lambda>(k, m). (k, pool_of consumerID timeout m)) ms \<and> bases = map (\<lambda>(k, m). (k, result_base m)) ms
      \<and> (\<exists>new. closers' = closers @ new \<and> open' = opened @ new)"
    using assms
  proof (induction ms arbitrary: closers opened pools bases)
    case (Cons km ms)
    obtain k m where km: "km = (k, m)" by fastforce
    let ?p = "QueueProducer (result_route (result_base m) consumerID)"
    from Cons(2) obtain ps bs where "pools_loop env transport rdb consumerID timeout (closers @ [?p]) (opened @ [?p]) ms = (Inr (ps, bs, closers'), open')"
        "pools = (k, pool_of consumerID timeout m) # ps" "bases = (k, result_base m) # bs"
      by (auto simp: km Let_def pool_of_def split: sum.splits prod.splits)
    with Cons(1) [OF this(1)] show ?case by (auto simp: km)
  qed simp
  then show "pools = map (\<lambda>(k, m). (k, pool_of consumerID timeout m)) ms" "bases = map (\<lambda>(k, m). (k, result_base m)) ms"
    "\<exists>new. closers' = closers @ new \<and> open' = opened @ new" by blast+
qed

lemma closeResources_all: "set opened \<subseteq> set closers \<union> (if rdb then {RedisClient} else {}) \<Longrightarrow> closeResources rdb closers opened = []"
  by (cases rdb) (auto simp: closeResources_def filter_empty_conv)

lemma pools_loop_fail:
  assumes "pools_loop env transport rdb consumerID timeout closers opened ms = (Inl e, open')"
    and "set opened \<subseteq> set closers \<union> (if rdb then {RedisClient} else {})"
  shows "open' = []"
  using assms
proof (induction ms arbitrary: closers opened)
  case (Cons km ms)
  obtain k m where km: "km = (k, m)" by fastforce
  let ?p = "QueueProducer (result_route (result_base m) consumerID)"
  show ?case
  proof (cases "ae_NewProducer env transport (request_queue m) (result_route (result_base m) consumerID)")
    case (Inl e')
    then show ?thesis using Cons(2) closeResources_all [OF Cons(3)] by (simp add: km Let_def)
  next
    case (Inr u)
    then have "pools_loop env transport rdb consumerID timeout (closers @ [?p]) (opened @ [?p]) ms = (Inl e, open')"
      using Cons(2) by (auto simp: km Let_def split: sum.splits prod.splits)
    then show ?thesis by (rule Cons(1)) (use Cons(3) in auto)
  qed
qed simp

lemma build_resolver_result:
  assumes "build_resolver env config transport rdb closers opened = (res, open')"
    and "set opened = set closers \<union> (if rdb then {RedisClient} else {})"
  shows "case res of Inl e \<Rightarrow> open' = []
    | Inr r \<Rightarrow> ar_pools r = map (\<lambda>(k, m). (k, pool_of (ax_ConsumerID config) (ax_ResultPollTimeout config) m)) (ax_Models config)
        \<and> ar_routeBases r = map (\<lambda>(k, m). (k, result_base m)) (ax_Models config) \<and> ar_transport r = transport \<and> ar_rdb r = rdb
        \<and> set (ar_closers r) = set open'"
proof -
  let ?loop = "pools_loop env transport rdb (ax_ConsumerID config) (ax_ResultPollTimeout config) closers opened (ax_Models config)"
  obtain x open1 where loop: "?loop = (x, open1)" by fastforce
  show ?thesis
  proof (cases x)
    case (Inl e)
    with loop have "open1 = []" using pools_loop_fail [of env transport rdb _ _ closers opened] assms(2) by auto
    then show ?thesis using assms(1) loop Inl by (auto simp: build_resolver_def)
  next
    case (Inr y)
    obtain pools bases cl where y: "y = (pools, bases, cl)" by (metis prod_cases3)
    note ok = pools_loop_ok [OF loop [unfolded Inr y]]
    from ok(3) obtain new where "cl = closers @ new" "open1 = opened @ new" by blast
    then show ?thesis using assms loop Inr y ok(1,2) by (auto simp: build_resolver_def)
  qed
qed

text \<open>The branches of the constructor, with what it does in each left open.\<close>

lemma resolver_branches:
  assumes "(res, open') = (case x of Inl e \<Rightarrow> (Inl e, []) | Inr _ \<Rightarrow>
      (case pools of Inl e \<Rightarrow> (Inl e, closed) | Inr _ \<Rightarrow>
        if bad then (Inl e0, closed)
        else if sql then (case st of Inl e \<Rightarrow> (Inl e, opened) | Inr _ \<Rightarrow> with_store) else plain))"
    and "closed = []" and "sql \<Longrightarrow> opened = []"
  shows "(\<exists>e. res = Inl e \<and> open' = []) \<or> is_ok pools \<and> (if sql then with_store else plain) = (res, open')"
  using assms by (auto split: sum.splits if_splits)

lemma NewAsyncResolver_result:
  assumes "NewAsyncResolver env config = (res, open')"
  shows "case res of Inl e \<Rightarrow> open' = []
    | Inr r \<Rightarrow> ar_pools r = map (\<lambda>(k, m). (k, pool_of (ax_ConsumerID config) (ax_ResultPollTimeout config) m)) (ax_Models config)
        \<and> ar_routeBases r = map (\<lambda>(k, m). (k, result_base m)) (ax_Models config) \<and> NormalizeAsyncTransport (ax_Transport config) = Inr (ar_transport r)
        \<and> ar_rdb r = (ar_transport r = AsyncTransportRedisSortedSet) \<and> set (ar_closers r) = set open' \<and> check_pools [] (ax_Models config) = Inr ()"
proof (cases "ax_ConsumerID config = [] \<or> (\<exists>e. NormalizeAsyncTransport (ax_Transport config) = Inl e)")
  case False
  then obtain transport where tr: "ax_ConsumerID config \<noteq> []" "NormalizeAsyncTransport (ax_Transport config) = Inr transport"
    by (cases "NormalizeAsyncTransport (ax_Transport config)") auto
  define rdb where "rdb = (transport = AsyncTransportRedisSortedSet)"
  define opened where "opened = (if rdb then [RedisClient] else [])"
  have op: "set opened = (if rdb then {RedisClient} else {})" by (simp add: opened_def)
  let ?sql = "transport = AsyncTransportSQL \<and> ax_Models config \<noteq> []"
  have sql: "?sql \<Longrightarrow> opened = []" by (auto simp: opened_def rdb_def AsyncTransportSQL_def AsyncTransportRedisSortedSet_def)
  have closed: "closeResources rdb [] opened = []" by (rule closeResources_all) (simp add: op)
  have "(res, open') = (case (if rdb then ae_ParseURL env (ax_RedisURL config) else refuse (ax_SQLURL config = []) ''SQLURL'') of Inl e \<Rightarrow> (Inl e, []) | Inr _ \<Rightarrow>
      (case check_pools [] (ax_Models config) of Inl e \<Rightarrow> (Inl e, closeResources rdb [] opened) | Inr _ \<Rightarrow>
        if ax_ResultPollTimeout config \<le> 0 then (Inl (ErrInvalid ''resultPollTimeout''), closeResources rdb [] opened)
        else if ?sql then
          (case ae_OpenStore env (ax_SQLURL config) (if ax_MaxConnections config \<le> 0 then DefaultSQLMaxConns else ax_MaxConnections config) of
             Inl e \<Rightarrow> (Inl e, opened) | Inr _ \<Rightarrow> build_resolver env config transport rdb [SQLStore] (opened @ [SQLStore]))
        else build_resolver env config transport rdb [] opened))"
    unfolding assms [symmetric] NewAsyncResolver_def Let_def opened_def rdb_def by (simp only: tr if_False sum.case)
  from resolver_branches [OF this closed sql] consider (fail) e where "res = Inl e" "open' = []"
    | (built) closers op' where "check_pools [] (ax_Models config) = Inr ()" "build_resolver env config transport rdb closers op' = (res, open')"
        "set op' = set closers \<union> (if rdb then {RedisClient} else {})"
    by (fastforce simp: op is_ok_def split: if_splits sum.splits)
  then show ?thesis
  proof cases
    case built
    then show ?thesis using build_resolver_result [OF built(2,3)] tr(2) by (auto simp: rdb_def split: sum.splits)
  qed simp
qed (use assms in \<open>auto simp: NewAsyncResolver_def split: sum.splits if_splits\<close>)

lemma check_pools_ok:
  "check_pools seen ms = Inr () \<Longrightarrow> distinct (map (ap_PoolName \<circ> snd) ms) \<and> set seen \<inter> set (map (ap_PoolName \<circ> snd) ms) = {}"
  by (induction seen ms rule: check_pools.induct) (auto split: if_splits)

text \<open>The last colon of a route is the one before a consumer without colons.\<close>

lemma result_route_inj:
  assumes "result_route b1 c1 = result_route b2 c2" and "CHR '':'' \<notin> set c1" and "CHR '':'' \<notin> set c2"
  shows "b1 = b2 \<and> c1 = c2"
proof -
  have route: "takeWhile (\<lambda>x. x \<noteq> CHR '':'') (rev (result_route b c)) = rev c" "dropWhile (\<lambda>x. x \<noteq> CHR '':'') (rev (result_route b c)) = CHR '':'' # rev b"
    if "CHR '':'' \<notin> set c" for b c :: string
  proof -
    have "takeWhile (\<lambda>x. x \<noteq> CHR '':'') (rev c @ CHR '':'' # rev b) = rev c @ takeWhile (\<lambda>x. x \<noteq> CHR '':'') (CHR '':'' # rev b)"
      by (rule takeWhile_append2) (use that in auto)
    moreover have "dropWhile (\<lambda>x. x \<noteq> CHR '':'') (rev c @ CHR '':'' # rev b) = dropWhile (\<lambda>x. x \<noteq> CHR '':'') (CHR '':'' # rev b)"
      by (rule dropWhile_append2) (use that in auto)
    ultimately show "takeWhile (\<lambda>x. x \<noteq> CHR '':'') (rev (result_route b c)) = rev c"
      "dropWhile (\<lambda>x. x \<noteq> CHR '':'') (rev (result_route b c)) = CHR '':'' # rev b"
      by (simp_all add: result_route_def)
  qed
  show ?thesis using route [OF assms(2), of b1] route [OF assms(3), of b2] assms(1) by (metis list.inject rev_rev_ident)
qed

lemma derived_bases_distinct:
  assumes "check_pools [] ms = Inr ()" and "\<forall>(k, m) \<in> set ms. ap_ResultQueueName m = []"
    and "map_of ms k1 = Some m1" and "map_of ms k2 = Some m2" and "result_base m1 = result_base m2"
  shows "k1 = k2"
proof -
  have "(k1, m1) \<in> set ms" "(k2, m2) \<in> set ms" using assms(3,4) by (auto dest: map_of_SomeD)
  moreover from this have "ap_ResultQueueName m1 = []" "ap_ResultQueueName m2 = []" using assms(2) by auto
  then have "ap_PoolName m1 = ap_PoolName m2" using assms(5) by (simp add: result_base_def)
  moreover have "inj_on (ap_PoolName \<circ> snd) (set ms)" using check_pools_ok [OF assms(1)] by (simp add: distinct_map)
  ultimately show ?thesis using inj_onD [of "ap_PoolName \<circ> snd" "set ms" "(k1, m1)" "(k2, m2)"] by simp
qed

text \<open>
  C27: A recovering processor reads exactly the route of the former one. For two processors
  with the same models: a recovery client for a model and a former consumer reads the
  route on which that consumer's own resolver receives the results of the model. With
  derived queue names and consumer names without colon no two routes of different models
  or consumers are the same. For every configuration, transport and failure, a
  constructor that fails leaves nothing open, and one that succeeds has exactly what it
  opened among what its close function closes.
\<close>

theorem recovery_reads_former_route:
  "(case NewAsyncResolver env0 config0 of (Inl e, open0) \<Rightarrow> open0 = [] | (Inr r0, open0) \<Rightarrow> set (ar_closers r0) = set open0)
   \<and> (NewAsyncResolver env config = (Inr r, open1) \<and> RecoveryClientFor newProducer r model former = Inr path \<longrightarrow>
       (\<forall>r' open2. NewAsyncResolver env' (config\<lparr>ax_ConsumerID := former\<rparr>) = (Inr r', open2) \<longrightarrow>
          map_option po_ResultQueue (map_of (ar_pools r') model) = Some path)
       \<and> ((\<forall>(k, m) \<in> set (ax_Models config). ap_ResultQueueName m = []) \<and> CHR '':'' \<notin> set former \<and> CHR '':'' \<notin> set former' \<longrightarrow>
           RecoveryClientFor newProducer r model' former' = Inr path \<longrightarrow> model' = model \<and> former' = former))"
proof (intro conjI impI)
  show "case NewAsyncResolver env0 config0 of (Inl e, open0) \<Rightarrow> open0 = [] | (Inr r0, open0) \<Rightarrow> set (ar_closers r0) = set open0"
    by (cases "NewAsyncResolver env0 config0") (use NewAsyncResolver_result [of env0 config0] in \<open>auto split: sum.splits\<close>)
  assume assms: "NewAsyncResolver env config = (Inr r, open1) \<and> RecoveryClientFor newProducer r model former = Inr path"
  have r: "ar_routeBases r = map (\<lambda>(k, m). (k, result_base m)) (ax_Models config)" "check_pools [] (ax_Models config) = Inr ()"
    using NewAsyncResolver_result [OF assms [THEN conjunct1]] by simp_all
  have read: "\<exists>m. map_of (ax_Models config) k = Some m \<and> path = result_route (result_base m) c"
    if "RecoveryClientFor newProducer r k c = Inr path" for k c
    using that unfolding RecoveryClientFor_def r(1) map_of_second
    by (cases "map_of (ax_Models config) k"; cases "newProducer path") (auto split: if_splits sum.splits simp: map_sum_def)
  obtain m where m: "map_of (ax_Models config) model = Some m" "path = result_route (result_base m) former"
    using read [OF assms [THEN conjunct2]] by blast
  show "\<forall>r' open2. NewAsyncResolver env' (config\<lparr>ax_ConsumerID := former\<rparr>) = (Inr r', open2) \<longrightarrow>
      map_option po_ResultQueue (map_of (ar_pools r') model) = Some path"
    using NewAsyncResolver_result [of env' "config\<lparr>ax_ConsumerID := former\<rparr>"] m by (fastforce simp: map_of_second pool_of_def)
  assume derived: "(\<forall>(k, m) \<in> set (ax_Models config). ap_ResultQueueName m = []) \<and> CHR '':'' \<notin> set former \<and> CHR '':'' \<notin> set former'"
    and same: "RecoveryClientFor newProducer r model' former' = Inr path"
  obtain m' where m': "map_of (ax_Models config) model' = Some m'" "path = result_route (result_base m') former'" using read [OF same] by blast
  then have eq: "result_base m' = result_base m" "former' = former" using result_route_inj [of "result_base m'" former'] m(2) derived by metis+
  then show "model' = model" using derived_bases_distinct [OF r(2) derived [THEN conjunct1] m'(1) m(1)] by simp
  show "former' = former" by (rule eq)
qed

definition sample_async :: AsyncClientConfig where
  "sample_async = \<lparr>ax_Transport = [], ax_RedisURL = ''redis://q'', ax_SQLURL = [], ax_ConsumerID = ''p2'', ax_MaxConnections = 0,
     ax_Models = [(''m1'', \<lparr>ap_PoolName = ''a'', ap_RequestQueueName = [], ap_ResultQueueName = []\<rparr>),
       (''m2'', \<lparr>ap_PoolName = ''b'', ap_RequestQueueName = [], ap_ResultQueueName = []\<rparr>)],
     ax_ResultPollTimeout = second, ax_PollInterval = second\<rparr>"

definition sample_async_env :: async_env where
  "sample_async_env = \<lparr>ae_ParseURL = (\<lambda>u. Inr ()), ae_OpenStore = (\<lambda>u n. Inr ()), ae_NewProducer = (\<lambda>t q r. Inr ())\<rparr>"

definition sample_async_resolver :: AsyncGatewayResolver where
  "sample_async_resolver = (case fst (NewAsyncResolver sample_async_env sample_async) of Inr r \<Rightarrow> r)"

theorem recovery_reads_former_route_witness:
  "RecoveryClientFor (\<lambda>q. Inr ()) sample_async_resolver ''m1'' ''p1'' = Inr ''llm-d-async:results:a:p1''
   \<and> (\<exists>r'. fst (NewAsyncResolver sample_async_env (sample_async\<lparr>ax_ConsumerID := ''p1''\<rparr>)) = Inr r'
        \<and> map_option po_ResultQueue (map_of (ar_pools r') ''m1'') = Some ''llm-d-async:results:a:p1'')
   \<and> RecoveryClientFor (\<lambda>q. Inr ()) sample_async_resolver ''m2'' ''p1'' \<noteq> Inr ''llm-d-async:results:a:p1''"
proof -
  obtain open1 where n: "NewAsyncResolver sample_async_env sample_async = (Inr sample_async_resolver, open1)"
    by (rule that [of "snd (NewAsyncResolver sample_async_env sample_async)"]) code_simp
  have rec: "RecoveryClientFor (\<lambda>q. Inr ()) sample_async_resolver ''m1'' ''p1'' = Inr ''llm-d-async:results:a:p1''" by code_simp
  obtain res open2 where n2: "NewAsyncResolver sample_async_env (sample_async\<lparr>ax_ConsumerID := ''p1''\<rparr>) = (res, open2)" by fastforce
  have "is_ok (fst (NewAsyncResolver sample_async_env (sample_async\<lparr>ax_ConsumerID := ''p1''\<rparr>)))" by code_simp
  then obtain r' where r': "res = Inr r'" using n2 by (cases res) simp_all
  have "\<forall>(k, m) \<in> set (ax_Models sample_async). ap_ResultQueueName m = []" by (simp add: sample_async_def)
  with recovery_reads_former_route [of sample_async_env sample_async sample_async_env sample_async sample_async_resolver open1
      "\<lambda>q. Inr ()" "''m1''" "''p1''" "''llm-d-async:results:a:p1''" sample_async_env "''p1''" "''m2''"] n rec n2 r'
  show ?thesis by simp
qed

text \<open>Explicit queue names are not compared: two models may share a result route, and then each reads the results of the other.\<close>

lemma shared_result_queue_accepted:
  assumes "q \<noteq> []" and "p1 \<noteq> p2"
  shows "check_pools [] [(''m1'', \<lparr>ap_PoolName = p1, ap_RequestQueueName = q1, ap_ResultQueueName = q\<rparr>),
      (''m2'', \<lparr>ap_PoolName = p2, ap_RequestQueueName = q2, ap_ResultQueueName = q\<rparr>)] = Inr ()"
    and "result_base \<lparr>ap_PoolName = p1, ap_RequestQueueName = q1, ap_ResultQueueName = q\<rparr> =
      result_base \<lparr>ap_PoolName = p2, ap_RequestQueueName = q2, ap_ResultQueueName = q\<rparr>"
  using assms by (simp_all add: result_base_def)

end
