(* ===== verification/Broadcasters.thy ===== *)
theory Broadcasters
  imports Async_Routing
begin

text \<open>
  The registry of result broadcasters (\<^verbatim>\<open>internal/processor/worker/broadcasters.go\<close>) and
  the group a job subscribes to (\<^verbatim>\<open>BroadcasterGroup\<close> in \<^verbatim>\<open>result_router.go\<close>). A processor
  has one broadcaster for each model, which reads its own route until the processor
  stops. A job that recovers a batch also needs the routes of the former submitters;
  their broadcasters are counted by the jobs that hold them and stopped with the last
  one. What a broadcaster does with a delivery is the routing of the pipeline.
\<close>

section \<open>The registry\<close>

text \<open>
  A broadcaster is its number in the heap. It has a route, the channels subscribed to
  it, whether its receive loop was started, and whether its context is done.
\<close>

record broadcaster =
  bc_route :: string
  bc_subscribers :: "nat list"
  bc_started :: bool
  bc_cancelled :: bool

definition NewResultBroadcaster :: "string \<Rightarrow> broadcaster" where
  "NewResultBroadcaster path = \<lparr>bc_route = path, bc_subscribers = [], bc_started = False, bc_cancelled = False\<rparr>"

type_synonym recoveryRouteKey = "string \<times> string"

text \<open>
  \<open>br_base\<close> is the base context: \<open>None\<close> before \<^verbatim>\<open>Run\<close>, then whether it is done. A recovery
  entry is the broadcaster and its reference count.
\<close>

record broadcasterRegistry =
  br_broadcasters :: "(string \<times> nat) list"
  br_heap :: "broadcaster list"
  br_base :: "bool option"
  br_recovery :: "recoveryRouteKey \<rightharpoonup> nat \<times> int"

definition on_broadcaster :: "nat \<Rightarrow> (broadcaster \<Rightarrow> broadcaster) \<Rightarrow> broadcasterRegistry \<Rightarrow> broadcasterRegistry" where
  "on_broadcaster b f reg = reg\<lparr>br_heap := (br_heap reg)[b := f (br_heap reg ! b)]\<rparr>"

definition newBroadcasterRegistry :: "AsyncGatewayResolver \<Rightarrow> broadcasterRegistry" where
  "newBroadcasterRegistry r =
    \<lparr>br_broadcasters = zip (Models r) [0..<length (Models r)], br_heap = map (NewResultBroadcaster \<circ> po_ResultQueue \<circ> snd) (ar_pools r),
     br_base = None, br_recovery = Map.empty\<rparr>"

text \<open>\<^verbatim>\<open>Run\<close> starts the broadcasters of the models.\<close>

definition registry_Run :: "broadcasterRegistry \<Rightarrow> broadcasterRegistry" where
  "registry_Run reg = reg\<lparr>br_base := Some False,
     br_heap := map (\<lambda>(b, x). if b \<in> snd ` set (br_broadcasters reg) then x\<lparr>bc_started := True\<rparr> else x)
       (zip [0..<length (br_heap reg)] (br_heap reg))\<rparr>"

definition acquireRecovery ::
  "(string \<Rightarrow> unit res) \<Rightarrow> AsyncGatewayResolver \<Rightarrow> recoveryRouteKey \<Rightarrow> broadcasterRegistry \<Rightarrow> nat option \<times> broadcasterRegistry" where
  "acquireRecovery newProducer r key reg = (case br_recovery reg key of
      Some (b, refs) \<Rightarrow> (Some b, reg\<lparr>br_recovery := (br_recovery reg)(key \<mapsto> (b, refs + 1))\<rparr>)
    | None \<Rightarrow>
        if br_base reg = None \<or> br_base reg = Some True then (None, reg)
        else (case RecoveryClientFor newProducer r (fst key) (snd key) of
            Inl e \<Rightarrow> (None, reg)
          | Inr path \<Rightarrow>
              let b = length (br_heap reg)
              in (Some b, reg\<lparr>br_heap := br_heap reg @ [NewResultBroadcaster path], br_recovery := (br_recovery reg)(key \<mapsto> (b, 1))\<rparr>)))"

definition releaseRecovery :: "recoveryRouteKey \<Rightarrow> broadcasterRegistry \<Rightarrow> broadcasterRegistry" where
  "releaseRecovery key reg = (case br_recovery reg key of
      None \<Rightarrow> reg
    | Some (b, refs) \<Rightarrow>
        if refs \<le> 0 then reg
        else if refs - 1 > 0 then reg\<lparr>br_recovery := (br_recovery reg)(key \<mapsto> (b, refs - 1))\<rparr>
        else on_broadcaster b (\<lambda>x. x\<lparr>bc_cancelled := True\<rparr>) (reg\<lparr>br_recovery := (br_recovery reg)(key := None)\<rparr>))"

text \<open>The start function of a recovery broadcaster launches its loop once.\<close>

definition start_recovery :: "nat \<Rightarrow> broadcasterRegistry \<Rightarrow> broadcasterRegistry" where
  "start_recovery b = on_broadcaster b (\<lambda>x. x\<lparr>bc_started := True\<rparr>)"

definition Subscribe :: "nat \<Rightarrow> nat \<Rightarrow> broadcasterRegistry \<Rightarrow> broadcasterRegistry" where
  "Subscribe ch b = on_broadcaster b (\<lambda>x. x\<lparr>bc_subscribers := List.insert ch (bc_subscribers x)\<rparr>)"

definition Unsubscribe :: "nat \<Rightarrow> nat \<Rightarrow> broadcasterRegistry \<Rightarrow> broadcasterRegistry" where
  "Unsubscribe ch b = on_broadcaster b (\<lambda>x. x\<lparr>bc_subscribers := removeAll ch (bc_subscribers x)\<rparr>)"

text \<open>
  The end of the processor: the base context is cancelled, and with it the contexts that are
  derived from it, which are those of all broadcasters. The broadcasters of the models run
  on the base context itself, the recovery broadcasters on a child with a cancel function of
  its own.
\<close>

definition stop_base :: "broadcasterRegistry \<Rightarrow> broadcasterRegistry" where
  "stop_base reg = reg\<lparr>br_base := Some True, br_heap := map (\<lambda>x. x\<lparr>bc_cancelled := True\<rparr>) (br_heap reg)\<rparr>"

section \<open>The group of a job\<close>

text \<open>The group: the broadcasters to subscribe to, and what was acquired, with the broadcaster of each key.\<close>

record BroadcasterGroup =
  bg_broadcasters :: "nat list"
  bg_acquired :: "(recoveryRouteKey \<times> nat) list"
  bg_released :: bool

fun acquire_each ::
  "(string \<Rightarrow> unit res) \<Rightarrow> AsyncGatewayResolver \<Rightarrow> recoveryRouteKey list \<Rightarrow> broadcasterRegistry \<Rightarrow> (recoveryRouteKey \<times> nat) list \<times> broadcasterRegistry" where
  "acquire_each newProducer r [] reg = ([], reg)"
| "acquire_each newProducer r (key # keys) reg = (case acquireRecovery newProducer r key reg of
      (None, reg') \<Rightarrow> acquire_each newProducer r keys reg'
    | (Some b, reg') \<Rightarrow> (case acquire_each newProducer r keys reg' of (acq, reg'') \<Rightarrow> ((key, b) # acq, reg'')))"

definition forModels ::
  "(string \<Rightarrow> unit res) \<Rightarrow> AsyncGatewayResolver \<Rightarrow> string list \<Rightarrow> string list \<Rightarrow> broadcasterRegistry \<Rightarrow> BroadcasterGroup \<times> broadcasterRegistry" where
  "forModels newProducer r models submitters reg =
    (let own = List.map_filter (map_of (br_broadcasters reg)) models;
         keys = concat (map (\<lambda>consumer. map (\<lambda>modelID. (modelID, consumer)) models) (filter (\<lambda>c. c \<noteq> []) submitters))
     in case acquire_each newProducer r keys reg of
          (acq, reg') \<Rightarrow> (\<lparr>bg_broadcasters = own @ map snd acq, bg_acquired = acq, bg_released = False\<rparr>, reg'))"

definition group_Subscribe :: "nat \<Rightarrow> BroadcasterGroup \<Rightarrow> broadcasterRegistry \<Rightarrow> broadcasterRegistry" where
  "group_Subscribe ch g reg = fold (Subscribe ch) (bg_broadcasters g) reg"

definition group_Start :: "BroadcasterGroup \<Rightarrow> broadcasterRegistry \<Rightarrow> broadcasterRegistry" where
  "group_Start g reg = fold start_recovery (map snd (bg_acquired g)) reg"

definition group_Unsubscribe :: "nat \<Rightarrow> BroadcasterGroup \<Rightarrow> broadcasterRegistry \<Rightarrow> broadcasterRegistry" where
  "group_Unsubscribe ch g reg = fold (Unsubscribe ch) (bg_broadcasters g) reg"

text \<open>The release function of the group, which works once.\<close>

definition group_release :: "BroadcasterGroup \<Rightarrow> broadcasterRegistry \<Rightarrow> BroadcasterGroup \<times> broadcasterRegistry" where
  "group_release g reg = (if bg_released g then (g, reg)
     else (g\<lparr>bg_released := True\<rparr>, fold releaseRecovery (map fst (bg_acquired g)) reg))"

section \<open>Jobs that share the registry\<close>

text \<open>
  The jobs of a processor run at the same time; every operation on the registry is one
  step, under its mutex. A holding is a job, a key it acquired, and the broadcaster it
  was given; it lasts until the job releases the key. Subscriptions and starts use the
  broadcasters of a group, and the processor may be told to stop at any moment.
\<close>

type_synonym holding = "nat \<times> recoveryRouteKey \<times> nat"

inductive reg_step ::
  "(string \<Rightarrow> unit res) \<Rightarrow> AsyncGatewayResolver \<Rightarrow> broadcasterRegistry \<times> holding list \<Rightarrow> broadcasterRegistry \<times> holding list \<Rightarrow> bool"
  for newProducer r where
  reg_acquire: "acquireRecovery newProducer r key reg = (Some b, reg') \<Longrightarrow> reg_step newProducer r (reg, H) (reg', (j, key, b) # H)"
| reg_refused: "acquireRecovery newProducer r key reg = (None, reg') \<Longrightarrow> reg_step newProducer r (reg, H) (reg', H)"
| reg_subscribe: "reg_step newProducer r (reg, H) (Subscribe ch b reg, H)"
| reg_unsubscribe: "reg_step newProducer r (reg, H) (Unsubscribe ch b reg, H)"
| reg_start: "(j, key, b) \<in> set H \<Longrightarrow> reg_step newProducer r (reg, H) (start_recovery b reg, H)"
| reg_release: "(j, key, b) \<in> set H \<Longrightarrow> reg_step newProducer r (reg, H) (releaseRecovery key reg, remove1 (j, key, b) H)"
| reg_stop: "reg_step newProducer r (reg, H) (stop_base reg, H)"

definition holders :: "recoveryRouteKey \<Rightarrow> holding list \<Rightarrow> nat" where
  "holders key H = length (filter (\<lambda>h. fst (snd h) = key) H)"

lemma holders_simps [simp]:
  "holders key [] = 0" "holders key ((j, key', b) # H) = (if key' = key then 1 else 0) + holders key H"
  by (simp_all add: holders_def)

lemma holders_remove1:
  "(j, key', b) \<in> set H \<Longrightarrow> holders key H = holders key (remove1 (j, key', b) H) + (if key' = key then 1 else 0)"
  by (induction H) (auto simp: holders_def)

lemma holders_pos: "(j, key, b) \<in> set H \<Longrightarrow> 0 < holders key H"
  by (force simp: holders_def filter_empty_conv)

text \<open>
  The invariant: a recovery entry counts its holders and has a broadcaster on the route of
  its key, which is done only with the base context; every holding is of the entry of its
  key; no two entries share a broadcaster; the first \<open>n\<close> broadcasters are those of the
  models, which no entry uses and which are done only with the base context, and of the
  others only those of an entry are live.
\<close>

definition entry_ok :: "(recoveryRouteKey \<Rightarrow> string option) \<Rightarrow> nat \<Rightarrow> broadcasterRegistry \<Rightarrow> holding list \<Rightarrow> recoveryRouteKey \<Rightarrow> nat \<Rightarrow> int \<Rightarrow> bool" where
  "entry_ok path n reg H key b refs = (refs = int (holders key H) \<and> 0 < refs \<and> n \<le> b \<and> b < length (br_heap reg)
    \<and> bc_cancelled (br_heap reg ! b) = (br_base reg = Some True) \<and> path key = Some (bc_route (br_heap reg ! b)))"

definition registry_inv :: "(recoveryRouteKey \<Rightarrow> string option) \<Rightarrow> nat \<Rightarrow> broadcasterRegistry \<times> holding list \<Rightarrow> bool" where
  "registry_inv path n s = (case s of (reg, H) \<Rightarrow>
     n \<le> length (br_heap reg)
     \<and> (\<forall>key b refs. br_recovery reg key = Some (b, refs) \<longrightarrow> entry_ok path n reg H key b refs)
     \<and> (\<forall>(j, key, b) \<in> set H. \<exists>refs. br_recovery reg key = Some (b, refs))
     \<and> (\<forall>key key' b refs refs'. br_recovery reg key = Some (b, refs) \<and> br_recovery reg key' = Some (b, refs') \<longrightarrow> key = key')
     \<and> (\<forall>b < n. bc_cancelled (br_heap reg ! b) = (br_base reg = Some True))
     \<and> (\<forall>b < length (br_heap reg). n \<le> b \<and> \<not> bc_cancelled (br_heap reg ! b) \<longrightarrow> (\<exists>key refs. br_recovery reg key = Some (b, refs))))"

definition recovery_path :: "(string \<Rightarrow> unit res) \<Rightarrow> AsyncGatewayResolver \<Rightarrow> recoveryRouteKey \<Rightarrow> string option" where
  "recovery_path newProducer r key = (case RecoveryClientFor newProducer r (fst key) (snd key) of Inl e \<Rightarrow> None | Inr path \<Rightarrow> Some path)"

lemma registry_invI:
  assumes "n \<le> length (br_heap reg)"
    and "\<And>key b refs. br_recovery reg key = Some (b, refs) \<Longrightarrow> entry_ok path n reg H key b refs"
    and "\<And>j key b. (j, key, b) \<in> set H \<Longrightarrow> \<exists>refs. br_recovery reg key = Some (b, refs)"
    and "\<And>key key' b refs refs'. br_recovery reg key = Some (b, refs) \<Longrightarrow> br_recovery reg key' = Some (b, refs') \<Longrightarrow> key = key'"
    and "\<And>b. b < n \<Longrightarrow> bc_cancelled (br_heap reg ! b) = (br_base reg = Some True)"
    and "\<And>b. b < length (br_heap reg) \<Longrightarrow> n \<le> b \<Longrightarrow> \<not> bc_cancelled (br_heap reg ! b) \<Longrightarrow> \<exists>key refs. br_recovery reg key = Some (b, refs)"
  shows "registry_inv path n (reg, H)"
  using assms unfolding registry_inv_def by blast

lemma registry_invD:
  assumes "registry_inv path n (reg, H)"
  shows "n \<le> length (br_heap reg)"
    and "br_recovery reg key = Some (b, refs) \<Longrightarrow> entry_ok path n reg H key b refs"
    and "(j, key, b) \<in> set H \<Longrightarrow> \<exists>refs. br_recovery reg key = Some (b, refs)"
    and "br_recovery reg key = Some (b, refs) \<Longrightarrow> br_recovery reg key' = Some (b, refs') \<Longrightarrow> key = key'"
    and "b < n \<Longrightarrow> bc_cancelled (br_heap reg ! b) = (br_base reg = Some True)"
    and "b < length (br_heap reg) \<Longrightarrow> n \<le> b \<Longrightarrow> \<not> bc_cancelled (br_heap reg ! b) \<Longrightarrow> \<exists>key refs. br_recovery reg key = Some (b, refs)"
  using assms unfolding registry_inv_def by blast+

lemma entry_without_holding:
  assumes "registry_inv path n (reg, H)" and "br_recovery reg key = None"
  shows "holders key H = 0"
  using registry_invD(3) [OF assms(1)] assms(2) by (force simp: holders_def filter_empty_conv)

text \<open>A change of subscribers or of the start flag does not matter to the invariant.\<close>

lemma on_broadcaster_inv:
  assumes inv: "registry_inv path n (reg, H)"
    and "\<And>x. bc_cancelled (f x) = bc_cancelled x" "\<And>x. bc_route (f x) = bc_route x"
  shows "registry_inv path n (on_broadcaster b f reg, H)"
proof -
  have same: "g (br_heap (on_broadcaster b f reg) ! i) = g (br_heap reg ! i)" if "\<And>x. g (f x) = g x" for g :: "broadcaster \<Rightarrow> 'a" and i
    using that by (cases "b < length (br_heap reg)") (auto simp: on_broadcaster_def nth_list_update list_update_beyond)
  note same = same [of bc_cancelled, OF assms(2)] same [of bc_route, OF assms(3)]
  have "br_recovery (on_broadcaster b f reg) = br_recovery reg" "br_base (on_broadcaster b f reg) = br_base reg" "length (br_heap (on_broadcaster b f reg)) = length (br_heap reg)"
    by (simp_all add: on_broadcaster_def)
  with registry_invD [OF inv] show ?thesis by (intro registry_invI) (simp_all add: same entry_ok_def)
qed

text \<open>A new count of an entry, with the holdings it counts.\<close>

lemma recount_inv:
  assumes inv: "registry_inv path n (reg, H)" and e: "br_recovery reg key = Some (b, refs)"
    and x: "x = int (holders key H')" "0 < x" and other: "\<And>k. k \<noteq> key \<Longrightarrow> holders k H' = holders k H"
    and held: "\<And>h. h \<in> set H' \<Longrightarrow> h \<in> set H \<or> snd h = (key, b)"
  shows "registry_inv path n (reg\<lparr>br_recovery := (br_recovery reg)(key \<mapsto> (b, x))\<rparr>, H')"
proof -
  note d = registry_invD [OF inv]
  let ?reg = "reg\<lparr>br_recovery := (br_recovery reg)(key \<mapsto> (b, x))\<rparr>"
  have has: "(\<exists>r. br_recovery ?reg k = Some (c, r)) \<longleftrightarrow> (\<exists>r. br_recovery reg k = Some (c, r))" for k c using e by auto
  show ?thesis
  proof (rule registry_invI)
    fix key' key'' b' refs' refs''
    show "entry_ok path n ?reg H' key' b' refs'" if "br_recovery ?reg key' = Some (b', refs')"
      using that d(2) [of key' b'] d(2) [OF e] x other [of key'] by (cases "key' = key") (auto simp: entry_ok_def)
    show "key' = key''" if "br_recovery ?reg key' = Some (b', refs')" "br_recovery ?reg key'' = Some (b', refs'')"
      using that has d(4) by blast
    show "\<exists>r. br_recovery ?reg key' = Some (b', r)" if "(j', key', b') \<in> set H'" for j'
      unfolding has using held [OF that] d(3) [of j' key' b'] e by auto
    show "\<exists>k r. br_recovery ?reg k = Some (b', r)" if "b' < length (br_heap ?reg)" "n \<le> b'" "\<not> bc_cancelled (br_heap ?reg ! b')"
      unfolding has using d(6) [of b'] that by simp
  qed (use d(1,5) in simp_all)
qed

lemma acquire_inv:
  assumes inv: "registry_inv (recovery_path np r) n (reg, H)" and acq: "acquireRecovery np r key reg = (Some b, reg')"
  shows "registry_inv (recovery_path np r) n (reg', (j, key, b) # H)"
proof (cases "br_recovery reg key")
  case (Some e)
  then obtain refs where e: "br_recovery reg key = Some (b, refs)" "reg' = reg\<lparr>br_recovery := (br_recovery reg)(key \<mapsto> (b, refs + 1))\<rparr>"
    using acq by (cases e) (auto simp: acquireRecovery_def)
  have "refs = int (holders key H)" using registry_invD(2) [OF inv e(1)] by (simp add: entry_ok_def)
  then show ?thesis unfolding e(2) by (intro recount_inv [OF inv e(1)]) auto
next
  case None
  then obtain path where p: "RecoveryClientFor np r (fst key) (snd key) = Inr path" "b = length (br_heap reg)"
      "br_base reg \<noteq> Some True"
      "reg' = reg\<lparr>br_heap := br_heap reg @ [NewResultBroadcaster path], br_recovery := (br_recovery reg)(key \<mapsto> (b, 1))\<rparr>"
    using acq by (auto simp: acquireRecovery_def Let_def split: if_splits sum.splits)
  note d = registry_invD [OF inv]
  have zero: "holders key H = 0" by (rule entry_without_holding [OF inv None])
  have old: "b' < b" if "br_recovery reg key' = Some (b', refs')" for key' b' refs' using d(2) [OF that] p(2) by (simp add: entry_ok_def)
  show ?thesis
  proof (rule registry_invI)
    fix key' key'' b' refs' refs''
    show "entry_ok (recovery_path np r) n reg' ((j, key, b) # H) key' b' refs'" if "br_recovery reg' key' = Some (b', refs')"
      using that d(1) d(2) [of key' b'] zero old [of key' b']
      by (cases "key' = key") (auto simp: p entry_ok_def recovery_path_def NewResultBroadcaster_def nth_append)
    show "key' = key''" if "br_recovery reg' key' = Some (b', refs')" "br_recovery reg' key'' = Some (b', refs'')"
      using that d(4) [of key' b' _ key''] old [of key' b'] old [of key'' b'] by (auto simp: p(4) split: if_splits)
    show "bc_cancelled (br_heap reg' ! b') = (br_base reg' = Some True)" if "b' < n" using that d(1) d(5) [OF that] by (simp add: p(4) nth_append)
    show "\<exists>key refs. br_recovery reg' key = Some (b', refs)" if "b' < length (br_heap reg')" "n \<le> b'" "\<not> bc_cancelled (br_heap reg' ! b')"
    proof (cases "b' = b")
      case False
      then have "b' < length (br_heap reg)" "\<not> bc_cancelled (br_heap reg ! b')" using that p by (auto simp: nth_append)
      with d(6) [of b'] that(2) obtain k2 r2 where "br_recovery reg k2 = Some (b', r2)" by blast
      moreover from this have "k2 \<noteq> key" using None by auto
      ultimately show ?thesis by (intro exI [of _ k2] exI [of _ r2]) (simp add: p(4))
    qed (intro exI [of _ key] exI [of _ 1], simp add: p(4))
    show "\<exists>refs. br_recovery reg' key' = Some (b', refs)" if "(j', key', b') \<in> set ((j, key, b) # H)" for j'
      using that d(3) [of j' key' b'] None by (auto simp: p(4))
  qed (use d(1) p in auto)
qed

text \<open>The last release of a key removes the entry and stops its broadcaster.\<close>

lemma last_release_inv:
  assumes inv: "registry_inv path n (reg, H)" and held: "(j, key, b) \<in> set H" and e: "br_recovery reg key = Some (b, 1)"
  shows "registry_inv path n (releaseRecovery key reg, remove1 (j, key, b) H)"
proof -
  note d = registry_invD [OF inv]
  let ?H = "remove1 (j, key, b) H" and ?reg = "releaseRecovery key reg"
  have rel: "?reg = on_broadcaster b (\<lambda>x. x\<lparr>bc_cancelled := True\<rparr>) (reg\<lparr>br_recovery := (br_recovery reg)(key := None)\<rparr>)"
    by (simp add: releaseRecovery_def e)
  have ok: "entry_ok path n reg H key b 1" by (rule d(2) [OF e])
  have none: "holders key ?H = 0" using ok holders_remove1 [OF held, of key] by (simp add: entry_ok_def)
  have other: "b' \<noteq> b" if "br_recovery reg key' = Some (b', refs')" "key' \<noteq> key" for key' b' refs' using d(4) [OF e, of key'] that by auto
  show ?thesis
  proof (rule registry_invI)
    fix key' key'' b' refs' refs''
    show "entry_ok path n ?reg ?H key' b' refs'" if "br_recovery ?reg key' = Some (b', refs')"
      using that d(2) [of key' b'] other [of key' b'] holders_remove1 [OF held, of key']
      by (cases "key' = key") (auto simp: rel on_broadcaster_def entry_ok_def)
    show "\<exists>refs. br_recovery ?reg key' = Some (b', refs)" if "(j', key', b') \<in> set ?H" for j'
      using that d(3) [of j' key' b'] set_remove1_subset [of _ H] holders_pos [OF that] none by (cases "key' = key") (auto simp: rel on_broadcaster_def)
    show "key' = key''" if "br_recovery ?reg key' = Some (b', refs')" "br_recovery ?reg key'' = Some (b', refs'')"
      using that d(4) [of key' b' _ key''] by (auto simp: rel on_broadcaster_def split: if_splits)
    show "\<exists>key' refs. br_recovery ?reg key' = Some (b', refs)" if "b' < length (br_heap ?reg)" "n \<le> b'" "\<not> bc_cancelled (br_heap ?reg ! b')"
    proof -
      have "b' \<noteq> b" "b' < length (br_heap reg)" "\<not> bc_cancelled (br_heap reg ! b')"
        using that by (cases "b' = b"; simp add: rel on_broadcaster_def)+
      with d(6) [of b'] that(2) obtain k2 r2 where "br_recovery reg k2 = Some (b', r2)" by blast
      moreover from this have "k2 \<noteq> key" using \<open>b' \<noteq> b\<close> e by auto
      ultimately show ?thesis by (intro exI [of _ k2] exI [of _ r2]) (simp add: rel on_broadcaster_def)
    qed
  qed (use d(1,5) ok in \<open>auto simp: rel on_broadcaster_def nth_list_update entry_ok_def\<close>)
qed

lemma release_inv:
  assumes inv: "registry_inv path n (reg, H)" and held: "(j, key, b) \<in> set H"
  shows "registry_inv path n (releaseRecovery key reg, remove1 (j, key, b) H)"
proof -
  obtain refs where e: "br_recovery reg key = Some (b, refs)" using registry_invD(3) [OF inv held] by blast
  have ok: "entry_ok path n reg H key b refs" by (rule registry_invD(2) [OF inv e])
  show ?thesis
  proof (cases "refs = 1")
    case False
    with ok have rel: "releaseRecovery key reg = reg\<lparr>br_recovery := (br_recovery reg)(key \<mapsto> (b, refs - 1))\<rparr>"
      by (auto simp: releaseRecovery_def e entry_ok_def)
    show ?thesis unfolding rel
      by (rule recount_inv [OF inv e])
        (use ok False holders_remove1 [OF held] set_remove1_subset [of _ H] in \<open>auto simp: entry_ok_def\<close>)
  qed (use last_release_inv [OF inv held] e in simp)
qed

lemma reg_step_inv:
  assumes "reg_step np r s s'" and "registry_inv (recovery_path np r) n s"
  shows "registry_inv (recovery_path np r) n s'"
  using assms
proof (induction rule: reg_step.induct)
  case (reg_refused key reg reg' H)
  then have "reg' = reg" by (auto simp: acquireRecovery_def Let_def split: option.splits if_splits sum.splits)
  with reg_refused show ?case by simp
next
  case (reg_stop reg H)
  then show ?case by (auto simp: registry_inv_def entry_ok_def stop_base_def)
qed (auto intro: acquire_inv release_inv on_broadcaster_inv simp: Subscribe_def Unsubscribe_def start_recovery_def)

text \<open>The operations of a group are sequences of such steps.\<close>

lemma acquire_each_steps:
  "acquire_each np r keys reg = (acq, reg') \<Longrightarrow>
    (reg_step np r)\<^sup>*\<^sup>* (reg, H) (reg', rev (map (Pair j) acq) @ H)"
proof (induction keys arbitrary: reg acq H)
  case (Cons key keys)
  obtain o1 reg1 where one: "acquireRecovery np r key reg = (o1, reg1)" by fastforce
  show ?case
  proof (cases o1)
    case None
    with one Cons(2) have "acquire_each np r keys reg1 = (acq, reg')" by simp
    from Cons(1) [OF this] reg_refused [of np r key reg reg1] one None show ?thesis
      by (auto intro: converse_rtranclp_into_rtranclp)
  next
    case (Some b)
    with one Cons(2) obtain acq1 where acq: "acquire_each np r keys reg1 = (acq1, reg')" "acq = (key, b) # acq1" by (auto split: prod.splits)
    from Cons(1) [OF acq(1), of "(j, key, b) # H"] reg_acquire [of np r key reg b reg1] one Some acq(2) show ?thesis
      by (auto intro: converse_rtranclp_into_rtranclp)
  qed
qed simp

lemma forModels_steps:
  assumes "forModels np r models submitters reg = (g, reg')"
  shows "(reg_step np r)\<^sup>*\<^sup>* (reg, H) (reg', rev (map (Pair j) (bg_acquired g)) @ H)"
  using assms by (auto simp: forModels_def Let_def intro: acquire_each_steps split: prod.splits)

lemma release_each_steps:
  assumes "mset (map (Pair j) acq) \<subseteq># mset H"
  shows "\<exists>H'. (reg_step np r)\<^sup>*\<^sup>* (reg, H) (fold releaseRecovery (map fst acq) reg, H') \<and> mset H' = mset H - mset (map (Pair j) acq)"
  using assms
proof (induction acq arbitrary: reg H)
  case (Cons kb acq)
  obtain key b where kb: "kb = (key, b)" by fastforce
  have held: "(j, key, b) \<in> set H" using Cons(2) kb by (metis insert_subset_eq_iff list.simps(9) mset.simps(2) mset_subset_eqD set_mset_mset union_single_eq_member)
  have "mset (map (Pair j) acq) \<subseteq># mset (remove1 (j, key, b) H)"
    using Cons(2) kb by (simp add: insert_subset_eq_iff)
  from Cons(1) [OF this, of "releaseRecovery key reg"] obtain H' where "(reg_step np r)\<^sup>*\<^sup>* (releaseRecovery key reg, remove1 (j, key, b) H)
      (fold releaseRecovery (map fst acq) (releaseRecovery key reg), H')" "mset H' = mset (remove1 (j, key, b) H) - mset (map (Pair j) acq)"
    by blast
  with reg_release [OF held, of np r reg] show ?case by (auto simp: kb intro: converse_rtranclp_into_rtranclp)
qed auto

lemma registry_inv_start:
  "registry_inv path (length (ar_pools r)) (registry_Run (newBroadcasterRegistry r), [])"
  by (rule registry_invI) (auto simp: newBroadcasterRegistry_def registry_Run_def NewResultBroadcaster_def Models_def)

text \<open>
  C12: A recovery route is served exactly while a job needs it and the processor runs. Whatever
  the jobs of a processor do, in any order, and whenever it is stopped: the broadcaster a job
  was given for a former route and has not released is on that route and its context is done
  only if that of the processor is, every job that holds the same route has the same
  broadcaster, its count is the number of holdings, the context of a recovery broadcaster
  nobody holds is done, and the broadcasters of the processor's own models are never stopped by
  a release. Once the processor is stopped all broadcasters are, and no new route is opened.
  The group a job builds and its release are such sequences of steps, and a release
  gives back what the group acquired.
\<close>

theorem recovery_route_lifetime:
  assumes "(reg_step np r)\<^sup>*\<^sup>* (registry_Run (newBroadcasterRegistry r), []) (reg, H)" and "(j, key, b) \<in> set H"
  shows "b < length (br_heap reg) \<and> bc_cancelled (br_heap reg ! b) = (br_base reg = Some True)
    \<and> RecoveryClientFor np r (fst key) (snd key) = Inr (bc_route (br_heap reg ! b))
    \<and> br_recovery reg key = Some (b, int (holders key H))
    \<and> (\<forall>j' b'. (j', key, b') \<in> set H \<longrightarrow> b' = b)
    \<and> (\<forall>b' < length (br_heap reg). length (ar_pools r) \<le> b' \<and> (\<forall>j' key'. (j', key', b') \<notin> set H) \<longrightarrow> bc_cancelled (br_heap reg ! b'))
    \<and> (\<forall>b' < length (ar_pools r). bc_cancelled (br_heap reg ! b') = (br_base reg = Some True))
    \<and> (br_base reg = Some True \<longrightarrow> (\<forall>b' < length (br_heap reg). bc_cancelled (br_heap reg ! b'))
         \<and> (\<forall>key'. holders key' H = 0 \<longrightarrow> acquireRecovery np r key' reg = (None, reg)))
    \<and> (\<forall>g reg' models submitters. forModels np r models submitters reg = (g, reg') \<longrightarrow>
         (reg_step np r)\<^sup>*\<^sup>* (reg, H) (reg', rev (map (Pair j) (bg_acquired g)) @ H)
         \<and> (\<exists>H'. (reg_step np r)\<^sup>*\<^sup>* (reg', rev (map (Pair j) (bg_acquired g)) @ H) (snd (group_release g reg'), H') \<and> mset H' = mset H))"
proof -
  have inv: "registry_inv (recovery_path np r) (length (ar_pools r)) (reg, H)"
    using assms(1) registry_inv_start by (induction rule: rtranclp_induct) (auto intro: reg_step_inv)
  note d = registry_invD [OF inv]
  obtain refs where e: "br_recovery reg key = Some (b, refs)" using d(3) [OF assms(2)] by blast
  have ok: "entry_ok (recovery_path np r) (length (ar_pools r)) reg H key b refs" by (rule d(2) [OF e])
  have gone: "bc_cancelled (br_heap reg ! b')"
    if b': "b' < length (br_heap reg)" "length (ar_pools r) \<le> b'" "\<forall>j' key'. (j', key', b') \<notin> set H" for b'
  proof (rule ccontr)
    assume "\<not> bc_cancelled (br_heap reg ! b')"
    then obtain k2 r2 where k2: "br_recovery reg k2 = Some (b', r2)" using d(6) [of b'] b' by blast
    then have "0 < holders k2 H" using d(2) [OF k2] by (simp add: entry_ok_def)
    then obtain j2 b2 where "(j2, k2, b2) \<in> set H" by (auto simp: holders_def filter_empty_conv)
    moreover from this have "b2 = b'" using d(3) [of j2 k2 b2] k2 by auto
    ultimately show False using b'(3) by blast
  qed
  have release: "\<exists>H'. (reg_step np r)\<^sup>*\<^sup>* (reg', rev (map (Pair j) (bg_acquired g)) @ H) (snd (group_release g reg'), H') \<and> mset H' = mset H"
    if "forModels np r models submitters reg = (g, reg')" for g reg' models submitters
  proof -
    have "\<not> bg_released g" using that by (auto simp: forModels_def Let_def split: prod.splits)
    then show ?thesis
      using release_each_steps [of j "bg_acquired g" "rev (map (Pair j) (bg_acquired g)) @ H" np r reg']
      by (simp add: group_release_def)
  qed
  have path: "RecoveryClientFor np r (fst key) (snd key) = Inr (bc_route (br_heap reg ! b))"
    using ok by (auto simp: entry_ok_def recovery_path_def split: sum.splits)
  have stopped: "bc_cancelled (br_heap reg ! b')" if "br_base reg = Some True" "b' < length (br_heap reg)" for b'
  proof (rule ccontr)
    assume live: "\<not> bc_cancelled (br_heap reg ! b')"
    then have "length (ar_pools r) \<le> b'" using d(5) [of b'] that(1) by (cases "b' < length (ar_pools r)") auto
    then have "\<exists>k2 r2. br_recovery reg k2 = Some (b', r2)" using d(6) [of b'] that(2) live by blast
    then show False using d(2) that(1) live by (fastforce simp: entry_ok_def)
  qed
  have refused: "acquireRecovery np r key' reg = (None, reg)" if "br_base reg = Some True" "holders key' H = 0" for key'
  proof -
    have "br_recovery reg key' = None"
      using d(2) [of key'] that(2) by (cases "br_recovery reg key'") (fastforce simp: entry_ok_def)+
    then show ?thesis using that(1) by (simp add: acquireRecovery_def)
  qed
  show ?thesis
    using ok e path gone release stopped refused forModels_steps d(3) [of _ key] d(5) by (auto simp: entry_ok_def)
qed

definition sample_registry :: broadcasterRegistry where
  "sample_registry = registry_Run (newBroadcasterRegistry sample_async_resolver)"

definition sample_group :: "BroadcasterGroup \<times> broadcasterRegistry" where
  "sample_group = forModels (\<lambda>q. Inr ()) sample_async_resolver [''m1''] [''p1'', []] sample_registry"

theorem recovery_route_lifetime_witness:
  "bg_acquired (fst sample_group) = [((''m1'', ''p1''), 2)] \<and> bg_broadcasters (fst sample_group) = [0, 2]
   \<and> \<not> bc_cancelled (br_heap (snd sample_group) ! 2) \<and> bc_route (br_heap (snd sample_group) ! 2) = ''llm-d-async:results:a:p1''
   \<and> bc_cancelled (br_heap (snd (group_release (fst sample_group) (snd sample_group))) ! 2)"
proof -
  let ?np = "\<lambda>q. Inr ()" and ?r = sample_async_resolver
  have eval: "bg_acquired (fst sample_group) = [((''m1'', ''p1''), 2)]" "bg_broadcasters (fst sample_group) = [0, 2]"
    "RecoveryClientFor ?np ?r ''m1'' ''p1'' = Inr ''llm-d-async:results:a:p1''"
    "bc_cancelled (br_heap (snd (group_release (fst sample_group) (snd sample_group))) ! 2)" "br_base (snd sample_group) \<noteq> Some True"
    by code_simp+
  have "(reg_step ?np ?r)\<^sup>*\<^sup>* (registry_Run (newBroadcasterRegistry ?r), []) (snd sample_group, [(7, (''m1'', ''p1''), 2)])"
    using forModels_steps [of ?np ?r "[''m1'']" "[''p1'', []]" sample_registry "fst sample_group" "snd sample_group" "[]" 7] eval(1)
    by (simp add: sample_group_def sample_registry_def)
  from recovery_route_lifetime [OF this, of 7 "(''m1'', ''p1'')" 2] eval show ?thesis by simp
qed

end
