(* ===== verification/Retry_Client.thy ===== *)
theory Retry_Client
  imports Processor_Config File_Store
begin

text \<open>
  Retries: the helper of \<^verbatim>\<open>internal/util/retry/retry.go\<close> and the file client that wraps
  another one with it (\<^verbatim>\<open>internal/files_store/retryclient/client.go\<close>). The operation that
  is retried is a function of the number of the attempt and of the state it works on, so
  that every attempt may meet different circumstances. How long a wait lasts does not
  matter; whether the context ends during it does.
\<close>

section \<open>The retry helper\<close>

text \<open>An error is plain, or marked as one that a retry cannot cure.\<close>

datatype attempt_error = Plain error | PermanentError error

definition Permanent :: "error option \<Rightarrow> attempt_error option" where
  "Permanent e = map_option PermanentError e"

definition shown :: "attempt_error \<Rightarrow> error" where
  "shown e = (case e of Plain x \<Rightarrow> x | PermanentError x \<Rightarrow> x)"

text \<open>
  The loop after the first call: \<open>n\<close> retries are left and \<open>attempt\<close> is the number of the
  next one. \<open>cancelled\<close> tells whether the context ends in the wait before an attempt.
\<close>

fun retry_loop ::
  "(nat \<Rightarrow> bool) \<Rightarrow> (nat \<Rightarrow> 's \<Rightarrow> attempt_error option \<times> 's) \<Rightarrow> nat \<Rightarrow> nat \<Rightarrow> error \<Rightarrow> 's \<Rightarrow> (nat \<times> error option) \<times> 's" where
  "retry_loop cancelled fn 0 attempt err s = ((attempt - 1, Some err), s)"
| "retry_loop cancelled fn (Suc n) attempt err s =
    (if cancelled attempt then ((attempt - 1, Some ErrContext), s)
     else case fn attempt s of
       (None, s') \<Rightarrow> ((attempt, None), s')
     | (Some (PermanentError e), s') \<Rightarrow> ((attempt, Some e), s')
     | (Some (Plain e), s') \<Rightarrow> retry_loop cancelled fn n (attempt + 1) e s')"

text \<open>An error after the only call is returned as it is, with its mark.\<close>

definition Do ::
  "(nat \<Rightarrow> bool) \<Rightarrow> RetryConfig option \<Rightarrow> (nat \<Rightarrow> 's \<Rightarrow> attempt_error option \<times> 's) \<Rightarrow> 's \<Rightarrow> (nat \<times> error option) \<times> 's" where
  "Do cancelled cfg fn s = (case fn 1 s of
      (None, s') \<Rightarrow> ((1, None), s')
    | (Some err, s') \<Rightarrow>
        (case cfg of
           None \<Rightarrow> ((1, Some (shown err)), s')
         | Some c \<Rightarrow>
             if re_MaxRetries c = 0 then ((1, Some (shown err)), s')
             else (case err of
                 PermanentError e \<Rightarrow> ((1, Some e), s')
               | Plain e \<Rightarrow> retry_loop cancelled fn (nat (re_MaxRetries c)) 2 e s')))"

text \<open>The states an operation passes through, attempt by attempt, and what each attempt returned.\<close>

fun after :: "(nat \<Rightarrow> 's \<Rightarrow> attempt_error option \<times> 's) \<Rightarrow> nat \<Rightarrow> 's \<Rightarrow> 's" where
  "after fn 0 s = s"
| "after fn (Suc k) s = snd (fn (Suc k) (after fn k s))"

definition outcome :: "(nat \<Rightarrow> 's \<Rightarrow> attempt_error option \<times> 's) \<Rightarrow> 's \<Rightarrow> nat \<Rightarrow> attempt_error option" where
  "outcome fn s k = fst (fn k (after fn (k - 1) s))"

text \<open>
  What a finished call has done: \<open>k\<close> attempts, all but the last failing with an error that
  may be retried, and its result is that of the last one or of a context that ended.
\<close>

definition retried :: "(nat \<Rightarrow> bool) \<Rightarrow> (nat \<Rightarrow> 's \<Rightarrow> attempt_error option \<times> 's) \<Rightarrow> nat \<Rightarrow> 's \<Rightarrow> (nat \<times> error option) \<times> 's \<Rightarrow> bool" where
  "retried cancelled fn limit s r = (case r of ((k, err), s') \<Rightarrow>
     1 \<le> k \<and> k \<le> limit \<and> s' = after fn k s
     \<and> (\<forall>i. 1 \<le> i \<and> i < k \<longrightarrow> (\<exists>e. outcome fn s i = Some (Plain e)) \<and> \<not> cancelled (i + 1))
     \<and> (case outcome fn s k of
          None \<Rightarrow> err = None
        | Some (PermanentError e) \<Rightarrow> err = Some e
        | Some (Plain e) \<Rightarrow> if k < limit then cancelled (k + 1) \<and> err = Some ErrContext else err = Some e))"

lemma retry_loop_retried:
  assumes "1 \<le> a" and "outcome fn s0 a = Some (Plain err)" and "s = after fn a s0"
    and "\<forall>i. 1 \<le> i \<and> i < a \<longrightarrow> (\<exists>e. outcome fn s0 i = Some (Plain e)) \<and> \<not> cancelled (i + 1)"
  shows "retried cancelled fn (a + n) s0 (retry_loop cancelled fn n (a + 1) err s)"
  using assms
proof (induction n arbitrary: a err s)
  case 0
  then show ?case by (auto simp: retried_def)
next
  case (Suc n)
  have out: "outcome fn s0 (Suc a) = fst (fn (Suc a) s)" and aft: "after fn (Suc a) s0 = snd (fn (Suc a) s)"
    using Suc(4) by (simp_all add: outcome_def)
  show ?case
  proof (cases "cancelled (a + 1)")
    case True
    then show ?thesis using Suc by (auto simp: retried_def)
  next
    case False
    have before: "\<forall>i. 1 \<le> i \<and> i < Suc a \<longrightarrow> (\<exists>e. outcome fn s0 i = Some (Plain e)) \<and> \<not> cancelled (i + 1)"
      using Suc(3,5) False by (auto simp: less_Suc_eq)
    obtain o1 s1 where fn: "fn (Suc a) s = (o1, s1)" by fastforce
    show ?thesis
    proof (cases o1)
      case None
      then show ?thesis using False fn out aft before by (auto simp: retried_def)
    next
      case (Some ae)
      show ?thesis
      proof (cases ae)
        case (Plain e)
        with Some fn out have "outcome fn s0 (Suc a) = Some (Plain e)" by simp
        from Suc(1) [OF _ this _ before, of s1] False fn Some Plain aft show ?thesis by simp
      next
        case (PermanentError e)
        then show ?thesis using False fn out aft before Some by (auto simp: retried_def)
      qed
    qed
  qed
qed

lemma retried_by_Do:
  assumes "retry_Validate c = Inr ()"
  shows "retried cancelled fn (nat (re_MaxRetries c) + 1) s (Do cancelled (Some c) fn s)"
proof -
  have pos: "0 \<le> re_MaxRetries c" using assms(1) by (auto simp: retry_Validate_def split: if_splits)
  obtain o1 s1 where fn: "fn 1 s = (o1, s1)" by fastforce
  have one: "outcome fn s 1 = o1" "after fn 1 s = s1" using fn by (simp_all add: outcome_def)
  show ?thesis
  proof (cases o1)
    case None
    then show ?thesis using fn one by (auto simp: retried_def Do_def)
  next
    case (Some ae)
    show ?thesis
    proof (cases "re_MaxRetries c = 0")
      case True
      then show ?thesis using fn one Some by (cases ae) (auto simp: retried_def Do_def shown_def)
    next
      case False
      show ?thesis
      proof (cases ae)
        case (Plain e)
        with Some one have "outcome fn s 1 = Some (Plain e)" by simp
        from retry_loop_retried [OF _ this one(2) [symmetric], of cancelled "nat (re_MaxRetries c)"] False fn Some Plain
        show ?thesis by (simp add: Do_def add.commute numeral_2_eq_2)
      next
        case (PermanentError e)
        then show ?thesis using fn one Some False pos by (auto simp: retried_def Do_def)
      qed
    qed
  qed
qed

text \<open>
  The retry helper does exactly the attempts it may. For a configuration that
  validation accepts, it makes at least one call and at most one more than the
  configured retries; a further call is made exactly after one that failed with an error
  that may be retried, unless the context ended in the wait; the state is that after the
  last call; and the result is that of the last call, with the mark of a permanent error
  removed, or the error of the context.
\<close>

theorem retry_does_exact:
  assumes "retry_Validate c = Inr ()"
  shows "retried cancelled fn (nat (re_MaxRetries c) + 1) s (Do cancelled (Some c) fn s)"
  by (rule retried_by_Do [OF assms])

definition three_retries :: RetryConfig where
  "three_retries = \<lparr>re_MaxRetries = 3, re_InitialBackoff = second, re_MaxBackoff = 10 * second\<rparr>"

theorem retry_does_exact_witness:
  "let fn = (\<lambda>a s. if a < 3 then (Some (Plain ErrDB), s + a) else (None, s + a))
   in Do (\<lambda>a. False) (Some three_retries) fn (0::nat) = ((3, None), 6)
     \<and> retried (\<lambda>a. False) fn 4 0 (Do (\<lambda>a. False) (Some three_retries) fn 0)"
proof -
  have ok: "retry_Validate three_retries = Inr ()" "nat (re_MaxRetries three_retries) + 1 = 4" by code_simp+
  have "Do (\<lambda>a. False) (Some three_retries) (\<lambda>a s. if a < 3 then (Some (Plain ErrDB), s + a) else (None, s + a)) (0::nat) = ((3, None), 6)"
    by code_simp
  with retry_does_exact [OF ok(1), of "\<lambda>a. False" "\<lambda>a s. if a < 3 then (Some (Plain ErrDB), s + a) else (None, s + a)" "0::nat"] ok(2)
  show ?thesis by (simp add: Let_def)
qed

section \<open>The retrying file client\<close>

text \<open>
  The reader that is stored has contents and a position; an attempt of the inner client
  is given what is left to read, and tells how much it read. It runs on the state of the
  inner client, which may differ from attempt to attempt in whether its calls succeed.
\<close>

record ('m, 's) store_run =
  sr_pos :: nat
  sr_meta :: "'m option"
  sr_files :: 's

type_synonym ('m, 's) inner_store = "nat \<Rightarrow> string \<Rightarrow> 's \<Rightarrow> 'm res \<times> nat \<times> 's"

definition store_attempt :: "(nat \<Rightarrow> bool) \<Rightarrow> ('m, 's) inner_store \<Rightarrow> string \<Rightarrow> nat \<Rightarrow> ('m, 's) store_run \<Rightarrow> attempt_error option \<times> ('m, 's) store_run" where
  "store_attempt seekFails inner content attempt st =
    (if attempt > 1 \<and> seekFails attempt then (Permanent (Some (ErrOther ''seek failed'')), st)
     else let pos = (if attempt > 1 then 0 else sr_pos st) in
       case inner attempt (drop pos content) (sr_files st) of
         (Inl e, n, fs) \<Rightarrow> (Some (Plain e), st\<lparr>sr_pos := pos + n, sr_meta := None, sr_files := fs\<rparr>)
       | (Inr m, n, fs) \<Rightarrow> (None, st\<lparr>sr_pos := pos + n, sr_meta := Some m, sr_files := fs\<rparr>))"

definition retry_Store ::
  "bool \<Rightarrow> (nat \<Rightarrow> bool) \<Rightarrow> (nat \<Rightarrow> bool) \<Rightarrow> RetryConfig \<Rightarrow> ('m, 's) inner_store \<Rightarrow> string \<Rightarrow> 's \<Rightarrow> 'm res \<times> 's" where
  "retry_Store seekable seekFails cancelled cfg inner content s =
    (if \<not> seekable then (case inner 1 content s of (r, n, s') \<Rightarrow> (r, s'))
     else case Do cancelled (Some cfg) (store_attempt seekFails inner content) \<lparr>sr_pos = 0, sr_meta = None, sr_files = s\<rparr> of
         ((n, None), st) \<Rightarrow> (case sr_meta st of Some m \<Rightarrow> Inr m | None \<Rightarrow> Inl (ErrOther ''no metadata''), sr_files st)
       | ((n, Some e), st) \<Rightarrow> (Inl e, sr_files st))"

text \<open>A retrieval keeps only the last answer of the inner client and closes the reader of the attempt before.\<close>

record 'm retrieve_run =
  rv_open :: "nat list"
  rv_answer :: "(nat \<times> string \<times> 'm) option"

definition retrieve_attempt :: "(nat \<Rightarrow> (string \<times> 'm) res) \<Rightarrow> nat \<Rightarrow> 'm retrieve_run \<Rightarrow> attempt_error option \<times> 'm retrieve_run" where
  "retrieve_attempt inner attempt st =
    (let opened = (case rv_answer st of Some (rc, d, m) \<Rightarrow> if attempt > 1 then removeAll rc (rv_open st) else rv_open st | None \<Rightarrow> rv_open st)
     in case inner attempt of
          Inl e \<Rightarrow> (Some (Plain e), \<lparr>rv_open = opened, rv_answer = None\<rparr>)
        | Inr (d, m) \<Rightarrow> (None, \<lparr>rv_open = attempt # opened, rv_answer = Some (attempt, d, m)\<rparr>))"

definition retry_Retrieve :: "(nat \<Rightarrow> bool) \<Rightarrow> RetryConfig \<Rightarrow> (nat \<Rightarrow> (string \<times> 'm) res) \<Rightarrow> (string \<times> 'm) res \<times> nat list" where
  "retry_Retrieve cancelled cfg inner =
    (case Do cancelled (Some cfg) (retrieve_attempt inner) \<lparr>rv_open = [], rv_answer = None\<rparr> of
       ((n, Some e), st) \<Rightarrow> (Inl e, rv_open st)
     | ((n, None), st) \<Rightarrow> (case rv_answer st of Some (rc, d, m) \<Rightarrow> (Inr (d, m), rv_open st) | None \<Rightarrow> (Inl ErrNotFound, rv_open st)))"

definition plain_error :: "'a res \<Rightarrow> attempt_error option" where
  "plain_error r = (case r of Inl e \<Rightarrow> Some (Plain e) | Inr _ \<Rightarrow> None)"

definition retry_Delete :: "(nat \<Rightarrow> bool) \<Rightarrow> RetryConfig \<Rightarrow> (nat \<Rightarrow> 's \<Rightarrow> unit res \<times> 's) \<Rightarrow> 's \<Rightarrow> unit res \<times> 's" where
  "retry_Delete cancelled cfg inner s =
    (case Do cancelled (Some cfg) (\<lambda>attempt s. case inner attempt s of (r, s') \<Rightarrow> (plain_error r, s')) s of
       ((n, None), s') \<Rightarrow> (Inr (), s')
     | ((n, Some e), s') \<Rightarrow> (Inl e, s'))"

text \<open>The number of deleted files is that of the last attempt.\<close>

definition retry_DeletePrefix ::
  "(nat \<Rightarrow> bool) \<Rightarrow> RetryConfig \<Rightarrow> (nat \<Rightarrow> 's \<Rightarrow> (nat \<times> error option) \<times> 's) \<Rightarrow> 's \<Rightarrow> (nat \<times> error option) \<times> 's" where
  "retry_DeletePrefix cancelled cfg inner s =
    (case Do cancelled (Some cfg) (\<lambda>attempt (d, s). case inner attempt s of ((d', err), s') \<Rightarrow> (map_option Plain err, (d', s'))) (0, s) of
       ((n, err), (d, s')) \<Rightarrow> ((d, err), s'))"

section \<open>Storing with retries\<close>

text \<open>
  What the client relies on in the store it wraps: an attempt that succeeds found the name
  free and made exactly the contents readable under it; one that fails has no effect, or
  the same effect and only the answer was lost. A store may promise this for some
  contents only. Retrying keeps the contract.
\<close>

locale retryable_store =
  fixes read :: "'s \<Rightarrow> 'k \<Rightarrow> string option" and inner :: "('m, 's) inner_store" and k :: 'k and atomic :: "string \<Rightarrow> bool"
  assumes stored: "atomic c \<Longrightarrow> inner a c s = (Inr m, n, s') \<Longrightarrow> read s k = None \<and> read s' = (read s)(k \<mapsto> c)"
    and failed: "atomic c \<Longrightarrow> inner a c s = (Inl e, n, s') \<Longrightarrow> read s' = read s \<or> read s k = None \<and> read s' = (read s)(k \<mapsto> c)"
begin

lemma attempt_cases:
  assumes "store_attempt seekFails inner content a st = (r, st')" and "a = 1 \<Longrightarrow> sr_pos st = 0" and "1 \<le> a" and "atomic content"
  shows "case r of
      None \<Rightarrow> read (sr_files st) k = None \<and> read (sr_files st') = (read (sr_files st))(k \<mapsto> content) \<and> sr_meta st' \<noteq> None
    | Some e \<Rightarrow> read (sr_files st') = read (sr_files st)
        \<or> read (sr_files st) k = None \<and> read (sr_files st') = (read (sr_files st))(k \<mapsto> content)"
proof (cases "a > 1 \<and> seekFails a")
  case False
  have pos: "(if a > 1 then 0 else sr_pos st) = 0" using assms(2,3) by auto
  obtain x n fs where x: "inner a content (sr_files st) = (x, n, fs)" by (metis prod_cases3)
  show ?thesis
  proof (cases x)
    case (Inl e)
    then show ?thesis using failed [OF assms(4), of a "sr_files st" e n fs] assms(1) False pos x by (auto simp: store_attempt_def Let_def)
  next
    case (Inr m)
    then show ?thesis using stored [OF assms(4), of a "sr_files st" m n fs] assms(1) False pos x by (auto simp: store_attempt_def Let_def)
  qed
qed (use assms(1) in \<open>auto simp: store_attempt_def Permanent_def\<close>)

lemma attempts_all_or_nothing:
  fixes st :: "('m, 's) store_run"
  assumes "sr_pos st = 0" and "atomic content"
  shows "read (sr_files (after (store_attempt seekFails inner content) n st)) = read (sr_files st)
    \<or> read (sr_files st) k = None
      \<and> read (sr_files (after (store_attempt seekFails inner content) n st)) = (read (sr_files st))(k \<mapsto> content)"
proof (induction n)
  case (Suc n)
  let ?st = "after (store_attempt seekFails inner content) n st"
  obtain r st' where step: "store_attempt seekFails inner content (Suc n) ?st = (r, st')" by fastforce
  have "Suc n = 1 \<Longrightarrow> sr_pos ?st = 0" using assms(1) by simp
  from attempt_cases [OF step this _ assms(2)] Suc step show ?case by (cases r) auto
qed simp

lemma retried_all_or_nothing:
  assumes "retry_Validate cfg = Inr ()" and "retry_Store seekable seekFails cancelled cfg inner content s = (r, s')" and "atomic content"
  shows "case r of
      Inr m \<Rightarrow> read s k = None \<and> read s' = (read s)(k \<mapsto> content)
    | Inl e \<Rightarrow> read s' = read s \<or> read s k = None \<and> read s' = (read s)(k \<mapsto> content)"
proof (cases seekable)
  case False
  obtain x n fs where "inner 1 content s = (x, n, fs)" by (metis prod_cases3)
  with False assms(2) stored [OF assms(3), of 1 s _ n fs] failed [OF assms(3), of 1 s _ n fs] show ?thesis by (cases x) (auto simp: retry_Store_def)
next
  case True
  let ?fn = "store_attempt seekFails inner content" and ?st = "\<lparr>sr_pos = 0, sr_meta = None, sr_files = s\<rparr> :: ('m, 's) store_run"
  obtain n err st where run: "Do cancelled (Some cfg) ?fn ?st = ((n, err), st)" by (metis prod.collapse)
  have rt: "retried cancelled ?fn (nat (re_MaxRetries cfg) + 1) ?st ((n, err), st)"
    using retried_by_Do [OF assms(1), of cancelled ?fn ?st] by (simp only: run)
  then have st: "st = after ?fn n ?st" "1 \<le> n" by (auto simp: retried_def)
  note all = attempts_all_or_nothing [of ?st, OF _ assms(3), of seekFails]
  show ?thesis
  proof (cases err)
    case (Some e)
    then show ?thesis using assms(2) run True st(1) all [of n] by (auto simp: retry_Store_def)
  next
    case None
    then have last: "outcome ?fn ?st n = None" using rt by (auto simp: retried_def split: option.splits attempt_error.splits if_splits)
    obtain n' where n': "n = Suc n'" using st(2) by (cases n) auto
    have "?fn (Suc n') (after ?fn n' ?st) = (None, st)" using last st(1) n' by (simp add: outcome_def prod_eq_iff)
    from attempt_cases [OF this _ _ assms(3)] have "read (sr_files (after ?fn n' ?st)) k = None" "read (sr_files st) = (read (sr_files (after ?fn n' ?st)))(k \<mapsto> content)"
      "sr_meta st \<noteq> None" by auto
    with all [of n'] None assms(2) run True show ?thesis by (auto simp: retry_Store_def split: if_splits)
  qed
qed

end

text \<open>The filesystem client keeps the contract; \<open>sizes\<close> are the chunks an attempt reads.\<close>

fun cut :: "nat list \<Rightarrow> string \<Rightarrow> string list" where
  "cut [] c = [c]"
| "cut (n # ns) c = take n c # cut ns (drop n c)"

lemma concat_cut [simp]: "concat (cut ns c) = c"
  by (induction ns c rule: cut.induct) simp_all

definition fs_store :: "(nat \<Rightarrow> bool) \<Rightarrow> (nat \<Rightarrow> nat list) \<Rightarrow> bool \<Rightarrow> string \<Rightarrow> string \<Rightarrow> int \<Rightarrow> int \<Rightarrow> (BatchFileMetadata, files) inner_store" where
  "fs_store io sizes eof fileName folderName sizeLimit lineLimit a c fs =
    (case Store (io a) fileName folderName sizeLimit lineLimit (cut (sizes a) c) eof fs of (r, fs') \<Rightarrow> (r, length c, fs'))"

interpretation fs_retry: retryable_store map_of "fs_store io sizes eof fileName folderName sizeLimit lineLimit" "path_join [folderName, fileName]" "\<lambda>c. True"
  for io sizes eof fileName folderName sizeLimit lineLimit
  by unfold_locales (auto simp: fs_store_def Store_def resolvePath_def Let_def split: prod.splits sum.splits if_splits)

text \<open>
  Every error of the inner client is retried, also one that no retry can cure; and a store
  whose answer was lost is told by its own retries that the file exists, although the
  contents are there.
\<close>

lemma hopeless_error_is_retried:
  "Do (\<lambda>a. False) (Some three_retries) (\<lambda>a s. (Some (Plain ErrFileTooLarge), Suc s)) 0 = ((4, Some ErrFileTooLarge), 4)"
  by code_simp

lemma lost_answer_reports_existing:
  "retry_Store True (\<lambda>a. False) (\<lambda>a. False) three_retries
     (\<lambda>a c fs. if map_of fs ''k'' = None then (Inl ErrDB, length c, (''k'', c) # fs) else (Inl ErrFileExists, length c, fs)) ''abc'' []
   = (Inl ErrFileExists :: BatchFileMetadata res, [(''k'', ''abc'')])"
  by code_simp

end
