(* ===== verification/S3_Store.thy ===== *)
theory S3_Store
  imports Retry_Client
begin

text \<open>
  The file store on S3 (\<^verbatim>\<open>internal/files_store/s3/client.go\<close>). The service is a parameter:
  a record of the calls the client makes, on a state of its own, and \<open>s3_documented\<close> says
  what is documented of them. A call may fail before or after it took effect. The answers
  \<open>ErrNotFound\<close> and \<open>ErrFileExists\<close> of a call stand for the codes NotFound or NoSuchKey and
  PreconditionFailed. Location and modification time of the metadata are left out.
\<close>

section \<open>The service\<close>

text \<open>
  An upload reads its body from a reader, which may fail; a listing returns keys and the
  token of the next page, if there is one; a multiple delete returns the keys it could
  not delete.
\<close>

record 's s3_api =
  s3_HeadObject :: "string \<Rightarrow> 's \<Rightarrow> unit res \<times> 's"
  s3_GetObject :: "string \<Rightarrow> 's \<Rightarrow> string res \<times> 's"
  s3_PutIfAbsent :: "string \<Rightarrow> string \<Rightarrow> 's \<Rightarrow> unit res \<times> 's"
  s3_Upload :: "bool \<Rightarrow> string \<Rightarrow> string res \<Rightarrow> 's \<Rightarrow> unit res \<times> 's"
  s3_DeleteObject :: "string \<Rightarrow> 's \<Rightarrow> unit res \<times> 's"
  s3_ListObjects :: "string \<Rightarrow> string option \<Rightarrow> 's \<Rightarrow> (string list \<times> string option) res \<times> 's"
  s3_DeleteObjects :: "string list \<Rightarrow> 's \<Rightarrow> string list res \<times> 's"

text \<open>A conditional write: it succeeds only on a free key, and it fails without effect, or only its answer is lost.\<close>

definition create_only_call :: "('s \<Rightarrow> string \<Rightarrow> string option) \<Rightarrow> string \<Rightarrow> string \<Rightarrow> 's \<Rightarrow> unit res \<times> 's \<Rightarrow> bool" where
  "create_only_call read k v s r = (case r of
      (Inr _, s') \<Rightarrow> read s k = None \<and> read s' = (read s)(k \<mapsto> v)
    | (Inl e, s') \<Rightarrow> (read s' = read s \<or> read s k = None \<and> read s' = (read s)(k \<mapsto> v))
        \<and> (e = ErrFileExists \<longrightarrow> read s k \<noteq> None \<and> read s' = read s))"

text \<open>
  The documented behaviour. The condition of an upload holds for bodies below the part
  size of the upload manager; a larger one is sent in parts, which replace what is there.
\<close>

definition s3_reads :: "('s \<Rightarrow> string \<Rightarrow> string option) \<Rightarrow> 's s3_api \<Rightarrow> bool" where
  "s3_reads read api = (\<forall>k s.
     (case s3_HeadObject api k s of (r, s') \<Rightarrow> read s' = read s \<and> (r = Inr () \<longrightarrow> read s k \<noteq> None) \<and> (r = Inl ErrNotFound \<longrightarrow> read s k = None))
     \<and> (case s3_GetObject api k s of (r, s') \<Rightarrow> read s' = read s \<and> (\<forall>v. r = Inr v \<longrightarrow> read s k = Some v)))"

definition s3_writes :: "nat \<Rightarrow> ('s \<Rightarrow> string \<Rightarrow> string option) \<Rightarrow> 's s3_api \<Rightarrow> bool" where
  "s3_writes partSize read api = (\<forall>k v e s.
     create_only_call read k v s (s3_PutIfAbsent api k v s)
     \<and> (length v < partSize \<longrightarrow> create_only_call read k v s (s3_Upload api True k (Inr v) s))
     \<and> (case s3_Upload api False k (Inr v) s of
          (Inr _, s') \<Rightarrow> read s' = (read s)(k \<mapsto> v)
        | (Inl _, s') \<Rightarrow> read s' = read s \<or> read s' = (read s)(k \<mapsto> v))
     \<and> (\<forall>cond. case s3_Upload api cond k (Inl e) s of (r, s') \<Rightarrow> \<not> is_ok r \<and> read s' = read s))"

definition s3_deletes :: "('s \<Rightarrow> string \<Rightarrow> string option) \<Rightarrow> 's s3_api \<Rightarrow> bool" where
  "s3_deletes read api = ((\<forall>k s.
       case s3_DeleteObject api k s of
          (Inr _, s') \<Rightarrow> read s' = (read s)(k := None)
        | (Inl _, s') \<Rightarrow> read s' = read s \<or> read s' = (read s)(k := None))
     \<and> (\<forall>p tok s. case s3_ListObjects api p tok s of (r, s') \<Rightarrow> read s' = read s
          \<and> (\<forall>ks tok'. r = Inr (ks, tok') \<longrightarrow> (\<forall>k \<in> set ks. has_prefix k p)))
     \<and> (\<forall>ks s. case s3_DeleteObjects api ks s of
          (Inr errs, s') \<Rightarrow> read s' = (\<lambda>k. if k \<in> set ks \<and> k \<notin> set errs then None else read s k)
        | (Inl _, s') \<Rightarrow> \<forall>k. read s' k = read s k \<or> k \<in> set ks \<and> read s' k = None))"

definition s3_documented :: "nat \<Rightarrow> ('s \<Rightarrow> string \<Rightarrow> string option) \<Rightarrow> 's s3_api \<Rightarrow> bool" where
  "s3_documented partSize read api = (s3_reads read api \<and> s3_writes partSize read api \<and> s3_deletes read api)"

section \<open>The client\<close>

definition buildKey :: "string \<Rightarrow> string \<Rightarrow> string \<Rightarrow> string" where
  "buildKey pre folderName fileName =
    (let key = folderName @ ''/'' @ fileName in if pre \<noteq> [] then pre @ ''/'' @ key else key)"

text \<open>The bucket check at startup, by the answers of its two calls: \<open>ErrNotFound\<close> from the first, \<open>ErrFileExists\<close> (already owned) from the second.\<close>

definition ensureBucket :: "unit res \<Rightarrow> unit res \<Rightarrow> bool \<Rightarrow> unit res" where
  "ensureBucket headBucket createBucket autoCreate = (case headBucket of
      Inr _ \<Rightarrow> Inr ()
    | Inl e \<Rightarrow>
        if e \<noteq> ErrNotFound then Inl e
        else if \<not> autoCreate then Inl (ErrOther ''bucket does not exist'')
        else (case createBucket of Inr _ \<Rightarrow> Inr () | Inl e' \<Rightarrow> if e' = ErrFileExists then Inr () else Inl e'))"

text \<open>An upload whose body fails returns the error of the body.\<close>

definition s3_Store ::
  "'s s3_api \<Rightarrow> string \<Rightarrow> string \<Rightarrow> string \<Rightarrow> int \<Rightarrow> int \<Rightarrow> string list \<Rightarrow> bool \<Rightarrow> 's \<Rightarrow> BatchFileMetadata res \<times> 's" where
  "s3_Store api pre fileName folderName fileSizeLimit lineNumLimit chunks eofWithLast s =
    (let key = buildKey pre folderName fileName in
     case s3_HeadObject api key s of
       (Inr _, s1) \<Rightarrow> (Inl ErrFileExists, s1)
     | (Inl e, s1) \<Rightarrow>
         if e \<noteq> ErrNotFound then (Inl e, s1)
         else (case copy_chunks chunks eofWithLast (new_reader fileSizeLimit lineNumLimit) of
             Inl limit \<Rightarrow> (Inl limit, snd (s3_Upload api True key (Inl limit) s1))
           | Inr r \<Rightarrow>
               (case s3_Upload api True key (Inr (concat chunks)) s1 of
                  (Inl e', s2) \<Rightarrow> (Inl e', s2)
                | (Inr _, s2) \<Rightarrow> (Inr \<lparr>md_Size = BytesRead r, md_LinesNumber = LineCount r\<rparr>, s2))))"

definition s3_Retrieve :: "'s s3_api \<Rightarrow> string \<Rightarrow> string \<Rightarrow> string \<Rightarrow> 's \<Rightarrow> string res \<times> 's" where
  "s3_Retrieve api pre fileName folderName s = s3_GetObject api (buildKey pre folderName fileName) s"

definition s3_Delete :: "'s s3_api \<Rightarrow> string \<Rightarrow> string \<Rightarrow> string \<Rightarrow> 's \<Rightarrow> unit res \<times> 's" where
  "s3_Delete api pre fileName folderName s = s3_DeleteObject api (buildKey pre folderName fileName) s"

definition deleteObjectsBatchLimit :: nat where "deleteObjectsBatchLimit = 1000"

text \<open>One page is deleted in batches; a key that could not be deleted is only left out of the count.\<close>

function delete_batches :: "'s s3_api \<Rightarrow> string list \<Rightarrow> int \<Rightarrow> 's \<Rightarrow> (int \<times> error option) \<times> 's" where
  "delete_batches api ks deleted s =
    (if ks = [] then ((deleted, None), s)
     else let batch = take deleteObjectsBatchLimit ks in
       case s3_DeleteObjects api batch s of
         (Inl e, s') \<Rightarrow> ((deleted, Some e), s')
       | (Inr errs, s') \<Rightarrow> delete_batches api (drop deleteObjectsBatchLimit ks) (deleted + int (length batch) - int (length errs)) s')"
  by pat_completeness auto
termination
  by (relation "measure (\<lambda>(api, ks, deleted, s). length ks)") (auto simp: deleteObjectsBatchLimit_def)

text \<open>The pages; the service decides how many there are, so that the loop has fuel and \<open>None\<close> means that it goes on.\<close>

fun delete_pages :: "nat \<Rightarrow> 's s3_api \<Rightarrow> string \<Rightarrow> string option \<Rightarrow> int \<Rightarrow> 's \<Rightarrow> ((int \<times> error option) \<times> 's) option" where
  "delete_pages 0 api keyPrefix token deleted s = None"
| "delete_pages (Suc f) api keyPrefix token deleted s =
    (case s3_ListObjects api keyPrefix token s of
       (Inl e, s1) \<Rightarrow> Some ((deleted, Some e), s1)
     | (Inr (ks, next_token), s1) \<Rightarrow>
         (case delete_batches api ks deleted s1 of
            ((deleted', Some e), s2) \<Rightarrow> Some ((deleted', Some e), s2)
          | ((deleted', None), s2) \<Rightarrow>
              if next_token = None then Some ((deleted', None), s2) else delete_pages f api keyPrefix next_token deleted' s2))"

definition s3_DeletePrefix :: "nat \<Rightarrow> 's s3_api \<Rightarrow> string \<Rightarrow> string \<Rightarrow> string \<Rightarrow> 's \<Rightarrow> ((int \<times> error option) \<times> 's) option" where
  "s3_DeletePrefix fuel api pre folderName prefix s =
    (if folderName = [] then Some ((0, Some (ErrInvalid ''folderName must not be empty'')), s)
     else if prefix = [] then Some ((0, Some (ErrInvalid ''prefix must not be empty'')), s)
     else delete_pages fuel api (buildKey pre folderName (if has_suffix prefix [slash] then prefix else prefix @ [slash])) None 0 s)"

section \<open>Streams\<close>

text \<open>
  A stream uploads to a staging key of its own. The upload reads the pipe until the
  writer is closed, so that it ends at the commit or the abort, whichever comes first;
  \<open>sw_done\<close> is whether its outcome can still be read, which is possible once.
\<close>

record s3StreamWriter =
  sw_key :: string
  sw_stagingKey :: string
  sw_body :: string
  sw_done :: bool

definition s3_OpenStream :: "'s s3_api \<Rightarrow> string \<Rightarrow> string \<Rightarrow> string \<Rightarrow> string \<Rightarrow> 's \<Rightarrow> s3StreamWriter res \<times> 's" where
  "s3_OpenStream api uuid pre fileName folderName s =
    (let key = buildKey pre folderName fileName in
     case s3_HeadObject api key s of
       (Inr _, s1) \<Rightarrow> (Inl ErrFileExists, s1)
     | (Inl e, s1) \<Rightarrow>
         if e \<noteq> ErrNotFound then (Inl e, s1)
         else (Inr \<lparr>sw_key = key, sw_stagingKey = key @ ''.staging.'' @ uuid, sw_body = [], sw_done = True\<rparr>, s1))"

definition sw_Write :: "string \<Rightarrow> s3StreamWriter \<Rightarrow> s3StreamWriter" where
  "sw_Write p w = w\<lparr>sw_body := sw_body w @ p\<rparr>"

definition errStreamAborted :: error where "errStreamAborted = ErrOther ''stream aborted''"

text \<open>The outcome of the upload, with the body the pipe delivered.\<close>

definition sw_result :: "'s s3_api \<Rightarrow> string res \<Rightarrow> s3StreamWriter \<Rightarrow> 's \<Rightarrow> unit res \<times> s3StreamWriter \<times> 's" where
  "sw_result api body w s =
    (if \<not> sw_done w then (Inl errStreamAborted, w, s)
     else case s3_Upload api False (sw_stagingKey w) body s of (r, s') \<Rightarrow> (r, w\<lparr>sw_done := False\<rparr>, s'))"

definition sw_publish :: "'s s3_api \<Rightarrow> s3StreamWriter \<Rightarrow> 's \<Rightarrow> BatchFileMetadata res \<times> 's" where
  "sw_publish api w s = (case s3_GetObject api (sw_stagingKey w) s of
      (Inl e, s1) \<Rightarrow> (Inl e, s1)
    | (Inr buf, s1) \<Rightarrow>
        (case s3_PutIfAbsent api (sw_key w) buf s1 of
           (Inl e, s2) \<Rightarrow> (Inl e, if e = ErrFileExists then snd (s3_DeleteObject api (sw_stagingKey w) s2) else s2)
         | (Inr _, s2) \<Rightarrow> (Inr \<lparr>md_Size = int (length buf), md_LinesNumber = 0\<rparr>, snd (s3_DeleteObject api (sw_stagingKey w) s2))))"

definition sw_Commit :: "'s s3_api \<Rightarrow> s3StreamWriter \<Rightarrow> 's \<Rightarrow> BatchFileMetadata res \<times> s3StreamWriter \<times> 's" where
  "sw_Commit api w s = (case sw_result api (Inr (sw_body w)) w s of
      (Inl e, w', s1) \<Rightarrow> (Inl e, w', s1)
    | (Inr _, w', s1) \<Rightarrow> (case sw_publish api w' s1 of (r, s2) \<Rightarrow> (r, w', s2)))"

definition sw_Abort :: "'s s3_api \<Rightarrow> s3StreamWriter \<Rightarrow> 's \<Rightarrow> unit res \<times> s3StreamWriter \<times> 's" where
  "sw_Abort api w s = (case sw_result api (Inl errStreamAborted) w s of
      (Inl e, w', s1) \<Rightarrow> (Inr (), w', s1)
    | (Inr _, w', s1) \<Rightarrow> (Inl (ErrOther ''staged object was already uploaded''), w', snd (s3_DeleteObject api (sw_stagingKey w) s1)))"

section \<open>What is written and removed\<close>

lemma s3_documentedD:
  assumes "s3_documented partSize read api"
  shows "s3_HeadObject api k s = (r, s1) \<Longrightarrow> read s1 = read s"
    and "s3_HeadObject api k s = (Inl ErrNotFound, s1) \<Longrightarrow> read s k = None"
    and "s3_GetObject api k s = (r', s1) \<Longrightarrow> read s1 = read s"
    and "s3_GetObject api k s = (Inr v, s1) \<Longrightarrow> read s k = Some v"
    and "create_only_call read k v s (s3_PutIfAbsent api k v s)"
    and "length v < partSize \<Longrightarrow> create_only_call read k v s (s3_Upload api True k (Inr v) s)"
    and "s3_Upload api False k (Inr v) s = (Inr u, s1) \<Longrightarrow> read s1 = (read s)(k \<mapsto> v)"
    and "s3_Upload api False k (Inr v) s = (Inl e, s1) \<Longrightarrow> read s1 = read s \<or> read s1 = (read s)(k \<mapsto> v)"
    and "s3_Upload api cond k (Inl e) s = (r, s1) \<Longrightarrow> \<not> is_ok r \<and> read s1 = read s"
    and "s3_DeleteObject api k s = (r, s1) \<Longrightarrow> read s1 = read s \<or> read s1 = (read s)(k := None)"
    and "s3_ListObjects api p tok s = (x, s1) \<Longrightarrow> read s1 = read s \<and> (\<forall>ks tok'. x = Inr (ks, tok') \<longrightarrow> (\<forall>k \<in> set ks. has_prefix k p))"
    and "s3_DeleteObjects api ks s = (y, s1) \<Longrightarrow> read s1 k = read s k \<or> k \<in> set ks \<and> read s1 k = None"
proof -
  have reads: "s3_reads read api" and writes: "s3_writes partSize read api" and deletes: "s3_deletes read api"
    using assms by (simp_all add: s3_documented_def)
  note r = reads [unfolded s3_reads_def, THEN spec [of _ k], THEN spec [of _ s]]
  note del = deletes [unfolded s3_deletes_def]
  show "s3_HeadObject api k s = (r, s1) \<Longrightarrow> read s1 = read s" "s3_HeadObject api k s = (Inl ErrNotFound, s1) \<Longrightarrow> read s k = None"
    "s3_GetObject api k s = (r', s1) \<Longrightarrow> read s1 = read s" "s3_GetObject api k s = (Inr v, s1) \<Longrightarrow> read s k = Some v"
    using r by simp_all
  show "create_only_call read k v s (s3_PutIfAbsent api k v s)"
    "length v < partSize \<Longrightarrow> create_only_call read k v s (s3_Upload api True k (Inr v) s)"
    "s3_Upload api False k (Inr v) s = (Inr u, s1) \<Longrightarrow> read s1 = (read s)(k \<mapsto> v)"
    "s3_Upload api False k (Inr v) s = (Inl e, s1) \<Longrightarrow> read s1 = read s \<or> read s1 = (read s)(k \<mapsto> v)"
    using writes [unfolded s3_writes_def, THEN spec [of _ k], THEN spec [of _ v], THEN spec [of _ e], THEN spec [of _ s]] by simp_all
  show "s3_Upload api cond k (Inl e) s = (r, s1) \<Longrightarrow> \<not> is_ok r \<and> read s1 = read s"
    using writes [unfolded s3_writes_def, THEN spec [of _ k], THEN spec [of _ v], THEN spec [of _ e], THEN spec [of _ s],
      THEN conjunct2, THEN conjunct2, THEN conjunct2, THEN spec [of _ cond]] by simp
  show "s3_DeleteObject api k s = (r, s1) \<Longrightarrow> read s1 = read s \<or> read s1 = (read s)(k := None)"
    using del [THEN conjunct1, THEN spec [of _ k], THEN spec [of _ s]] by (cases r) simp_all
  show "s3_ListObjects api p tok s = (x, s1) \<Longrightarrow> read s1 = read s \<and> (\<forall>ks tok'. x = Inr (ks, tok') \<longrightarrow> (\<forall>k \<in> set ks. has_prefix k p))"
    using del [THEN conjunct2, THEN conjunct1, THEN spec [of _ p], THEN spec [of _ tok], THEN spec [of _ s]] by simp
  show "s3_DeleteObjects api ks s = (y, s1) \<Longrightarrow> read s1 k = read s k \<or> k \<in> set ks \<and> read s1 k = None"
    using del [THEN conjunct2, THEN conjunct2, THEN spec [of _ ks], THEN spec [of _ s]] by (cases y) auto
qed

text \<open>A store attempt on S3, as the retrying client uses it.\<close>

definition s3_inner :: "'s s3_api \<Rightarrow> (nat \<Rightarrow> nat list) \<Rightarrow> bool \<Rightarrow> string \<Rightarrow> string \<Rightarrow> string \<Rightarrow> int \<Rightarrow> int \<Rightarrow> (BatchFileMetadata, 's) inner_store" where
  "s3_inner api sizes eof pre fileName folderName sizeLimit lineLimit a c s =
    (case s3_Store api pre fileName folderName sizeLimit lineLimit (cut (sizes a) c) eof s of (r, s') \<Rightarrow> (r, length c, s'))"

lemma s3_Store_effect:
  assumes doc: "s3_documented partSize read api" and "length (concat chunks) < partSize"
    and "s3_Store api pre fileName folderName sizeLimit lineLimit chunks eof s = (r, s')"
  defines "key \<equiv> buildKey pre folderName fileName"
  shows "case r of
      Inr m \<Rightarrow> read s key = None \<and> read s' = (read s)(key \<mapsto> concat chunks)
    | Inl e \<Rightarrow> read s' = read s \<or> read s key = None \<and> read s' = (read s)(key \<mapsto> concat chunks)"
proof -
  note d = s3_documentedD [OF doc]
  obtain hr s1 where head: "s3_HeadObject api key s = (hr, s1)" by fastforce
  note same = d(1) [OF head]
  show ?thesis
  proof (cases "hr = Inl ErrNotFound")
    case False
    with head assms(3) same show ?thesis by (cases hr) (auto simp: s3_Store_def Let_def key_def)
  next
    case free: True
    show ?thesis
    proof (cases "copy_chunks chunks eof (new_reader sizeLimit lineLimit)")
      case (Inl e)
      obtain ur s2 where "s3_Upload api True key (Inl e) s1 = (ur, s2)" by fastforce
      with d(9) [OF this] head free Inl assms(3) same show ?thesis by (auto simp: s3_Store_def Let_def key_def)
    next
      case (Inr rd)
      obtain ur s2 where up: "s3_Upload api True key (Inr (concat chunks)) s1 = (ur, s2)" by fastforce
      have "create_only_call read key (concat chunks) s1 (ur, s2)" using d(6) [OF assms(2), of key s1] up by simp
      with head free Inr assms(3) same up show ?thesis by (cases ur) (auto simp: s3_Store_def Let_def key_def create_only_call_def)
    qed
  qed
qed

lemma s3_retryable:
  assumes "s3_documented partSize read api"
  shows "retryable_store read (s3_inner api sizes eof pre fileName folderName sizeLimit lineLimit) (buildKey pre folderName fileName) (\<lambda>c. length c < partSize)"
proof
  fix a s n s' and c :: string
  assume "length c < partSize"
  then have len: "length (concat (cut (sizes a) c)) < partSize" by simp
  show "read s (buildKey pre folderName fileName) = None \<and> read s' = (read s)(buildKey pre folderName fileName \<mapsto> c)"
    if "s3_inner api sizes eof pre fileName folderName sizeLimit lineLimit a c s = (Inr m, n, s')" for m
    using that s3_Store_effect [OF assms len, of pre fileName folderName sizeLimit lineLimit eof s "Inr m" s']
    by (auto simp: s3_inner_def split: prod.splits)
  show "read s' = read s \<or> read s (buildKey pre folderName fileName) = None \<and> read s' = (read s)(buildKey pre folderName fileName \<mapsto> c)"
    if "s3_inner api sizes eof pre fileName folderName sizeLimit lineLimit a c s = (Inl e, n, s')" for e
    using that s3_Store_effect [OF assms len, of pre fileName folderName sizeLimit lineLimit eof s "Inl e" s']
    by (auto simp: s3_inner_def split: prod.splits)
qed

text \<open>A commit touches only its key and its staging key, and publishes all of the body or nothing.\<close>

lemma sw_publish_effect:
  assumes doc: "s3_documented partSize read api" and "sw_publish api w s = (r, s')" and "sw_stagingKey w \<noteq> sw_key w"
    and "read s (sw_stagingKey w) = Some v"
  shows "(\<forall>k. k \<noteq> sw_key w \<and> k \<noteq> sw_stagingKey w \<longrightarrow> read s' k = read s k)
    \<and> (case r of
         Inr m \<Rightarrow> read s (sw_key w) = None \<and> read s' (sw_key w) = Some v \<and> md_Size m = int (length v)
       | Inl e \<Rightarrow> read s' (sw_key w) = read s (sw_key w) \<or> read s (sw_key w) = None \<and> read s' (sw_key w) = Some v)"
proof -
  note d = s3_documentedD [OF doc]
  obtain gr s1 where get: "s3_GetObject api (sw_stagingKey w) s = (gr, s1)" by fastforce
  note same = d(3) [OF get]
  show ?thesis
  proof (cases gr)
    case (Inl e)
    with get assms(2) same show ?thesis by (auto simp: sw_publish_def)
  next
    case (Inr buf)
    then have buf: "buf = v" using d(4) [of "sw_stagingKey w" s buf s1] get assms(4) by simp
    obtain pr s2 where put: "s3_PutIfAbsent api (sw_key w) v s1 = (pr, s2)" by fastforce
    have call: "create_only_call read (sw_key w) v s1 (pr, s2)" using d(5) [of "sw_key w" v s1] put by simp
    obtain dr s3 where del: "s3_DeleteObject api (sw_stagingKey w) s2 = (dr, s3)" by fastforce
    have other: "k \<noteq> sw_stagingKey w \<Longrightarrow> read s3 k = read s2 k" for k using d(10) [OF del] by auto
    show ?thesis
      using get Inr buf put call del same assms(2,3) other
      by (cases pr) (auto simp: sw_publish_def create_only_call_def split: if_splits)
  qed
qed

lemma sw_Commit_effect:
  assumes doc: "s3_documented partSize read api" and "sw_Commit api w s = (r, w', s')" and "sw_stagingKey w \<noteq> sw_key w"
  shows "(\<forall>k. k \<noteq> sw_key w \<and> k \<noteq> sw_stagingKey w \<longrightarrow> read s' k = read s k)
    \<and> (case r of
         Inr m \<Rightarrow> read s (sw_key w) = None \<and> read s' (sw_key w) = Some (sw_body w) \<and> md_Size m = int (length (sw_body w))
       | Inl e \<Rightarrow> read s' (sw_key w) = read s (sw_key w) \<or> read s (sw_key w) = None \<and> read s' (sw_key w) = Some (sw_body w))"
proof (cases "sw_done w")
  case False
  then show ?thesis using assms(2) by (auto simp: sw_Commit_def sw_result_def)
next
  case True
  note d = s3_documentedD [OF doc]
  obtain ur s1 where up: "s3_Upload api False (sw_stagingKey w) (Inr (sw_body w)) s = (ur, s1)" by fastforce
  show ?thesis
  proof (cases ur)
    case (Inl e)
    with d(8) [of "sw_stagingKey w" "sw_body w" s e s1] up True assms(2,3) show ?thesis by (auto simp: sw_Commit_def sw_result_def)
  next
    case (Inr u)
    with d(7) [of "sw_stagingKey w" "sw_body w" s u s1] up have s1: "read s1 = (read s)(sw_stagingKey w \<mapsto> sw_body w)" by simp
    obtain pr s2 where pub: "sw_publish api (w\<lparr>sw_done := False\<rparr>) s1 = (pr, s2)" by fastforce
    have "r = pr" "s' = s2" using Inr up True assms(2) pub by (auto simp: sw_Commit_def sw_result_def)
    with sw_publish_effect [OF doc pub, of "sw_body w"] s1 assms(3) show ?thesis by (auto split: sum.splits)
  qed
qed


text \<open>A service in memory; the conditional write fails on the keys that \<open>bad\<close> names.\<close>

definition mem_put :: "string \<Rightarrow> string \<Rightarrow> files \<Rightarrow> unit res \<times> files" where
  "mem_put k v fs = (if map_of fs k \<noteq> None then (Inl ErrFileExists, fs) else (Inr (), (k, v) # fs))"

definition mem_s3 :: "(string \<Rightarrow> bool) \<Rightarrow> files s3_api" where
  "mem_s3 bad = \<lparr>s3_HeadObject = (\<lambda>k fs. (if map_of fs k = None then Inl ErrNotFound else Inr (), fs)),
     s3_GetObject = (\<lambda>k fs. (case map_of fs k of None \<Rightarrow> Inl ErrNotFound | Some v \<Rightarrow> Inr v, fs)),
     s3_PutIfAbsent = (\<lambda>k v fs. if bad k then (Inl ErrDB, fs) else mem_put k v fs),
     s3_Upload = (\<lambda>cond k body fs. case body of Inl e \<Rightarrow> (Inl e, fs) | Inr v \<Rightarrow> if cond then mem_put k v fs else (Inr (), (k, v) # fs)),
     s3_DeleteObject = (\<lambda>k fs. (Inr (), filter (\<lambda>(q, d). q \<noteq> k) fs)),
     s3_ListObjects = (\<lambda>p tok fs. (Inr (filter (\<lambda>k. has_prefix k p) (map fst fs), None), fs)),
     s3_DeleteObjects = (\<lambda>ks fs. (Inr [], filter (\<lambda>(q, d). q \<notin> set ks) fs))\<rparr>"

lemma map_of_filter_notin: "map_of (filter (\<lambda>(q, d). q \<notin> K) fs) k = (if k \<in> K then None else map_of fs k)"
  by (induction fs) auto

lemma mem_s3_documented: "s3_documented n map_of (mem_s3 bad)"
proof -
  have "s3_reads map_of (mem_s3 bad)" by (auto simp: s3_reads_def mem_s3_def split: option.split)
  moreover have "s3_writes n map_of (mem_s3 bad)" by (auto simp: s3_writes_def mem_s3_def mem_put_def create_only_call_def)
  moreover have "s3_deletes map_of (mem_s3 bad)"
    by (auto simp: s3_deletes_def mem_s3_def map_of_filter_neq map_of_filter_notin fun_eq_iff)
  ultimately show ?thesis by (simp add: s3_documented_def)
qed

definition sample_stream :: s3StreamWriter where
  "sample_stream = \<lparr>sw_key = ''f/out'', sw_stagingKey = ''f/out.staging.1'', sw_body = ''abc'', sw_done = True\<rparr>"


text \<open>
  C40: A failed publication leaves its staged bytes behind. When the upload to the staging
  key succeeded and the write to the destination fails with another error than an
  existing object, the commit returns that error and the abort that follows reports
  success, while the staged object is still there: the abort reads the outcome of the
  upload a second time, takes the missing outcome for a failed upload and deletes
  nothing.
\<close>

theorem failed_publish_leaves_staging:
  assumes "s3_documented partSize read api" and "sw_done w" and "sw_stagingKey w \<noteq> sw_key w"
    and "s3_Upload api False (sw_stagingKey w) (Inr (sw_body w)) s = (Inr u, s1)"
    and "s3_GetObject api (sw_stagingKey w) s1 = (Inr buf, s2)" and "s3_PutIfAbsent api (sw_key w) buf s2 = (Inl e, s3)" and "e \<noteq> ErrFileExists"
  shows "\<exists>w' w''. sw_Commit api w s = (Inl e, w', s3) \<and> sw_Abort api w' s3 = (Inr (), w'', s3) \<and> read s3 (sw_stagingKey w) = Some (sw_body w)"
proof -
  note d = s3_documentedD [OF assms(1)]
  have "read s2 (sw_stagingKey w) = Some (sw_body w)" using d(7) [OF assms(4)] d(3) [OF assms(5)] by simp
  moreover have "create_only_call read (sw_key w) buf s2 (Inl e, s3)" using d(5) [of "sw_key w" buf s2] assms(6) by simp
  ultimately have "read s3 (sw_stagingKey w) = Some (sw_body w)" using assms(3) by (auto simp: create_only_call_def)
  moreover have "sw_Commit api w s = (Inl e, w\<lparr>sw_done := False\<rparr>, s3)"
    using assms by (simp add: sw_Commit_def sw_result_def sw_publish_def)
  moreover have "sw_Abort api (w\<lparr>sw_done := False\<rparr>) s3 = (Inr (), w\<lparr>sw_done := False\<rparr>, s3)" by (simp add: sw_Abort_def sw_result_def)
  ultimately show ?thesis by blast
qed

theorem failed_publish_leaves_staging_witness:
  "\<exists>w' w'' fs. sw_Commit (mem_s3 (\<lambda>k. k = ''f/out'')) sample_stream [] = (Inl ErrDB, w', fs)
     \<and> sw_Abort (mem_s3 (\<lambda>k. k = ''f/out'')) w' fs = (Inr (), w'', fs) \<and> map_of fs ''f/out.staging.1'' = Some ''abc''"
proof -
  let ?api = "mem_s3 (\<lambda>k. k = ''f/out'')" and ?fs = "[(''f/out.staging.1'', ''abc'')]"
  have step: "sw_done sample_stream" "sw_stagingKey sample_stream \<noteq> sw_key sample_stream"
    "s3_Upload ?api False (sw_stagingKey sample_stream) (Inr (sw_body sample_stream)) [] = (Inr (), ?fs)"
    "s3_GetObject ?api (sw_stagingKey sample_stream) ?fs = (Inr ''abc'', ?fs)"
    "s3_PutIfAbsent ?api (sw_key sample_stream) ''abc'' ?fs = (Inl ErrDB, ?fs)"
    by code_simp+
  have "sw_stagingKey sample_stream = ''f/out.staging.1''" "sw_body sample_stream = ''abc''" by code_simp+
  with failed_publish_leaves_staging [OF mem_s3_documented [of 10] step] show ?thesis by (metis error.distinct)
qed

text \<open>Deleting a prefix touches nothing outside it.\<close>

lemma delete_batches_confined:
  assumes doc: "s3_documented partSize read api" and "delete_batches api ks n s = (r, s')" and "k \<notin> set ks"
  shows "read s' k = read s k"
  using assms(2,3)
proof (induction "length ks" arbitrary: ks n s rule: less_induct)
  case less
  show ?case
  proof (cases "ks = []")
    case True
    then show ?thesis using less(2) by simp
  next
    case False
    let ?b = "take deleteObjectsBatchLimit ks" and ?rest = "drop deleteObjectsBatchLimit ks"
    obtain y s1 where del: "s3_DeleteObjects api ?b s = (y, s1)" by fastforce
    have k: "k \<notin> set ?b" "k \<notin> set ?rest" using less(3) by (auto dest: in_set_takeD in_set_dropD)
    have one: "read s1 k = read s k" using s3_documentedD(12) [OF doc del, of k] k(1) by blast
    show ?thesis
    proof (cases y)
      case (Inl e)
      then show ?thesis using less(2) False del one by (subst (asm) delete_batches.simps) (simp add: Let_def)
    next
      case (Inr errs)
      then have "delete_batches api ?rest (n + int (length ?b) - int (length errs)) s1 = (r, s')"
        using less(2) False del by (subst (asm) delete_batches.simps) (simp add: Let_def)
      from less(1) [OF _ this k(2)] False one show ?thesis by (simp add: deleteObjectsBatchLimit_def)
    qed
  qed
qed

lemma delete_pages_confined:
  assumes doc: "s3_documented partSize read api" and "delete_pages f api p tok n s = Some (r, s')" and "\<not> has_prefix k p"
  shows "read s' k = read s k"
  using assms(2)
proof (induction f arbitrary: tok n s)
  case (Suc f)
  obtain x s1 where list: "s3_ListObjects api p tok s = (x, s1)" by fastforce
  have same: "read s1 = read s" and pre: "\<And>ks tok'. x = Inr (ks, tok') \<Longrightarrow> k \<notin> set ks"
    using s3_documentedD(11) [OF doc list] assms(3) by auto
  show ?case
  proof (cases x)
    case (Inl e)
    then show ?thesis using Suc(2) list same by simp
  next
    case (Inr y)
    obtain ks tok' where y: "y = (ks, tok')" by fastforce
    obtain n' err s2 where del: "delete_batches api ks n s1 = ((n', err), s2)" by (metis prod.collapse)
    have "read s2 k = read s k" using delete_batches_confined [OF doc del] pre Inr y same by simp
    then show ?thesis using Suc(2) Suc(1) [of tok' n' s2] list Inr y del by (simp split: option.splits if_splits)
  qed
qed simp

lemma s3_DeletePrefix_confined:
  assumes "s3_documented partSize read api" and "s3_DeletePrefix fuel api pre folderName prefix s = Some (r, s')"
    and "\<not> has_prefix k (buildKey pre folderName (if has_suffix prefix [slash] then prefix else prefix @ [slash]))"
  shows "read s' k = read s k"
  using delete_pages_confined [OF assms(1) _ assms(3)] assms(2) by (auto simp: s3_DeletePrefix_def split: if_splits)

text \<open>
  The loop over the pages ends: a service whose continuation tokens advance, measured by a
  number that falls from page to page, needs no more fuel than that number.
\<close>

lemma delete_pages_ends:
  assumes "\<And>tok s ks tok' s'. s3_ListObjects api p tok s = (Inr (ks, Some tok'), s') \<Longrightarrow> rank (Some tok') < rank tok"
  shows "rank tok < f \<Longrightarrow> \<exists>out. delete_pages f api p tok n s = Some out"
proof (induction f arbitrary: tok n s)
  case (Suc f)
  obtain x s1 where list: "s3_ListObjects api p tok s = (x, s1)" by fastforce
  show ?case
  proof (cases x)
    case (Inr y)
    obtain ks tok' where y: "y = (ks, tok')" by fastforce
    obtain n' err s2 where del: "delete_batches api ks n s1 = ((n', err), s2)" by (metis prod.collapse)
    have "tok' \<noteq> None \<Longrightarrow> rank tok' < f" using assms list Inr y Suc(2) by fastforce
    with Suc(1) [of tok' n' s2] list Inr y del show ?thesis by (cases err; cases "tok' = None") simp_all
  qed (use list in simp)
qed simp

lemma s3_DeletePrefix_ends:
  assumes "\<And>p tok s ks tok' s'. s3_ListObjects api p tok s = (Inr (ks, Some tok'), s') \<Longrightarrow> rank (Some tok') < rank tok"
  shows "\<exists>out. s3_DeletePrefix (Suc (rank None)) api pre folderName prefix s = Some out"
  using delete_pages_ends [of api _ rank None, OF assms] by (simp add: s3_DeletePrefix_def del: delete_pages.simps)

lemma mem_s3_ends: "\<exists>out. s3_DeletePrefix 1 (mem_s3 bad) pre folderName prefix fs = Some out"
  using s3_DeletePrefix_ends [of "mem_s3 bad" "\<lambda>_. 0"] by (simp add: mem_s3_def del: delete_pages.simps)

end
