(* ===== verification/Inference_Clients.thy ===== *)
theory Inference_Clients
  imports Inference_Routing
begin

text \<open>
  The clients that carry requests to the inference gateways: the HTTP client with its
  defaults, TLS settings and retry rules (\<^verbatim>\<open>pkg/clients/http\<close>), the inference client on top of
  it, and the client of the shared queues (\<^verbatim>\<open>async_shared_client.go\<close>). The retry loop itself
  belongs to the library \<^verbatim>\<open>resty\<close>, the waiting times to \<^verbatim>\<open>cenkalti/backoff\<close>; both are arguments,
  and what the code relies on in the first is \<open>resty_documented\<close>. The text of an error is
  an argument \<open>describe\<close>.
\<close>

section \<open>Configuration of the HTTP client\<close>

record HTTPClientConfig =
  hc_BaseURL :: string
  hc_Timeout :: duration
  hc_MaxIdleConns :: int
  hc_IdleConnTimeout :: duration
  hc_APIKey :: string
  hc_TLSInsecureSkipVerify :: bool
  hc_TLSCACertFile :: string
  hc_TLSClientCertFile :: string
  hc_TLSClientKeyFile :: string
  hc_TLSMinVersion :: int
  hc_TLSMaxVersion :: int
  hc_MaxRetries :: int
  hc_InitialBackoff :: duration
  hc_MaxBackoff :: duration

definition toHTTPClientConfig :: "GatewayClientConfig \<Rightarrow> HTTPClientConfig" where
  "toHTTPClientConfig gw =
    \<lparr>hc_BaseURL = gc_URL gw, hc_Timeout = gc_Timeout gw, hc_MaxIdleConns = 0, hc_IdleConnTimeout = 0, hc_APIKey = gc_APIKey gw,
     hc_TLSInsecureSkipVerify = gc_TLSInsecureSkipVerify gw, hc_TLSCACertFile = gc_TLSCACertFile gw,
     hc_TLSClientCertFile = gc_TLSClientCertFile gw, hc_TLSClientKeyFile = gc_TLSClientKeyFile gw,
     hc_TLSMinVersion = 0, hc_TLSMaxVersion = 0, hc_MaxRetries = gc_MaxRetries gw,
     hc_InitialBackoff = gc_InitialBackoff gw, hc_MaxBackoff = gc_MaxBackoff gw\<rparr>"

definition default_to :: "int \<Rightarrow> int \<Rightarrow> int" where
  "default_to d v = (if v = 0 then d else v)"

definition http_defaults :: "HTTPClientConfig \<Rightarrow> HTTPClientConfig" where
  "http_defaults c =
    (let c1 = c\<lparr>hc_Timeout := default_to (300 * second) (hc_Timeout c), hc_MaxIdleConns := default_to 100 (hc_MaxIdleConns c),
                hc_IdleConnTimeout := default_to (90 * second) (hc_IdleConnTimeout c)\<rparr>
     in if 0 < hc_MaxRetries c
        then c1\<lparr>hc_InitialBackoff := default_to second (hc_InitialBackoff c), hc_MaxBackoff := default_to (60 * second) (hc_MaxBackoff c)\<rparr>
        else c1)"

text \<open>
  The TLS settings name what was loaded: the text of the CA file and the files of the key
  pair. \<open>pem\<close> tells whether a text has a certificate, \<open>keyPair\<close> loads a pair of files.
\<close>

record TLSConfig =
  tl_InsecureSkipVerify :: bool
  tl_RootCAs :: "string option"
  tl_Certificates :: "(string \<times> string) option"
  tl_MinVersion :: int
  tl_MaxVersion :: int

record tls_lib =
  tb_pem :: "string \<Rightarrow> bool"
  tb_keyPair :: "string \<Rightarrow> string \<Rightarrow> unit res"

definition load_ca :: "host \<Rightarrow> tls_lib \<Rightarrow> HTTPClientConfig \<Rightarrow> string option res" where
  "load_ca h lib c =
    (if hc_TLSCACertFile c = [] then Inr None
     else (case ho_ReadFile h (hc_TLSCACertFile c) of
         Inl e \<Rightarrow> Inl e
       | Inr caCert \<Rightarrow> if tb_pem lib caCert then Inr (Some caCert) else Inl (ErrInvalid ''CA certificate'')))"

definition load_pair :: "tls_lib \<Rightarrow> HTTPClientConfig \<Rightarrow> (string \<times> string) option res" where
  "load_pair lib c =
    (let cert = hc_TLSClientCertFile c; key = hc_TLSClientKeyFile c
     in if cert \<noteq> [] \<and> key \<noteq> [] then (case tb_keyPair lib cert key of Inl e \<Rightarrow> Inl e | Inr _ \<Rightarrow> Inr (Some (cert, key)))
        else if cert \<noteq> [] \<or> key \<noteq> [] then Inl (ErrInvalid ''mTLS'')
        else Inr None)"

definition BuildTLSConfig :: "host \<Rightarrow> tls_lib \<Rightarrow> HTTPClientConfig \<Rightarrow> TLSConfig option res" where
  "BuildTLSConfig h lib c =
    (if \<not> hc_TLSInsecureSkipVerify c \<and> hc_TLSCACertFile c = [] \<and> hc_TLSClientCertFile c = [] \<and> hc_TLSClientKeyFile c = []
        \<and> hc_TLSMinVersion c = 0 \<and> hc_TLSMaxVersion c = 0
     then Inr None
     else (case load_ca h lib c of
         Inl e \<Rightarrow> Inl e
       | Inr ca \<Rightarrow> (case load_pair lib c of
             Inl e \<Rightarrow> Inl e
           | Inr pair \<Rightarrow> Inr (Some \<lparr>tl_InsecureSkipVerify = hc_TLSInsecureSkipVerify c, tl_RootCAs = ca, tl_Certificates = pair,
               tl_MinVersion = hc_TLSMinVersion c, tl_MaxVersion = hc_TLSMaxVersion c\<rparr>))))"

text \<open>The client as it was set up; without retries the library's count stays zero.\<close>

record HTTPClient =
  ht_BaseURL :: string
  ht_Timeout :: duration
  ht_ContentType :: string
  ht_AuthToken :: "string option"
  ht_MaxIdleConns :: int
  ht_IdleConnTimeout :: duration
  ht_ResponseHeaderTimeout :: duration
  ht_TLS :: "TLSConfig option"
  ht_RetryCount :: nat
  ht_RetryWait :: "(duration \<times> duration) option"

definition NewHTTPClient :: "host \<Rightarrow> tls_lib \<Rightarrow> HTTPClientConfig \<Rightarrow> HTTPClient res" where
  "NewHTTPClient h lib c0 =
    (let c = http_defaults c0
     in case BuildTLSConfig h lib c of
          Inl e \<Rightarrow> Inl e
        | Inr tls \<Rightarrow> Inr
            \<lparr>ht_BaseURL = hc_BaseURL c, ht_Timeout = hc_Timeout c, ht_ContentType = ''application/json'',
             ht_AuthToken = (if hc_APIKey c = [] then None else Some (hc_APIKey c)), ht_MaxIdleConns = hc_MaxIdleConns c,
             ht_IdleConnTimeout = hc_IdleConnTimeout c, ht_ResponseHeaderTimeout = hc_Timeout c, ht_TLS = tls,
             ht_RetryCount = nat (hc_MaxRetries c),
             ht_RetryWait = (if 0 < hc_MaxRetries c then Some (hc_InitialBackoff c, hc_MaxBackoff c) else None)\<rparr>)"

definition NewInferenceClient :: "host \<Rightarrow> tls_lib \<Rightarrow> GatewayClientConfig \<Rightarrow> HTTPClient res" where
  "NewInferenceClient h lib gw = NewHTTPClient h lib (toHTTPClientConfig gw)"

section \<open>When a request is retried\<close>

record http_response =
  hr_StatusCode :: int
  hr_Body :: string
  hr_Header :: "(string \<times> string) list"

text \<open>One attempt ends with a network error or a response.\<close>

datatype attempt = NetworkError error | Answer http_response

definition HeaderNameReqID :: string where "HeaderNameReqID = ''X-Request-ID''"
definition HeaderDroppedReason :: string where "HeaderDroppedReason = ''x-llm-d-request-dropped-reason''"
definition DroppedReasonTTLExpired :: string where "DroppedReasonTTLExpired = ''rejected-ttl-expired''"
definition rateLimitBackoffMultiplier :: int where "rateLimitBackoffMultiplier = 3"

definition header_get :: "http_response \<Rightarrow> string \<Rightarrow> string" where
  "header_get r k = (case map_of (hr_Header r) k of None \<Rightarrow> [] | Some v \<Rightarrow> v)"

definition retry_condition :: "attempt \<Rightarrow> bool" where
  "retry_condition a = (case a of
      NetworkError e \<Rightarrow> True
    | Answer r \<Rightarrow>
        if hr_StatusCode r = 429 \<or> hr_StatusCode r = 503 then header_get r HeaderDroppedReason \<noteq> DroppedReasonTTLExpired
        else 500 \<le> hr_StatusCode r)"

text \<open>What the retry hook stores in the flag of the request's context.\<close>

definition capacity :: "attempt \<Rightarrow> bool" where
  "capacity a = (case a of NetworkError e \<Rightarrow> False | Answer r \<Rightarrow> hr_StatusCode r = 429 \<or> 500 \<le> hr_StatusCode r)"

fun retry_hook :: "attempt list \<Rightarrow> bool \<Rightarrow> bool" where
  "retry_hook [] flag = flag"
| "retry_hook (a # as) flag = retry_hook as (if capacity a then True else flag)"

text \<open>
  Waiting times. \<open>draw base max n\<close> is the \<open>n\<close>-th interval of an exponential backoff, and
  \<open>httpDate\<close> parses the date form of a header.
\<close>

definition computeBackoff :: "(duration \<Rightarrow> duration \<Rightarrow> nat \<Rightarrow> duration) \<Rightarrow> int \<Rightarrow> duration \<Rightarrow> duration \<Rightarrow> duration" where
  "computeBackoff draw attempt base mx = draw base mx (nat (if attempt < 1 then 1 else attempt))"

definition parseRetryAfter :: "(string \<Rightarrow> int option) \<Rightarrow> int \<Rightarrow> string \<Rightarrow> duration option" where
  "parseRetryAfter httpDate now value =
    (case parse_int64 value of
       Some seconds \<Rightarrow> if 0 \<le> seconds then Some (w64 (seconds * second)) else map_option (\<lambda>t. max 0 (t - now)) (httpDate value)
     | None \<Rightarrow> map_option (\<lambda>t. max 0 (t - now)) (httpDate value))"

definition newRetryAfterFunc ::
  "(duration \<Rightarrow> duration \<Rightarrow> nat \<Rightarrow> duration) \<Rightarrow> (string \<Rightarrow> int option) \<Rightarrow> int \<Rightarrow> duration \<Rightarrow> duration \<Rightarrow> int \<Rightarrow> http_response option \<Rightarrow> duration" where
  "newRetryAfterFunc draw httpDate now initialBackoff maxBackoff attempt resp = (case resp of
      None \<Rightarrow> computeBackoff draw 1 initialBackoff maxBackoff
    | Some r \<Rightarrow>
        if hr_StatusCode r = 429
        then let ra = header_get r ''Retry-After''; slow = computeBackoff draw attempt (w64 (rateLimitBackoffMultiplier * initialBackoff)) maxBackoff
             in if ra = [] then slow
                else (case parseRetryAfter httpDate now ra of None \<Rightarrow> slow | Some d \<Rightarrow> if d = 0 then 1 else d)
        else if hr_StatusCode r \<in> {502, 503, 504} then computeBackoff draw attempt initialBackoff (maxBackoff sdiv 2)
        else computeBackoff draw attempt initialBackoff maxBackoff)"

section \<open>A request\<close>

record http_request =
  hq_Endpoint :: string
  hq_SetHeaders :: "(string \<times> string) list"
  hq_Body :: string

text \<open>
  What the library did for one request: its attempts, those it ran the hooks on, and what
  it returned.
\<close>

record resty_run =
  rr_attempts :: "attempt list"
  rr_hooked :: "attempt list"
  rr_result :: attempt

type_synonym resty = "HTTPClient \<Rightarrow> http_request \<Rightarrow> resty_run"

definition post_request :: "string \<Rightarrow> string \<Rightarrow> (string \<times> string) list \<Rightarrow> string \<Rightarrow> http_request" where
  "post_request endpoint body headers requestID =
    \<lparr>hq_Endpoint = endpoint, hq_SetHeaders = (if requestID = [] then [] else [(HeaderNameReqID, requestID)]) @ headers, hq_Body = body\<rparr>"

text \<open>
  \<^verbatim>\<open>Post\<close>, with what it leaves in the two values of the context: whether a retry was for
  capacity, and the dropped reason.
\<close>

definition Post ::
  "resty \<Rightarrow> HTTPClient \<Rightarrow> string \<Rightarrow> string \<Rightarrow> (string \<times> string) list \<Rightarrow> string \<Rightarrow> (string \<times> int) res \<times> bool \<times> string" where
  "Post lib c endpoint body headers requestID =
    (let run = lib c (post_request endpoint body headers requestID);
         flag = (if 0 < ht_RetryCount c then retry_hook (rr_hooked run) False else False)
     in case rr_result run of
          NetworkError e \<Rightarrow> (Inl e, flag, [])
        | Answer r \<Rightarrow> (Inr (hr_Body r, hr_StatusCode r), flag, header_get r HeaderDroppedReason))"

definition ErrCategoryRateLimit :: string where "ErrCategoryRateLimit = ''RATE_LIMIT''"
definition ErrCategoryServer :: string where "ErrCategoryServer = ''SERVER_ERROR''"
definition ErrCategoryInvalidReq :: string where "ErrCategoryInvalidReq = ''INVALID_REQ''"
definition ErrCategoryAuth :: string where "ErrCategoryAuth = ''AUTH_ERROR''"
definition ErrCategoryParse :: string where "ErrCategoryParse = ''PARSE_ERROR''"
definition ErrCategoryUnknown :: string where "ErrCategoryUnknown = ''UNKNOWN''"

definition OpenAIErrorType :: "string \<Rightarrow> string" where
  "OpenAIErrorType category =
    (if category = ErrCategoryInvalidReq then ''invalid_request_error''
     else if category = ErrCategoryAuth then ''authentication_error''
     else if category = ErrCategoryRateLimit then ''rate_limit_error''
     else if category = ErrCategoryServer then ''server_error''
     else if category = ErrCategoryParse then ''invalid_response'' else ''unknown_error'')"

definition MapStatusCodeToCategory :: "int \<Rightarrow> string" where
  "MapStatusCodeToCategory statusCode =
    (if statusCode = 400 then ErrCategoryInvalidReq
     else if statusCode = 401 \<or> statusCode = 403 then ErrCategoryAuth
     else if statusCode = 429 then ErrCategoryRateLimit
     else if statusCode \<in> {500, 502, 503, 504} then ErrCategoryServer
     else if 500 \<le> statusCode then ErrCategoryServer else ErrCategoryUnknown)"

definition show_int :: "int \<Rightarrow> string" where
  "show_int n = (if n < 0 then ''-'' @ itoa (nat (- n)) else itoa (nat n))"

text \<open>A client error outside of HTTP, and the one of a response; \<open>apiMessage\<close> is the message of an OpenAI error body.\<close>

definition plain_client_error :: "string \<Rightarrow> string \<Rightarrow> ClientError" where
  "plain_client_error category message = \<lparr>ce_Category = category, ce_Message = message, ce_StatusCode = 0, ce_DroppedTTL = False,
     ce_ResponseBody = [], ce_Type = OpenAIErrorType category\<rparr>"

definition HandleErrorResponse :: "(string \<Rightarrow> string option) \<Rightarrow> int \<Rightarrow> string \<Rightarrow> ClientError" where
  "HandleErrorResponse apiMessage statusCode body =
    (let message = (case apiMessage body of Some m \<Rightarrow> if m \<noteq> [] then m else body | None \<Rightarrow> body);
         category = MapStatusCodeToCategory statusCode
     in \<lparr>ce_Category = category, ce_Message = ''HTTP '' @ show_int statusCode @ '': '' @ message, ce_StatusCode = statusCode,
         ce_DroppedTTL = False, ce_ResponseBody = body, ce_Type = OpenAIErrorType category\<rparr>)"

record GenerateRequest =
  gq_RequestID :: string
  gq_Endpoint :: string
  gq_Params :: string
  gq_Headers :: "(string \<times> string) list"

text \<open>How the context of a request ended, as \<^verbatim>\<open>ctx.Err\<close> tells it.\<close>

datatype ctx_err = Canceled | DeadlineExceeded

definition handleRequestError :: "(error \<Rightarrow> string) \<Rightarrow> ctx_err option \<Rightarrow> error \<Rightarrow> ClientError" where
  "handleRequestError describe ctx e = (case ctx of
      Some Canceled \<Rightarrow> plain_client_error ErrCategoryUnknown ''request cancelled''
    | Some DeadlineExceeded \<Rightarrow> plain_client_error ErrCategoryServer ''request timeout''
    | None \<Rightarrow> plain_client_error ErrCategoryServer (''failed to execute request: '' @ describe e))"

definition Generate ::
  "resty \<Rightarrow> (string \<Rightarrow> string option) \<Rightarrow> (error \<Rightarrow> string) \<Rightarrow> ctx_err option \<Rightarrow> HTTPClient \<Rightarrow> GenerateRequest option
    \<Rightarrow> GenerateResponse option \<times> ClientError option" where
  "Generate lib apiMessage describe ctx c req = (case req of
      None \<Rightarrow> (None, Some (plain_client_error ErrCategoryInvalidReq ''request cannot be nil''))
    | Some q \<Rightarrow>
        if gq_Endpoint q = [] then (None, Some (plain_client_error ErrCategoryInvalidReq ''endpoint cannot be empty''))
        else (case Post lib c (gq_Endpoint q) (gq_Params q) (gq_Headers q) (gq_RequestID q) of
            (Inl e, flag, reason) \<Rightarrow> (None, Some (handleRequestError describe ctx e))
          | (Inr (resp, statusCode), flag, reason) \<Rightarrow>
              if statusCode \<noteq> 200
              then (None, Some ((HandleErrorResponse apiMessage statusCode resp)\<lparr>ce_DroppedTTL := (reason = DroppedReasonTTLExpired)\<rparr>))
              else (Some \<lparr>gr_RequestID = gq_RequestID q, gr_Response = resp, gr_StatusCode = 0, gr_ErrorCode = [], gr_ErrorMessage = [],
                   gr_HadCapacityRetry = flag\<rparr>, None)))"

definition request_of :: "RequestItem \<Rightarrow> GenerateRequest" where
  "request_of msg = \<lparr>gq_RequestID = rq_RequestID msg, gq_Endpoint = rq_Endpoint msg, gq_Params = rq_Body msg, gq_Headers = rq_Headers msg\<rparr>"

text \<open>
  One request of the direct dispatcher, with the context as it is when an error is
  handled and when the result is there. The model has a client, so that no message quotes it.
\<close>

definition submitRequest ::
  "resty \<Rightarrow> (string \<Rightarrow> string option) \<Rightarrow> (error \<Rightarrow> string) \<Rightarrow> (string \<Rightarrow> bool) \<Rightarrow> ctx_err option \<Rightarrow> cause option \<Rightarrow> HTTPClient \<Rightarrow> RequestItem \<Rightarrow> ResultItem" where
  "submitRequest lib apiMessage describe parses ctxErr ended c msg =
    direct_result (\<lambda>_. False) parses True (Generate lib apiMessage describe ctxErr c (Some (request_of msg))) ended msg"

section \<open>The client of the shared queues\<close>

record RequestMessage =
  rm_ID :: string
  rm_Created :: int
  rm_Deadline :: int
  rm_Payload :: string
  rm_Headers :: "(string \<times> string) list"
  rm_Endpoint :: string
  rm_Metadata :: "(string \<times> string) list"
  rm_Model :: string

record ResultMessage =
  rs_ID :: string
  rs_Payload :: string
  rs_StatusCode :: int
  rs_ErrorCode :: string
  rs_ErrorMessage :: string

text \<open>
  The producer of a queue, on its state \<open>'q\<close>; the durable operations are there if the
  transport has them. A delivery is a number with its result.
\<close>

record 'q producer =
  pd_SubmitRequest :: "RequestMessage \<Rightarrow> 'q \<Rightarrow> unit res \<times> 'q"
  pd_GetResult :: "'q \<Rightarrow> ResultMessage res \<times> 'q"
  pd_CancelRequests :: "string list \<Rightarrow> 'q \<Rightarrow> unit res \<times> 'q"
  pd_durable :: "(('q \<Rightarrow> (nat \<times> ResultMessage) res \<times> 'q) \<times> (nat \<Rightarrow> 'q \<Rightarrow> unit res \<times> 'q)) option"

definition defaultDeadline :: duration where "defaultDeadline = 300 * second"

text \<open>\<open>modelOf\<close> is the model of the parameters, empty if they have none; times are in nanoseconds.\<close>

definition queue_Submit ::
  "'q producer \<Rightarrow> (string \<Rightarrow> string res) \<Rightarrow> (string \<Rightarrow> string) \<Rightarrow> (error \<Rightarrow> string) \<Rightarrow> (string \<times> string) list \<Rightarrow> int \<Rightarrow> int option
    \<Rightarrow> GenerateRequest \<Rightarrow> 'q \<Rightarrow> ClientError option \<times> 'q" where
  "queue_Submit p marshal modelOf describe metadata now ctxDeadline req q =
    (let deadline = (case ctxDeadline of Some dl \<Rightarrow> dl | None \<Rightarrow> now + defaultDeadline)
     in case marshal (gq_Params req) of
          Inl e \<Rightarrow> (Some (plain_client_error ErrCategoryInvalidReq (''marshal async request parameters: '' @ describe e)), q)
        | Inr payload \<Rightarrow>
            (case pd_SubmitRequest p \<lparr>rm_ID = gq_RequestID req, rm_Created = now div second, rm_Deadline = deadline div second, rm_Payload = payload,
                rm_Headers = gq_Headers req, rm_Endpoint = gq_Endpoint req, rm_Metadata = metadata, rm_Model = modelOf (gq_Params req)\<rparr> q of
               (Inl e, q') \<Rightarrow> (Some (plain_client_error ErrCategoryServer (''submit async request: '' @ describe e)), q')
             | (Inr _, q') \<Rightarrow> (None, q')))"

definition generateResponseFrom :: "ResultMessage \<Rightarrow> GenerateResponse" where
  "generateResponseFrom r = \<lparr>gr_RequestID = rs_ID r, gr_Response = rs_Payload r, gr_StatusCode = rs_StatusCode r, gr_ErrorCode = rs_ErrorCode r,
     gr_ErrorMessage = rs_ErrorMessage r, gr_HadCapacityRetry = False\<rparr>"

definition GetResult :: "'q producer \<Rightarrow> 'q \<Rightarrow> GenerateResponse res \<times> 'q" where
  "GetResult p q = (case pd_GetResult p q of (Inl e, q') \<Rightarrow> (Inl e, q') | (Inr r, q') \<Rightarrow> (Inr (generateResponseFrom r), q'))"

definition ErrDurableResultsUnavailable :: error where
  "ErrDurableResultsUnavailable = ErrOther ''durable result delivery unavailable''"

text \<open>The acknowledgement that comes with a result is the number of its delivery.\<close>

definition ReceiveResult :: "'q producer \<Rightarrow> 'q \<Rightarrow> (GenerateResponse \<times> nat) res \<times> 'q" where
  "ReceiveResult p q = (case pd_durable p of
      None \<Rightarrow> (Inl ErrDurableResultsUnavailable, q)
    | Some (receive, ack) \<Rightarrow> (case receive q of
          (Inl e, q') \<Rightarrow> (Inl e, q')
        | (Inr (d, r), q') \<Rightarrow> (Inr (generateResponseFrom r, d), q')))"

definition ack_delivery :: "'q producer \<Rightarrow> nat \<Rightarrow> 'q \<Rightarrow> unit res \<times> 'q" where
  "ack_delivery p d q = (case pd_durable p of None \<Rightarrow> (Inr (), q) | Some (receive, ack) \<Rightarrow> ack d q)"

definition queue_Cancel :: "'q producer \<Rightarrow> string list \<Rightarrow> 'q \<Rightarrow> unit res \<times> 'q" where
  "queue_Cancel p ids q = (if ids = [] then (Inr (), q) else pd_CancelRequests p ids q)"

text \<open>The receipt of one result by a broadcaster, with the acknowledgement if it is durable.\<close>

definition receive :: "'q producer \<Rightarrow> 'q \<Rightarrow> (GenerateResponse \<times> nat option) res \<times> 'q" where
  "receive p q = (case ReceiveResult p q of
      (Inr (resp, d), q') \<Rightarrow> (Inr (resp, Some d), q')
    | (Inl e, q') \<Rightarrow> if e \<noteq> ErrDurableResultsUnavailable then (Inl e, q')
        else (case GetResult p q' of (Inl e', q'') \<Rightarrow> (Inl e', q'') | (Inr resp, q'') \<Rightarrow> (Inr (resp, None), q'')))"

text \<open>What a broadcaster does with one receipt: the result, with its acknowledgement, and where it goes.\<close>

definition broadcast_once ::
  "'q producer \<Rightarrow> (string \<Rightarrow> bool) \<Rightarrow> (nat \<times> (string \<Rightarrow> bool) option) list \<Rightarrow> (string \<Rightarrow> bool res) option \<Rightarrow> 'q \<Rightarrow> (nat list \<times> ResultItem) res \<times> 'q" where
  "broadcast_once p parses subscribers residueSafe q = (case receive p q of
      (Inl e, q') \<Rightarrow> (Inl e, q')
    | (Inr (resp, ack), q') \<Rightarrow>
        let result = (asyncResult parses resp)\<lparr>ri_Ack := ack\<rparr>; (targets, acks) = route subscribers residueSafe result
        in (Inr (targets, result), if acks then snd (ack_delivery p (the ack) q') else q'))"

section \<open>Deliveries\<close>

text \<open>
  The documented behaviour of a durable transport, over the set of the deliveries it still
  holds: a receipt leases one of them and removes none, an acknowledgement removes at most
  its own, and the error that stands for a missing capability, which is declared here, is
  not one of its errors.
\<close>

definition durable_documented :: "('q \<Rightarrow> nat set) \<Rightarrow> 'q producer \<Rightarrow> bool" where
  "durable_documented held p = (\<forall>rc ak. pd_durable p = Some (rc, ak) \<longrightarrow>
    (\<forall>q. held (snd (rc q)) = held q \<and> fst (rc q) \<noteq> Inl ErrDurableResultsUnavailable \<and> (\<forall>d r. fst (rc q) = Inr (d, r) \<longrightarrow> d \<in> held q))
    \<and> (\<forall>d q. held q - {d} \<subseteq> held (snd (ak d q))))"

lemma receive_durable:
  assumes "durable_documented held p" and "pd_durable p = Some (rc, ak)" and "receive p q = (Inr (resp, ack), q')"
  shows "\<exists>d. ack = Some d \<and> d \<in> held q \<and> held q' = held q"
proof -
  have doc: "held (snd (rc q)) = held q" "fst (rc q) \<noteq> Inl ErrDurableResultsUnavailable" "fst (rc q) = Inr (d, r) \<Longrightarrow> d \<in> held q" for d r
    using assms(1,2) by (auto simp: durable_documented_def)
  obtain x q1 where "rc q = (x, q1)" by fastforce
  with doc assms(2,3) show ?thesis by (cases x) (auto simp: receive_def ReceiveResult_def split: if_splits prod.splits sum.splits)
qed

text \<open>
  A broadcaster on a durable transport passes the acknowledgement on with the result, and
  the delivery stays in the queue unless nobody owns it and the residue check allows to drop it.
\<close>

lemma broadcast_keeps_delivery:
  assumes "durable_documented held p" and "pd_durable p = Some (rc, ak)"
    and "broadcast_once p parses subscribers residueSafe q = (Inr (targets, result), q')"
  shows "\<exists>d. ri_Ack result = Some d \<and> d \<in> held q \<and> held q - {d} \<subseteq> held q'
    \<and> (d \<in> held q' \<or> targets = [] \<and> (\<forall>f. residueSafe = Some f \<longrightarrow> f (ri_RequestID result) = Inr True))"
proof -
  obtain resp ack q1 where r: "receive p q = (Inr (resp, ack), q1)"
    using assms(3) by (auto simp: broadcast_once_def split: prod.splits sum.splits)
  obtain d where d: "ack = Some d" "d \<in> held q" "held q1 = held q" using receive_durable [OF assms(1,2) r] by blast
  let ?res = "(asyncResult parses resp)\<lparr>ri_Ack := ack\<rparr>"
  obtain ts acks where ro: "route subscribers residueSafe ?res = (ts, acks)" by fastforce
  then have eq: "targets = ts" "result = ?res" "q' = (if acks then snd (ak d q1) else q1)"
    using assms(2,3) r d(1) by (auto simp: broadcast_once_def ack_delivery_def Let_def)
  have "held q1 - {d} \<subseteq> held (snd (ak d q1))" using assms(1,2) by (auto simp: durable_documented_def)
  moreover have "acks \<Longrightarrow> ts = [] \<and> (\<forall>f. residueSafe = Some f \<longrightarrow> f (ri_RequestID ?res) = Inr True)"
    using ro by (auto simp: route_def Let_def split: if_splits)
  ultimately show ?thesis using d eq by (intro exI [of _ d]) auto
qed

section \<open>Configuration\<close>

text \<open>
  After the defaults the first waiting time is at most the largest, for a gateway that
  validation accepts, except if the first is zero and the largest below the default of the first.
\<close>

lemma defaulted_backoff:
  assumes "validateGatewayConfig h gw = Inr ()" and "c = http_defaults (toHTTPClientConfig (toGatewayClientConfig gw key))"
  shows "hc_InitialBackoff c \<le> hc_MaxBackoff c
    \<longleftrightarrow> \<not> (0 < Deref (mg_MaxRetries gw) \<and> Deref (mg_InitialBackoff gw) = 0 \<and> 0 < Deref (mg_MaxBackoff gw) \<and> Deref (mg_MaxBackoff gw) < second)"
proof -
  obtain i m where "mg_InitialBackoff gw = Some i" "mg_MaxBackoff gw = Some m" "0 \<le> i" "i \<le> m"
    using assms(1) by (cases "mg_InitialBackoff gw"; cases "mg_MaxBackoff gw") (auto simp: validateGatewayConfig_def required_def split: if_splits)
  then show ?thesis
    by (auto simp: assms(2) http_defaults_def toHTTPClientConfig_def toGatewayClientConfig_def Deref_def default_to_def second_def Let_def)
qed

lemma tls_built:
  "load_ca h lib c = Inr x \<Longrightarrow> load_pair lib c = Inr y \<Longrightarrow>
    \<exists>t. BuildTLSConfig h lib c = Inr t \<and> (t = None \<or> tl_InsecureSkipVerify (the t) = hc_TLSInsecureSkipVerify c)"
  by (auto simp: BuildTLSConfig_def)

text \<open>
  A gateway that validation accepts never fails for half a key pair: its client can be
  built as soon as its certificates can be loaded.
\<close>

lemma validated_client_built:
  assumes "validateGatewayConfig h gw = Inr ()"
    and "mg_TLSCACertFile gw \<noteq> [] \<Longrightarrow> \<exists>ca. ho_ReadFile h (mg_TLSCACertFile gw) = Inr ca \<and> tb_pem lib ca"
    and "mg_TLSClientCertFile gw \<noteq> [] \<Longrightarrow> is_ok (tb_keyPair lib (mg_TLSClientCertFile gw) (mg_TLSClientKeyFile gw))"
  shows "\<exists>c. NewInferenceClient h lib (toGatewayClientConfig gw key) = Inr c \<and> ht_RetryCount c = nat (Deref (mg_MaxRetries gw))
    \<and> ht_BaseURL c = mg_URL gw \<and> ht_Timeout c \<noteq> 0 \<and> (ht_TLS c = None \<or> tl_InsecureSkipVerify (the (ht_TLS c)) = mg_TLSInsecureSkipVerify gw)"
proof -
  let ?c = "http_defaults (toHTTPClientConfig (toGatewayClientConfig gw key))"
  have f: "hc_TLSCACertFile ?c = mg_TLSCACertFile gw" "hc_TLSClientCertFile ?c = mg_TLSClientCertFile gw" "hc_TLSClientKeyFile ?c = mg_TLSClientKeyFile gw"
    "hc_MaxRetries ?c = Deref (mg_MaxRetries gw)" "hc_BaseURL ?c = mg_URL gw" "hc_Timeout ?c \<noteq> 0" "hc_TLSInsecureSkipVerify ?c = mg_TLSInsecureSkipVerify gw"
    by (simp_all add: http_defaults_def toHTTPClientConfig_def toGatewayClientConfig_def Let_def default_to_def second_def)
  have pair: "(mg_TLSClientCertFile gw = []) = (mg_TLSClientKeyFile gw = [])"
    using assms(1) by (auto simp: validateGatewayConfig_def split: if_splits)
  have ca: "\<exists>x. load_ca h lib ?c = Inr x" using assms(2) f(1) by (fastforce simp: load_ca_def)
  have kp: "\<exists>x. load_pair lib ?c = Inr x"
    using assms(3) f(2,3) pair by (cases "mg_TLSClientCertFile gw = []") (auto simp: load_pair_def is_ok_def split: sum.splits)
  from ca kp obtain t where t: "BuildTLSConfig h lib ?c = Inr t" "t = None \<or> tl_InsecureSkipVerify (the t) = mg_TLSInsecureSkipVerify gw"
    using tls_built [of h lib ?c] f(7) by metis
  then show ?thesis by (simp add: NewInferenceClient_def NewHTTPClient_def Let_def f)
qed

text \<open>The clients of a resolver are all built if each of its gateways has a client.\<close>

lemma per_model_loop_built:
  "(\<And>m gw. (m, gw) \<in> set configs \<Longrightarrow> newClient gw = Inr ()) \<Longrightarrow> \<exists>r'. per_model_loop newClient pool r configs = Inr r'"
proof (induction newClient pool r configs rule: per_model_loop.induct)
  case (2 newClient pool r model gw configs)
  from 2(3) have "newClient gw = Inr ()" "\<And>m g. (m, g) \<in> set configs \<Longrightarrow> newClient g = Inr ()" by auto
  with 2(1,2) show ?case by (auto simp: Let_def split: option.split)
qed simp

lemma resolver_built:
  assumes "\<And>gw. rg_Global g = Some gw \<or> gw \<in> snd ` set (rg_PerModel g) \<Longrightarrow> is_ok (NewInferenceClient h lib gw)"
  shows "\<exists>r. direct_resolver (\<lambda>gw. only_error (NewInferenceClient h lib gw)) g = Inr r"
proof (cases "rg_Global g")
  case None
  have "\<exists>r. NewPerModelResolver (\<lambda>gw. only_error (NewInferenceClient h lib gw)) (rg_PerModel g) = Inr r"
    unfolding NewPerModelResolver_def by (rule per_model_loop_built) (use assms in force)
  with None show ?thesis by (auto simp: direct_resolver_def)
next
  case (Some gw)
  with assms [of gw] have "only_error (NewInferenceClient h lib gw) = Inr ()" by simp
  with Some show ?thesis unfolding direct_resolver_def NewGlobalResolver_def by (simp del: checks_pass)
qed

lemma retry_after_exact:
  assumes "0 \<le> s" and "s * second < 2 ^ 63" and "parse_int64 v = Some s"
  shows "parseRetryAfter httpDate now v = Some (s * second)"
  using assms by (simp add: parseRetryAfter_def w64_def signed_take_bit_int_eq_self second_def)

lemma retry_after_wraps: "parseRetryAfter httpDate now ''9223372037'' = Some (- 9223372036709551616)"
proof -
  have "parse_int64 ''9223372037'' = Some 9223372037" by code_simp
  moreover have "w64 (9223372037 * second) = - 9223372036709551616" by code_simp
  ultimately show ?thesis by (simp add: parseRetryAfter_def)
qed

section \<open>What becomes of a request\<close>

text \<open>
  The documented behaviour of the library for a context that does not end: \<open>server n\<close> is what
  the \<open>n\<close>-th attempt would meet. It tries again after an attempt that meets the condition,
  as often as configured, returns the last attempt, and runs the hooks before it tries
  again, and perhaps also after the last attempt if that meets the condition.
\<close>

definition resty_documented :: "(nat \<Rightarrow> attempt) \<Rightarrow> nat \<Rightarrow> resty_run \<Rightarrow> bool" where
  "resty_documented server n run =
    (let as = rr_attempts run in
     as \<noteq> [] \<and> length as \<le> Suc n \<and> as = map server [0..<length as]
     \<and> list_all retry_condition (butlast as)
     \<and> (retry_condition (last as) \<longrightarrow> length as = Suc n)
     \<and> rr_result run = last as
     \<and> (rr_hooked run = butlast as \<or> rr_hooked run = as \<and> retry_condition (last as)))"

text \<open>The number of attempts that are repeated.\<close>

definition retries :: "(nat \<Rightarrow> attempt) \<Rightarrow> nat \<Rightarrow> nat" where
  "retries server n = length (takeWhile (\<lambda>i. retry_condition (server i)) [0..<n])"

lemma retries_le: "retries server n \<le> n"
  unfolding retries_def by (metis length_takeWhile_le length_upt diff_zero)

lemma retries_eq:
  assumes "\<forall>i < k. retry_condition (server i)" and "k \<le> n" and "retry_condition (server k) \<Longrightarrow> k = n"
  shows "retries server n = k"
proof -
  have "[0..<n] = [0..<k] @ [k..<n]" using assms(2) by (metis le_add_diff_inverse upt_add_eq_append zero_le)
  moreover have "takeWhile (\<lambda>i. retry_condition (server i)) [k..<n] = []" using assms(2,3) by (cases "k = n") (auto simp: upt_conv_Cons)
  ultimately show ?thesis using assms(1) by (simp add: retries_def takeWhile_append)
qed

lemma resty_attempts:
  assumes "resty_documented server n run"
  shows "rr_attempts run = map server [0..<Suc (retries server n)]" "rr_result run = server (retries server n)"
    "\<not> retry_condition (server (retries server n)) \<Longrightarrow> rr_hooked run = map server [0..<retries server n]"
proof -
  define k where "k = length (rr_attempts run) - 1"
  note d = assms [unfolded resty_documented_def Let_def]
  from d have len: "length (rr_attempts run) = Suc k" by (simp add: k_def)
  with d have as: "rr_attempts run = map server [0..<Suc k]" by metis
  have "butlast (rr_attempts run) = map server [0..<k]" "last (rr_attempts run) = server k" by (simp_all add: as)
  with d len have k: "k \<le> n" "\<forall>i < k. retry_condition (server i)" "retry_condition (server k) \<Longrightarrow> k = n" "rr_result run = server k"
    "\<not> retry_condition (server k) \<Longrightarrow> rr_hooked run = map server [0..<k]"
    by (auto simp: list_all_iff)
  moreover have "retries server n = k" by (rule retries_eq) (use k in auto)
  ultimately show "rr_attempts run = map server [0..<Suc (retries server n)]" "rr_result run = server (retries server n)"
    "\<not> retry_condition (server (retries server n)) \<Longrightarrow> rr_hooked run = map server [0..<retries server n]"
    using as by simp_all
qed

lemma retry_hook_eq: "retry_hook as flag \<longleftrightarrow> flag \<or> (\<exists>a \<in> set as. capacity a)"
  by (induction as arbitrary: flag) auto

lemma hook_flag:
  assumes "resty_documented server n run" and "\<not> retry_condition (server (retries server n))"
  shows "(if 0 < n then retry_hook (rr_hooked run) False else False) \<longleftrightarrow> (\<exists>i < retries server n. capacity (server i))"
  using resty_attempts(3) [OF assms] retries_le [of server n] by (auto simp: retry_hook_eq)

text \<open>What the client returns for a live context, by what the last attempt met.\<close>

lemma Generate_live:
  assumes "resty_documented server (ht_RetryCount c) (lib c (post_request (gq_Endpoint q) (gq_Params q) (gq_Headers q) (gq_RequestID q)))"
    and "gq_Endpoint q \<noteq> []" and "k = retries server (ht_RetryCount c)"
  shows "server k = NetworkError e \<Longrightarrow>
      Generate lib apiMessage describe None c (Some q) = (None, Some (plain_client_error ErrCategoryServer (''failed to execute request: '' @ describe e)))"
    and "server k = Answer r \<Longrightarrow> hr_StatusCode r \<noteq> 200 \<Longrightarrow>
      Generate lib apiMessage describe None c (Some q) = (None, Some ((HandleErrorResponse apiMessage (hr_StatusCode r) (hr_Body r))
        \<lparr>ce_DroppedTTL := (header_get r HeaderDroppedReason = DroppedReasonTTLExpired)\<rparr>))"
    and "server k = Answer r \<Longrightarrow> hr_StatusCode r = 200 \<Longrightarrow>
      Generate lib apiMessage describe None c (Some q) = (Some \<lparr>gr_RequestID = gq_RequestID q, gr_Response = hr_Body r, gr_StatusCode = 0,
        gr_ErrorCode = [], gr_ErrorMessage = [], gr_HadCapacityRetry = (\<exists>i < k. capacity (server i))\<rparr>, None)"
proof -
  note run = resty_attempts(2) [OF assms(1)]
  show "server k = NetworkError e \<Longrightarrow>
      Generate lib apiMessage describe None c (Some q) = (None, Some (plain_client_error ErrCategoryServer (''failed to execute request: '' @ describe e)))"
    using run assms(2,3) by (simp add: Generate_def Post_def Let_def handleRequestError_def)
  show "server k = Answer r \<Longrightarrow> hr_StatusCode r \<noteq> 200 \<Longrightarrow>
      Generate lib apiMessage describe None c (Some q) = (None, Some ((HandleErrorResponse apiMessage (hr_StatusCode r) (hr_Body r))
        \<lparr>ce_DroppedTTL := (header_get r HeaderDroppedReason = DroppedReasonTTLExpired)\<rparr>))"
    using run assms(2,3) by (simp add: Generate_def Post_def Let_def)
  assume r: "server k = Answer r" "hr_StatusCode r = 200"
  then have "\<not> retry_condition (server k)" by (simp add: retry_condition_def)
  from hook_flag [OF assms(1)] this assms(3) run r assms(2)
  show "Generate lib apiMessage describe None c (Some q) = (Some \<lparr>gr_RequestID = gq_RequestID q, gr_Response = hr_Body r, gr_StatusCode = 0,
        gr_ErrorCode = [], gr_ErrorMessage = [], gr_HadCapacityRetry = (\<exists>i < k. capacity (server i))\<rparr>, None)"
    by (simp add: Generate_def Post_def Let_def)
qed

lemma retries_repeated: "i < retries server n \<Longrightarrow> retry_condition (server i)"
  unfolding retries_def by (metis (no_types, lifting) add_0 length_takeWhile_le length_upt nth_mem nth_upt order_less_le_trans set_takeWhileD takeWhile_nth diff_zero)

lemma retries_stop: "retries server n < n \<Longrightarrow> \<not> retry_condition (server (retries server n))"
  unfolding retries_def using nth_length_takeWhile [of "\<lambda>i. retry_condition (server i)" "[0..<n]"] by simp

text \<open>Whether the adaptive limit takes a result for a sign of overload.\<close>

definition overload :: "(nat \<Rightarrow> attempt) \<Rightarrow> nat \<Rightarrow> bool" where
  "overload server k = (case server k of
      NetworkError e \<Rightarrow> False
    | Answer r \<Rightarrow> if hr_StatusCode r = 200 then \<exists>i < k. capacity (server i) else capacity (server k))"

text \<open>How a response is turned into a result.\<close>

definition answered :: "(string \<Rightarrow> bool) \<Rightarrow> attempt \<Rightarrow> ResultItem \<Rightarrow> bool" where
  "answered parses a result = (case a of
      NetworkError e \<Rightarrow> ri_Response result = None \<and> map_option er_Code (ri_Error result) = Some ErrCategoryServer
    | Answer r \<Rightarrow>
        if hr_StatusCode r = 200
        then (if hr_Body r = [] \<or> parses (hr_Body r) then Succeeded result
              else ri_Response result = None \<and> map_option er_Code (ri_Error result) = Some ErrCategoryParse)
        else if header_get r HeaderDroppedReason = DroppedReasonTTLExpired
        then ri_Response result = None \<and> map_option er_Code (ri_Error result) = Some (code_name ErrCodeBatchExpired)
        else ri_Error result = None \<and> map_option rd_StatusCode (ri_Response result) = Some (hr_StatusCode r))"

lemmas result_defs = submitRequest_def direct_result_def buildResult_def base_result_def bare_result_def handleClientError_def handleSuccess_def

lemma submit_outcome:
  assumes "resty_documented server (ht_RetryCount c) (lib c (post_request (rq_Endpoint msg) (rq_Body msg) (rq_Headers msg) (rq_RequestID msg)))"
    and "rq_Endpoint msg \<noteq> []" and "k = retries server (ht_RetryCount c)"
    and "res = submitRequest lib apiMessage describe parses None None c msg" and "\<And>r. server k = Answer r \<Longrightarrow> 0 < hr_StatusCode r"
  shows "answered parses (server k) res \<and> recordAIMDSignal (map_option rd_StatusCode (ri_Response res)) (ri_HadCapacityRetry res) ctl =
    (if ri_Response res = None then (ctl, None) else if overload server k then RecordRateLimit ctl else RecordSuccess ctl)"
proof (cases "server k")
  case (NetworkError e)
  with Generate_live(1) [of server c lib "request_of msg" k e apiMessage describe] assms show ?thesis
    by (simp add: request_of_def result_defs plain_client_error_def answered_def recordAIMDSignal_def)
next
  case (Answer r)
  show ?thesis
  proof (cases "hr_StatusCode r = 200")
    case True
    with Answer Generate_live(3) [of server c lib "request_of msg" k r apiMessage describe] assms show ?thesis
      by (auto simp: request_of_def result_defs answered_def recordAIMDSignal_def Succeeded_def overload_def ErrCategoryParse_def)
  next
    case False
    with Answer Generate_live(2) [of server c lib "request_of msg" k r apiMessage describe] assms show ?thesis
      by (auto simp: request_of_def result_defs answered_def recordAIMDSignal_def overload_def capacity_def HandleErrorResponse_def Let_def)
  qed
qed

text \<open>The failures that may pass: network errors, and overload and server errors that do not report an expired deadline.\<close>

definition transient :: "attempt \<Rightarrow> bool" where
  "transient a = (\<forall>r. a = Answer r \<longrightarrow> (hr_StatusCode r = 429 \<or> 500 \<le> hr_StatusCode r)
     \<and> \<not> (hr_StatusCode r \<in> {429, 503} \<and> header_get r HeaderDroppedReason = DroppedReasonTTLExpired))"

lemma retry_condition_transient: "retry_condition a \<longleftrightarrow> transient a"
  by (auto simp: retry_condition_def transient_def split: attempt.split)

text \<open>
  C26: What becomes of a request, from the gateway to the limit of its endpoint. With the
  retry library behaving as documented and a context that does not end: the attempts are
  the first answers of the gateway, at most one more than the configured number of
  retries. Each one but the last was a network error or an answer 429 or 5xx, other than a
  429 or 503 that reports an expired deadline, and when there are fewer attempts than allowed the
  last one was none of these. The result of the request is that of the last attempt: a
  readable answer 200 is a success, an expired deadline the code of an expired batch, any
  other status is passed on with its response, a network error is a server error. The
  adaptive limit of the endpoint gets no signal without a response, a decrease after a
  final 429 or 5xx or for a success that was preceded by one, and counts everything else
  as a success, also a final 4xx after attempts that met overload.
\<close>

theorem inference_result_exact:
  assumes run: "run = lib c (post_request (rq_Endpoint msg) (rq_Body msg) (rq_Headers msg) (rq_RequestID msg))"
    and lib: "resty_documented server (ht_RetryCount c) run" and endpoint: "rq_Endpoint msg \<noteq> []" and k: "k = length (rr_attempts run) - 1"
    and res: "res = submitRequest lib apiMessage describe parses None None c msg" and pos: "\<And>i r. server i = Answer r \<Longrightarrow> 0 < hr_StatusCode r"
  shows "rr_attempts run = map server [0..<Suc k] \<and> k \<le> ht_RetryCount c
    \<and> (\<forall>a \<in> set (butlast (rr_attempts run)). \<forall>r. a = Answer r \<longrightarrow> (hr_StatusCode r = 429 \<or> 500 \<le> hr_StatusCode r)
         \<and> \<not> (hr_StatusCode r \<in> {429, 503} \<and> header_get r HeaderDroppedReason = DroppedReasonTTLExpired))
    \<and> (k < ht_RetryCount c \<longrightarrow> (\<exists>r. last (rr_attempts run) = Answer r \<and> ((hr_StatusCode r < 500 \<and> hr_StatusCode r \<noteq> 429)
         \<or> (hr_StatusCode r \<in> {429, 503} \<and> header_get r HeaderDroppedReason = DroppedReasonTTLExpired))))
    \<and> ri_RequestID res = rq_RequestID msg \<and> answered parses (last (rr_attempts run)) res
    \<and> recordAIMDSignal (map_option rd_StatusCode (ri_Response res)) (ri_HadCapacityRetry res) ctl =
      (if ri_Response res = None then (ctl, None) else if overload server k then RecordRateLimit ctl else RecordSuccess ctl)"
proof -
  note as = resty_attempts(1) [OF lib]
  then have kr: "k = retries server (ht_RetryCount c)" by (simp add: k)
  with as have as: "rr_attempts run = map server [0..<Suc k]" by simp
  then have ends: "butlast (rr_attempts run) = map server [0..<k]" "last (rr_attempts run) = server k" by simp_all
  have "transient (server i)" if "i < k" for i
    using retries_repeated [of i server "ht_RetryCount c"] that by (simp add: kr retry_condition_transient)
  then have before: "\<forall>a \<in> set (butlast (rr_attempts run)). transient a" by (auto simp: ends)
  have stop: "\<not> transient (server k)" if "k < ht_RetryCount c"
    using retries_stop [of server "ht_RetryCount c"] that by (simp add: kr retry_condition_transient)
  have "ri_RequestID res = rq_RequestID msg" by (simp add: res submitRequest_def direct_result_id(1))
  moreover note submit_outcome [OF lib [unfolded run] endpoint kr res, of ctl] pos
  ultimately show ?thesis
    using as before stop retries_le [of server "ht_RetryCount c"] by (auto simp: ends(2) kr [symmetric] transient_def not_le)
qed

text \<open>A gateway that answers 429 and then succeeds.\<close>

definition sample_server :: "nat \<Rightarrow> attempt" where
  "sample_server n = Answer (if n = 0 then \<lparr>hr_StatusCode = 429, hr_Body = [], hr_Header = []\<rparr> else \<lparr>hr_StatusCode = 200, hr_Body = ''{}'', hr_Header = []\<rparr>)"

definition sample_client :: HTTPClient where
  "sample_client = \<lparr>ht_BaseURL = ''http://gw'', ht_Timeout = second, ht_ContentType = ''application/json'', ht_AuthToken = None, ht_MaxIdleConns = 100,
     ht_IdleConnTimeout = second, ht_ResponseHeaderTimeout = second, ht_TLS = None, ht_RetryCount = 3, ht_RetryWait = Some (second, second)\<rparr>"

definition sample_resty :: resty where
  "sample_resty c q = \<lparr>rr_attempts = [sample_server 0, sample_server 1], rr_hooked = [sample_server 0], rr_result = sample_server 1\<rparr>"

theorem inference_result_exact_witness:
  "let msg = (request_for ''m'')\<lparr>rq_Endpoint := ''/v1/completions''\<rparr>; ctl = ai_ctl (aimd_start sample_aimd);
       res = submitRequest sample_resty (\<lambda>b. None) (\<lambda>e. []) (\<lambda>b. True) None None sample_client msg
   in rr_attempts (sample_resty sample_client (post_request ''/v1/completions'' [] [] ''m'')) = [sample_server 0, sample_server 1]
     \<and> Succeeded res \<and> ri_RequestID res = ''m''
     \<and> recordAIMDSignal (map_option rd_StatusCode (ri_Response res)) (ri_HadCapacityRetry res) ctl = RecordRateLimit ctl"
proof -
  let ?msg = "(request_for ''m'')\<lparr>rq_Endpoint := ''/v1/completions''\<rparr>"
  let ?res = "submitRequest sample_resty (\<lambda>b. None) (\<lambda>e. []) (\<lambda>b. True) None None sample_client ?msg"
  let ?run = "sample_resty sample_client (post_request (rq_Endpoint ?msg) (rq_Body ?msg) (rq_Headers ?msg) (rq_RequestID ?msg))"
  have run: "resty_documented sample_server (ht_RetryCount sample_client) ?run" "rq_Endpoint ?msg \<noteq> []" "1 = length (rr_attempts ?run) - 1"
    "overload sample_server 1" "ri_Response ?res \<noteq> None" "rq_RequestID ?msg = ''m''" "last (rr_attempts ?run) = sample_server 1"
    by code_simp+
  have pos: "0 < hr_StatusCode r" if "sample_server i = Answer r" for i r using that by (auto simp: sample_server_def split: if_splits)
  have suc: "answered (\<lambda>b. True) (sample_server 1) x \<Longrightarrow> Succeeded x" for x by (simp add: answered_def sample_server_def)
  have "rr_attempts (sample_resty sample_client (post_request ''/v1/completions'' [] [] ''m'')) = [sample_server 0, sample_server 1]"
    by (simp add: sample_resty_def)
  then show ?thesis
    using inference_result_exact [where run = ?run and server = sample_server and c = sample_client and lib = sample_resty and msg = ?msg and k = 1
        and res = ?res and apiMessage = "\<lambda>b. None" and describe = "\<lambda>e. []" and parses = "\<lambda>b. True"
        and ctl = "ai_ctl (aimd_start sample_aimd)", OF refl run(1-3) refl] pos run(4-7) suc
    unfolding Let_def by (metis (no_types, lifting))
qed

end
