(* ===== verification/Service_Config.thy ===== *)
theory Service_Config
  imports File_Api Batch_Api Processor_Config
begin

text \<open>
  The settings of the API server (\<^verbatim>\<open>internal/apiserver/common/config.go\<close>) and of the garbage
  collector (\<^verbatim>\<open>internal/gc/config/config.go\<close>), the TLS options of the server
  (\<^verbatim>\<open>internal/tls/tls.go\<close>) and the middleware that identifies a request. The YAML decoder is
  an argument, as is the table of cipher suites; settings that are only passed on to a
  library are left out.
\<close>

section \<open>The API server\<close>

definition DefaultBatchEventTTLSeconds :: int where "DefaultBatchEventTTLSeconds = 30 * 24 * 60 * 60"
definition InputHeaderKeyTenant :: string where "InputHeaderKeyTenant = ''tenant''"
definition DefaultTenantHeader :: string where "DefaultTenantHeader = ''X-MaaS-Username''"
definition DBTypePostgreSQL :: string where "DBTypePostgreSQL = ''postgresql''"

record BatchAPIConfig =
  ba_BatchEventTTLSeconds :: int
  ba_PassThroughHeaders :: "string list"
  ba_ExtraEndpoints :: "string list"

record ServerConfig =
  sv_Port :: string
  sv_ObservabilityPort :: string
  sv_SSLCertFile :: string
  sv_SSLKeyFile :: string
  sv_InputHeaders :: "(string \<times> string) list"
  sv_ReadHeaderTimeoutSeconds :: int
  sv_ReadTimeoutSeconds :: int
  sv_WriteTimeoutSeconds :: int
  sv_IdleTimeoutSeconds :: int
  sv_APIShutdownTimeoutSeconds :: int
  sv_ObservabilityShutdownTimeoutSeconds :: int
  sv_BatchAPI :: BatchAPIConfig
  sv_FileAPI :: FileAPIConfig
  sv_DBType :: string
  sv_Retry :: RetryConfig

definition positive_or :: "int \<Rightarrow> int \<Rightarrow> int" where
  "positive_or d v = (if v \<le> 0 then d else v)"

definition BatchAPIConfig_applyDefaults :: "BatchAPIConfig \<Rightarrow> BatchAPIConfig" where
  "BatchAPIConfig_applyDefaults b = b\<lparr>ba_BatchEventTTLSeconds := positive_or DefaultBatchEventTTLSeconds (ba_BatchEventTTLSeconds b)\<rparr>"

definition applyDefaults :: "ServerConfig \<Rightarrow> ServerConfig" where
  "applyDefaults c = c
    \<lparr>sv_ObservabilityPort := (if sv_ObservabilityPort c = [] then ''8081'' else sv_ObservabilityPort c),
     sv_DBType := (if sv_DBType c = [] then DBTypePostgreSQL else sv_DBType c),
     sv_ReadHeaderTimeoutSeconds := positive_or 10 (sv_ReadHeaderTimeoutSeconds c),
     sv_ReadTimeoutSeconds := positive_or 900 (sv_ReadTimeoutSeconds c),
     sv_WriteTimeoutSeconds := positive_or 120 (sv_WriteTimeoutSeconds c),
     sv_IdleTimeoutSeconds := positive_or 90 (sv_IdleTimeoutSeconds c),
     sv_APIShutdownTimeoutSeconds := positive_or 60 (sv_APIShutdownTimeoutSeconds c),
     sv_ObservabilityShutdownTimeoutSeconds := positive_or 60 (sv_ObservabilityShutdownTimeoutSeconds c),
     sv_BatchAPI := BatchAPIConfig_applyDefaults (sv_BatchAPI c), sv_FileAPI := FileAPIConfig_applyDefaults (sv_FileAPI c)\<rparr>"

definition SSLEnabled :: "ServerConfig \<Rightarrow> bool" where
  "SSLEnabled c = (sv_SSLCertFile c \<noteq> [] \<and> sv_SSLKeyFile c \<noteq> [])"

definition server_Validate :: "host \<Rightarrow> ServerConfig \<Rightarrow> unit res" where
  "server_Validate h c = first_error
    ([refuse (sv_Port c = []) ''port'',
      refuse ((sv_SSLCertFile c \<noteq> [] \<and> sv_SSLKeyFile c = []) \<or> (sv_SSLCertFile c = [] \<and> sv_SSLKeyFile c \<noteq> [])) ''ssl''] @
     (if sv_SSLCertFile c \<noteq> [] then [ho_Stat h (sv_SSLCertFile c), ho_Stat h (sv_SSLKeyFile c)] else []) @
     [retry_Validate (sv_Retry c), only_error (NewEndpointAllowlist (ba_ExtraEndpoints (sv_BatchAPI c)))])"

text \<open>The settings after the flags, from the file they name.\<close>

definition server_Load :: "host \<Rightarrow> (string \<Rightarrow> ServerConfig \<Rightarrow> ServerConfig res) \<Rightarrow> string \<Rightarrow> ServerConfig \<Rightarrow> ServerConfig res" where
  "server_Load h yaml path c =
    (if path = [] then Inl (ErrInvalid ''config file path'')
     else (case ho_ReadFile h path of
         Inl e \<Rightarrow> Inl e
       | Inr data \<Rightarrow> (case yaml data c of
           Inl e \<Rightarrow> Inl e
         | Inr c1 \<Rightarrow> (case server_Validate h (applyDefaults c1) of Inl e \<Rightarrow> Inl e | Inr _ \<Rightarrow> Inr (applyDefaults c1)))))"

definition GetInputHeader :: "ServerConfig \<Rightarrow> string \<Rightarrow> string \<Rightarrow> string" where
  "GetInputHeader c key fallback = (case map_of (sv_InputHeaders c) key of None \<Rightarrow> fallback | Some v \<Rightarrow> if v \<noteq> [] then v else fallback)"

definition GetTenantHeader :: "ServerConfig \<Rightarrow> string" where
  "GetTenantHeader c = GetInputHeader c InputHeaderKeyTenant DefaultTenantHeader"

text \<open>What the middleware puts into the context of a request, \<open>fresh\<close> being a new identifier.\<close>

definition RequestIdHeaderKey :: string where "RequestIdHeaderKey = ''x-request-id''"

record request_context =
  rx_RequestID :: string
  rx_TenantID :: string

definition NewRequestMiddleware :: "ServerConfig \<Rightarrow> string \<Rightarrow> headers \<Rightarrow> request_context" where
  "NewRequestMiddleware c fresh hs =
    (let given = (case map_of hs RequestIdHeaderKey of Some (v # vs) \<Rightarrow> v | _ \<Rightarrow> [])
     in \<lparr>rx_RequestID = (if given = [] then fresh else given), rx_TenantID = request_tenant (GetTenantHeader c) hs\<rparr>)"

section \<open>TLS options\<close>

definition VersionTLS12 :: int where "VersionTLS12 = 0x0303"
definition VersionTLS13 :: int where "VersionTLS13 = 0x0304"

definition tlsVersionMap :: "(string \<times> int) list" where
  "tlsVersionMap = [(''VersionTLS12'', VersionTLS12), (''VersionTLS13'', VersionTLS13)]"

definition parseMinVersion :: "string \<Rightarrow> int res" where
  "parseMinVersion version0 =
    (let version = trim_space version0
     in if version = [] then Inr VersionTLS12
        else (case map_of tlsVersionMap version of Some v \<Rightarrow> Inr v | None \<Rightarrow> Inl (ErrInvalid ''TLS version'')))"

definition names_of :: "string \<Rightarrow> string list" where
  "names_of commaSeparated = filter (\<lambda>n. n \<noteq> []) (map trim_space (split_on (CHR '','') (trim_space commaSeparated)))"

definition parseCipherSuites :: "(string \<times> int) list \<Rightarrow> string \<Rightarrow> int list res" where
  "parseCipherSuites suites commaSeparated =
    (if trim_space commaSeparated = [] then Inr []
     else let names = names_of commaSeparated
          in if \<exists>n \<in> set names. map_of suites n = None then Inl (ErrInvalid ''TLS cipher suite'')
             else if names = [] then Inl (ErrInvalid ''cipher suites'')
             else Inr (map (\<lambda>n. the (map_of suites n)) names))"

definition parseNextProtos :: "string \<Rightarrow> string list" where
  "parseNextProtos commaSeparated =
    (if trim_space commaSeparated = [] then [''h2'', ''http/1.1'']
     else let protos = names_of commaSeparated in if protos = [] then [''h2'', ''http/1.1''] else protos)"

record tls_options =
  to_MinVersion :: int
  to_CipherSuites :: "int list"
  to_NextProtos :: "string list"

definition Resolve :: "(string \<times> int) list \<Rightarrow> string \<Rightarrow> string \<Rightarrow> string \<Rightarrow> tls_options res" where
  "Resolve suites tlsMinVersion tlsCipherSuites tlsNextProtos =
    (case parseMinVersion tlsMinVersion of
       Inl e \<Rightarrow> Inl e
     | Inr minVersion \<Rightarrow> (case parseCipherSuites suites tlsCipherSuites of
           Inl e \<Rightarrow> Inl e
         | Inr ciphers \<Rightarrow>
             if VersionTLS13 \<le> minVersion \<and> ciphers \<noteq> [] then Inl (ErrInvalid ''cipher suites with TLS 1.3'')
             else Inr \<lparr>to_MinVersion = minVersion, to_CipherSuites = ciphers, to_NextProtos = parseNextProtos tlsNextProtos\<rparr>))"

section \<open>The garbage collector\<close>

record GCConfig =
  gg_MetricsAddr :: string
  gg_Interval :: duration
  gg_MaxConcurrency :: int
  gg_ReconcilerEnabled :: bool
  gg_ReconcilerInterval :: duration
  gg_DBType :: string
  gg_FileType :: string
  gg_Retry :: RetryConfig

text \<open>\<^verbatim>\<open>net.SplitHostPort\<close>: the host and the port, split at the last colon, with the brackets of an address removed.\<close>

definition last_colon :: "string \<Rightarrow> nat option" where
  "last_colon s = (if CHR '':'' \<in> set s then Some (length s - 1 - length (takeWhile (\<lambda>c. c \<noteq> CHR '':'') (rev s))) else None)"

definition SplitHostPort :: "string \<Rightarrow> (string \<times> string) option" where
  "SplitHostPort s = (case last_colon s of
      None \<Rightarrow> None
    | Some i \<Rightarrow>
        if take 1 s = ''[''
        then let closing = length (takeWhile (\<lambda>c. c \<noteq> CHR '']'') s)
             in if CHR '']'' \<notin> set s \<or> closing + 1 \<noteq> i then None
                else if CHR ''['' \<in> set (drop 1 s) \<or> CHR '']'' \<in> set (drop (closing + 1) s) then None
                else Some (drop 1 (take closing s), drop (i + 1) s)
        else if CHR '':'' \<in> set (take i s) \<or> CHR ''['' \<in> set s \<or> CHR '']'' \<in> set s then None
        else Some (take i s, drop (i + 1) s))"

definition validateMetricsAddr :: "string \<Rightarrow> unit res" where
  "validateMetricsAddr addr = (case SplitHostPort addr of
      None \<Rightarrow> Inl (ErrInvalid ''metrics_addr'')
    | Some (host, portStr) \<Rightarrow>
        if host \<noteq> [] then Inl (ErrInvalid ''metrics_addr host'')
        else (case parse_int64 portStr of
            None \<Rightarrow> Inl (ErrInvalid ''port'')
          | Some port \<Rightarrow> if port < 1 \<or> 65535 < port then Inl (ErrInvalid ''port'') else Inr ()))"

definition gc_defaults :: GCConfig where
  "gc_defaults = \<lparr>gg_MetricsAddr = '':9091'', gg_Interval = 3600 * second, gg_MaxConcurrency = 10, gg_ReconcilerEnabled = True,
     gg_ReconcilerInterval = 3600 * second, gg_DBType = [], gg_FileType = [],
     gg_Retry = \<lparr>re_MaxRetries = 0, re_InitialBackoff = 0, re_MaxBackoff = 0\<rparr>\<rparr>"

definition gc_checks :: "GCConfig \<Rightarrow> unit res list" where
  "gc_checks cfg =
    [refuse (gg_MaxConcurrency cfg \<le> 0) ''collector.max_concurrency'',
     refuse (gg_Interval cfg \<le> 0) ''collector.interval'',
     refuse (gg_ReconcilerEnabled cfg \<and> gg_ReconcilerInterval cfg \<le> 0) ''reconciler.interval'',
     validateMetricsAddr (gg_MetricsAddr cfg),
     refuse (gg_DBType cfg \<noteq> DBTypePostgreSQL) ''db_client.type'',
     refuse (gg_FileType cfg \<noteq> ''fs'' \<and> gg_FileType cfg \<noteq> ''s3'') ''file_client.type'',
     retry_Validate (gg_Retry cfg)]"

definition gc_Load :: "host \<Rightarrow> (string \<Rightarrow> GCConfig \<Rightarrow> GCConfig res) \<Rightarrow> string \<Rightarrow> GCConfig res" where
  "gc_Load h yaml path = (case ho_ReadFile h path of
      Inl e \<Rightarrow> Inl e
    | Inr data \<Rightarrow> (case yaml data gc_defaults of
        Inl e \<Rightarrow> Inl e
      | Inr cfg \<Rightarrow> (case first_error (gc_checks cfg) of Inl e \<Rightarrow> Inl e | Inr _ \<Rightarrow> Inr cfg)))"

section \<open>What the settings give\<close>

lemma parseCipherSuites_known:
  assumes "parseCipherSuites suites cs = Inr ids"
  shows "set ids \<subseteq> snd ` set suites"
proof (cases "trim_space cs = []")
  case False
  with assms have "ids = map (\<lambda>n. the (map_of suites n)) (names_of cs)" "\<forall>n \<in> set (names_of cs). map_of suites n \<noteq> None"
    by (simp_all add: parseCipherSuites_def Let_def split: if_splits)
  moreover have "the (map_of suites n) \<in> snd ` set suites" if "map_of suites n \<noteq> None" for n
    using that by (metis image_eqI map_of_SomeD not_None_eq option.sel snd_conv)
  ultimately show ?thesis by auto
qed (use assms in \<open>simp add: parseCipherSuites_def\<close>)

text \<open>The TLS options never go below version 1.2, name known suites only, and none with version 1.3.\<close>

lemma tls_hardened:
  assumes "Resolve suites v cs ps = Inr o1"
  shows "VersionTLS12 \<le> to_MinVersion o1" "set (to_CipherSuites o1) \<subseteq> snd ` set suites" "to_NextProtos o1 \<noteq> []"
    "to_MinVersion o1 = VersionTLS13 \<Longrightarrow> to_CipherSuites o1 = []"
proof -
  obtain mv ciphers where r: "parseMinVersion v = Inr mv" "parseCipherSuites suites cs = Inr ciphers" "VersionTLS13 \<le> mv \<Longrightarrow> ciphers = []"
      "o1 = \<lparr>to_MinVersion = mv, to_CipherSuites = ciphers, to_NextProtos = parseNextProtos ps\<rparr>"
    using assms by (auto simp: Resolve_def split: sum.splits if_splits)
  from r(1) have "VersionTLS12 \<le> mv"
    by (auto simp: parseMinVersion_def tlsVersionMap_def VersionTLS12_def VersionTLS13_def Let_def split: if_splits option.splits)
  moreover have "set ciphers \<subseteq> snd ` set suites" by (rule parseCipherSuites_known [OF r(2)])
  moreover have "parseNextProtos ps \<noteq> []" by (simp add: parseNextProtos_def Let_def)
  ultimately show "VersionTLS12 \<le> to_MinVersion o1" "set (to_CipherSuites o1) \<subseteq> snd ` set suites" "to_NextProtos o1 \<noteq> []"
    "to_MinVersion o1 = VersionTLS13 \<Longrightarrow> to_CipherSuites o1 = []"
    using r(3,4) by simp_all
qed

text \<open>A request always has an identifier and a tenant, whatever its headers and the settings.\<close>

lemma request_identified:
  "fresh \<noteq> [] \<Longrightarrow> rx_RequestID (NewRequestMiddleware c fresh hs) \<noteq> [] \<and> rx_TenantID (NewRequestMiddleware c fresh hs) \<noteq> []"
  by (simp add: NewRequestMiddleware_def Let_def)

text \<open>The settings of a collector that starts; the form of its address admits more than a colon and digits.\<close>

lemma gc_Load_checked:
  assumes "gc_Load h yaml path = Inr cfg"
  shows "0 < gg_Interval cfg \<and> 0 < gg_MaxConcurrency cfg \<and> (gg_ReconcilerEnabled cfg \<longrightarrow> 0 < gg_ReconcilerInterval cfg)
    \<and> gg_DBType cfg = DBTypePostgreSQL \<and> retry_Validate (gg_Retry cfg) = Inr ()"
proof -
  have "first_error (gc_checks cfg) = Inr ()" using assms by (simp add: gc_Load_def del: first_error_pass split: sum.splits)
  then show ?thesis by (auto simp: gc_checks_def simp del: first_error.simps)
qed

lemma metrics_addr_forms: "validateMetricsAddr '':9091'' = Inr ()" "validateMetricsAddr ''[]:9091'' = Inr ()" "validateMetricsAddr '':+9091'' = Inr ()"
  "validateMetricsAddr ''0.0.0.0:9091'' \<noteq> Inr ()"
  by code_simp+

lemma server_limits_positive:
  "0 < fc_MaxSizeBytes (sv_FileAPI (applyDefaults c))" "0 < fc_MaxLineCount (sv_FileAPI (applyDefaults c))"
  "0 < ba_BatchEventTTLSeconds (sv_BatchAPI (applyDefaults c))"
  by (simp_all add: applyDefaults_def FileAPIConfig_applyDefaults_def BatchAPIConfig_applyDefaults_def positive_or_def DefaultMaxFileSizeBytes_def
      DefaultMaxFileLineCount_def DefaultBatchEventTTLSeconds_def)

lemma uploaded_bytes:
  assumes "CreateFile sha env cfg tenantID req s = (OK f, s')"
    and "0 < fc_MaxSizeBytes cfg"
  shows "0 \<le> fo_Bytes f \<and> fo_Bytes f \<le> fc_MaxSizeBytes cfg"
proof -
  obtain up expiresAt where "store_upload sha env cfg tenantID (cf_Purpose req) expiresAt up s = (OK f, s')"
    using assms(1) by (rule CreateFile_OKD)
  then obtain d where "fo_Bytes f = int (length d)" "limits_ok (fc_MaxSizeBytes cfg) (fc_MaxLineCount cfg) d"
    by (rule store_upload_OKD) blast
  with assms(2) show ?thesis by (simp add: limits_ok_def within_def)
qed

lemma sum_bytes_le:
  "(\<And>f. f \<in> set fobjs \<Longrightarrow> fo_Bytes f \<le> m) \<Longrightarrow> sum_list (map fo_Bytes fobjs) \<le> int (length fobjs) * m"
  by (induction fobjs) (auto simp: algebra_simps, fastforce)

text \<open>
  C28: The input files of all workers fit into their share of the work directory. Take the
  number of workers a processor computes from its settings, and input files that were
  uploaded through the API server, one per worker at most. If the largest upload of the
  server is not above the largest file the processor reckons with, all these files
  together fit into the configured share of the directory; and the defaults of the two
  services agree.
\<close>

theorem staged_uploads_fit:
  assumes "quantity64 h" and "EffectiveNumWorkers h c = Inr n" and "ho_ParseQuantity h (pc_WorkDirSizeLimit c) = Inr w"
    and "fc_MaxSizeBytes (sv_FileAPI (applyDefaults sc)) \<le> pc_MaxInputFileSizeBytes c"
    and "\<forall>f \<in> set fobjs. \<exists>sha env tenantID req s s'. CreateFile sha env (sv_FileAPI (applyDefaults sc)) tenantID req s = (OK f, s')"
    and "int (length fobjs) \<le> n"
  shows "100 * sum_list (map fo_Bytes fobjs) \<le> w * pc_InputFileDiskBudgetPercent c
    \<and> (fc_MaxSizeBytes (sv_FileAPI sc) \<le> 0 \<longrightarrow> fc_MaxSizeBytes (sv_FileAPI (applyDefaults sc)) = pc_MaxInputFileSizeBytes NewConfig)"
proof
  let ?m = "pc_MaxInputFileSizeBytes c" and ?b = "w * pc_InputFileDiskBudgetPercent c div 100"
  from EffectiveNumWorkers_eq [OF assms(1), of c n] assms(2,3)
  have n: "0 < ?m" "?m \<le> ?b" "n \<le> ?b div ?m" by auto
  have "sum_list (map fo_Bytes fobjs) \<le> int (length fobjs) * ?m"
    by (rule sum_bytes_le) (use assms(4,5) uploaded_bytes server_limits_positive(1) in \<open>meson order_trans\<close>)
  also have "\<dots> \<le> (?b div ?m) * ?m" using n assms(6) by (intro mult_right_mono) auto
  also have "\<dots> \<le> ?b" using n(1) by (metis div_mult_mod_eq le_add_same_cancel1 pos_mod_sign)
  finally show "100 * sum_list (map fo_Bytes fobjs) \<le> w * pc_InputFileDiskBudgetPercent c" by linarith
  show "fc_MaxSizeBytes (sv_FileAPI sc) \<le> 0 \<longrightarrow> fc_MaxSizeBytes (sv_FileAPI (applyDefaults sc)) = pc_MaxInputFileSizeBytes NewConfig"
    by (simp add: applyDefaults_def FileAPIConfig_applyDefaults_def NewConfig_def DefaultMaxFileSizeBytes_def DefaultMaxInputFileSizeBytes_def)
qed

definition sample_server_config :: ServerConfig where
  "sample_server_config = \<lparr>sv_Port = ''8000'', sv_ObservabilityPort = [], sv_SSLCertFile = [], sv_SSLKeyFile = [], sv_InputHeaders = [],
     sv_ReadHeaderTimeoutSeconds = 0, sv_ReadTimeoutSeconds = 0, sv_WriteTimeoutSeconds = 0, sv_IdleTimeoutSeconds = 0,
     sv_APIShutdownTimeoutSeconds = 0, sv_ObservabilityShutdownTimeoutSeconds = 0,
     sv_BatchAPI = \<lparr>ba_BatchEventTTLSeconds = 0, ba_PassThroughHeaders = [], ba_ExtraEndpoints = []\<rparr>,
     sv_FileAPI = \<lparr>fc_DefaultExpirationSeconds = 0, fc_MaxSizeBytes = 0, fc_MaxLineCount = 0\<rparr>, sv_DBType = [],
     sv_Retry = \<lparr>re_MaxRetries = 0, re_InitialBackoff = 0, re_MaxBackoff = 0\<rparr>\<rparr>"

lemma sample_server_file_config: "sv_FileAPI (applyDefaults sample_server_config) = sample_file_config"
  by (simp add: applyDefaults_def sample_server_config_def sample_file_config_def)

theorem staged_uploads_fit_witness:
  "server_Validate sample_host (applyDefaults sample_server_config) = Inr () \<and> EffectiveNumWorkers sample_host NewConfig = Inr 5
   \<and> (\<exists>f s'. CreateFile (\<lambda>x. x) sample_file_env sample_file_config ''t'' sample_upload \<lparr>fs_rows = [], fs_store = []\<rparr> = (OK f, s')
        \<and> 100 * sum_list (map fo_Bytes [f, f]) \<le> 10 * 2 ^ 30 * 10)"
proof -
  obtain f s' where f: "CreateFile (\<lambda>x. x) sample_file_env sample_file_config ''t'' sample_upload \<lparr>fs_rows = [], fs_store = []\<rparr> = (OK f, s')"
    using sample_upload_run by blast
  have eval: "server_Validate sample_host (applyDefaults sample_server_config) = Inr ()" "EffectiveNumWorkers sample_host NewConfig = Inr 5"
    "ho_ParseQuantity sample_host (pc_WorkDirSizeLimit NewConfig) = Inr (10 * 2 ^ 30)" "pc_InputFileDiskBudgetPercent NewConfig = 10"
    "fc_MaxSizeBytes (sv_FileAPI (applyDefaults sample_server_config)) \<le> pc_MaxInputFileSizeBytes NewConfig"
    by code_simp+
  have one: "\<exists>sha env tenantID req s s'. CreateFile sha env sample_file_config tenantID req s = (OK f, s')" using f by (intro exI)
  have files: "\<forall>g \<in> set [f, f]. \<exists>sha env tenantID req s s'. CreateFile sha env (sv_FileAPI (applyDefaults sample_server_config)) tenantID req s = (OK g, s')"
    unfolding sample_server_file_config using one by simp
  have "100 * sum_list (map fo_Bytes [f, f]) \<le> 10 * 2 ^ 30 * 10"
    using staged_uploads_fit [OF sample_quantity eval(2,3,5) files] eval(4) by simp
  with eval f show ?thesis by blast
qed

end
