(* ===== verification/Queue_Progress.thy ===== *)
theory Queue_Progress
  imports Job_Runner Batch_Api
begin

text \<open>
  The way of a batch from the API to a processor: rounds of the polling loops of any
  processors (\<^verbatim>\<open>runPollingLoop\<close> in \<^verbatim>\<open>internal/processor/worker/worker.go\<close>) one after the other, and that each
  of them takes one batch out of the queue and leaves all others as they are.
\<close>

section \<open>Rounds\<close>

text \<open>
  A round in which the claim and the read of the row reach the database, no other party
  comes in between, and the processor is not about to stop. Its status writes may fail.
\<close>

definition calm_round :: "poll_env \<Rightarrow> bool" where
  "calm_round env = (po_conn env = ConnOk \<and> po_fetch env = ConnOk \<and> po_locked env = [] \<and> po_sys env = id \<and> \<not> po_stopped env)"

fun poll_rounds :: "duration \<Rightarrow> (string \<times> poll_env) list \<Rightarrow> db \<Rightarrow> poll_result list \<times> db" where
  "poll_rounds lease [] s = ([], s)"
| "poll_rounds lease ((self, env) # rs) s =
    (let (x, s1) = poll_once self lease env s; (xs, s2) = poll_rounds lease rs s1 in (x # xs, s2))"

section \<open>One round\<close>

lemma DBUpdate_others: "k \<noteq> bi_ID item \<Longrightarrow> find_item k (snd (DBUpdate c item expected s)) = find_item k s"
  by (cases "find_item k s") (auto simp: find_item_DBUpdate update_guard_def dest: find_item_id)

lemma DBUpdate_processor: "map_option row_processor (find_item k (snd (DBUpdate c item expected s))) = map_option row_processor (find_item k s)"
  by (cases "find_item k s") (auto simp: find_item_DBUpdate update_eff_def)

text \<open>A status write of the processor concerns its own row, and keeps the owner.\<close>

lemma status_write:
  assumes "s' = snd (updatePersistentStatus c now job st counts slo expected m s)"
  shows "k \<noteq> bi_ID job \<Longrightarrow> find_item k s' = find_item k s"
    and "map_option row_processor (find_item k s') = map_option row_processor (find_item k s)"
proof -
  have "s' = s \<or> (\<exists>item. bi_ID item = bi_ID job \<and> s' = snd (DBUpdate c item expected s))"
  proof (cases "BuildStatus now job st counts slo m")
    case (Inr doc)
    let ?item = "zero_item\<lparr>bi_ID := bi_ID job, bi_Status := Some doc, bi_Epoch := bi_Epoch job, bi_ExpectedResumable := bi_ExpectedResumable job\<rparr>"
    have "s' = snd (DBUpdate c ?item expected s)" using assms Inr by (simp add: updatePersistentStatus_def split: sum.split prod.split)
    moreover have "bi_ID ?item = bi_ID job" by simp
    ultimately show ?thesis by blast
  qed (use assms in \<open>simp add: updatePersistentStatus_def\<close>)
  then show "k \<noteq> bi_ID job \<Longrightarrow> find_item k s' = find_item k s"
    and "map_option row_processor (find_item k s') = map_option row_processor (find_item k s)"
    by (metis DBUpdate_others, metis DBUpdate_processor)
qed

text \<open>
  What a calm round does: it claims the first row of the queue, and afterwards only that
  row may differ, and has an owner; a fresh batch whose deadline has not passed is launched.
\<close>

lemma claim_first:
  assumes "db_ok s" and "self \<noteq> []" and "candidates (dur_secs lease) [] s \<noteq> []"
  obtains r s0 where "r \<in> set (candidates (dur_secs lease) [] s)" "db_ok s0"
    "find_item (row_id r) s0 = Some (dequeue_eff now self (dur_secs lease) r)" "\<And>k. k \<noteq> row_id r \<Longrightarrow> find_item k s0 = find_item k s"
    "dequeueOne ConnOk now self lease [] s =
      (if row_priority r = None then Inl ErrDB else Inr (Some (job_of_row self (dequeue_eff now self (dur_secs lease) r))), s0)"
proof -
  let ?l = "dur_secs lease" and ?o = "order_by_priority (candidates (dur_secs lease) [] s)"
  have "?o \<noteq> []" using assms(3) length_order_by_priority by (metis length_0_conv)
  then obtain r os where "?o = r # os" by (cases ?o) auto
  then have r: "take 1 ?o = [r]" by simp
  then have cand: "r \<in> set (candidates ?l [] s)" by (metis in_set_takeD list.set_intros(1) set_order_by_priority)
  have ids: "dequeue_claimed ?l 1 [] (batch_items s) = [row_id r]" unfolding dequeue_claimed_alt r by simp
  let ?s0 = "snd (dequeue_stmt now self ?l 1 [] s)" and ?r = "dequeue_eff now self ?l r"
  have ok: "db_ok ?s0" by (rule safeD(1) [OF safe_dequeue_stmt assms(1)])
  have find: "find_item (row_id r) s = Some r" using cand by (simp add: db_ok_by_key [OF assms(1)] candidates_def)
  have claimed: "find_item (row_id r) ?s0 = Some ?r" by (simp add: find_item_dequeue ids [unfolded One_nat_def] find)
  have others: "find_item k ?s0 = find_item k s" if "k \<noteq> row_id r" for k
    using that by (cases "find_item k s") (auto simp: find_item_dequeue ids [unfolded One_nat_def] dest: find_item_id)
  have rows: "fst (dequeue_stmt now self ?l 1 [] s) = [?r]"
  proof -
    have "length (fst (dequeue_stmt now self ?l 1 [] s)) = 1"
      using dequeued_rows [OF assms(1), of now self ?l 1 "[]"] assms(3) by (cases "candidates ?l [] s") auto
    then obtain x where x: "fst (dequeue_stmt now self ?l 1 [] s) = [x]" by (auto simp: length_Suc_conv)
    then have "x \<in> set (batch_items ?s0)" "row_id x = row_id r"
      using ids [unfolded One_nat_def] by (auto simp: dequeue_stmt_def Let_def filter_eq_Cons_iff)
    then have "find_item (row_id r) ?s0 = Some x" using db_ok_by_key(1) [OF ok] by blast
    with claimed x show ?thesis by simp
  qed
  have "dequeueOne ConnOk now self lease [] s = (if row_priority r = None then Inl ErrDB else Inr (Some (job_of_row self ?r)), ?s0)"
    using assms(2) rows [unfolded One_nat_def] by (simp add: dequeueOne_def PQDequeue_def dequeue_eff_def)
  from that [OF cand ok claimed others this] show thesis .
qed

definition launched :: "string \<Rightarrow> duration \<Rightarrow> poll_env \<Rightarrow> batch_row \<Rightarrow> poll_result" where
  "launched self lease env r = (let r' = dequeue_eff (po_now env) self (dur_secs lease) r; item = item_of_row True r'
     in Launch (job_of_row self r') item (FromDBItemToJobInfoObject item))"

definition takes_one :: "string \<Rightarrow> duration \<Rightarrow> poll_env \<Rightarrow> db \<Rightarrow> batch_row \<Rightarrow> bool" where
  "takes_one self lease env s r =
    (case poll_once self lease env s of (x, s') \<Rightarrow>
       db_ok s' \<and> (\<forall>k. k \<noteq> row_id r \<longrightarrow> find_item k s' = find_item k s)
       \<and> (\<forall>r'. find_item (row_id r) s' = Some r' \<longrightarrow> row_processor r' \<noteq> None)
       \<and> (\<forall>p. \<not> row_resumable r \<and> row_priority r = Some p \<and> po_now env \<le> p \<longrightarrow> x = launched self lease env r))"

lemma round_step:
  assumes s: "db_ok s" and calm: "calm_round env" and self: "self \<noteq> []" and some: "candidates (dur_secs lease) [] s \<noteq> []"
  shows "\<exists>r \<in> set (candidates (dur_secs lease) [] s). takes_one self lease env s r"
proof -
  let ?now = "po_now env" and ?run = "poll_once self lease env s"
  obtain r s0 where r: "r \<in> set (candidates (dur_secs lease) [] s)" "db_ok s0"
      "find_item (row_id r) s0 = Some (dequeue_eff ?now self (dur_secs lease) r)" "\<And>k. k \<noteq> row_id r \<Longrightarrow> find_item k s0 = find_item k s"
      "dequeueOne ConnOk ?now self lease [] s =
        (if row_priority r = None then Inl ErrDB else Inr (Some (job_of_row self (dequeue_eff ?now self (dur_secs lease) r))), s0)"
    using claim_first [OF s self some, of "po_now env"] by metis
  let ?r = "dequeue_eff ?now self (dur_secs lease) r"
  let ?task = "job_of_row self ?r" and ?item = "item_of_row True ?r" and ?info = "FromDBItemToJobInfoObject (item_of_row True ?r)"
  note calm' = calm [unfolded calm_round_def]
  have id: "jp_ID ?task = row_id r" "bi_ID ?item = row_id r" "jp_Resumable ?task = row_resumable r" "jp_SLO ?task = row_priority r"
    by (simp_all add: job_of_row_def item_of_row_def dequeue_eff_def)
  have fetch: "fetchJobItemByID ConnOk ?now (jp_ID ?task) s0 = Inr (Some ?item)" using fetch_by_id [OF r(2)] r(3) id by simp
  have cases: "?run = (NextRound, s0) \<or> ?run = (Launch ?task ?item ?info, s0)
      \<or> (\<exists>c st m. ?run = (NextRound, snd (UpdatePersistentStatus c ?now ?item st None None m s0)))"
    using calm' r(5) fetch unfolding poll_once_def Let_def UpdateCancelledStatus_def by (simp split: if_split) blast
  have launch: "?run = (Launch ?task ?item ?info, s0)" if "\<not> row_resumable r" "row_priority r = Some p" "?now \<le> p" for p
  proof -
    have "\<not> IsJobExpired ?now ?task" using that id by (simp add: IsJobExpired_def)
    moreover have "IsJobRunnable (ji_BatchJob ?info)"
      using r(1) that(1) by (auto simp: candidates_def dequeue_candidate_def row_state_def IsJobRunnable_def FromDBItemToJobInfoObject_def
          DBItemToBatch_def item_of_row_def dequeue_eff_def Let_def)
    ultimately show ?thesis using calm' r(5) fetch that(2) by (simp add: poll_once_def Let_def)
  qed
  have ok: "db_ok (snd ?run)" using cases r(2) safeD(1) [OF safe_UpdatePersistentStatus r(2)] by auto
  have others: "find_item k (snd ?run) = find_item k s" if "k \<noteq> row_id r" for k
    using cases r(4) [OF that] status_write(1) [OF refl, of k ?item] that id unfolding UpdatePersistentStatus_def by auto
  have "snd ?run = s0 \<or> (\<exists>c st m. snd ?run = snd (updatePersistentStatus c ?now ?item st None None None m s0))"
    using cases unfolding UpdatePersistentStatus_def by (metis snd_conv)
  moreover have "map_option row_processor (find_item (row_id r) s0) = Some (Some self)" using r(3) by (simp add: dequeue_eff_def)
  ultimately have "map_option row_processor (find_item (row_id r) (snd ?run)) = Some (Some self)"
    using status_write(2) by metis
  then have "takes_one self lease env s r"
    using ok others launch by (auto simp: takes_one_def launched_def Let_def split: prod.split)
  with r(1) show ?thesis by blast
qed

section \<open>All rounds\<close>

lemma candidate_iff:
  "db_ok s \<Longrightarrow> k \<in> row_id ` set (candidates l [] s) \<longleftrightarrow> (\<exists>r. find_item k s = Some r \<and> dequeue_candidate l r)"
  by (auto simp: candidates_def db_ok_by_key)

text \<open>A round makes the queue shorter.\<close>

lemma queue_shrinks:
  assumes s: "db_ok s" "db_ok s'" and r: "r \<in> set (candidates l [] s)" and others: "\<And>k. k \<noteq> row_id r \<Longrightarrow> find_item k s' = find_item k s"
    and owned: "\<And>r'. find_item (row_id r) s' = Some r' \<Longrightarrow> row_processor r' \<noteq> None"
  shows "length (candidates l [] s') < length (candidates l [] s)"
proof -
  let ?ids = "\<lambda>s. row_id ` set (candidates l [] s)"
  have len: "length (candidates l [] t) = card (?ids t)" if "db_ok t" for t
    using distinct_card [OF distinct_candidates [OF that, of l "[]"]] by simp
  have "?ids s' \<subseteq> ?ids s - {row_id r}"
  proof
    fix k assume "k \<in> ?ids s'"
    then obtain r' where r': "find_item k s' = Some r'" "dequeue_candidate l r'" using candidate_iff [OF s(2)] by blast
    then have "k \<noteq> row_id r" using owned [of r'] by (auto simp: dequeue_candidate_def)
    with r' others show "k \<in> ?ids s - {row_id r}" using candidate_iff [OF s(1)] by auto
  qed
  then have "card (?ids s') \<le> card (?ids s - {row_id r})" by (intro card_mono) simp_all
  moreover have "card (?ids s - {row_id r}) < card (?ids s)" using r by (intro card_Diff1_less) simp_all
  ultimately show ?thesis using len s by simp
qed

text \<open>A fresh batch in the queue is launched in one of as many rounds as there are batches in the queue.\<close>

lemma queued_batch_launched:
  assumes "db_ok s" and "list_all (\<lambda>(self, env). calm_round env \<and> self \<noteq> [] \<and> po_now env \<le> p) rs"
    and "length (candidates (dur_secs lease) [] s) \<le> length rs" and "find_item k s = Some r" and "dequeue_candidate (dur_secs lease) r"
    and "\<not> row_resumable r" and "row_priority r = Some p"
  shows "\<exists>i self env. i < length rs \<and> rs ! i = (self, env) \<and> fst (poll_rounds lease rs s) ! i = launched self lease env r"
  using assms(1-4)
proof (induction rs arbitrary: s)
  case Nil
  have "r \<in> set (candidates (dur_secs lease) [] s)" using Nil(1,4) assms(5) by (simp add: candidates_def db_ok_by_key)
  with Nil(3) show ?case by auto
next
  case (Cons re rs)
  obtain self env where re: "re = (self, env)" by fastforce
  obtain x s1 where run: "poll_once self lease env s = (x, s1)" by fastforce
  have rk: "r \<in> set (candidates (dur_secs lease) [] s)" using Cons(2,5) assms(5) by (simp add: candidates_def db_ok_by_key)
  have calm: "calm_round env" "self \<noteq> []" "po_now env \<le> p" using Cons(3) re by simp_all
  have "candidates (dur_secs lease) [] s \<noteq> []" using rk by auto
  from round_step [OF Cons(2) calm(1,2) this]
  obtain r0 where r0: "r0 \<in> set (candidates (dur_secs lease) [] s)" "takes_one self lease env s r0" by blast
  note one = r0(2) [unfolded takes_one_def run, simplified]
  have split: "fst (poll_rounds lease (re # rs) s) = x # fst (poll_rounds lease rs s1)" by (simp add: re run split: prod.split)
  show ?case
  proof (cases "row_id r0 = k")
    case True
    then have "find_item k s = Some r0" using r0(1) by (simp add: candidates_def db_ok_by_key(1) [OF Cons(2)])
    then have "r0 = r" using Cons(5) by simp
    then have "x = launched self lease env r" using one assms(6,7) calm(3) by blast
    with re split show ?thesis by (intro exI [of _ 0] exI [of _ self] exI [of _ env]) simp
  next
    case False
    have "length (candidates (dur_secs lease) [] s1) < length (candidates (dur_secs lease) [] s)"
      by (rule queue_shrinks [OF Cons(2) _ r0(1)]) (use one in auto)
    then have "length (candidates (dur_secs lease) [] s1) \<le> length rs" using Cons(4) by simp
    moreover have "find_item k s1 = Some r" "db_ok s1" using one False Cons(5) by auto
    ultimately obtain i self' env' where
      "i < length rs" "rs ! i = (self', env')" "fst (poll_rounds lease rs s1) ! i = launched self' lease env' r"
      using Cons(1) [of s1] Cons(3) by auto
    then show ?thesis using split by (intro exI [of _ "Suc i"] exI [of _ self'] exI [of _ env']) simp
  qed
qed

section \<open>From the API to a processor\<close>

lemma created_window:
  "CreateBatch env allow pth hs tenantID (Some req) inputs s = (OK b, s') \<Longrightarrow> sp_CompletionWindow (ba_Spec b) = cr_CompletionWindow req"
  by (auto simp: CreateBatch_def new_batch_def zero_spec_def Let_def split: option.splits if_splits sum.splits list.splits prod.splits)

text \<open>What a launch hands over for the row of a batch.\<close>

lemma launched_fields:
  assumes "launched self lease env r = Launch task item info" and "DBItemToBatch (item_of_row True r) = b"
  shows "jp_ID task = row_id r" "jp_Epoch task = row_epoch r + 1" "jp_ProcessorID task = self" "bi_ProcessorID item = self"
    "bi_Epoch item = jp_Epoch task" "bi_TenantID item = row_tenant r" "ji_BatchJob info = b" "jp_SLO task = row_priority r"
  using assms by (auto simp: launched_def Let_def job_of_row_def item_of_row_def dequeue_eff_def FromDBItemToJobInfoObject_def DBItemToBatch_def)

lemma launched_Launch: "\<exists>task item info. launched self lease env r = Launch task item info"
  by (simp add: launched_def Let_def)

end
