(* ===== verification/Spec2Isabelle.thy ===== *)
theory Spec2Isabelle
  imports Reconciler Collector File_Api Job_Runner Ownership Broadcasters S3_Store Inference_Clients Service_Config Queue_Progress
begin

text \<open>
  Verification of the batch gateway.

  \<^bold>\<open>The program.\<close> The gateway accepts batches of inference requests over an
  OpenAI-compatible API and executes them in the background. It has three services. The
  API server (\<^verbatim>\<open>cmd/apiserver\<close>, \<^verbatim>\<open>internal/apiserver\<close>) stores uploaded input files and
  creates, lists, shows and cancels batches. The processors (\<^verbatim>\<open>cmd/batch-processor\<close>,
  \<^verbatim>\<open>internal/processor\<close>) claim batches from a queue, plan their requests, dispatch them to
  inference gateways over HTTP or through shared queues, record every result durably and
  assemble the output files. The garbage collector (\<^verbatim>\<open>cmd/batch-gc\<close>, \<^verbatim>\<open>internal/gc\<close>)
  removes what has expired and takes batches away from processors that are gone. The rows
  of PostgreSQL are what the services share: the queue is a query over the batch table,
  ownership is a column, and a fencing token that grows with every change of the owner is
  part of the condition of every write of an owner. Files are in a directory or in S3.

  \<^bold>\<open>How it is modelled.\<close> A table is the list of its rows, an SQL statement an atomic
  function on the database, and each statement takes a connection argument that says
  whether it fails before or after it took effect (\<open>conn\<close> in \<open>Gateway_Prelude\<close>). Go structs
  are records, enumerations datatypes, errors a datatype with the sentinel errors of the
  code, a fallible call returns \<open>'a res\<close>. Go maps are association lists or functions.
  Clocks, generated identifiers, hashes, JSON and YAML are arguments or fields of an
  environment record. What goroutines and other processes do in between is an argument of
  the operation (for a run of a job), a schedule of steps (for an execution), or an inductive
  step relation (semaphores, dispatcher, broadcaster registry, ownership). Integers are
  unbounded where the code cannot overflow, and wrap at 64 bits where it can (\<open>w64\<close>, the
  binary64 arithmetic of the limit controller, the 32-bit words of the plan files).

  \<^bold>\<open>Shared foundations.\<close>
  \<^item> \<open>Gateway_Prelude\<close>: errors, results, tables, connections; the interfaces \<open>guarded_update\<close>
    and \<open>fenced_update\<close> of a conditional row update, \<open>offset_source\<close> and \<open>keyset_source\<close> of a
    paged listing. \<open>Go_Stdlib\<close>: the functions of Go's library the code calls.
  \<^item> \<open>OpenAI_Batch\<close>, \<open>Batch_Request\<close> (\<^verbatim>\<open>internal/shared/openai/batch.go\<close>,
    \<^verbatim>\<open>batch_utils\<close>): statuses and their transitions, and the validation of a create request,
    which accepts exactly the documented form.

  \<^bold>\<open>Data layer\<close> (\<^verbatim>\<open>internal/database/postgresql\<close>).
  \<^item> \<open>Batch_Store\<close> (\<^verbatim>\<open>db_core.go\<close>, \<^verbatim>\<open>batch_db.go\<close>): rows, queries, store, fetch, update, delete.
    Every statement keeps \<open>db_ok\<close> and lets rows only evolve (tokens never fall).
  \<^item> \<open>Batch_Queue\<close> (\<^verbatim>\<open>batch_queue.go\<close>): enqueue, dequeue with row locks, startup claim. A dequeue
    takes the candidates with the earliest deadlines, each under a new token.
  \<^item> \<open>Resumable_Store\<close> (\<^verbatim>\<open>batch_resumable.go\<close>): activation, lease, requeue, finalization, marking
    and checkpointing of entries. \<open>Events\<close> (\<^verbatim>\<open>batch_event.go\<close>): cancel events, delivered in
    order at least once. \<open>File_Db\<close> (\<^verbatim>\<open>file_db.go\<close>): file metadata.
  \<^item> \<open>Ownership\<close>: an abstract protocol of one batch with begin, record, release, finish and
    raise of the token, and that every operation of these clients refines it; so results are
    recorded once, and a finished batch is final.

  \<^bold>\<open>Files\<close> (\<^verbatim>\<open>internal/files_store\<close>).
  \<^item> \<open>File_Store\<close> (\<^verbatim>\<open>fs/client.go\<close>, \<^verbatim>\<open>io/reader.go\<close>): create-only store, limits that are exact,
    streams; its contract is the locale \<open>create_only_store\<close>.
  \<^item> \<open>Retry_Client\<close> (\<^verbatim>\<open>retry.go\<close>, \<^verbatim>\<open>retryclient/client.go\<close>): the retry loop and the retrying
    client, under the locale \<open>retryable_store\<close>. \<open>S3_Store\<close> (\<^verbatim>\<open>s3/client.go\<close>): the S3 client
    over a record of the calls it makes; writes are create-only and all or nothing.

  \<^bold>\<open>API server.\<close>
  \<^item> \<open>Status_Updater\<close> (\<^verbatim>\<open>converter\<close>, \<^verbatim>\<open>status_updater.go\<close>): conversions and status writes.
  \<^item> \<open>Batch_Api\<close> (\<^verbatim>\<open>batch_handler.go\<close>), \<open>File_Api\<close> (\<^verbatim>\<open>file_handler.go\<close>): every handler with its
    status codes; tenants are isolated, a cancel is durable, a walk through the list is
    complete, an upload can be downloaded.
  \<^item> \<open>Service_Config\<close>: settings of the API server and of the collector, TLS options, and
    that uploads fit into the disk budget of the processors.

  \<^bold>\<open>Processor\<close> (\<^verbatim>\<open>internal/processor\<close>).
  \<^item> \<open>Processor_Config\<close> (\<^verbatim>\<open>config.go\<close>), \<open>Inference_Routing\<close> (\<^verbatim>\<open>inference_client_resolver.go\<close>,
    \<^verbatim>\<open>initConcurrencyControls\<close>), \<open>Async_Routing\<close> (\<^verbatim>\<open>async_inference_client_resolver.go\<close>),
    \<open>Broadcasters\<close> (\<^verbatim>\<open>broadcasters.go\<close>): from the settings to clients, limits and routes; a
    validated configuration starts, accepted models are routed and limited as configured,
    recovery reads the route of the former processor while a job needs it.
  \<^item> \<open>Inference_Clients\<close> (\<^verbatim>\<open>http_client.go\<close>, \<^verbatim>\<open>inference_client_impl.go\<close>,
    \<^verbatim>\<open>async_shared_client.go\<close>): what becomes of a request, up to the signal for the limit.
  \<^item> \<open>Semaphores\<close> (\<^verbatim>\<open>internal/util/semaphore\<close>): channel and adaptive semaphore and the limit
    controller. \<open>Pipeline\<close> (\<^verbatim>\<open>processor/pipeline\<close>): requests, results, checkpointer, routing of
    deliveries, the dispatchers; the locales \<open>durable_sink\<close> and \<open>token_pool\<close>.
  \<^item> \<open>Planner\<close> (\<^verbatim>\<open>preprocessor.go\<close>, \<^verbatim>\<open>planner.go\<close>, \<^verbatim>\<open>source_planfile.go\<close>): ingestion and the
    binary plan files; what is read back is what was accepted.
  \<^item> \<open>Result_Store\<close> (\<^verbatim>\<open>manifest.go\<close>, \<^verbatim>\<open>result_store.go\<close>): the durable sink of a batch; a
    delivery is acknowledged only once its result is durable.
  \<^item> \<open>Finalizer\<close> (\<^verbatim>\<open>finalizer_resumable.go\<close>): assembly of the artifacts, exact and repeatable.
    \<open>Recovery\<close> (\<^verbatim>\<open>recovery.go\<close>): startup recovery and resume.
  \<^item> \<open>Job_Runner\<close> (\<^verbatim>\<open>job_runner.go\<close>, \<^verbatim>\<open>worker.go\<close>, \<^verbatim>\<open>executor.go\<close>): the run of a job and the
    polling loop. A superseded processor changes nothing any more, and an execution that
    drained lost no request. \<open>Queue_Progress\<close>: rounds of the polling loop.

  \<^bold>\<open>Garbage collector.\<close> \<open>Reconciler\<close> (\<^verbatim>\<open>reconciler.go\<close>) and \<open>Collector\<close> (\<^verbatim>\<open>collector.go\<close>,
  \<^verbatim>\<open>watcher.go\<close>): orphans are triaged and live processors spared; a cycle ends and deletes
  only what has expired, with the locale \<open>shrinking_collection\<close>.

  \<^bold>\<open>Errors that were found\<close> are proved as properties of the code as it is: the collector
  skips pages, a mismatched artifact blocks a batch for good, a queue error loses its
  custom identifier, a cancellation can be missed by a waiter, the global limit holds per
  job only, and a failed publication leaves its staged object.

  \<^bold>\<open>Bounds and fuel.\<close> Loops over finite data are structural or have a termination proof.
  The paging loops have fuel: \<open>page_loop\<close>, \<open>key_loop\<close> and \<open>collect_pages\<close> return for any
  fuel above the number of rows that are left (\<open>loop_from\<close> and its relatives), and the
  handlers and cycles are stated with that amount. The pages of \<open>s3_DeletePrefix\<close> are chosen
  by the service; the loop returns for any service whose continuation tokens advance
  (\<open>s3_DeletePrefix_ends\<close>). The retry loop is bounded by its configuration, the polling loop
  is one round at a time, and \<open>created_batch_is_launched\<close> bounds the rounds by the length of
  the queue.

  \<^bold>\<open>Assumptions\<close> on code that is not part of the repository are named predicates with a
  model: \<open>s3_documented\<close>, \<open>resty_documented\<close>, \<open>durable_documented\<close>, \<open>quantity64\<close>,
  \<open>json_agrees\<close>.

  \<^bold>\<open>Not modelled.\<close> LISTEN and NOTIFY with the listener (\<^verbatim>\<open>pg_listen.go\<close>) only make the event
  dispatcher look earlier at rows it rescans anyway. Listeners, routing, health and
  readiness of the HTTP server, flags, signals and the construction of clients are wiring of
  libraries. Metrics, spans and logs are never read by the program. The in-memory doubles
  under \<^verbatim>\<open>mock\<close> belong to the tests. The text of error messages is cut where it quotes the
  text of a library. The update of file metadata has no caller. The execution with the
  queue dispatcher is modelled by its parts (submission, routing, checkpointing, drain),
  not as one schedule like that with the direct dispatcher.
\<close>

section \<open>From the API to a processor\<close>

text \<open>
  C10: A batch the API accepted is launched. After a successful create request, let the
  processors run as many rounds of their polling loops as there are batches in the queue,
  in any order, before the deadline of the batch, with a database that answers the claims
  and reads, while status writes of other batches may fail. Then one of the rounds
  launches the batch: it is the batch the client was given, with its tenant and its
  deadline, owned by the processor of that round under a token of at least one, which the
  task and the row agree on.
\<close>

theorem created_batch_is_launched:
  assumes "db_ok s" and "0 < unix (ce_now cenv)" and "tenantID \<noteq> []"
    and "CreateBatch cenv allow pth hs tenantID body inputs s = (OK b, s')"
    and "ParseDuration (sp_CompletionWindow (ba_Spec b)) = Some d"
    and "\<forall>(self, env) \<in> set rs. calm_round env \<and> self \<noteq> [] \<and> po_now env \<le> secs (unix (ce_now cenv)) + d div 1000"
    and "length (candidates (dur_secs lease) [] s') \<le> length rs"
  shows "\<exists>i self env task item info. i < length rs \<and> rs ! i = (self, env) \<and> fst (poll_rounds lease rs s') ! i = Launch task item info
    \<and> jp_ID task = ba_ID b \<and> ji_BatchJob info = b \<and> bi_TenantID item = tenantID \<and> jp_SLO task = Some (secs (unix (ce_now cenv)) + d div 1000)
    \<and> jp_ProcessorID task = self \<and> bi_ProcessorID item = self \<and> bi_Epoch item = jp_Epoch task \<and> 1 \<le> jp_Epoch task"
proof -
  note queued = created_batch_is_queued [OF assms(1-4)]
  obtain r where r: "db_ok s'" "find_item (ba_ID b) s' = Some r" "row_tenant r = tenantID" "dequeue_candidate 0 r"
      "row_priority r = Some (secs (unix (ce_now cenv)) + d div 1000)" and b: "RetrieveBatch ConnOk 0 tenantID (ba_ID b) s' = OK b"
    using queued [of 0 0] assms(5) by auto
  have fresh: "\<not> row_resumable r" "dequeue_candidate (dur_secs lease) r" using r(4) by (auto simp: dequeue_candidate_def)
  have "ba_ID b \<noteq> []" using b by (auto simp: RetrieveBatch_def getBatchItemFromDB_def)
  then have item: "DBItemToBatch (item_of_row True r) = b" using b r(1-3) assms(3) by (simp add: RetrieveBatch_def getBatchItem_eq)
  have "0 \<le> row_epoch r" "row_id r = ba_ID b"
    using r(1,2) db_ok_by_key(1) [OF r(1)] by (auto simp: db_ok_def row_ok_def list_all_iff)
  moreover obtain i self env where "i < length rs" "rs ! i = (self, env)" "fst (poll_rounds lease rs s') ! i = launched self lease env r"
    using queued_batch_launched [OF r(1) _ assms(7) r(2) fresh(2,1) r(5)] assms(6) by (auto simp: list_all_iff)
  moreover obtain task item info where "launched self lease env r = Launch task item info" using launched_Launch by blast
  ultimately show ?thesis using launched_fields [OF _ item] r(3,5) by (intro exI [of _ i] exI [of _ self] exI [of _ env] exI [of _ task]) auto
qed

theorem created_batch_is_launched_witness:
  "\<exists>b s' i task item info. CreateBatch sample_create \<lparr>al_extra = []\<rparr> [] [] ''t'' (Some sample_request) [sample_input] sample_db = (OK b, s')
     \<and> fst (poll_rounds 0 (replicate (length (batch_items s')) (''p'', calm_poll)) s') ! i = Launch task item info
     \<and> jp_ID task = ''batch_9'' \<and> bi_TenantID item = ''t''"
proof -
  obtain b s' where run: "CreateBatch sample_create \<lparr>al_extra = []\<rparr> [] [] ''t'' (Some sample_request) [sample_input] sample_db = (OK b, s')"
      "ba_ID b = ''batch_9''"
    using sample_create_ok by blast
  have "ParseDuration ''24h'' = Some 86400000000000" by code_simp
  then have d: "ParseDuration (sp_CompletionWindow (ba_Spec b)) = Some 86400000000000"
    using created_window [OF run(1)] by (simp add: sample_request_def)
  let ?rs = "replicate (length (batch_items s')) (''p'', calm_poll)"
  have now: "0 < unix (ce_now sample_create)" "po_now calm_poll \<le> secs (unix (ce_now sample_create)) + 86400000000000 div 1000"
    by (simp_all add: sample_create_def calm_poll_def unix_def secs_def)
  then have calm: "\<forall>(self, env) \<in> set ?rs. calm_round env \<and> self \<noteq> [] \<and> po_now env \<le> secs (unix (ce_now sample_create)) + 86400000000000 div 1000"
    by (auto simp: calm_round_def calm_poll_def)
  have "length (candidates (dur_secs 0) [] s') \<le> length ?rs" by (simp add: candidates_def)
  from created_batch_is_launched [OF sample_db_ok now(1) _ run(1) d calm this] run show ?thesis by auto
qed

end
